(* ===== verification/Prelude.thy ===== *)
theory Prelude
  imports "HOL-Library.Word"
begin

text \<open>
  Shared vocabulary of the development: the machine types of the C sources, byte strings and
  C strings, big-endian words on the wire, decimal and hexadecimal text, fixed-size chunks, and
  the positional overwrite that buffers and files share.  The lemmas proved here are the ones that
  more than one component uses.
\<close>

unbundle bit_operations_syntax

section \<open>Machine types\<close>

type_synonym byte = "8 word"
type_synonym u16 = "16 word"
type_synonym u32 = "32 word"
type_synonym u64 = "64 word"

lemma unat_of_nat64: "n < 2 ^ 64 \<Longrightarrow> unat (of_nat n :: u64) = n"
  by (simp add: unat_of_nat)

lemma unat_of_nat32: "n < 2 ^ 32 \<Longrightarrow> unat (of_nat n :: u32) = n"
  by (simp add: unat_of_nat)

text \<open>Facts about encoders and decoders, and facts that keep a component invariant.\<close>

named_theorems codec \<open>encode/decode equations\<close>
named_theorems keeps \<open>preservation of invariants by operations\<close>

text \<open>
  An allocator is a parameter of the code that calls \<open>malloc\<close>, \<open>calloc\<close> or \<open>realloc\<close>:
  \<open>mem n\<close> says whether a request for \<open>n\<close> bytes succeeds.  Every allocation failure that the
  source handles is a branch on it.
\<close>

type_synonym allocator = "nat \<Rightarrow> bool"

text \<open>
  Results of recursive parsers written with fuel: \<open>Fuel\<close> is "ran out of fuel" (shown
  unreachable for the fuel the model starts with), \<open>Null\<close> the C function's \<open>NULL\<close>.
\<close>

datatype 'a outcome = Fuel | Null | Ok 'a

section \<open>Byte strings\<close>

abbreviation ch :: "char \<Rightarrow> byte" where "ch c \<equiv> of_char c"

definition bytes :: "string \<Rightarrow> byte list" where
  "bytes s = map of_char s"

lemma bytes_Nil [simp]: "bytes [] = []"
  and bytes_Cons [simp]: "bytes (c # s) = of_char c # bytes s"
  and length_bytes [simp]: "length (bytes s) = length s"
  by (simp_all add: bytes_def)

text \<open>The C string stored in a byte buffer ends before its first NUL.\<close>

definition cstr :: "byte list \<Rightarrow> byte list" where
  "cstr bs = takeWhile (\<lambda>b. b \<noteq> 0) bs"

lemma cstr_no_nul [simp]: "0 \<notin> set (cstr bs)"
  by (auto simp: cstr_def dest: set_takeWhileD)

lemma cstr_ident: "0 \<notin> set bs \<Longrightarrow> cstr bs = bs"
  by (auto simp: cstr_def takeWhile_eq_all_conv)

lemma length_cstr_le: "length (cstr bs) \<le> length bs"
  by (simp add: cstr_def length_takeWhile_le)

text \<open>\<open>strncmp (s, p, strlen p) == 0\<close>.\<close>

definition starts_with :: "byte list \<Rightarrow> byte list \<Rightarrow> bool" where
  "starts_with s p = (take (length p) s = p)"

lemma starts_with_iff: "starts_with s p \<longleftrightarrow> (\<exists>r. s = p @ r)"
  unfolding starts_with_def by (metis append_eq_conv_conj append_take_drop_id)

text \<open>The bounded copy \<open>strncpy (dst, src, n - 1)\<close> into a zeroed array of \<open>n\<close> bytes.\<close>

definition strncpy0 :: "nat \<Rightarrow> byte list \<Rightarrow> byte list" where
  "strncpy0 n s = take (n - 1) s"

lemma length_strncpy0: "length (strncpy0 n s) \<le> n - 1"
  by (simp add: strncpy0_def)

section \<open>Positional overwrite\<close>

text \<open>
  \<open>memcpy (buf + i, xs, length xs)\<close>.  The model of a file write is the same operation on a list
  padded with zeros up to the write position (\<open>pwrite\<close> below).
\<close>

definition blit :: "nat \<Rightarrow> 'a list \<Rightarrow> 'a list \<Rightarrow> 'a list" where
  "blit i xs buf = take i buf @ xs @ drop (i + length xs) buf"

lemma length_blit [simp]: "i + length xs \<le> length buf \<Longrightarrow> length (blit i xs buf) = length buf"
  by (simp add: blit_def)

lemma blit_Nil [simp]: "blit i [] buf = buf"
  by (simp add: blit_def)

lemma take_blit: "j \<le> i \<Longrightarrow> i \<le> length buf \<Longrightarrow> take j (blit i xs buf) = take j buf"
  by (simp add: blit_def)

lemma take_blit_end:
  "i \<le> length buf \<Longrightarrow> take (i + length xs) (blit i xs buf) = take i buf @ xs"
  by (simp add: blit_def)

lemma nth_blit:
  assumes "i + length xs \<le> length buf" "k < length buf"
  shows "blit i xs buf ! k = (if i \<le> k \<and> k < i + length xs then xs ! (k - i) else buf ! k)"
  using assms by (auto simp: blit_def nth_append)

lemma blit_append:
  assumes "i + length xs + length ys \<le> length buf"
  shows "blit i (xs @ ys) buf = blit (i + length xs) ys (blit i xs buf)"
  by (rule nth_equalityI) (use assms in \<open>auto simp: nth_blit nth_append\<close>)

section \<open>Reading a buffer from a position\<close>

lemma drop_eq_Cons_nth:
  "drop p d = x # xs \<Longrightarrow> p < length d \<and> d ! p = x \<and> drop (Suc p) d = xs"
  by (metis Cons_nth_drop_Suc drop_all list.distinct(1) list.inject not_le)

lemma drop_eq_append: "drop p d = xs @ ys \<Longrightarrow> drop (p + length xs) d = ys"
  by (metis add.commute append_eq_conv_conj drop_drop)

lemma drop_eq_length: "drop p d = xs \<Longrightarrow> xs \<noteq> [] \<Longrightarrow> length d = p + length xs"
  by (metis add_diff_inverse_nat drop_all length_drop less_imp_le not_le)

section \<open>Fixed-size chunks\<close>

fun chunks :: "nat \<Rightarrow> 'a list \<Rightarrow> 'a list list" where
  "chunks n xs = (if n = 0 \<or> length xs < n then [] else take n xs # chunks n (drop n xs))"

declare chunks.simps [simp del]

lemma chunks_short: "length xs < n \<Longrightarrow> chunks n xs = []"
  by (subst chunks.simps) simp

lemma chunks_Nil [simp]: "chunks n [] = []"
  by (subst chunks.simps) auto

lemma chunks_step: "0 < n \<Longrightarrow> n \<le> length xs \<Longrightarrow> chunks n xs = take n xs # chunks n (drop n xs)"
  by (subst chunks.simps) simp

lemma chunks_block: "0 < n \<Longrightarrow> length b = n \<Longrightarrow> chunks n (b @ xs) = b # chunks n xs"
  by (subst chunks.simps) simp

lemma chunks_single: "0 < n \<Longrightarrow> length b = n \<Longrightarrow> chunks n b = [b]"
  using chunks_block [of n b "[]"] by simp

lemma chunks_append:
  assumes "0 < n" "n dvd length xs"
  shows "chunks n (xs @ ys) = chunks n xs @ chunks n ys"
  using assms
proof (induction n xs rule: chunks.induct)
  case (1 n xs)
  show ?case
  proof (cases "length xs < n")
    case True
    with 1(2,3) have "xs = []"
      by (metis dvd_imp_le length_greater_0_conv not_le)
    then show ?thesis by simp
  next
    case False
    have d: "n dvd length (drop n xs)" using 1(3) False by (simp add: dvd_diff_nat)
    have "chunks n (xs @ ys) = take n xs # chunks n (drop n xs @ ys)"
      using False 1(2) by (subst chunks_step) auto
    also have "\<dots> = take n xs # chunks n (drop n xs) @ chunks n ys"
      using 1 d False by simp
    finally show ?thesis
      using False 1(2) by (simp add: chunks_step [of n xs])
  qed
qed

text \<open>The bytes after the last whole chunk.\<close>

definition rest_of :: "nat \<Rightarrow> 'a list \<Rightarrow> 'a list" where
  "rest_of n xs = drop (n * (length xs div n)) xs"

definition full_of :: "nat \<Rightarrow> 'a list \<Rightarrow> 'a list" where
  "full_of n xs = take (n * (length xs div n)) xs"

lemma full_rest: "full_of n xs @ rest_of n xs = xs"
  by (simp add: full_of_def rest_of_def)

lemma length_full_of: "n dvd length (full_of n xs)"
  by (simp add: full_of_def)

lemma length_rest_of: "length (rest_of n xs) = length xs mod n"
  by (simp add: rest_of_def minus_mult_div_eq_mod)

lemma rest_of_append:
  assumes "n dvd length xs" shows "rest_of n (xs @ ys) = rest_of n ys"
proof (cases "n = 0")
  case True
  with assms show ?thesis by (simp add: rest_of_def)
next
  case False
  from assms obtain k where k: "length xs = n * k" by (auto simp: dvd_def)
  have "(n * k + length ys) div n = k + length ys div n" using False by simp
  then show ?thesis by (simp add: rest_of_def k distrib_left)
qed

lemma rest_of_short: "length xs < n \<Longrightarrow> rest_of n xs = xs"
  by (simp add: rest_of_def)

lemma rest_of_dvd: "n dvd length xs \<Longrightarrow> rest_of n xs = []"
  by (simp add: rest_of_def dvd_mult_div_cancel)

lemma chunks_full: "0 < n \<Longrightarrow> chunks n (full_of n xs) = chunks n xs"
proof -
  assume n: "0 < n"
  have "chunks n xs = chunks n (full_of n xs @ rest_of n xs)" by (simp add: full_rest)
  also have "\<dots> = chunks n (full_of n xs) @ chunks n (rest_of n xs)"
    using n by (rule chunks_append) (rule length_full_of)
  also have "chunks n (rest_of n xs) = []"
    using n by (intro chunks_short) (simp add: length_rest_of)
  finally show ?thesis by simp
qed

lemma chunks_append_rest:
  assumes "0 < n"
  shows "chunks n (xs @ ys) = chunks n xs @ chunks n (rest_of n xs @ ys)"
proof -
  have "chunks n (xs @ ys) = chunks n (full_of n xs @ (rest_of n xs @ ys))"
    by (metis append_assoc full_rest)
  also have "\<dots> = chunks n xs @ chunks n (rest_of n xs @ ys)"
    using assms by (simp add: chunks_append length_full_of chunks_full)
  finally show ?thesis .
qed

lemma rest_of_append_rest: "rest_of n (xs @ ys) = rest_of n (rest_of n xs @ ys)"
proof -
  have "rest_of n (xs @ ys) = rest_of n (full_of n xs @ (rest_of n xs @ ys))"
    by (metis append_assoc full_rest)
  then show ?thesis by (simp add: rest_of_append length_full_of)
qed

section \<open>Big-endian words\<close>

text \<open>
  The bytes of an integer in network order: \<open>htonl\<close> followed by a copy of the four bytes, the
  shifts of \<open>put32\<close>/\<open>put64\<close> in \<open>tracker_udp.c\<close>, and the output loop of \<open>sha1_final\<close>.
\<close>

definition be32 :: "u32 \<Rightarrow> byte list" where
  "be32 v = [ucast (drop_bit 24 v), ucast (drop_bit 16 v), ucast (drop_bit 8 v), ucast v]"

definition be64 :: "u64 \<Rightarrow> byte list" where
  "be64 v = [ucast (drop_bit 56 v), ucast (drop_bit 48 v), ucast (drop_bit 40 v),
             ucast (drop_bit 32 v), ucast (drop_bit 24 v), ucast (drop_bit 16 v),
             ucast (drop_bit 8 v), ucast v]"

definition of_be32 :: "byte list \<Rightarrow> u32" where
  "of_be32 p = push_bit 24 (ucast (p ! 0)) OR push_bit 16 (ucast (p ! 1)) OR
               push_bit 8 (ucast (p ! 2)) OR ucast (p ! 3)"

lemma length_be32 [simp]: "length (be32 v) = 4"
  by (simp add: be32_def)

lemma length_be64 [simp]: "length (be64 v) = 8"
  by (simp add: be64_def)

lemma of_be32_append: "length p = 4 \<Longrightarrow> of_be32 (p @ q) = of_be32 p"
  by (simp add: of_be32_def nth_append)

lemma of_be32_be32 [simp, codec]: "of_be32 (be32 v) = v"
proof (rule bit_word_eqI)
  fix n assume n: "n < LENGTH(32)"
  consider "n < 8" | "8 \<le> n" "n < 16" | "16 \<le> n" "n < 24" | "24 \<le> n" by linarith
  then show "bit (of_be32 (be32 v)) n = bit v n"
    using n unfolding of_be32_def be32_def by cases (auto simp: bit_simps)
qed

lemma be32_of_be32 [codec]:
  assumes "length p = 4" shows "be32 (of_be32 p) = p"
proof -
  obtain a b c d where p: "p = [a, b, c, d]"
    using assms by (auto simp: numeral_eq_Suc length_Suc_conv)
  have "ucast (drop_bit 24 (of_be32 p)) = a" "ucast (drop_bit 16 (of_be32 p)) = b"
    "ucast (drop_bit 8 (of_be32 p)) = c" "ucast (of_be32 p) = d"
    unfolding p of_be32_def
    by (rule bit_word_eqI; auto simp add: bit_simps dest: bit_imp_le_length)+
  then show ?thesis by (simp add: be32_def p)
qed


section \<open>Decimal and hexadecimal text\<close>

definition is_digit :: "byte \<Rightarrow> bool" where
  "is_digit b \<longleftrightarrow> ch CHR ''0'' \<le> b \<and> b \<le> ch CHR ''9''"

definition digit_val :: "byte \<Rightarrow> nat" where
  "digit_val b = unat (b - ch CHR ''0'')"

text \<open>The text that \<open>%zu\<close>, \<open>%u\<close> and \<open>%llu\<close> produce.\<close>

fun dec :: "nat \<Rightarrow> byte list" where
  "dec n = (if n < 10 then [of_nat (48 + n)] else dec (n div 10) @ [of_nat (48 + n mod 10)])"

declare dec.simps [simp del]

lemma length_dec: "n < 10 ^ Suc k \<Longrightarrow> length (dec n) \<le> Suc k"
proof (induction k arbitrary: n)
  case 0
  then show ?case by (subst dec.simps) simp
next
  case (Suc k)
  then have "n div 10 < 10 ^ Suc k" by simp
  from Suc.IH [OF this] show ?case by (subst dec.simps) simp
qed

text \<open>The text that \<open>%d\<close> and \<open>%lld\<close> produce.\<close>

definition dec_int :: "int \<Rightarrow> byte list" where
  "dec_int i = (if i < 0 then ch CHR ''-'' # dec (nat (- i)) else dec (nat i))"

definition dec_val :: "byte list \<Rightarrow> nat" where
  "dec_val ds = foldl (\<lambda>a d. a * 10 + digit_val d) 0 ds"

lemma digit_byte:
  assumes "n < 10"
  shows "is_digit (of_nat (48 + n))" "digit_val (of_nat (48 + n)) = n"
proof -
  have u: "unat (of_nat (48 + n) :: byte) = 48 + n" using assms by (simp add: unat_of_nat del: of_nat_add)
  show "is_digit (of_nat (48 + n))"
    using assms u by (simp add: is_digit_def word_le_nat_alt del: of_nat_add)
  show "digit_val (of_nat (48 + n)) = n"
    using assms by (simp add: digit_val_def unat_of_nat)
qed

lemma dec_digits: "\<forall>b \<in> set (dec n). is_digit b"
proof (induction n rule: dec.induct)
  case (1 n)
  have "is_digit (of_nat (48 + n mod 10))" by (rule digit_byte) simp
  with 1 digit_byte show ?case by (subst dec.simps) auto
qed

lemma dec_not_Nil [simp]: "dec n \<noteq> []"
  by (subst dec.simps) simp

lemma dec_val_dec [simp, codec]: "dec_val (dec n) = n"
proof (induction n rule: dec.induct)
  case (1 n)
  have d: "digit_val (of_nat (48 + n mod 10)) = n mod 10" by (rule digit_byte) simp
  show ?case
  proof (cases "n < 10")
    case True
    then show ?thesis
      using digit_byte(2) [of n] by (subst dec.simps) (simp add: dec_val_def del: of_nat_add)
  next
    case False
    then show ?thesis
      using 1 d by (subst dec.simps) (simp add: dec_val_def del: of_nat_add)
  qed
qed

lemma hd_dec_digit: "is_digit (hd (dec n))"
  using dec_digits [of n] by (metis dec_not_Nil hd_in_set)

definition hex_lower :: "byte list" where
  "hex_lower = bytes ''0123456789abcdef''"

definition hex_upper :: "byte list" where
  "hex_upper = bytes ''0123456789ABCDEF''"

text \<open>\<open>hex[c >> 4]\<close> and \<open>hex[c & 15]\<close>.\<close>

definition hex_hi :: "byte list \<Rightarrow> byte \<Rightarrow> byte" where
  "hex_hi hex c = hex ! unat (drop_bit 4 c)"

definition hex_lo :: "byte list \<Rightarrow> byte \<Rightarrow> byte" where
  "hex_lo hex c = hex ! unat (c AND 15)"

text \<open>
  \<open>strtol (s, NULL, 16)\<close> on a text of at most two characters, as its callers use it: optional
  white space, sign and \<open>0x\<close> are accepted before the digits by the C library, and the first
  character that is no digit ends the number.
\<close>

definition hex_digit_val :: "byte \<Rightarrow> nat option" where
  "hex_digit_val c =
     (if is_digit c then Some (unat (c - ch CHR ''0''))
      else if ch CHR ''a'' \<le> c \<and> c \<le> ch CHR ''f'' then Some (unat (c - ch CHR ''a'') + 10)
      else if ch CHR ''A'' \<le> c \<and> c \<le> ch CHR ''F'' then Some (unat (c - ch CHR ''A'') + 10)
      else None)"

definition is_space :: "byte \<Rightarrow> bool" where
  "is_space c \<longleftrightarrow> c = 32 \<or> (9 \<le> c \<and> c \<le> 13)"

definition strtol16_pair :: "byte \<Rightarrow> byte \<Rightarrow> int" where
  "strtol16_pair a b =
     (case hex_digit_val a of
        Some h \<Rightarrow> (case hex_digit_val b of Some l \<Rightarrow> int (16 * h + l) | None \<Rightarrow> int h)
      | None \<Rightarrow>
          (case hex_digit_val b of
             None \<Rightarrow> 0
           | Some l \<Rightarrow> if is_space a \<or> a = ch CHR ''+'' then int l
                       else if a = ch CHR ''-'' then - int l else 0))"

lemma byte_all: "(\<forall>c :: byte. P c) \<longleftrightarrow> (\<forall>n \<in> {0..<256}. P (of_nat n))"
proof
  assume a: "\<forall>n \<in> {0..<256}. P (of_nat n)"
  show "\<forall>c :: byte. P c"
  proof
    fix c :: byte
    have "unat c < 256" using unsigned_less [of c] by simp
    with a have "P (of_nat (unat c))" by (meson atLeastLessThan_iff zero_le)
    then show "P c" by simp
  qed
qed simp

end
