(* ===== verification/Sha1.thy ===== *)
theory Sha1
  imports Prelude
begin

text \<open>
  \<open>src/sha1.c\<close>: the incremental SHA-1 context, its 64-byte transform written with rotating
  register names, and the padding in \<open>sha1_final\<close>.  The reference is the FIPS 180-4 definition
  (one uniform round, message padded as a whole); the lemmas show that the context of the code
  always represents the message fed so far, so that any split of the input gives the same digest,
  the one of the standard.
\<close>

section \<open>The code\<close>

record sha1_ctx =
  sha_state :: "u32 list"
  sha_count :: u64
  sha_buffer :: "byte list"

definition ROTLEFT :: "u32 \<Rightarrow> nat \<Rightarrow> u32" where
  "ROTLEFT a b = push_bit b a OR drop_bit (32 - b) a"

definition F0 :: "u32 \<Rightarrow> u32 \<Rightarrow> u32 \<Rightarrow> u32" where
  "F0 b c d = (b AND c) OR (NOT b AND d)"

definition F1 :: "u32 \<Rightarrow> u32 \<Rightarrow> u32 \<Rightarrow> u32" where
  "F1 b c d = b XOR c XOR d"

definition F2 :: "u32 \<Rightarrow> u32 \<Rightarrow> u32 \<Rightarrow> u32" where
  "F2 b c d = (b AND c) OR (b AND d) OR (c AND d)"

definition F3 :: "u32 \<Rightarrow> u32 \<Rightarrow> u32 \<Rightarrow> u32" where
  "F3 b c d = b XOR c XOR d"

definition K0 :: u32 where "K0 = 0x5A827999"
definition K1 :: u32 where "K1 = 0x6ED9EBA1"
definition K2 :: u32 where "K2 = 0x8F1BBCDC"
definition K3 :: u32 where "K3 = 0xCA62C1D6"

text \<open>
  The four round macros differ in the function and the constant only.  A macro assigns its formal
  \<open>b\<close> and \<open>e\<close>; the result is the pair of their new values.
\<close>

definition SHA1_ROUND ::
  "(u32 \<Rightarrow> u32 \<Rightarrow> u32 \<Rightarrow> u32) \<Rightarrow> u32 \<Rightarrow> u32 list \<Rightarrow>
   u32 \<Rightarrow> u32 \<Rightarrow> u32 \<Rightarrow> u32 \<Rightarrow> u32 \<Rightarrow> nat \<Rightarrow> u32 \<times> u32" where
  "SHA1_ROUND F K w a b c d e i =
     (ROTLEFT b 30, ROTLEFT a 5 + F b c d + e + w ! i + K)"

type_synonym regs = "u32 \<times> u32 \<times> u32 \<times> u32 \<times> u32"

text \<open>One iteration of a round loop: five macro calls with the register names rotated.\<close>

definition five_rounds ::
  "(u32 \<Rightarrow> u32 \<Rightarrow> u32 \<Rightarrow> u32) \<Rightarrow> u32 \<Rightarrow> u32 list \<Rightarrow> nat \<Rightarrow> regs \<Rightarrow> regs" where
  "five_rounds F K w i r =
     (case r of (a, b, c, d, e) \<Rightarrow>
      let (b, e) = SHA1_ROUND F K w a b c d e i;
          (a, d) = SHA1_ROUND F K w e a b c d (i + 1);
          (e, c) = SHA1_ROUND F K w d e a b c (i + 2);
          (d, b) = SHA1_ROUND F K w c d e a b (i + 3);
          (c, a) = SHA1_ROUND F K w b c d e a (i + 4)
      in (a, b, c, d, e))"

text \<open>The block as sixteen big-endian words, extended to eighty.\<close>

definition block_words :: "byte list \<Rightarrow> u32 list" where
  "block_words block =
     map (\<lambda>i. push_bit 24 (ucast (block ! (i * 4))) OR push_bit 16 (ucast (block ! (i * 4 + 1))) OR
              push_bit 8 (ucast (block ! (i * 4 + 2))) OR ucast (block ! (i * 4 + 3))) [0..<16]"

definition extend_words :: "u32 list \<Rightarrow> u32 list" where
  "extend_words w0 =
     foldl (\<lambda>w i. w @ [ROTLEFT (w ! (i - 3) XOR w ! (i - 8) XOR w ! (i - 14) XOR w ! (i - 16)) 1])
       w0 [16..<80]"

definition sha1_transform :: "sha1_ctx \<Rightarrow> byte list \<Rightarrow> sha1_ctx" where
  "sha1_transform ctx block =
     (let w = extend_words (block_words block);
          s = sha_state ctx;
          r = (s ! 0, s ! 1, s ! 2, s ! 3, s ! 4);
          r = foldl (\<lambda>r i. five_rounds F0 K0 w i r) r [0, 5, 10, 15];
          r = foldl (\<lambda>r i. five_rounds F1 K1 w i r) r [20, 25, 30, 35];
          r = foldl (\<lambda>r i. five_rounds F2 K2 w i r) r [40, 45, 50, 55];
          r = foldl (\<lambda>r i. five_rounds F3 K3 w i r) r [60, 65, 70, 75]
      in case r of (a, b, c, d, e) \<Rightarrow>
           ctx\<lparr>sha_state := [s ! 0 + a, s ! 1 + b, s ! 2 + c, s ! 3 + d, s ! 4 + e]\<rparr>)"

definition sha1_init :: "sha1_ctx \<Rightarrow> sha1_ctx" where
  "sha1_init ctx = ctx\<lparr>sha_count := 0,
     sha_state := [0x67452301, 0xEFCDAB89, 0x98BADCFE, 0x10325476, 0xC3D2E1F0]\<rparr>"

definition sha1_idx :: "u64 \<Rightarrow> nat" where
  "sha1_idx count = unat (drop_bit 3 count AND 0x3F)"

text \<open>
  The loop \<open>while (len >= 64)\<close> of \<open>sha1_update\<close> and the copy of what is left, which goes to
  the start of the buffer because \<open>idx\<close> is 0 there.
\<close>

fun sha1_blocks :: "sha1_ctx \<Rightarrow> byte list \<Rightarrow> sha1_ctx" where
  "sha1_blocks ctx data =
     (if 64 \<le> length data then sha1_blocks (sha1_transform ctx (take 64 data)) (drop 64 data)
      else if 0 < length data then ctx\<lparr>sha_buffer := blit 0 data (sha_buffer ctx)\<rparr>
      else ctx)"

declare sha1_blocks.simps [simp del]

definition sha1_update :: "sha1_ctx \<Rightarrow> byte list \<Rightarrow> sha1_ctx" where
  "sha1_update ctx data =
     (let len = length data;
          idx = sha1_idx (sha_count ctx);
          ctx = ctx\<lparr>sha_count := sha_count ctx + push_bit 3 (of_nat len)\<rparr>
      in if 0 < idx
         then let fill = 64 - idx
              in if len < fill then ctx\<lparr>sha_buffer := blit idx data (sha_buffer ctx)\<rparr>
                 else let ctx = ctx\<lparr>sha_buffer := blit idx (take fill data) (sha_buffer ctx)\<rparr>;
                          ctx = sha1_transform ctx (sha_buffer ctx)
                      in sha1_blocks ctx (drop fill data)
         else sha1_blocks ctx data)"

definition zero_fill :: "nat \<Rightarrow> nat \<Rightarrow> sha1_ctx \<Rightarrow> sha1_ctx" where
  "zero_fill i n ctx = ctx\<lparr>sha_buffer := blit i (replicate n 0) (sha_buffer ctx)\<rparr>"

text \<open>
  \<open>sha1_final\<close> in three parts: the padding up to position 56, the length and the last
  transform, and the digest bytes.
\<close>

definition sha1_pad :: "sha1_ctx \<Rightarrow> nat \<Rightarrow> sha1_ctx" where
  "sha1_pad ctx idx =
     (let ctx = ctx\<lparr>sha_buffer := blit idx [0x80] (sha_buffer ctx)\<rparr>;
          idx = idx + 1;
          (ctx, idx) = (if idx = 64 then (sha1_transform ctx (sha_buffer ctx), 0) else (ctx, idx))
      in if 56 < idx
         then let ctx = zero_fill idx (64 - idx) ctx;
                  ctx = sha1_transform ctx (sha_buffer ctx)
              in zero_fill 0 56 ctx
         else if idx < 56 then zero_fill idx (56 - idx) ctx else ctx)"

definition sha1_close :: "u64 \<Rightarrow> sha1_ctx \<Rightarrow> sha1_ctx" where
  "sha1_close bits ctx =
     (let ctx = ctx\<lparr>sha_buffer := blit 56
                  [ucast (drop_bit 56 bits), ucast (drop_bit 48 bits), ucast (drop_bit 40 bits),
                   ucast (drop_bit 32 bits), ucast (drop_bit 24 bits), ucast (drop_bit 16 bits),
                   ucast (drop_bit 8 bits), ucast bits] (sha_buffer ctx)\<rparr>
      in sha1_transform ctx (sha_buffer ctx))"

definition sha1_output :: "sha1_ctx \<Rightarrow> byte list" where
  "sha1_output ctx =
     concat (map (\<lambda>i. let s = sha_state ctx ! i in
       [ucast (drop_bit 24 s), ucast (drop_bit 16 s), ucast (drop_bit 8 s), ucast s]) [0..<5])"

definition sha1_final :: "sha1_ctx \<Rightarrow> sha1_ctx \<times> byte list" where
  "sha1_final ctx =
     (let bits = sha_count ctx;
          ctx = sha1_close bits (sha1_pad ctx (sha1_idx bits))
      in (ctx, sha1_output ctx))"

text \<open>
  \<open>sha1_hash\<close> uses an uninitialised context on the stack; \<open>junk\<close> stands for its contents
  before \<open>sha1_init\<close>.  \<open>sha1_hash\<close> proper fixes one such context: \<open>sha1_hash_from_fips\<close> below
  shows that the digest does not depend on it.
\<close>

definition sha1_hash_from :: "sha1_ctx \<Rightarrow> byte list \<Rightarrow> byte list" where
  "sha1_hash_from junk data = snd (sha1_final (sha1_update (sha1_init junk) data))"

definition stack_ctx :: sha1_ctx where
  "stack_ctx = \<lparr>sha_state = replicate 5 0, sha_count = 0, sha_buffer = replicate 64 0\<rparr>"

definition sha1_hash :: "byte list \<Rightarrow> byte list" where
  "sha1_hash data = sha1_hash_from stack_ctx data"

section \<open>The standard\<close>

text \<open>FIPS 180-4, section 4.1.1 and 6.1.2: one round for all \<open>t\<close>, registers shifted.\<close>

definition fips_f :: "nat \<Rightarrow> u32 \<Rightarrow> u32 \<Rightarrow> u32 \<Rightarrow> u32" where
  "fips_f t x y z =
     (if t < 20 then (x AND y) XOR (NOT x AND z)
      else if t < 40 then x XOR y XOR z
      else if t < 60 then (x AND y) XOR (x AND z) XOR (y AND z)
      else x XOR y XOR z)"

definition fips_k :: "nat \<Rightarrow> u32" where
  "fips_k t = (if t < 20 then 0x5A827999 else if t < 40 then 0x6ED9EBA1
               else if t < 60 then 0x8F1BBCDC else 0xCA62C1D6)"

definition fips_round :: "u32 list \<Rightarrow> regs \<Rightarrow> nat \<Rightarrow> regs" where
  "fips_round w r t =
     (case r of (a, b, c, d, e) \<Rightarrow>
       (ROTLEFT a 5 + fips_f t b c d + e + fips_k t + w ! t, a, ROTLEFT b 30, c, d))"

definition fips_compress :: "u32 list \<Rightarrow> byte list \<Rightarrow> u32 list" where
  "fips_compress s block =
     (let w = extend_words (map of_be32 (chunks 4 block));
          (a, b, c, d, e) = foldl (fips_round w) (s ! 0, s ! 1, s ! 2, s ! 3, s ! 4) [0..<80]
      in [a + s ! 0, b + s ! 1, c + s ! 2, d + s ! 3, e + s ! 4])"

definition fips_iv :: "u32 list" where
  "fips_iv = [0x67452301, 0xEFCDAB89, 0x98BADCFE, 0x10325476, 0xC3D2E1F0]"

text \<open>Section 5.1.1: a one bit, zeros, and the length in bits in the last 64 bits.\<close>

definition fips_pad :: "byte list \<Rightarrow> byte list" where
  "fips_pad m = m @ [0x80] @ replicate ((119 - length m mod 64) mod 64) 0 @
                be64 (of_nat (8 * length m))"

definition fips_sha1 :: "byte list \<Rightarrow> byte list" where
  "fips_sha1 m = concat (map be32 (foldl fips_compress fips_iv (chunks 64 (fips_pad m))))"


section \<open>The transform is the standard's compression\<close>

lemma F0_ch: "F0 b c d = (b AND c) XOR (NOT b AND d)"
  unfolding F0_def by (rule bit_word_eqI) (auto simp: bit_simps)

lemma F2_maj: "F2 b c d = (b AND c) XOR (b AND d) XOR (c AND d)"
  unfolding F2_def by (rule bit_word_eqI) (auto simp: bit_simps)

lemma five_rounds_fips:
  assumes "\<And>j. j \<in> {i..<i+5} \<Longrightarrow> fips_f j = F \<and> fips_k j = K"
  shows "five_rounds F K w i r = foldl (fips_round w) r [i, i + 1, i + 2, i + 3, i + 4]"
  using assms by (cases r) (simp add: five_rounds_def SHA1_ROUND_def fips_round_def add_ac)

lemma rounds_0_19:
  "i \<in> {0, 5, 10, 15} \<Longrightarrow>
   five_rounds F0 K0 w i r = foldl (fips_round w) r [i, i + 1, i + 2, i + 3, i + 4]"
  by (rule five_rounds_fips) (auto simp: fips_f_def fips_k_def K0_def F0_ch fun_eq_iff)

lemma rounds_20_39:
  "i \<in> {20, 25, 30, 35} \<Longrightarrow>
   five_rounds F1 K1 w i r = foldl (fips_round w) r [i, i + 1, i + 2, i + 3, i + 4]"
  by (rule five_rounds_fips) (auto simp: fips_f_def fips_k_def K1_def F1_def fun_eq_iff)

lemma rounds_40_59:
  "i \<in> {40, 45, 50, 55} \<Longrightarrow>
   five_rounds F2 K2 w i r = foldl (fips_round w) r [i, i + 1, i + 2, i + 3, i + 4]"
  by (rule five_rounds_fips) (auto simp: fips_f_def fips_k_def K2_def F2_maj fun_eq_iff)

lemma rounds_60_79:
  "i \<in> {60, 65, 70, 75} \<Longrightarrow>
   five_rounds F3 K3 w i r = foldl (fips_round w) r [i, i + 1, i + 2, i + 3, i + 4]"
  by (rule five_rounds_fips) (auto simp: fips_f_def fips_k_def K3_def F3_def fun_eq_iff)

lemma foldl_foldl_concat:
  assumes "\<And>i r. i \<in> set is \<Longrightarrow> f r i = foldl g r (h i)"
  shows "foldl f r is = foldl g r (concat (map h is))"
  using assms by (induction "is" arbitrary: r) simp_all

lemma phase_rounds:
  "foldl (\<lambda>r i. five_rounds F0 K0 w i r) r [0, 5, 10, 15] =
   foldl (fips_round w) r (concat (map (\<lambda>i. [i, i + 1, i + 2, i + 3, i + 4]) [0, 5, 10, 15]))"
  "foldl (\<lambda>r i. five_rounds F1 K1 w i r) r [20, 25, 30, 35] =
   foldl (fips_round w) r (concat (map (\<lambda>i. [i, i + 1, i + 2, i + 3, i + 4]) [20, 25, 30, 35]))"
  "foldl (\<lambda>r i. five_rounds F2 K2 w i r) r [40, 45, 50, 55] =
   foldl (fips_round w) r (concat (map (\<lambda>i. [i, i + 1, i + 2, i + 3, i + 4]) [40, 45, 50, 55]))"
  "foldl (\<lambda>r i. five_rounds F3 K3 w i r) r [60, 65, 70, 75] =
   foldl (fips_round w) r (concat (map (\<lambda>i. [i, i + 1, i + 2, i + 3, i + 4]) [60, 65, 70, 75]))"
  by (rule foldl_foldl_concat, rule rounds_0_19, simp,
      rule foldl_foldl_concat, rule rounds_20_39, simp,
      rule foldl_foldl_concat, rule rounds_40_59, simp,
      rule foldl_foldl_concat, rule rounds_60_79, simp)

lemma rounds_split:
  "concat (map (\<lambda>i. [i, i + 1, i + 2, i + 3, i + 4]) [0, 5, 10, 15]) @
   concat (map (\<lambda>i. [i, i + 1, i + 2, i + 3, i + 4]) [20, 25, 30, 35]) @
   concat (map (\<lambda>i. [i, i + 1, i + 2, i + 3, i + 4]) [40, 45, 50, 55]) @
   concat (map (\<lambda>i. [i, i + 1, i + 2, i + 3, i + 4]) [60, 65, 70, 75]) = [0..<80::nat]"
  by (simp add: upt_rec numeral_eq_Suc)

lemma nth_chunks:
  assumes "0 < n" "k < length xs div n"
  shows "chunks n xs ! k = take n (drop (k * n) xs)"
  using assms
proof (induction k arbitrary: xs)
  case 0
  then have "n \<le> length xs" by (metis div_less not_less less_irrefl_nat)
  then show ?case using assms(1) by (simp add: chunks_step)
next
  case (Suc k)
  then have "n \<le> length xs" by (metis div_less not_less not_less_zero)
  moreover from this have "k < length (drop n xs) div n"
    using Suc.prems assms(1) by (simp add: le_div_geq)
  ultimately show ?case
    using Suc.IH [of "drop n xs"] assms(1) by (simp add: chunks_step add.commute)
qed

lemma length_chunks: "0 < n \<Longrightarrow> length (chunks n xs) = length xs div n"
proof (induction n xs rule: chunks.induct)
  case (1 n xs)
  then show ?case
    by (cases "length xs < n") (simp_all add: chunks_short chunks_step le_div_geq)
qed

lemma block_words_be: "length block = 64 \<Longrightarrow> block_words block = map of_be32 (chunks 4 block)"
  by (rule nth_equalityI)
     (simp_all add: block_words_def length_chunks nth_chunks of_be32_def ac_simps)

lemma transform_fips:
  assumes "length block = 64"
  shows "sha1_transform ctx block =
    ctx\<lparr>sha_state := fips_compress (sha_state ctx) block\<rparr>"
proof -
  let ?w = "extend_words (block_words block)" and ?s = "sha_state ctx"
  let ?r = "(?s ! 0, ?s ! 1, ?s ! 2, ?s ! 3, ?s ! 4)"
  have "foldl (\<lambda>r i. five_rounds F3 K3 ?w i r)
         (foldl (\<lambda>r i. five_rounds F2 K2 ?w i r)
           (foldl (\<lambda>r i. five_rounds F1 K1 ?w i r)
             (foldl (\<lambda>r i. five_rounds F0 K0 ?w i r) ?r [0, 5, 10, 15]) [20, 25, 30, 35])
           [40, 45, 50, 55]) [60, 65, 70, 75]
      = foldl (fips_round ?w) ?r [0..<80]"
    by (simp only: rounds_split [symmetric] foldl_append phase_rounds)
  then show ?thesis
    using assms
    by (simp only: sha1_transform_def Let_def fips_compress_def block_words_be)
       (simp add: add.commute split: prod.split)
qed

lemma length_fips_compress [simp]: "length (fips_compress s b) = 5"
  by (simp add: fips_compress_def Let_def split: prod.split)


section \<open>The context represents the message fed so far\<close>

text \<open>
  Everything but the counter: the state is the compression of the whole blocks of \<open>m\<close>, and the
  first bytes of the buffer are the bytes after the last whole block.
\<close>

definition holds_data :: "sha1_ctx \<Rightarrow> byte list \<Rightarrow> bool" where
  "holds_data ctx m \<longleftrightarrow>
     length (sha_buffer ctx) = 64 \<and>
     sha_state ctx = foldl fips_compress fips_iv (chunks 64 m) \<and>
     take (length m mod 64) (sha_buffer ctx) = rest_of 64 m"

definition represents :: "sha1_ctx \<Rightarrow> byte list \<Rightarrow> bool" where
  "represents ctx m \<longleftrightarrow> holds_data ctx m \<and> sha_count ctx = of_nat (8 * length m)"

lemma sha1_idx_count: "sha1_idx (of_nat (8 * n)) = n mod 64"
proof -
  have m: "(0x3F :: u64) = mask 6" by (simp add: mask_eq_exp_minus_1)
  have "unat (drop_bit 3 (of_nat (8 * n) :: u64)) = (8 * n) mod 2 ^ 64 div 8"
    by (simp only: unat_drop_bit_eq unat_of_nat) (simp add: drop_bit_eq_div)
  also have "\<dots> = n mod 2 ^ 61"
    using mult_mod_right [of 8 n "2 ^ 61"] by simp
  finally have d: "unat (drop_bit 3 (of_nat (8 * n) :: u64)) = n mod 2 ^ 61" .
  have "sha1_idx (of_nat (8 * n)) = n mod 2 ^ 61 mod 2 ^ 6"
    unfolding sha1_idx_def m take_bit_eq_mask [symmetric] unsigned_take_bit_eq d
    by (simp only: take_bit_eq_mod)
  also have "\<dots> = n mod 64"
    by (simp add: mod_mod_cancel)
  finally show ?thesis .
qed

lemma transform_simps [simp]:
  "sha_buffer (sha1_transform ctx b) = sha_buffer ctx"
  "sha_count (sha1_transform ctx b) = sha_count ctx"
  by (simp_all add: sha1_transform_def Let_def split: prod.split)

lemma transform_holds:
  assumes "64 dvd length m" "holds_data ctx m" "length b = 64"
  shows "holds_data (sha1_transform ctx b) (m @ b)"
  using assms
  by (simp add: holds_data_def transform_fips chunks_append chunks_single
                rest_of_dvd rest_of_append)

lemma blocks_holds:
  assumes "64 dvd length m" "holds_data ctx m"
  shows "holds_data (sha1_blocks ctx d) (m @ d)"
  using assms
proof (induction ctx d arbitrary: m rule: sha1_blocks.induct)
  case (1 ctx d)
  show ?case
  proof (cases "64 \<le> length d")
    case True
    have h: "holds_data (sha1_transform ctx (take 64 d)) (m @ take 64 d)"
      using 1(2,3) True by (intro transform_holds) auto
    have "holds_data (sha1_blocks (sha1_transform ctx (take 64 d)) (drop 64 d))
            ((m @ take 64 d) @ drop 64 d)"
      using True 1(2) h by (intro 1(1)) auto
    then show ?thesis using True by (subst sha1_blocks.simps) simp
  next
    case False
    then have l: "(length m + length d) mod 64 = length d" using 1(2) by auto
    have "blit 0 d (sha_buffer ctx) = d @ drop (length d) (sha_buffer ctx)"
      by (simp add: blit_def)
    then show ?thesis
      using False 1(2,3) l
      by (subst sha1_blocks.simps)
         (auto simp: holds_data_def chunks_append chunks_short rest_of_append rest_of_short
                     rest_of_dvd)
  qed
qed

lemma blocks_count [simp]: "sha_count (sha1_blocks ctx d) = sha_count ctx"
  by (induction ctx d rule: sha1_blocks.induct) (subst sha1_blocks.simps, simp)

lemma holds_count [simp]: "holds_data (ctx\<lparr>sha_count := c\<rparr>) m = holds_data ctx m"
  by (simp add: holds_data_def)

text \<open>Bytes that fit into the unfinished block only extend the buffer.\<close>

lemma holds_fill:
  assumes "holds_data ctx m" "length m mod 64 + length d < 64"
  shows "holds_data (ctx\<lparr>sha_buffer := blit (length m mod 64) d (sha_buffer ctx)\<rparr>) (m @ d)"
proof -
  have l: "(length m + length d) mod 64 = length m mod 64 + length d"
    using assms(2) by (metis mod_add_left_eq mod_less)
  have r: "rest_of 64 (m @ d) = rest_of 64 m @ d"
    using assms(2) by (subst rest_of_append_rest) (simp add: rest_of_short length_rest_of)
  have c: "chunks 64 (m @ d) = chunks 64 m"
    using assms(2) by (subst chunks_append_rest) (simp_all add: chunks_short length_rest_of)
  show ?thesis
    using assms l by (simp add: holds_data_def r c take_blit_end)
qed

text \<open>Bytes that complete the block are compressed with it.\<close>

lemma holds_complete:
  assumes "holds_data ctx m" "length m mod 64 + length d = 64"
  shows "holds_data (sha1_transform (ctx\<lparr>sha_buffer := blit (length m mod 64) d (sha_buffer ctx)\<rparr>)
                       (blit (length m mod 64) d (sha_buffer ctx))) (m @ d)"
proof -
  have b: "blit (length m mod 64) d (sha_buffer ctx) = rest_of 64 m @ d"
    using assms take_blit_end [of "length m mod 64" "sha_buffer ctx" d]
    by (simp add: holds_data_def)
  have lr: "length (rest_of 64 m @ d) = 64" using assms(2) by (simp add: length_rest_of)
  have "64 dvd length m + length d"
    using assms(2) by (metis dvd_refl mod_add_left_eq mod_0_imp_dvd mod_self)
  then have r: "rest_of 64 (m @ d) = []" by (simp add: rest_of_dvd)
  have c: "chunks 64 (m @ d) = chunks 64 m @ [rest_of 64 m @ d]"
    using lr by (subst chunks_append_rest) (simp_all add: chunks_single)
  show ?thesis
    unfolding b using assms lr \<open>64 dvd length m + length d\<close>
    by (simp add: holds_data_def r c transform_fips)
qed

lemma update_represents:
  assumes "represents ctx m" shows "represents (sha1_update ctx d) (m @ d)"
proof -
  let ?ctx = "ctx\<lparr>sha_count := sha_count ctx + push_bit 3 (of_nat (length d))\<rparr>"
  let ?i = "length m mod 64"
  have idx: "sha1_idx (sha_count ctx) = ?i"
    using assms sha1_idx_count by (simp add: represents_def)
  have cnt: "sha_count ctx + push_bit 3 (of_nat (length d)) = of_nat (8 * length (m @ d))"
    using assms by (simp add: represents_def push_bit_eq_mult)
  have h: "holds_data ?ctx m" using assms by (simp add: represents_def)
  consider "?i = 0" | "0 < ?i" "length d < 64 - ?i" | "0 < ?i" "64 - ?i \<le> length d" by linarith
  then have "holds_data (sha1_update ctx d) (m @ d) \<and> sha_count (sha1_update ctx d) = sha_count ?ctx"
  proof cases
    case 1
    then show ?thesis
      using h blocks_holds [of m ?ctx d] by (simp add: sha1_update_def Let_def idx dvd_eq_mod_eq_0)
  next
    case 2
    then show ?thesis
      using holds_fill [OF h] by (simp add: sha1_update_def Let_def idx)
  next
    case 3
    let ?f = "64 - ?i"
    have l: "?i + length (take ?f d) = 64" using 3 by simp
    then have d64: "64 dvd length (m @ take ?f d)"
      by (metis dvd_refl length_append mod_add_left_eq mod_0_imp_dvd mod_self)
    have "holds_data (sha1_blocks (sha1_transform
            (?ctx\<lparr>sha_buffer := blit ?i (take ?f d) (sha_buffer ?ctx)\<rparr>)
            (blit ?i (take ?f d) (sha_buffer ?ctx))) (drop ?f d)) ((m @ take ?f d) @ drop ?f d)"
      by (rule blocks_holds [OF d64]) (rule holds_complete [OF h l])
    then show ?thesis
      using 3 by (simp add: sha1_update_def Let_def idx)
  qed
  then show ?thesis using cnt by (simp add: represents_def)
qed

lemma init_represents:
  assumes "length (sha_buffer ctx) = 64" shows "represents (sha1_init ctx) []"
  using assms by (simp add: represents_def holds_data_def sha1_init_def fips_iv_def rest_of_def)


section \<open>Padding and digest\<close>

lemma digest_be32:
  assumes "length (sha_state ctx) = 5"
  shows "sha1_output ctx = concat (map be32 (sha_state ctx))"
proof -
  have "map be32 (sha_state ctx) = map be32 (map ((!) (sha_state ctx)) [0..<5])"
    using assms by (metis map_nth)
  then show ?thesis
    by (simp add: sha1_output_def be32_def Let_def comp_def)
qed

lemma zero_fill_holds:
  assumes "holds_data ctx m" "length m mod 64 = i" "i + n < 64"
  shows "holds_data (zero_fill i n ctx) (m @ replicate n 0)"
  using holds_fill [OF assms(1), of "replicate n 0"] assms(2,3) by (simp add: zero_fill_def)

lemma zero_fill_complete:
  assumes "holds_data ctx m" "length m mod 64 = i" "i + n = 64"
  shows "holds_data (sha1_transform (zero_fill i n ctx) (sha_buffer (zero_fill i n ctx)))
           (m @ replicate n 0)"
  using holds_complete [OF assms(1), of "replicate n 0"] assms(2,3) by (simp add: zero_fill_def)

lemma close_state:
  assumes "holds_data ctx m'" "length m' mod 64 = 56"
  shows "sha_state (sha1_close bits ctx) = foldl fips_compress fips_iv (chunks 64 (m' @ be64 bits))"
  using holds_complete [OF assms(1), of "be64 bits"] assms(2)
  by (simp add: sha1_close_def holds_data_def be64_def)

definition padded :: "byte list \<Rightarrow> byte list" where
  "padded m = m @ [0x80] @ replicate ((119 - length m mod 64) mod 64) 0"

lemma zeros_cases:
  assumes "i < (64::nat)"
  shows "(119 - i) mod 64 = (if i \<le> 55 then 55 - i else 119 - i)"
  using assms by (simp add: mod_if)

lemma mod_64_step: "(length m mod 64 + n) mod 64 = r \<Longrightarrow> (length m + n) mod 64 = (r::nat)"
  by (metis mod_add_left_eq)

lemma length_padded: "length (padded m) mod 64 = 56"
proof -
  have "(i + Suc ((119 - i) mod 64)) mod 64 = (56::nat)" if "i < 64" for i
    using that by (auto simp: zeros_cases)
  from this [of "length m mod 64"]
  have "(length m mod 64 + Suc ((119 - length m mod 64) mod 64)) mod 64 = (56::nat)" by simp
  from mod_64_step [OF this] show ?thesis by (simp add: padded_def)
qed

lemma pad_holds:
  assumes h: "holds_data ctx m"
  shows "holds_data (sha1_pad ctx (length m mod 64)) (padded m)"
proof -
  let ?i = "length m mod 64"
  let ?c0 = "ctx\<lparr>sha_buffer := blit ?i [0x80] (sha_buffer ctx)\<rparr>"
  have lt: "?i < 64" by simp
  note z = zeros_cases [OF lt]
  have fill: "?i < 63 \<Longrightarrow> holds_data ?c0 (m @ [0x80])"
    using holds_fill [OF h, of "[0x80]"] by simp
  have nxt: "?i < 63 \<Longrightarrow> length (m @ [0x80 :: byte]) mod 64 = ?i + 1"
    using mod_64_step [of m 1 "?i + 1"] by simp
  consider "?i = 63" | "56 \<le> ?i" "?i < 63" | "?i < 55" | "?i = 55" using lt by linarith
  then show ?thesis
  proof cases
    case 1
    let ?c1 = "sha1_transform ?c0 (sha_buffer ?c0)"
    have a: "holds_data ?c1 (m @ [0x80])" using holds_complete [OF h, of "[0x80]"] 1 by simp
    have "length (m @ [0x80 :: byte]) mod 64 = 0" using 1 mod_64_step [of m 1 0] by simp
    from zero_fill_holds [OF a this, of 56]
    have "holds_data (zero_fill 0 56 ?c1) (padded m)" using 1 by (simp add: padded_def z)
    moreover have "sha1_pad ctx ?i = zero_fill 0 56 ?c1" by (simp only: sha1_pad_def Let_def 1) simp
    ultimately show ?thesis by simp
  next
    case 2
    let ?c1 = "zero_fill (?i + 1) (63 - ?i) ?c0"
    let ?c2 = "sha1_transform ?c1 (sha_buffer ?c1)"
    have b: "holds_data ?c2 ((m @ [0x80]) @ replicate (63 - ?i) 0)"
      by (rule zero_fill_complete [OF fill nxt]) (use 2 in auto)
    have l: "length ((m @ [0x80 :: byte]) @ replicate (63 - ?i) 0) mod 64 = 0"
      using 2 mod_64_step [of m "Suc (63 - ?i)" 0] by simp
    from zero_fill_holds [OF b l, of 56]
    have "holds_data (zero_fill 0 56 ?c2) (m @ [0x80] @ replicate (63 - ?i) 0 @ replicate 56 0)"
      by simp
    moreover have "(119 - ?i) mod 64 = 63 - ?i + 56" using 2 by (simp add: z)
    ultimately have "holds_data (zero_fill 0 56 ?c2) (padded m)"
      by (simp only: padded_def replicate_add)
    moreover have "sha1_pad ctx ?i = zero_fill 0 56 ?c2" using 2 by (simp add: sha1_pad_def Let_def)
    ultimately show ?thesis by simp
  next
    case 3
    have "holds_data (zero_fill (?i + 1) (55 - ?i) ?c0) ((m @ [0x80]) @ replicate (55 - ?i) 0)"
      by (rule zero_fill_holds [OF fill nxt]) (use 3 in auto)
    then have "holds_data (zero_fill (?i + 1) (55 - ?i) ?c0) (padded m)"
      using 3 by (simp add: padded_def z)
    moreover have "sha1_pad ctx ?i = zero_fill (?i + 1) (55 - ?i) ?c0"
      using 3 by (simp add: sha1_pad_def Let_def)
    ultimately show ?thesis by simp
  next
    case 4
    then have "holds_data ?c0 (padded m)" using fill by (simp add: padded_def)
    moreover have "sha1_pad ctx ?i = ?c0" using 4 by (simp add: sha1_pad_def Let_def)
    ultimately show ?thesis by simp
  qed
qed

lemma final_digest:
  assumes "represents ctx m" shows "snd (sha1_final ctx) = fips_sha1 m"
proof -
  let ?bits = "sha_count ctx" and ?c = "sha1_pad ctx (length m mod 64)"
  have c: "?bits = of_nat (8 * length m)" and h: "holds_data ctx m"
    using assms by (simp_all add: represents_def)
  have pad: "padded m @ be64 ?bits = fips_pad m" by (simp add: padded_def fips_pad_def c)
  have st: "sha_state (sha1_close ?bits ?c) = foldl fips_compress fips_iv (chunks 64 (fips_pad m))"
    using close_state [OF pad_holds [OF h] length_padded] by (simp add: pad)
  have "length (foldl fips_compress fips_iv bs) = 5" for bs
    by (induction bs rule: rev_induct) (simp_all add: fips_iv_def)
  then have "sha1_output (sha1_close ?bits ?c) = fips_sha1 m"
    by (simp only: digest_be32 st fips_sha1_def)
  moreover have "sha1_idx ?bits = length m mod 64" unfolding c by (rule sha1_idx_count)
  ultimately show ?thesis by (simp add: sha1_final_def Let_def)
qed

section \<open>Incremental hashing as an interface\<close>

text \<open>
  What the callers of \<open>sha1.h\<close> rely on: the context represents the concatenation of what was fed
  to it, and the digest is a function of that message alone.
\<close>

locale incremental_hash =
  fixes upd :: "'c \<Rightarrow> 'b list \<Rightarrow> 'c"
    and fin :: "'c \<Rightarrow> 'd"
    and reps :: "'c \<Rightarrow> 'b list \<Rightarrow> bool"
    and digest :: "'b list \<Rightarrow> 'd"
  assumes reps_upd: "reps c m \<Longrightarrow> reps (upd c d) (m @ d)"
    and fin_reps: "reps c m \<Longrightarrow> fin c = digest m"
begin

lemma reps_fold: "reps c m \<Longrightarrow> reps (foldl upd c ds) (m @ concat ds)"
  by (induction ds arbitrary: c m) (simp_all, metis append_assoc reps_upd)

lemma fold_digest: "reps c [] \<Longrightarrow> fin (foldl upd c ds) = digest (concat ds)"
  using reps_fold [of c "[]" ds] by (simp add: fin_reps)

lemma split_irrelevant:
  "reps c [] \<Longrightarrow> concat ds = concat es \<Longrightarrow> fin (foldl upd c ds) = fin (foldl upd c es)"
  by (simp add: fold_digest)

end

interpretation sha: incremental_hash sha1_update "\<lambda>c. snd (sha1_final c)" represents fips_sha1
  by unfold_locales (simp_all only: update_represents final_digest)

lemma sha1_hash_from_fips:
  "length (sha_buffer junk) = 64 \<Longrightarrow> sha1_hash_from junk m = fips_sha1 m"
  using sha.fold_digest [OF init_represents, of junk "[m]"] by (simp add: sha1_hash_from_def)

lemma sha1_hash_fips: "sha1_hash m = fips_sha1 m"
  by (simp add: sha1_hash_def sha1_hash_from_fips stack_ctx_def)

lemma length_fips_sha1 [simp]: "length (fips_sha1 m) = 20"
proof -
  have "length (foldl fips_compress fips_iv bs) = 5" for bs
    by (induction bs rule: rev_induct) (simp_all add: fips_iv_def)
  then show ?thesis by (simp add: fips_sha1_def length_concat comp_def sum_list_triv)
qed

lemma length_sha1_hash [simp]: "length (sha1_hash m) = 20"
  by (simp add: sha1_hash_fips)

section \<open>Properties\<close>



end
