(* ===== verification/Bencode.thy ===== *)
theory Bencode
  imports Prelude
begin

text \<open>
  \<open>include/bencode.h\<close> and \<open>src/bencode.c\<close>: the recursive-descent parser over a byte buffer, the
  accessors of the tree, and the encoder with its growing output buffer.  The lemmas show that the
  parser stops (the fuel is enough for every input), stays inside the buffer, and inverts the
  encoder; and that the encoder produces the bytes of the format and never writes past its buffer.

  A node that is a dictionary's value carries its key in the C tree; here the dictionary holds the
  pairs.  Signed arithmetic of \<open>parse_integer\<close> is the wrap-around of the 64-bit machine (the C
  standard leaves an overflow undefined).  Releasing memory is not modelled.
\<close>

section \<open>Nodes and accessors\<close>

type_synonym i64 = "64 word"

datatype bcode_node =
    BCODE_STR "byte list"
  | BCODE_INT i64
  | BCODE_LIST "bcode_node list"
  | BCODE_DICT "(byte list \<times> bcode_node) list"

text \<open>\<open>sizeof (bcode_node_t)\<close> and \<open>sizeof (bcode_node_t *)\<close> with 64-bit pointers.\<close>

definition node_size :: nat where "node_size = 72"
definition ptr_size :: nat where "ptr_size = 8"

definition bcode_new_node :: "allocator \<Rightarrow> bool" where
  "bcode_new_node mem = mem node_size"

text \<open>
  The children array and its capacity; the flag is the return code (\<open>True\<close> for 0).  The count is
  the length of the list.
\<close>

definition bcode_add_child ::
  "allocator \<Rightarrow> 'a list \<Rightarrow> nat \<Rightarrow> 'a \<Rightarrow> 'a list \<times> nat \<times> bool" where
  "bcode_add_child mem children cap child =
     (if cap \<le> length children
      then let new_cap = (if cap \<noteq> 0 then cap * 2 else 8)
           in if mem (new_cap * ptr_size) then (children @ [child], new_cap, True)
              else (children, cap, False)
      else (children @ [child], cap, True))"

text \<open>A C string as key: the first child with that key.\<close>

fun find_key :: "(byte list \<times> bcode_node) list \<Rightarrow> byte list \<Rightarrow> bcode_node option" where
  "find_key [] key = None"
| "find_key ((k, v) # es) key = (if length k = length key \<and> k = key then Some v else find_key es key)"

fun bcode_dict_get :: "bcode_node option \<Rightarrow> byte list \<Rightarrow> bcode_node option" where
  "bcode_dict_get (Some (BCODE_DICT es)) key = find_key es key"
| "bcode_dict_get _ key = None"

fun bcode_str_val :: "bcode_node option \<Rightarrow> byte list option" where
  "bcode_str_val (Some (BCODE_STR s)) = Some s"
| "bcode_str_val _ = None"

fun bcode_int_val :: "bcode_node option \<Rightarrow> i64" where
  "bcode_int_val (Some (BCODE_INT i)) = i"
| "bcode_int_val _ = 0"

fun bcode_list_get :: "bcode_node option \<Rightarrow> nat \<Rightarrow> bcode_node option" where
  "bcode_list_get (Some (BCODE_LIST xs)) i = (if length xs \<le> i then None else Some (xs ! i))"
| "bcode_list_get _ i = None"

fun bcode_list_len :: "bcode_node option \<Rightarrow> nat" where
  "bcode_list_len (Some (BCODE_LIST xs)) = length xs"
| "bcode_list_len _ = 0"

section \<open>The parser\<close>

text \<open>
  The parser state is the buffer \<open>d\<close> (\<open>len\<close> is its length) and the position \<open>p\<close>.
\<close>

definition parse_peek :: "byte list \<Rightarrow> nat \<Rightarrow> byte option" where
  "parse_peek d p = (if length d \<le> p then None else Some (d ! p))"

definition parse_advance :: "byte list \<Rightarrow> nat \<Rightarrow> byte option \<times> nat" where
  "parse_advance d p = (if length d \<le> p then (None, p) else (Some (d ! p), Suc p))"

text \<open>
  The digit loop of \<open>parse_integer\<close> (an \<open>int64_t\<close>) and of \<open>parse_string\<close> (a \<open>size_t\<close>).
\<close>

function scan_digits :: "byte list \<Rightarrow> nat \<Rightarrow> u64 \<Rightarrow> u64 \<times> nat" where
  "scan_digits d p val =
     (if p < length d \<and> is_digit (d ! p)
      then scan_digits d (Suc p) (val * 10 + ucast (d ! p - ch CHR ''0''))
      else (val, p))"
  by pat_completeness auto
termination
  by (relation "measure (\<lambda>(d, p, v). length d - p)") auto

declare scan_digits.simps [simp del]

definition parse_integer :: "byte list \<Rightarrow> nat \<Rightarrow> i64 \<times> nat" where
  "parse_integer d p =
     (let (c, p) = parse_advance d p
      in if c \<noteq> Some (ch CHR ''i'') then (0, p)
         else if length d \<le> p then (0, p)
         else let neg = (d ! p = ch CHR ''-'');
                  p = (if neg then Suc p else p);
                  (val, p) = scan_digits d p 0
              in if length d \<le> p \<or> d ! p \<noteq> ch CHR ''e'' then (0, p)
                 else (if neg then - val else val, Suc p))"

definition parse_string :: "allocator \<Rightarrow> byte list \<Rightarrow> nat \<Rightarrow> (byte list \<times> nat) option" where
  "parse_string mem d p =
     (let (slen, p) = scan_digits d p 0
      in if length d \<le> p \<or> d ! p \<noteq> ch CHR '':'' then None
         else let p = Suc p
              in if length d < unat (of_nat p + slen) then None
                 else if \<not> mem (unat slen) then None
                 else Some (take (unat slen) (drop p d), p + unat slen))"

text \<open>
  \<open>parse_value\<close>, \<open>parse_list\<close> and \<open>parse_dict\<close> call each other.  The loops take the
  forward-declared \<open>parse_value\<close> as the argument \<open>pv\<close>; each iteration and each level of
  nesting spends a unit of fuel.
\<close>

type_synonym value_parser = "byte list \<Rightarrow> nat \<Rightarrow> (bcode_node \<times> nat) outcome"

primrec list_loop ::
  "allocator \<Rightarrow> value_parser \<Rightarrow> nat \<Rightarrow> byte list \<Rightarrow> nat \<Rightarrow> bcode_node list \<Rightarrow> nat \<Rightarrow>
   (bcode_node \<times> nat) outcome" where
  "list_loop mem pv 0 d p children cap = Fuel"
| "list_loop mem pv (Suc n) d p children cap =
     (if p < length d \<and> d ! p \<noteq> ch CHR ''e''
      then case pv d p of
             Fuel \<Rightarrow> Fuel
           | Null \<Rightarrow> Null
           | Ok (child, p) \<Rightarrow>
               (case bcode_add_child mem children cap child of (children, cap, _) \<Rightarrow>
                  list_loop mem pv n d p children cap)
      else if length d \<le> p then Null else Ok (BCODE_LIST children, Suc p))"

definition parse_list :: "allocator \<Rightarrow> value_parser \<Rightarrow> nat \<Rightarrow> value_parser" where
  "parse_list mem pv n d p =
     (if \<not> bcode_new_node mem then Null
      else case parse_advance d p of (c, p) \<Rightarrow>
        if c \<noteq> Some (ch CHR ''l'') then Null else list_loop mem pv n d p [] 0)"

primrec dict_loop ::
  "allocator \<Rightarrow> value_parser \<Rightarrow> nat \<Rightarrow> byte list \<Rightarrow> nat \<Rightarrow> (byte list \<times> bcode_node) list \<Rightarrow> nat \<Rightarrow>
   (bcode_node \<times> nat) outcome" where
  "dict_loop mem pv 0 d p children cap = Fuel"
| "dict_loop mem pv (Suc n) d p children cap =
     (if p < length d \<and> d ! p \<noteq> ch CHR ''e''
      then if \<not> bcode_new_node mem then Null
           else case parse_string mem d p of
                  None \<Rightarrow> Null
                | Some (key, p) \<Rightarrow>
                    (case pv d p of
                       Fuel \<Rightarrow> Fuel
                     | Null \<Rightarrow> Null
                     | Ok (val, p) \<Rightarrow>
                         (case bcode_add_child mem children cap (key, val) of (children, cap, _) \<Rightarrow>
                            dict_loop mem pv n d p children cap))
      else if length d \<le> p then Null else Ok (BCODE_DICT children, Suc p))"

definition parse_dict :: "allocator \<Rightarrow> value_parser \<Rightarrow> nat \<Rightarrow> value_parser" where
  "parse_dict mem pv n d p =
     (if \<not> bcode_new_node mem then Null
      else case parse_advance d p of (c, p) \<Rightarrow>
        if c \<noteq> Some (ch CHR ''d'') then Null else dict_loop mem pv n d p [] 0)"

primrec parse_value :: "allocator \<Rightarrow> nat \<Rightarrow> value_parser" where
  "parse_value mem 0 d p = Fuel"
| "parse_value mem (Suc n) d p =
     (case parse_peek d p of
        None \<Rightarrow> Null
      | Some c \<Rightarrow>
          if c = ch CHR ''i'' then
            if bcode_new_node mem
            then (case parse_integer d p of (val, p) \<Rightarrow> Ok (BCODE_INT val, p)) else Null
          else if is_digit c then
            if bcode_new_node mem
            then (case parse_string mem d p of
                    None \<Rightarrow> Null | Some (s, p) \<Rightarrow> Ok (BCODE_STR s, p)) else Null
          else if c = ch CHR ''l'' then parse_list mem (parse_value mem n) n d p
          else if c = ch CHR ''d'' then parse_dict mem (parse_value mem n) n d p
          else Null)"

text \<open>
  The fuel \<open>n + 1\<close> is enough for \<open>n\<close> bytes: \<open>parse_value_enough\<close> below.
\<close>

definition parse_fuel :: "byte list \<Rightarrow> nat \<Rightarrow> nat" where
  "parse_fuel d p = Suc (length d - p)"

definition bcode_parse :: "allocator \<Rightarrow> byte list \<Rightarrow> bcode_node option" where
  "bcode_parse mem d =
     (if d = [] then None
      else case parse_value mem (parse_fuel d 0) d 0 of Ok (v, _) \<Rightarrow> Some v | _ \<Rightarrow> None)"

section \<open>The encoder\<close>

text \<open>
  The output buffer: the bytes written so far (their number is \<open>pos\<close>) and the capacity.
\<close>

record obuf =
  ob_data :: "byte list"
  ob_cap :: nat

text \<open>The doubling loop of \<open>buf_ensure\<close>, on \<open>pos + need\<close>.\<close>

function grow_cap :: "nat \<Rightarrow> nat \<Rightarrow> nat" where
  "grow_cap tot cap = (if 0 < cap \<and> cap \<le> tot then grow_cap tot (cap * 2) else cap)"
  by pat_completeness auto
termination
  by (relation "measure (\<lambda>(t, c). Suc t - c)") auto

declare grow_cap.simps [simp del]

definition buf_ensure :: "allocator \<Rightarrow> nat \<Rightarrow> obuf \<Rightarrow> obuf option" where
  "buf_ensure mem need b =
     (let tot = length (ob_data b) + need
      in if tot < ob_cap b then Some b
         else let new_cap = grow_cap tot (if ob_cap b \<noteq> 0 then ob_cap b * 2 else 256)
              in if mem new_cap then Some (b\<lparr>ob_cap := new_cap\<rparr>) else None)"

definition buf_put :: "byte list \<Rightarrow> obuf \<Rightarrow> obuf" where
  "buf_put bs b = b\<lparr>ob_data := ob_data b @ bs\<rparr>"

definition buf_append :: "allocator \<Rightarrow> byte list \<Rightarrow> obuf \<Rightarrow> obuf option" where
  "buf_append mem bs b = map_option (buf_put bs) (buf_ensure mem (length bs) b)"

definition encode_string :: "allocator \<Rightarrow> byte list \<Rightarrow> obuf \<Rightarrow> obuf option" where
  "encode_string mem s b =
     Option.bind (buf_append mem (dec (length s) @ [ch CHR '':'']) b) (buf_append mem s)"

definition encode_int :: "allocator \<Rightarrow> i64 \<Rightarrow> obuf \<Rightarrow> obuf option" where
  "encode_int mem val b =
     Option.bind (buf_ensure mem 2 b) (\<lambda>b.
     Option.bind (buf_append mem (dec_int (sint val)) (buf_put [ch CHR ''i''] b)) (\<lambda>b.
     map_option (buf_put [ch CHR ''e'']) (buf_ensure mem 1 b)))"

text \<open>A single marker byte: \<open>buf_ensure (.., 1)\<close> and the store.\<close>

definition put_mark :: "allocator \<Rightarrow> byte \<Rightarrow> obuf \<Rightarrow> obuf option" where
  "put_mark mem c b = map_option (buf_put [c]) (buf_ensure mem 1 b)"

fun bcode_encode_node :: "allocator \<Rightarrow> bcode_node \<Rightarrow> obuf \<Rightarrow> obuf option"
and encode_children :: "allocator \<Rightarrow> bcode_node list \<Rightarrow> obuf \<Rightarrow> obuf option"
and encode_entries :: "allocator \<Rightarrow> (byte list \<times> bcode_node) list \<Rightarrow> obuf \<Rightarrow> obuf option" where
  "bcode_encode_node mem (BCODE_STR s) b = encode_string mem s b"
| "bcode_encode_node mem (BCODE_INT i) b = encode_int mem i b"
| "bcode_encode_node mem (BCODE_LIST xs) b =
     Option.bind (put_mark mem (ch CHR ''l'') b) (\<lambda>b.
     Option.bind (encode_children mem xs b) (put_mark mem (ch CHR ''e'')))"
| "bcode_encode_node mem (BCODE_DICT es) b =
     Option.bind (put_mark mem (ch CHR ''d'') b) (\<lambda>b.
     Option.bind (encode_entries mem es b) (put_mark mem (ch CHR ''e'')))"
| "encode_children mem [] b = Some b"
| "encode_children mem (x # xs) b =
     Option.bind (bcode_encode_node mem x b) (encode_children mem xs)"
| "encode_entries mem [] b = Some b"
| "encode_entries mem ((k, v) # es) b =
     Option.bind (encode_string mem k b) (\<lambda>b.
     Option.bind (bcode_encode_node mem v b) (encode_entries mem es))"

definition bcode_encode :: "allocator \<Rightarrow> bcode_node \<Rightarrow> byte list option" where
  "bcode_encode mem node =
     map_option ob_data (bcode_encode_node mem node \<lparr>ob_data = [], ob_cap = 0\<rparr>)"


section \<open>The parser stops and moves forward\<close>

lemma scan_digits_pos:
  "p \<le> snd (scan_digits d p v)" "p \<le> length d \<Longrightarrow> snd (scan_digits d p v) \<le> length d"
proof (induction d p v rule: scan_digits.induct)
  case (1 d p v)
  {
    case 1
    show ?case using "1.IH"(1) by (subst scan_digits.simps) (auto intro: Suc_leD)
  next
    case 2
    then show ?case using "1.IH"(2) by (subst scan_digits.simps) auto
  }
qed

lemma parse_integer_pos:
  assumes "p < length d" "d ! p = ch CHR ''i''"
  shows "p < snd (parse_integer d p)" "snd (parse_integer d p) \<le> length d"
proof -
  obtain val q where sd: "scan_digits d (if d ! Suc p = ch CHR ''-'' then Suc (Suc p) else Suc p) 0 = (val, q)"
    by fastforce
  have "p < q" and "Suc p < length d \<Longrightarrow> q \<le> length d"
    using scan_digits_pos [of "if d ! Suc p = ch CHR ''-'' then Suc (Suc p) else Suc p" d 0] sd
    by (auto split: if_splits)
  then show "p < snd (parse_integer d p)" "snd (parse_integer d p) \<le> length d"
    using assms sd by (auto simp: parse_integer_def parse_advance_def Let_def)
qed

lemma parse_string_SomeE:
  assumes "parse_string mem d p = Some (s, p')"
  obtains slen q where "scan_digits d p 0 = (slen, q)" "q < length d" "d ! q = ch CHR '':''"
    "unat (of_nat (Suc q) + slen) \<le> length d" "mem (unat slen)"
    "s = take (unat slen) (drop (Suc q) d)" "p' = Suc q + unat slen"
  using assms
  by (cases "scan_digits d p 0") (auto simp: parse_string_def Let_def not_le not_less split: if_splits)

lemma parse_string_pos: "parse_string mem d p = Some (s, p') \<Longrightarrow> p < p'"
  by (erule parse_string_SomeE) (use scan_digits_pos(1) [of p d 0] in auto)

text \<open>What a loop needs of the value parser it calls, from position \<open>p\<close> on.\<close>

definition parses_from :: "value_parser \<Rightarrow> byte list \<Rightarrow> nat \<Rightarrow> bool" where
  "parses_from pv d p \<longleftrightarrow>
     (\<forall>q. p \<le> q \<longrightarrow> q < length d \<longrightarrow> pv d q \<noteq> Fuel \<and> (\<forall>v q'. pv d q = Ok (v, q') \<longrightarrow> q < q'))"

lemma parses_from_mono: "parses_from pv d p \<Longrightarrow> p \<le> p' \<Longrightarrow> parses_from pv d p'"
  by (auto simp: parses_from_def)

lemma parses_fromD:
  "parses_from pv d p \<Longrightarrow> p < length d \<Longrightarrow> pv d p = Fuel \<Longrightarrow> False"
  "parses_from pv d p \<Longrightarrow> p < length d \<Longrightarrow> pv d p = Ok (v, p') \<Longrightarrow> p < p'"
  by (auto simp: parses_from_def)

lemma list_loop_enough:
  assumes "parses_from pv d p" "length d - p < n"
  shows "list_loop mem pv n d p cs cap \<noteq> Fuel \<and>
         (\<forall>v q. list_loop mem pv n d p cs cap = Ok (v, q) \<longrightarrow> p < q)"
  using assms
proof (induction n arbitrary: p cs cap)
  case (Suc n)
  show ?case
  proof (cases "p < length d \<and> d ! p \<noteq> ch CHR ''e''")
    case True
    show ?thesis
    proof (cases "pv d p")
      case (Ok r)
      obtain v q where r: "r = (v, q)" by fastforce
      obtain cs' cap' f where c: "bcode_add_child mem cs cap v = (cs', cap', f)"
        by (metis prod_cases3)
      have q: "p < q" using parses_fromD(2) [OF Suc.prems(1)] True Ok r by blast
      then have "length d - q < n" using True Suc.prems(2) by linarith
      from Suc.IH [OF parses_from_mono [OF Suc.prems(1)] this, of cs' cap'] q
      show ?thesis using True by (auto simp: Ok r c)
    qed (use True Suc.prems(1) in \<open>auto dest: parses_fromD\<close>)
  qed auto
qed simp

lemma dict_loop_enough:
  assumes "parses_from pv d p" "length d - p < n"
    and "\<And>q. length d \<le> q \<Longrightarrow> pv d q = Null"
  shows "dict_loop mem pv n d p cs cap \<noteq> Fuel \<and>
         (\<forall>v q. dict_loop mem pv n d p cs cap = Ok (v, q) \<longrightarrow> p < q)"
  using assms(1,2)
proof (induction n arbitrary: p cs cap)
  case (Suc n)
  show ?case
  proof (cases "p < length d \<and> d ! p \<noteq> ch CHR ''e'' \<and> bcode_new_node mem \<and>
                parse_string mem d p \<noteq> None")
    case True
    then obtain k p1 where k: "parse_string mem d p = Some (k, p1)" by auto
    then have p1: "p < p1" by (rule parse_string_pos)
    note from1 = parses_from_mono [OF Suc.prems(1) less_imp_le [OF p1]]
    show ?thesis
    proof (cases "pv d p1")
      case (Ok r)
      obtain v q where r: "r = (v, q)" by fastforce
      have "p1 < length d" using assms(3) [of p1] Ok by (cases "p1 < length d") auto
      then have q: "p1 < q" using parses_fromD(2) [OF from1] Ok r by blast
      obtain cs' cap' f where c: "bcode_add_child mem cs cap (k, v) = (cs', cap', f)"
        by (metis prod_cases3)
      have "length d - q < n" using True Suc.prems(2) p1 q by linarith
      from Suc.IH [OF parses_from_mono [OF from1] this, of cs' cap'] p1 q
      show ?thesis using True by (auto simp: Ok r c k)
    next
      case Fuel
      then show ?thesis using parses_fromD(1) [OF from1] assms(3) [of p1]
        by (cases "p1 < length d") auto
    qed (use True k in auto)
  qed (auto split: option.splits)
qed simp

lemma parse_value_end: "length d \<le> p \<Longrightarrow> parse_value mem (Suc n) d p = Null"
  by (simp add: parse_peek_def)

lemma parse_value_enough:
  "length d - p < n \<Longrightarrow>
   parse_value mem n d p \<noteq> Fuel \<and> (\<forall>v q. parse_value mem n d p = Ok (v, q) \<longrightarrow> p < q)"
proof (induction n arbitrary: p)
  case (Suc n)
  show ?case
  proof (cases "p < length d")
    case True
    have len: "length d - Suc p < n" using True Suc.prems by linarith
    have pf: "parses_from (parse_value mem n) d (Suc p)"
      unfolding parses_from_def using Suc.IH len by (meson diff_le_mono2 le_less_trans)
    have pe: "\<And>q. length d \<le> q \<Longrightarrow> parse_value mem n d q = Null"
      using len by (cases n) (simp, simp only: parse_value_end)
    note l = list_loop_enough [OF pf len, of mem "[]" 0]
      and e = dict_loop_enough [OF pf len pe, of mem "[]" 0]
    obtain iv ip where i: "parse_integer d p = (iv, ip)" by fastforce
    then have "d ! p = ch CHR ''i'' \<Longrightarrow> p < ip" using parse_integer_pos(1) [OF True] by auto
    with True l e i show ?thesis
      by (auto simp: parse_peek_def parse_list_def parse_dict_def parse_advance_def
               dest: parse_string_pos Suc_lessD split: option.splits)
  qed (simp add: parse_peek_def)
qed simp


section \<open>The parser stays inside its buffer\<close>

text \<open>
  \<open>slen\<close> comes from the input, so \<open>st->pos + slen\<close> can wrap around; what keeps the copy in
  bounds then is that \<open>malloc\<close> refuses a request beyond \<open>PTRDIFF_MAX\<close>.
\<close>

definition malloc_limit :: "allocator \<Rightarrow> bool" where
  "malloc_limit mem \<longleftrightarrow> (\<forall>n. mem n \<longrightarrow> n < 2 ^ 63)"

lemma parse_string_bounds:
  assumes m: "malloc_limit mem" and len: "length d < 2 ^ 63"
    and ps: "parse_string mem d p = Some (s, p')"
  shows "\<exists>q. p \<le> q \<and> q < length d \<and> d ! q = ch CHR '':'' \<and> p' = Suc q + length s \<and>
             p' \<le> length d \<and> s = take (length s) (drop (Suc q) d) \<and>
             length s = unat (fst (scan_digits d p 0))"
  using ps
proof (rule parse_string_SomeE)
  fix slen q
  assume a: "scan_digits d p 0 = (slen, q)" "q < length d" "d ! q = ch CHR '':''"
    "unat (of_nat (Suc q) + slen) \<le> length d" "mem (unat slen)"
    "s = take (unat slen) (drop (Suc q) d)" "p' = Suc q + unat slen"
  have sl: "unat slen < 2 ^ 63" using m a(5) by (simp add: malloc_limit_def)
  have "of_nat (Suc q) + slen = of_nat (Suc q + unat slen)" by simp
  then have "unat (of_nat (Suc q) + slen) = (Suc q + unat slen) mod 2 ^ 64"
    by (simp only: unat_of_nat) simp
  also have "\<dots> = Suc q + unat slen" using sl a(2) len by simp
  finally have in_d: "Suc q + unat slen \<le> length d" using a(4) by simp
  then have "length s = unat slen" using a(6) by simp
  moreover have "p \<le> q" using scan_digits_pos(1) [of p d 0] a(1) by simp
  ultimately show ?thesis using a in_d by auto
qed

definition ends_in :: "value_parser \<Rightarrow> byte list \<Rightarrow> bool" where
  "ends_in pv d \<longleftrightarrow> (\<forall>q v q'. pv d q = Ok (v, q') \<longrightarrow> q' \<le> length d)"

lemma list_loop_ends:
  assumes "ends_in pv d" shows "list_loop mem pv n d p cs cap = Ok (v, q) \<Longrightarrow> q \<le> length d"
  by (induction n arbitrary: p cs cap)
     (auto split: if_splits outcome.splits prod.splits)

lemma dict_loop_ends:
  assumes "ends_in pv d" shows "dict_loop mem pv n d p cs cap = Ok (v, q) \<Longrightarrow> q \<le> length d"
  by (induction n arbitrary: p cs cap)
     (auto split: if_splits outcome.splits prod.splits option.splits)

lemma parse_value_ends:
  assumes "malloc_limit mem" "length d < 2 ^ 63"
  shows "ends_in (parse_value mem n) d"
proof (induction n)
  case (Suc n)
  have "q' \<le> length d" if pv: "parse_value mem (Suc n) d p = Ok (v, q')" for p v q'
  proof -
    have p: "p < length d" using pv by (auto simp: parse_peek_def split: option.splits if_splits)
    obtain iv ip where i: "parse_integer d p = (iv, ip)" by fastforce
    then have "d ! p = ch CHR ''i'' \<Longrightarrow> ip \<le> length d" using parse_integer_pos(2) [OF p] by auto
    with pv p i show ?thesis
      by (auto simp: parse_peek_def parse_list_def parse_dict_def parse_advance_def
               dest: parse_string_bounds [OF assms] list_loop_ends [OF Suc.IH]
                     dict_loop_ends [OF Suc.IH]
               split: option.splits if_splits)
  qed
  then show ?case unfolding ends_in_def by blast
qed (simp add: ends_in_def)

section \<open>The encoder against the format\<close>

text \<open>The bencoding of a node as the format defines it.\<close>

definition bstr :: "byte list \<Rightarrow> byte list" where
  "bstr s = dec (length s) @ ch CHR '':'' # s"

fun benc :: "bcode_node \<Rightarrow> byte list" where
  "benc (BCODE_STR s) = bstr s"
| "benc (BCODE_INT i) = ch CHR ''i'' # dec_int (sint i) @ [ch CHR ''e'']"
| "benc (BCODE_LIST xs) = ch CHR ''l'' # concat (map benc xs) @ [ch CHR ''e'']"
| "benc (BCODE_DICT es) =
     ch CHR ''d'' # concat (map (\<lambda>(k, v). bstr k @ benc v) es) @ [ch CHR ''e'']"

lemma grow_cap_gt: "0 < cap \<Longrightarrow> tot < grow_cap tot cap"
proof (induction tot cap rule: grow_cap.induct)
  case (1 t c)
  then show ?case by (subst grow_cap.simps) auto
qed

text \<open>
  \<open>appends f bs\<close>: whatever \<open>f\<close> returns has \<open>bs\<close> appended and stays within its capacity, and
  \<open>f\<close> does return when no allocation fails.
\<close>

definition in_cap :: "obuf \<Rightarrow> bool" where
  "in_cap b \<longleftrightarrow> length (ob_data b) \<le> ob_cap b"

definition appends :: "allocator \<Rightarrow> (obuf \<Rightarrow> obuf option) \<Rightarrow> byte list \<Rightarrow> bool" where
  "appends mem f bs \<longleftrightarrow>
     (\<forall>b. in_cap b \<longrightarrow>
       (case f b of Some b' \<Rightarrow> ob_data b' = ob_data b @ bs \<and> in_cap b' | None \<Rightarrow> \<exists>n. \<not> mem n))"

lemma buf_ensure_spec:
  "buf_ensure mem need b = Some b' \<Longrightarrow>
   ob_data b' = ob_data b \<and> length (ob_data b) + need < ob_cap b'"
  using grow_cap_gt [of "ob_cap b * 2"] grow_cap_gt [of 256]
  by (auto simp: buf_ensure_def Let_def split: if_splits)

lemma buf_ensure_None: "buf_ensure mem need b = None \<Longrightarrow> \<exists>n. \<not> mem n"
  by (auto simp: buf_ensure_def Let_def split: if_splits)

lemma appends_ensure_put:
  "length bs \<le> need \<Longrightarrow> appends mem (\<lambda>b. map_option (buf_put bs) (buf_ensure mem need b)) bs"
  by (auto simp: appends_def in_cap_def buf_put_def
           dest: buf_ensure_spec buf_ensure_None split: option.splits)

lemma appends_bind:
  assumes "appends mem f xs" "appends mem g ys"
  shows "appends mem (\<lambda>b. Option.bind (f b) g) (xs @ ys)"
  unfolding appends_def
proof (intro allI impI)
  fix b assume b: "in_cap b"
  show "case Option.bind (f b) g of None \<Rightarrow> \<exists>n. \<not> mem n
        | Some b' \<Rightarrow> ob_data b' = ob_data b @ xs @ ys \<and> in_cap b'"
  proof (cases "f b")
    case None
    then show ?thesis using assms(1) b by (force simp: appends_def)
  next
    case (Some b1)
    then have "ob_data b1 = ob_data b @ xs" "in_cap b1"
      using assms(1) b by (force simp: appends_def)+
    moreover from this(2) have "case g b1 of None \<Rightarrow> \<exists>n. \<not> mem n
        | Some b' \<Rightarrow> ob_data b' = ob_data b1 @ ys \<and> in_cap b'"
      using assms(2) by (simp add: appends_def)
    ultimately show ?thesis using Some by (simp split: option.splits)
  qed
qed

lemma appends_mark: "appends mem (put_mark mem c) [c]"
  unfolding put_mark_def by (rule appends_ensure_put) simp

lemma appends_append: "appends mem (buf_append mem bs) bs"
  unfolding buf_append_def by (rule appends_ensure_put) simp

lemma appends_string: "appends mem (encode_string mem s) (bstr s)"
  using appends_bind [OF appends_append appends_append, of mem "dec (length s) @ [ch CHR '':'']" s]
  by (simp add: encode_string_def [abs_def] bstr_def)

lemma encode_int_steps:
  "encode_int mem i = (\<lambda>b.
     Option.bind (map_option (buf_put [ch CHR ''i'']) (buf_ensure mem 2 b)) (\<lambda>b.
     Option.bind (buf_append mem (dec_int (sint i)) b)
       (\<lambda>b. map_option (buf_put [ch CHR ''e'']) (buf_ensure mem 1 b))))"
proof
  fix b
  show "encode_int mem i b =
     Option.bind (map_option (buf_put [ch CHR ''i'']) (buf_ensure mem 2 b)) (\<lambda>b.
     Option.bind (buf_append mem (dec_int (sint i)) b)
       (\<lambda>b. map_option (buf_put [ch CHR ''e'']) (buf_ensure mem 1 b)))"
    by (cases "buf_ensure mem 2 b") (simp_all add: encode_int_def)
qed

lemma appends_int: "appends mem (encode_int mem i) (benc (BCODE_INT i))"
proof -
  have "appends mem (encode_int mem i) ([ch CHR ''i''] @ dec_int (sint i) @ [ch CHR ''e''])"
    unfolding encode_int_steps
    by (intro appends_bind appends_ensure_put appends_append) simp_all
  then show ?thesis by simp
qed

lemma appends_node:
  "appends mem (bcode_encode_node mem v) (benc v)"
proof (induction v)
  case (BCODE_STR s)
  show ?case by (simp add: appends_string)
next
  case (BCODE_INT i)
  show ?case using appends_int by simp
next
  case (BCODE_LIST xs)
  have "appends mem (encode_children mem ys) (concat (map benc ys))" if "set ys \<subseteq> set xs" for ys
    using that
  proof (induction ys)
    case Nil
    show ?case by (simp add: appends_def)
  next
    case (Cons y ys)
    then show ?case
      using appends_bind [of mem "bcode_encode_node mem y" "benc y"] BCODE_LIST.IH by simp
  qed
  from appends_bind [OF appends_mark appends_bind [OF this appends_mark]]
  show ?case by (simp add: )
next
  case (BCODE_DICT es)
  have "appends mem (encode_entries mem fs) (concat (map (\<lambda>(k, v). bstr k @ benc v) fs))"
    if "set fs \<subseteq> set es" for fs
    using that
  proof (induction fs)
    case Nil
    show ?case by (simp add: appends_def)
  next
    case (Cons f fs)
    obtain k v where f: "f = (k, v)" by fastforce
    then have "appends mem (bcode_encode_node mem v) (benc v)"
      using BCODE_DICT.IH [of f v] Cons.prems by auto
    from appends_bind [OF appends_string appends_bind [OF this]] Cons f
    show ?case by simp
  qed
  from appends_bind [OF appends_mark appends_bind [OF this appends_mark]]
  show ?case by simp
qed

lemma bcode_encode_benc:
  "bcode_encode mem v = Some bs \<Longrightarrow> bs = benc v"
  using appends_node [of mem v]
  by (auto simp: bcode_encode_def appends_def in_cap_def dest: spec [of _ "\<lparr>ob_data = [], ob_cap = 0\<rparr>"])

lemma bcode_encode_total:
  assumes "\<And>n. mem n" shows "bcode_encode mem v = Some (benc v)"
proof (cases "bcode_encode_node mem v \<lparr>ob_data = [], ob_cap = 0\<rparr>")
  case None
  then show ?thesis
    using appends_node [of mem v] assms
    by (auto simp: appends_def in_cap_def dest: spec [of _ "\<lparr>ob_data = [], ob_cap = 0\<rparr>"])
next
  case (Some b)
  then show ?thesis
    using bcode_encode_benc [of mem v "ob_data b"] by (simp add: bcode_encode_def)
qed


section \<open>The parser inverts the encoder\<close>

text \<open>Requests the parser makes for an input of \<open>n\<close> bytes all stay below this bound.\<close>

definition mem_for :: "allocator \<Rightarrow> byte list \<Rightarrow> bool" where
  "mem_for mem d \<longleftrightarrow> (\<forall>n \<le> 16 * length d + 72. mem n)"

lemma scan_digits_run:
  assumes "drop p d = ds @ c # rest" "\<forall>x \<in> set ds. is_digit x" "\<not> is_digit c"
  shows "scan_digits d p (of_nat a) =
         (of_nat (foldl (\<lambda>a b. a * 10 + digit_val b) a ds), p + length ds)"
  using assms
proof (induction ds arbitrary: p a)
  case Nil
  then have "p < length d" "d ! p = c" using drop_eq_Cons_nth [of p d c rest] by auto
  with Nil show ?case by (subst scan_digits.simps) simp
next
  case (Cons x ds)
  then have p: "p < length d" "d ! p = x" "drop (Suc p) d = ds @ c # rest"
    using drop_eq_Cons_nth [of p d x "ds @ c # rest"] by auto
  have v: "of_nat a * 10 + ucast (x - ch CHR ''0'') = (of_nat (a * 10 + digit_val x) :: u64)"
    by (simp add: digit_val_def of_nat_unat)
  have "scan_digits d p (of_nat a) = scan_digits d (Suc p) (of_nat (a * 10 + digit_val x))"
    using p Cons.prems(2) v by (subst scan_digits.simps) simp
  then show ?case
    using Cons.IH [of "Suc p" "a * 10 + digit_val x"] p(3) Cons.prems by simp
qed

lemma scan_digits_all:
  assumes "drop p d = ds @ c # rest" "\<forall>x \<in> set ds. is_digit x" "\<not> is_digit c"
  shows "scan_digits d p 0 = (of_nat (dec_val ds), p + length ds)"
  using scan_digits_run [OF assms, of 0] by (simp add: dec_val_def)

lemma scan_digits_dec:
  assumes "drop p d = dec n @ c # rest" "\<not> is_digit c"
  shows "scan_digits d p 0 = (of_nat n, p + length (dec n))"
  using scan_digits_all [OF assms(1) dec_digits assms(2)] by simp

lemma parse_string_bstr [codec]:
  assumes "drop p d = bstr s @ rest" "length d < 2 ^ 63" "mem (length s)"
  shows "parse_string mem d p = Some (s, p + length (bstr s))"
proof -
  let ?q = "p + length (dec (length s))"
  have at: "drop p d = dec (length s) @ ch CHR '':'' # s @ rest" using assms(1) by (simp add: bstr_def)
  have q: "?q < length d" "d ! ?q = ch CHR '':''" "drop (Suc ?q) d = s @ rest"
    using drop_eq_Cons_nth [OF drop_eq_append [OF at]] by auto
  have "length (drop (Suc ?q) d) = length (s @ rest)" by (simp only: q(3))
  then have in_d: "Suc ?q + length s \<le> length d" using q(1) by simp
  have sc: "scan_digits d p 0 = (of_nat (length s), ?q)"
    by (rule scan_digits_dec [OF at]) (simp add: is_digit_def)
  have u: "unat (of_nat (length s) :: u64) = length s"
    by (rule unat_of_nat64) (use in_d assms(2) in simp)
  have "of_nat (Suc ?q) + of_nat (length s) = (of_nat (Suc ?q + length s) :: u64)" by simp
  then have "unat (of_nat (Suc ?q) + of_nat (length s) :: u64) = Suc ?q + length s"
    by (simp only:) (rule unat_of_nat64, use in_d assms(2) in simp)
  then show ?thesis
    using q u in_d assms(3) sc by (simp add: parse_string_def Let_def bstr_def add.assoc)
qed

lemma of_nat_sint:
  "sint i < 0 \<Longrightarrow> - (of_nat (nat (- sint i))) = (i :: i64)"
  "0 \<le> sint i \<Longrightarrow> of_nat (nat (sint i)) = (i :: i64)"
  by simp_all

lemma parse_integer_digits:
  assumes "drop p d = ch CHR ''i'' # ds @ ch CHR ''e'' # rest"
    and "\<forall>x \<in> set ds. is_digit x" "ds \<noteq> []"
  shows "parse_integer d p = (of_nat (dec_val ds), p + length ds + 2)"
proof -
  have p: "p < length d" "d ! p = ch CHR ''i''" and at: "drop (Suc p) d = ds @ ch CHR ''e'' # rest"
    using drop_eq_Cons_nth [OF assms(1)] by auto
  have sc: "scan_digits d (Suc p) 0 = (of_nat (dec_val ds), Suc p + length ds)"
    using at assms(2) by (rule scan_digits_all) (simp add: is_digit_def)
  obtain x xs where x: "ds = x # xs" "is_digit x" using assms(2,3) by (cases ds) auto
  then have m: "Suc p < length d" "d ! Suc p = x" using drop_eq_Cons_nth [of "Suc p" d x] at by auto
  have "x \<noteq> ch CHR ''-''" using x(2) by (auto simp: is_digit_def)
  with p m sc drop_eq_Cons_nth [OF drop_eq_append [OF at]] show ?thesis
    by (simp add: parse_integer_def parse_advance_def Let_def)
qed

lemma parse_integer_dec [codec]:
  assumes "drop p d = ch CHR ''i'' # dec_int (sint i) @ ch CHR ''e'' # rest"
  shows "parse_integer d p = (i, p + length (dec_int (sint i)) + 2)"
proof (cases "sint i < 0")
  case True
  let ?n = "nat (- sint i)" and ?q = "Suc (Suc p)"
  have p: "p < length d" "d ! p = ch CHR ''i''"
    and at: "drop (Suc p) d = ch CHR ''-'' # dec ?n @ ch CHR ''e'' # rest"
    using drop_eq_Cons_nth [OF assms] True by (auto simp: dec_int_def)
  note m = drop_eq_Cons_nth [OF at]
  have sc: "scan_digits d ?q 0 = (of_nat ?n, ?q + length (dec ?n))"
    by (rule scan_digits_dec) (use m in \<open>auto simp: is_digit_def\<close>)
  note e = drop_eq_Cons_nth [OF drop_eq_append [OF conjunct2 [OF conjunct2 [OF m]]]]
  show ?thesis
    using p m sc e True of_nat_sint(1) [OF True]
    by (simp del: of_nat_nat add: parse_integer_def parse_advance_def Let_def dec_int_def)
next
  case False
  then show ?thesis
    using parse_integer_digits [of p d "dec (nat (sint i))" rest] assms dec_digits
    by (simp add: dec_int_def)
qed

lemma add_child_ok:
  assumes "mem_for mem d" "length cs \<le> length d"
  shows "\<exists>cap'. bcode_add_child mem cs cap c = (cs @ [c], cap', True)"
  using assms by (simp add: bcode_add_child_def mem_for_def ptr_size_def)

lemma new_node_ok: "mem_for mem d \<Longrightarrow> bcode_new_node mem"
  by (simp add: mem_for_def bcode_new_node_def node_size_def)

lemma bstr_head: "\<exists>c t. bstr s = c # t \<and> is_digit c"
proof -
  obtain c t where "dec (length s) = c # t" by (cases "dec (length s)") auto
  then show ?thesis using dec_digits [of "length s"] by (auto simp: bstr_def)
qed

lemma not_digit_marks [simp]:
  "\<not> is_digit (ch CHR ''e'')" "\<not> is_digit (ch CHR ''i'')"
  "\<not> is_digit (ch CHR ''l'')" "\<not> is_digit (ch CHR ''d'')"
  by (simp_all add: is_digit_def)

lemma benc_head: "\<exists>c t. benc v = c # t \<and> c \<noteq> ch CHR ''e''"
proof (cases v)
  case (BCODE_STR s)
  then show ?thesis using bstr_head [of s] not_digit_marks(1) by (metis benc.simps(1))
qed auto

definition parses_at :: "allocator \<Rightarrow> byte list \<Rightarrow> bcode_node \<Rightarrow> bool" where
  "parses_at mem d v \<longleftrightarrow>
     (\<forall>p rest n. drop p d = benc v @ rest \<longrightarrow> length d - p < n \<longrightarrow>
        parse_value mem n d p = Ok (v, p + length (benc v)))"

lemma list_loop_benc:
  assumes mem: "mem_for mem d" and "\<And>x. x \<in> set xs \<Longrightarrow> parses_at mem d x"
    and "drop p d = concat (map benc xs) @ ch CHR ''e'' # rest"
    and "length d - p < n" "length d - p < m" "length cs \<le> p"
  shows "list_loop mem (parse_value mem m) n d p cs cap =
         Ok (BCODE_LIST (cs @ xs), p + length (concat (map benc xs)) + 1)"
  using assms(2-)
proof (induction xs arbitrary: p n cs cap)
  case Nil
  then show ?case using drop_eq_Cons_nth [of p d "ch CHR ''e''" rest] by (cases n) auto
next
  case (Cons x xs)
  obtain c t where c: "benc x = c # t" "c \<noteq> ch CHR ''e''" using benc_head by blast
  have at: "drop p d = benc x @ concat (map benc xs) @ ch CHR ''e'' # rest"
    using Cons.prems(2) by simp
  have p: "p < length d" "d ! p = c" using drop_eq_Cons_nth [of p d c] at c(1) by auto
  have v: "parse_value mem m d p = Ok (x, p + length (benc x))"
    using Cons.prems(1) [of x] at Cons.prems(4) by (auto simp: parses_at_def)
  obtain n' where n: "n = Suc n'" using Cons.prems(3) by (cases n) auto
  obtain cap' where a: "bcode_add_child mem cs cap x = (cs @ [x], cap', True)"
    using add_child_ok [OF mem] Cons.prems(5) p(1) by (meson less_imp_le le_trans)
  have "list_loop mem (parse_value mem m) n' d (p + length (benc x)) (cs @ [x]) cap' =
        Ok (BCODE_LIST ((cs @ [x]) @ xs), p + length (benc x) + length (concat (map benc xs)) + 1)"
    by (rule Cons.IH) (use Cons.prems drop_eq_append [OF at] n c(1) p(1) in auto)
  then show ?case using n p c(2) v a by simp
qed

lemma dict_loop_benc:
  assumes mem: "mem_for mem d" and len: "length d < 2 ^ 63"
    and "\<And>k v. (k, v) \<in> set es \<Longrightarrow> parses_at mem d v"
    and "drop p d = concat (map (\<lambda>(k, v). bstr k @ benc v) es) @ ch CHR ''e'' # rest"
    and "length d - p < n" "length d - p < m" "length cs \<le> p"
  shows "dict_loop mem (parse_value mem m) n d p cs cap =
         Ok (BCODE_DICT (cs @ es), p + length (concat (map (\<lambda>(k, v). bstr k @ benc v) es)) + 1)"
  using assms(3-)
proof (induction es arbitrary: p n cs cap)
  case Nil
  then show ?case using drop_eq_Cons_nth [of p d "ch CHR ''e''" rest] by (cases n) auto
next
  case (Cons e es)
  obtain k x where e: "e = (k, x)" by fastforce
  obtain c t where c: "bstr k = c # t" "is_digit c" using bstr_head by blast
  let ?tl = "concat (map (\<lambda>(k, v). bstr k @ benc v) es) @ ch CHR ''e'' # rest"
  have at: "drop p d = bstr k @ benc x @ ?tl" using Cons.prems(2) e by simp
  let ?q = "p + length (bstr k)"
  note at2 = drop_eq_append [OF at]
  have p: "p < length d" "d ! p = c" using drop_eq_Cons_nth [of p d c] at c(1) by auto
  have "length k \<le> length d" using arg_cong [OF at, of length] by (simp add: bstr_def)
  then have "mem (length k)" using mem by (simp add: mem_for_def)
  then have s: "parse_string mem d p = Some (k, ?q)" by (rule parse_string_bstr [OF at len])
  have v: "parse_value mem m d ?q = Ok (x, ?q + length (benc x))"
    using Cons.prems(1) [of k x] at2 Cons.prems(4) e by (auto simp: parses_at_def)
  obtain n' where n: "n = Suc n'" using Cons.prems(3) by (cases n) auto
  obtain cap' where a: "bcode_add_child mem cs cap (k, x) = (cs @ [(k, x)], cap', True)"
    using add_child_ok [OF mem] Cons.prems(5) p(1) by (meson less_imp_le le_trans)
  have "dict_loop mem (parse_value mem m) n' d (?q + length (benc x)) (cs @ [(k, x)]) cap' =
        Ok (BCODE_DICT ((cs @ [(k, x)]) @ es), ?q + length (benc x) +
            length (concat (map (\<lambda>(k, v). bstr k @ benc v) es)) + 1)"
    by (rule Cons.IH) (use Cons.prems drop_eq_append [OF at2] n c(1) p(1) e in auto)
  moreover have "c \<noteq> ch CHR ''e''" using c(2) not_digit_marks(1) by metis
  ultimately show ?case
    using n p v a s e new_node_ok [OF mem] by (simp add: add.assoc)
qed

lemma parse_value_benc:
  assumes mem: "mem_for mem d" and len: "length d < 2 ^ 63"
  shows "parses_at mem d v"
proof (induction v)
  case (BCODE_STR s)
  show ?case
    unfolding parses_at_def
  proof (intro allI impI)
    fix p rest n assume at: "drop p d = benc (BCODE_STR s) @ rest" and "length d - p < n"
    then obtain n' where n: "n = Suc n'" by (cases n) auto
    obtain c t where c: "bstr s = c # t" "is_digit c" using bstr_head by blast
    have p: "p < length d" "d ! p = c" using drop_eq_Cons_nth [of p d c] at c(1) by auto
    have "length s \<le> length d" using arg_cong [OF at, of length] by (simp add: bstr_def)
    then have "parse_string mem d p = Some (s, p + length (bstr s))"
      using at mem by (intro parse_string_bstr [OF _ len]) (auto simp: mem_for_def)
    moreover have "c \<noteq> ch CHR ''i''" using c(2) not_digit_marks(2) by metis
    ultimately show "parse_value mem n d p = Ok (BCODE_STR s, p + length (benc (BCODE_STR s)))"
      using n p c(2) new_node_ok [OF mem] by (simp add: parse_peek_def)
  qed
next
  case (BCODE_INT i)
  show ?case
    unfolding parses_at_def
  proof (intro allI impI)
    fix p rest n assume at: "drop p d = benc (BCODE_INT i) @ rest" and "length d - p < n"
    then obtain n' where n: "n = Suc n'" by (cases n) auto
    have at': "drop p d = ch CHR ''i'' # dec_int (sint i) @ ch CHR ''e'' # rest" using at by simp
    show "parse_value mem n d p = Ok (BCODE_INT i, p + length (benc (BCODE_INT i)))"
      using n drop_eq_Cons_nth [OF at'] parse_integer_dec [OF at'] new_node_ok [OF mem]
      by (simp add: parse_peek_def)
  qed
next
  case (BCODE_LIST xs)
  show ?case
    unfolding parses_at_def
  proof (intro allI impI)
    fix p rest n assume at: "drop p d = benc (BCODE_LIST xs) @ rest" and f: "length d - p < n"
    then obtain n' where n: "n = Suc n'" by (cases n) auto
    have "drop p d = ch CHR ''l'' # concat (map benc xs) @ ch CHR ''e'' # rest" using at by simp
    note p = drop_eq_Cons_nth [OF this]
    have "list_loop mem (parse_value mem n') n' d (Suc p) [] 0 =
          Ok (BCODE_LIST ([] @ xs), Suc p + length (concat (map benc xs)) + 1)"
      by (rule list_loop_benc [OF mem BCODE_LIST.IH]) (use p n f in auto)
    then show "parse_value mem n d p = Ok (BCODE_LIST xs, p + length (benc (BCODE_LIST xs)))"
      using n p new_node_ok [OF mem]
      by (simp add: parse_peek_def parse_list_def parse_advance_def is_digit_def)
  qed
next
  case (BCODE_DICT es)
  have IH: "(k, v) \<in> set es \<Longrightarrow> parses_at mem d v" for k v
    using BCODE_DICT.IH [of "(k, v)" v] by simp
  show ?case
    unfolding parses_at_def
  proof (intro allI impI)
    let ?b = "concat (map (\<lambda>(k, v). bstr k @ benc v) es)"
    fix p rest n assume at: "drop p d = benc (BCODE_DICT es) @ rest" and f: "length d - p < n"
    then obtain n' where n: "n = Suc n'" by (cases n) auto
    have "drop p d = ch CHR ''d'' # ?b @ ch CHR ''e'' # rest" using at by simp
    note p = drop_eq_Cons_nth [OF this]
    have "dict_loop mem (parse_value mem n') n' d (Suc p) [] 0 =
          Ok (BCODE_DICT ([] @ es), Suc p + length ?b + 1)"
      by (rule dict_loop_benc [OF mem len IH]) (use p n f in auto)
    then show "parse_value mem n d p = Ok (BCODE_DICT es, p + length (benc (BCODE_DICT es)))"
      using n p new_node_ok [OF mem]
      by (simp add: parse_peek_def parse_dict_def parse_advance_def is_digit_def)
  qed
qed

lemma bcode_parse_benc:
  assumes "mem_for mem d" "length d < 2 ^ 63" "d = benc v @ rest"
  shows "bcode_parse mem d = Some v"
proof -
  have "parse_value mem (parse_fuel d 0) d 0 = Ok (v, 0 + length (benc v))"
    by (rule parse_value_benc [OF assms(1,2), unfolded parses_at_def, rule_format])
       (use assms(3) in \<open>auto simp: parse_fuel_def\<close>)
  moreover have "d \<noteq> []" using benc_head [of v] assms(3) by auto
  ultimately show ?thesis by (simp add: bcode_parse_def)
qed


section \<open>Fuel does not matter once it is enough\<close>

definition agree_from :: "value_parser \<Rightarrow> value_parser \<Rightarrow> byte list \<Rightarrow> bool" where
  "agree_from pv pv' d \<longleftrightarrow> (\<forall>q. pv d q \<noteq> Fuel \<longrightarrow> pv' d q = pv d q)"

lemma list_loop_mono:
  assumes "agree_from pv pv' d"
  shows "list_loop mem pv n d p cs cap \<noteq> Fuel \<Longrightarrow> n \<le> m \<Longrightarrow>
         list_loop mem pv' m d p cs cap = list_loop mem pv n d p cs cap"
proof (induction n arbitrary: m p cs cap)
  case (Suc n)
  then obtain m' where m: "m = Suc m'" "n \<le> m'" by (cases m) auto
  show ?case
    using Suc.prems(1) Suc.IH [OF _ m(2)] assms
    by (auto simp: m agree_from_def split: outcome.splits prod.splits if_splits)
qed simp

lemma dict_loop_mono:
  assumes "agree_from pv pv' d"
  shows "dict_loop mem pv n d p cs cap \<noteq> Fuel \<Longrightarrow> n \<le> m \<Longrightarrow>
         dict_loop mem pv' m d p cs cap = dict_loop mem pv n d p cs cap"
proof (induction n arbitrary: m p cs cap)
  case (Suc n)
  then obtain m' where m: "m = Suc m'" "n \<le> m'" by (cases m) auto
  show ?case
    using Suc.prems(1) Suc.IH [OF _ m(2)] assms
    by (auto simp: m agree_from_def split: outcome.splits prod.splits option.splits if_splits)
qed simp

lemma parse_value_mono:
  "n \<le> m \<Longrightarrow> agree_from (parse_value mem n) (parse_value mem m) d"
proof (induction n arbitrary: m)
  case 0
  show ?case by (simp add: agree_from_def)
next
  case (Suc n)
  then obtain m' where m: "m = Suc m'" "n \<le> m'" by (cases m) auto
  note ag = Suc.IH [OF m(2)]
  have "parse_list mem (parse_value mem n) n d q \<noteq> Fuel \<Longrightarrow>
        parse_list mem (parse_value mem m') m' d q = parse_list mem (parse_value mem n) n d q" for q
    using list_loop_mono [OF ag _ m(2)] by (auto simp: parse_list_def split: prod.splits if_splits)
  moreover have "parse_dict mem (parse_value mem n) n d q \<noteq> Fuel \<Longrightarrow>
        parse_dict mem (parse_value mem m') m' d q = parse_dict mem (parse_value mem n) n d q" for q
    using dict_loop_mono [OF ag _ m(2)] by (auto simp: parse_dict_def split: prod.splits if_splits)
  ultimately show ?case
    by (auto simp: agree_from_def m split: option.splits)
qed

section \<open>Inputs that are not canonical\<close>

lemma foldl_zeros: "foldl (\<lambda>a b. a * 10 + digit_val b) 0 (replicate z (ch CHR ''0'')) = 0"
  by (induction z) (simp_all add: digit_val_def)

lemma dec_val_zeros: "dec_val (replicate z (ch CHR ''0'') @ dec n) = n"
  using dec_val_dec [of n] unfolding dec_val_def foldl_append foldl_zeros .

lemma parse_integer_zeros:
  assumes "d = ch CHR ''i'' # replicate z (ch CHR ''0'') @ dec n @ [ch CHR ''e'']"
  shows "parse_integer d 0 = (of_nat n, length d)"
proof -
  let ?ds = "replicate z (ch CHR ''0'') @ dec n"
  have "drop 0 d = ch CHR ''i'' # ?ds @ ch CHR ''e'' # []" using assms by simp
  moreover have "\<forall>x \<in> set ?ds. is_digit x" using dec_digits by (auto simp: is_digit_def)
  ultimately have "parse_integer d 0 = (of_nat (dec_val ?ds), 0 + length ?ds + 2)"
    by (rule parse_integer_digits) simp
  then show ?thesis unfolding dec_val_zeros using assms by simp
qed

lemma dec_zero_head: "dec k = ch CHR ''0'' # t \<Longrightarrow> t = []"
proof (induction k arbitrary: t rule: dec.induct)
  case (1 k)
  show ?case
  proof (cases "k < 10")
    case True
    with 1(2) show ?thesis by (subst (asm) dec.simps) simp
  next
    case False
    then have k: "dec (k div 10) @ [of_nat (48 + k mod 10)] = ch CHR ''0'' # t"
      using 1(2) by (subst (asm) dec.simps) (simp del: of_nat_add)
    then obtain t' where "dec (k div 10) = ch CHR ''0'' # t'" by (cases "dec (k div 10)") auto
    with 1(1) [OF False this] have "dec_val (dec (k div 10)) = 0"
      by (simp add: dec_val_def digit_val_def)
    with False show ?thesis by simp
  qed
qed

lemma dec_int_zero_head: "dec_int i = ch CHR ''0'' # t \<Longrightarrow> t = []"
  using dec_zero_head [of "nat i" t] by (simp add: dec_int_def split: if_splits)

section \<open>Properties\<close>

text \<open>
  C11.  The parser terminates on every buffer, whatever the allocator does: with one unit of fuel
  more than there are bytes left, \<open>parse_value\<close> returns a node or \<open>NULL\<close>, and any larger fuel
  gives the same result.  A node ends strictly after the position where it starts, so neither the
  list loop nor the dictionary loop can run without consuming input.
\<close>

theorem bcode_parser_terminates:
  assumes "parse_fuel d p \<le> n"
  shows "parse_value mem n d p \<noteq> Fuel \<and>
         parse_value mem n d p = parse_value mem (parse_fuel d p) d p \<and>
         (\<forall>v q. parse_value mem n d p = Ok (v, q) \<longrightarrow> p < q)"
  using assms parse_value_enough [of d p "parse_fuel d p" mem]
    parse_value_enough [of d p n mem] parse_value_mono [OF assms, of mem d]
  by (auto simp: parse_fuel_def agree_from_def)

theorem bcode_parser_terminates_witness:
  "parse_value (\<lambda>_. True) 9 (bytes ''i7e'') 0 =
   parse_value (\<lambda>_. True) (parse_fuel (bytes ''i7e'') 0) (bytes ''i7e'') 0"
proof -
  have "parse_fuel (bytes ''i7e'') 0 \<le> 9" by (simp add: parse_fuel_def)
  from bcode_parser_terminates [OF this, of "\<lambda>_. True"] show ?thesis by blast
qed

text \<open>
  C10.  The parser never reads outside its buffer.  Under the documented limit of \<open>malloc\<close> (no
  request beyond \<open>PTRDIFF_MAX\<close> succeeds), the declared length that wraps \<open>st->pos + slen\<close> around
  is refused; every string that \<open>parse_string\<close> returns has exactly the declared length, is the
  slice of the buffer right after the colon, and ends inside the buffer; and every node ends inside
  the buffer.
\<close>

theorem bcode_parser_in_bounds:
  assumes "malloc_limit mem" "length d < 2 ^ 63"
  shows "(\<forall>p s p'. parse_string mem d p = Some (s, p') \<longrightarrow>
            length s = unat (fst (scan_digits d p 0)) \<and> p + length s < p' \<and> p' \<le> length d \<and>
            s = take (length s) (drop (p' - length s) d)) \<and>
         (\<forall>n p v q. parse_value mem n d p = Ok (v, q) \<longrightarrow> q \<le> length d)"
  using parse_string_bounds [OF assms] parse_value_ends [OF assms]
  by (fastforce simp: ends_in_def)

theorem bcode_parser_in_bounds_witness:
  "parse_string (\<lambda>n. n < 100) (bytes ''3:abcd'') 0 = Some (bytes ''abc'', 5) \<and>
   (5::nat) \<le> length (bytes ''3:abcd'')"
proof -
  have s: "parse_string (\<lambda>n. n < 100) (bytes ''3:abcd'') 0 = Some (bytes ''abc'', 5)"
    by code_simp
  show ?thesis
    using s bcode_parser_in_bounds [of "\<lambda>n. n < 100" "bytes ''3:abcd''"]
    by (simp add: malloc_limit_def)
qed

text \<open>
  C8.  Parsing inverts encoding: what \<open>bcode_encode\<close> writes for a tree is parsed back to the same
  tree (all 64-bit integers included, and with any bytes after it), provided the allocator grants
  the requests an input of that size makes.
\<close>

theorem bcode_roundtrip:
  assumes "bcode_encode mem' v = Some bs" "mem_for mem (bs @ rest)" "length (bs @ rest) < 2 ^ 63"
  shows "bcode_parse mem (bs @ rest) = Some v"
  using bcode_parse_benc [OF assms(2,3)] bcode_encode_benc [OF assms(1)] by blast

theorem bcode_roundtrip_witness:
  "bcode_encode (\<lambda>_. True) (BCODE_DICT [(bytes ''a'', BCODE_LIST [BCODE_INT (- 5), BCODE_STR []])])
     = Some (bytes ''d1:ali-5e0:ee'') \<and>
   bcode_parse (\<lambda>n. n < 1000) (bytes ''d1:ali-5e0:ee'' @ [7]) =
     Some (BCODE_DICT [(bytes ''a'', BCODE_LIST [BCODE_INT (- 5), BCODE_STR []])])"
proof -
  have e: "bcode_encode (\<lambda>_. True)
      (BCODE_DICT [(bytes ''a'', BCODE_LIST [BCODE_INT (- 5), BCODE_STR []])])
     = Some (bytes ''d1:ali-5e0:ee'')" by code_simp
  from bcode_roundtrip [OF e, of "\<lambda>n. n < 1000" "[7]"] e show ?thesis
    by (simp add: mem_for_def)
qed

text \<open>
  The encoder implements the format within its buffer: from any buffer whose contents fit its
  capacity, encoding a node either fails, which needs a refused allocation, or appends exactly the
  bencoding of the node and still fits the capacity of the (possibly grown) buffer.
\<close>

theorem bcode_encode_in_capacity:
  assumes "length (ob_data b) \<le> ob_cap b"
  shows "case bcode_encode_node mem v b of
           Some b' \<Rightarrow> ob_data b' = ob_data b @ benc v \<and> length (ob_data b') \<le> ob_cap b'
         | None \<Rightarrow> \<exists>n. \<not> mem n"
  using appends_node [of mem v, unfolded appends_def in_cap_def, rule_format, OF assms] .

theorem bcode_encode_in_capacity_witness:
  "case bcode_encode_node (\<lambda>n. n < 100) (BCODE_INT 3) \<lparr>ob_data = [1], ob_cap = 2\<rparr> of
     Some b' \<Rightarrow> ob_data b' = ob_data \<lparr>ob_data = [1], ob_cap = 2\<rparr> @ benc (BCODE_INT 3) \<and>
                 length (ob_data b') \<le> ob_cap b'
   | None \<Rightarrow> \<exists>n::nat. \<not> n < 100"
  by (rule bcode_encode_in_capacity) simp

text \<open>
  Re-encoding is not exact on every accepted input: an integer with any number of leading
  zeros is parsed to the node of the canonical one, so the parser maps different inputs to one tree
  and \<open>bcode_encode\<close> cannot reproduce the bytes that were read.
\<close>

theorem reencode_drops_leading_zeros:
  assumes "mem_for mem d" "0 < z"
    and d: "d = ch CHR ''i'' # replicate z (ch CHR ''0'') @ dec n @ [ch CHR ''e'']"
  shows "bcode_parse mem d = Some (BCODE_INT (of_nat n)) \<and>
         bcode_encode mem' (BCODE_INT (of_nat n)) \<noteq> Some d"
proof
  obtain z' where z': "z = Suc z'" using assms(2) by (cases z) auto
  have "parse_integer d 0 = (of_nat n, length d)"
    using d by (rule parse_integer_zeros)
  then show "bcode_parse mem d = Some (BCODE_INT (of_nat n))"
    using new_node_ok [OF assms(1)] d
    by (simp add: bcode_parse_def parse_fuel_def parse_peek_def)
  show "bcode_encode mem' (BCODE_INT (of_nat n)) \<noteq> Some d"
  proof
    assume "bcode_encode mem' (BCODE_INT (of_nat n)) = Some d"
    then have "dec_int (sint (of_nat n :: i64)) = ch CHR ''0'' # replicate z' (ch CHR ''0'') @ dec n"
      using bcode_encode_benc d z' by fastforce
    from dec_int_zero_head [OF this] show False by simp
  qed
qed

theorem reencode_drops_leading_zeros_witness:
  "bcode_parse (\<lambda>n. n < 1000) (bytes ''i007e'') = Some (BCODE_INT 7) \<and>
   bcode_encode (\<lambda>_. True) (BCODE_INT 7) \<noteq> Some (bytes ''i007e'')"
proof -
  have "bytes ''i007e'' = ch CHR ''i'' # replicate 2 (ch CHR ''0'') @ dec 7 @ [ch CHR ''e'']"
    by code_simp
  from reencode_drops_leading_zeros [OF _ _ this, of "\<lambda>n. n < 1000"] show ?thesis
    by (simp add: mem_for_def)
qed


text \<open>
  A refused children array goes unnoticed: \<open>parse_list\<close> and \<open>parse_dict\<close> ignore the return
  code of \<open>bcode_add_child\<close>, so where the allocator refuses the first array of eight pointers but
  grants the nodes, every list of integers is accepted as the empty list.
\<close>

lemma list_loop_drops:
  assumes "mem node_size" "\<not> mem (8 * ptr_size)" "length d < 2 ^ 63"
    and "drop p d = concat (map (benc \<circ> BCODE_INT) is) @ ch CHR ''e'' # rest"
    and "length d - p < n" "0 < m"
  shows "\<exists>q. list_loop mem (parse_value mem m) n d p [] 0 = Ok (BCODE_LIST [], q)"
  using assms(4,5)
proof (induction "is" arbitrary: p n)
  case Nil
  then show ?case using drop_eq_Cons_nth [of p d "ch CHR ''e''" rest] by (cases n) auto
next
  case (Cons i "is")
  let ?tl = "concat (map (benc \<circ> BCODE_INT) is) @ ch CHR ''e'' # rest"
  have at: "drop p d = ch CHR ''i'' # dec_int (sint i) @ ch CHR ''e'' # ?tl"
    using Cons.prems(1) by (simp add: comp_def)
  let ?q = "p + length (dec_int (sint i)) + 2"
  note p = drop_eq_Cons_nth [OF at]
  obtain m' where m: "m = Suc m'" using assms(6) by (cases m) auto
  obtain n' where n: "n = Suc n'" using Cons.prems(2) by (cases n) auto
  have v: "parse_value mem m d p = Ok (BCODE_INT i, ?q)"
    using p m parse_integer_dec [OF at] assms(1) by (simp add: parse_peek_def bcode_new_node_def)
  have "drop ?q d = ?tl"
    using drop_eq_append [of p d "ch CHR ''i'' # dec_int (sint i) @ [ch CHR ''e'']" ?tl] at by simp
  moreover have "length d - ?q < n'" using Cons.prems(2) n p by linarith
  ultimately obtain q where "list_loop mem (parse_value mem m) n' d ?q [] 0 = Ok (BCODE_LIST [], q)"
    using Cons.IH by blast
  then show ?case
    using p n v assms(2) by (simp add: bcode_add_child_def)
qed

theorem refused_children_dropped:
  assumes "mem node_size" "\<not> mem (8 * ptr_size)"
    and "length (benc (BCODE_LIST (map BCODE_INT is))) < 2 ^ 63"
  shows "bcode_parse mem (benc (BCODE_LIST (map BCODE_INT is))) = Some (BCODE_LIST [])"
proof -
  let ?d = "benc (BCODE_LIST (map BCODE_INT is))"
  have at: "drop (Suc 0) ?d = concat (map (benc \<circ> BCODE_INT) is) @ ch CHR ''e'' # []" by simp
  have f: "length ?d - Suc 0 < length ?d" "0 < length ?d" by simp_all
  obtain q where "list_loop mem (parse_value mem (length ?d)) (length ?d) ?d (Suc 0) [] 0 =
      Ok (BCODE_LIST [], q)"
    using list_loop_drops [OF assms at f] by blast
  then show ?thesis
    using assms(1)
    by (simp add: bcode_parse_def parse_fuel_def parse_peek_def parse_list_def parse_advance_def
                  bcode_new_node_def is_digit_def)
qed

theorem refused_children_dropped_witness:
  "bcode_parse (\<lambda>n. n = 72) (bytes ''li1ei2ee'') = Some (BCODE_LIST [])"
proof -
  have "bytes ''li1ei2ee'' = benc (BCODE_LIST (map BCODE_INT [1, 2]))" by code_simp
  moreover have "bcode_parse (\<lambda>n. n = 72) (benc (BCODE_LIST (map BCODE_INT [1, 2]))) =
      Some (BCODE_LIST [])"
    by (rule refused_children_dropped)
      (simp_all add: node_size_def ptr_size_def dec.simps dec_int_def)
  ultimately show ?thesis by (simp only:)
qed

end
