(* ===== verification/Torrent.thy ===== *)
theory Torrent
  imports "HOL-Library.Monad_Syntax" Sha1 Bencode
begin

text \<open>
  \<open>src/torrent.c\<close>: the metainfo of a \<open>.torrent\<close> file.  A \<open>char *\<close> member and the length member
  beside it are one optional byte list; the members that hold lengths are kept where the code reads
  them back.  \<open>torrent_parse\<close> is split at its comments into one definition per key, and composed in
  the order of the code; \<open>NULL\<close> is \<open>None\<close>, and \<open>torrent_free\<close> has no counterpart.
\<close>

section \<open>Data\<close>

definition SHA1_DIGEST_SIZE :: nat where "SHA1_DIGEST_SIZE = 20"
definition MAX_TORRENT_FILES :: nat where "MAX_TORRENT_FILES = 1024"
definition INT64_MAX :: i64 where "INT64_MAX = 0x7FFFFFFFFFFFFFFF"

record torrent_file =
  tf_path :: "byte list option"
  tf_path_len :: nat
  tf_length :: i64

record torrent =
  t_announce :: "byte list option"
  t_announce_len :: nat
  t_announce_list :: "byte list list"
  t_web_seeds :: "byte list list"
  t_info_dict_raw :: "byte list"
  t_info_hash :: "byte list"
  t_name :: "byte list option"
  t_name_len :: nat
  t_piece_length :: i64
  t_pieces :: "byte list option"
  t_pieces_len :: nat
  t_num_pieces :: nat
  t_is_multi_file :: bool
  t_total_size :: i64
  t_length :: i64
  t_file_name :: "byte list option"
  t_files :: "torrent_file list"

text \<open>\<open>calloc (1, sizeof (torrent_t))\<close>, and the sizes it and the array of files ask for.\<close>

definition torrent_zero :: torrent where
  "torrent_zero =
     \<lparr>t_announce = None, t_announce_len = 0, t_announce_list = [], t_web_seeds = [],
      t_info_dict_raw = [], t_info_hash = replicate 20 0, t_name = None, t_name_len = 0,
      t_piece_length = 0, t_pieces = None, t_pieces_len = 0, t_num_pieces = 0,
      t_is_multi_file = False, t_total_size = 0, t_length = 0, t_file_name = None, t_files = []\<rparr>"

definition sizeof_torrent :: nat where "sizeof_torrent = 184"
definition sizeof_file :: nat where "sizeof_file = 24"

section \<open>Parsing\<close>

text \<open>\<open>malloc (len + 1)\<close> and a copy with a final NUL.\<close>

definition dup_str :: "allocator \<Rightarrow> byte list \<Rightarrow> byte list option" where
  "dup_str mem s = (if mem (length s + 1) then Some s else None)"

definition parse_announce :: "allocator \<Rightarrow> bcode_node \<Rightarrow> torrent \<Rightarrow> torrent" where
  "parse_announce mem root t =
     (case bcode_str_val (bcode_dict_get (Some root) (bytes ''announce'')) of
        None \<Rightarrow> t
      | Some s \<Rightarrow> (case dup_str mem s of
            None \<Rightarrow> t
          | Some a \<Rightarrow> t\<lparr>t_announce := Some a, t_announce_len := length s\<rparr>))"

text \<open>\<open>node->child_count\<close> of a list, 0 for the other nodes that the counting loop skips.\<close>

definition tier_count :: "bcode_node list \<Rightarrow> nat" where
  "tier_count tiers = sum_list (map (\<lambda>n. bcode_list_len (Some n)) tiers)"

fun add_tier :: "allocator \<Rightarrow> nat \<Rightarrow> bcode_node list \<Rightarrow> byte list list \<Rightarrow> byte list list" where
  "add_tier mem count [] acc = acc"
| "add_tier mem count (u # us) acc =
     (if count \<le> length acc then acc
      else case Option.bind (bcode_str_val (Some u)) (dup_str mem) of
             Some s \<Rightarrow> add_tier mem count us (acc @ [s])
           | None \<Rightarrow> add_tier mem count us acc)"

fun add_tiers :: "allocator \<Rightarrow> nat \<Rightarrow> bcode_node list \<Rightarrow> byte list list \<Rightarrow> byte list list" where
  "add_tiers mem count [] acc = acc"
| "add_tiers mem count (BCODE_LIST us # ns) acc =
     (if count \<le> length acc then acc
      else add_tiers mem count ns (add_tier mem count us acc))"
| "add_tiers mem count (_ # ns) acc =
     (if count \<le> length acc then acc else add_tiers mem count ns acc)"

definition parse_announce_list :: "allocator \<Rightarrow> bcode_node \<Rightarrow> torrent \<Rightarrow> torrent option" where
  "parse_announce_list mem root t =
     (case bcode_dict_get (Some root) (bytes ''announce-list'') of
        Some (BCODE_LIST tiers) \<Rightarrow>
          let count = tier_count tiers
          in if count = 0 then Some t
             else if \<not> mem (count * ptr_size) then None
             else Some (t\<lparr>t_announce_list := add_tiers mem count tiers []\<rparr>)
      | _ \<Rightarrow> Some t)"

text \<open>The strings of the \<open>url-list\<close>; an empty one is skipped, a failed copy ends the parse.\<close>

fun add_seeds :: "allocator \<Rightarrow> bcode_node list \<Rightarrow> byte list list \<Rightarrow> byte list list option" where
  "add_seeds mem [] acc = Some acc"
| "add_seeds mem (u # us) acc =
     (case bcode_str_val (Some u) of
        None \<Rightarrow> add_seeds mem us acc
      | Some s \<Rightarrow> if length s = 0 then add_seeds mem us acc
                  else Option.bind (dup_str mem s) (\<lambda>s. add_seeds mem us (acc @ [s])))"

definition is_str :: "bcode_node \<Rightarrow> bool" where
  "is_str n = (bcode_str_val (Some n) \<noteq> None)"

definition parse_web_seeds :: "allocator \<Rightarrow> bcode_node \<Rightarrow> torrent \<Rightarrow> torrent option" where
  "parse_web_seeds mem root t =
     (case bcode_dict_get (Some root) (bytes ''url-list'') of
        Some (BCODE_STR s) \<Rightarrow>
          if 0 < length s
          then if \<not> mem ptr_size then None
               else map_option (\<lambda>s. t\<lparr>t_web_seeds := [s]\<rparr>) (dup_str mem s)
          else Some t
      | Some (BCODE_LIST us) \<Rightarrow>
          let count = length (filter is_str us)
          in if count = 0 then Some t
             else if \<not> mem (count * ptr_size) then None
             else map_option (\<lambda>ss. t\<lparr>t_web_seeds := ss\<rparr>) (add_seeds mem us [])
      | _ \<Rightarrow> Some t)"

definition parse_info_hash :: "allocator \<Rightarrow> bcode_node \<Rightarrow> torrent \<Rightarrow> torrent option" where
  "parse_info_hash mem info t =
     do { raw \<leftarrow> bcode_encode mem info;
          Some (t\<lparr>t_info_dict_raw := raw, t_info_hash := sha1_hash raw\<rparr>) }"

definition parse_name :: "allocator \<Rightarrow> bcode_node \<Rightarrow> torrent \<Rightarrow> torrent" where
  "parse_name mem info t =
     (case bcode_str_val (bcode_dict_get (Some info) (bytes ''name'')) of
        None \<Rightarrow> t
      | Some s \<Rightarrow> (case dup_str mem s of
            None \<Rightarrow> t | Some n \<Rightarrow> t\<lparr>t_name := Some n, t_name_len := length s\<rparr>))"

definition parse_piece_length :: "bcode_node \<Rightarrow> torrent \<Rightarrow> torrent" where
  "parse_piece_length info t =
     t\<lparr>t_piece_length := bcode_int_val (bcode_dict_get (Some info) (bytes ''piece length''))\<rparr>"

definition parse_pieces :: "allocator \<Rightarrow> bcode_node \<Rightarrow> torrent \<Rightarrow> torrent" where
  "parse_pieces mem info t =
     (case bcode_dict_get (Some info) (bytes ''pieces'') of
        Some (BCODE_STR s) \<Rightarrow>
          if mem (length s)
          then t\<lparr>t_pieces := Some s, t_pieces_len := length s,
                 t_num_pieces := length s div SHA1_DIGEST_SIZE\<rparr>
          else t
      | _ \<Rightarrow> t)"

text \<open>
  The path of a file: the components joined with a slash.  A component that is no string counts as
  empty.  \<open>path_total\<close> is the length the code allocates (plus one) before it copies.
\<close>

definition component :: "bcode_node \<Rightarrow> byte list" where
  "component n = (case bcode_str_val (Some n) of Some s \<Rightarrow> s | None \<Rightarrow> [])"

fun path_total :: "bcode_node list \<Rightarrow> nat" where
  "path_total [] = 0"
| "path_total [c] = length (component c)"
| "path_total (c # cs) = length (component c) + 1 + path_total cs"

fun join_path :: "bcode_node list \<Rightarrow> byte list" where
  "join_path [] = []"
| "join_path [c] = component c"
| "join_path (c # cs) = component c @ ch CHR ''/'' # join_path cs"

definition parse_path :: "allocator \<Rightarrow> bcode_node \<Rightarrow> torrent_file \<Rightarrow> torrent_file" where
  "parse_path mem fentry f =
     (case bcode_dict_get (Some fentry) (bytes ''path'') of
        Some (BCODE_LIST cs) \<Rightarrow>
          if mem (path_total cs + 1)
          then f\<lparr>tf_path := Some (join_path cs), tf_path_len := length (join_path cs)\<rparr>
          else f
      | _ \<Rightarrow> f)"

definition file_zero :: torrent_file where
  "file_zero = \<lparr>tf_path = None, tf_path_len = 0, tf_length = 0\<rparr>"

text \<open>The loop over the \<open>files\<close>, with the entries read so far and the running total.\<close>

fun parse_files ::
  "allocator \<Rightarrow> bcode_node list \<Rightarrow> torrent_file list \<Rightarrow> i64 \<Rightarrow> (torrent_file list \<times> i64) option" where
  "parse_files mem [] acc tot = Some (acc, tot)"
| "parse_files mem (BCODE_DICT es # ns) acc tot =
     (let fentry = BCODE_DICT es;
          len = bcode_int_val (bcode_dict_get (Some fentry) (bytes ''length''))
      in if len <s 0 \<or> INT64_MAX - tot <s len then None
         else parse_files mem ns (acc @ [parse_path mem fentry (file_zero\<lparr>tf_length := len\<rparr>)])
                (tot + len))"
| "parse_files mem (_ # ns) acc tot = parse_files mem ns (acc @ [file_zero]) tot"

definition parse_layout :: "allocator \<Rightarrow> bcode_node \<Rightarrow> torrent \<Rightarrow> torrent option" where
  "parse_layout mem info t =
     (case bcode_dict_get (Some info) (bytes ''files'') of
        Some (BCODE_LIST ns) \<Rightarrow>
          if MAX_TORRENT_FILES < length ns then None
          else if \<not> mem (length ns * sizeof_file) then None
          else map_option (\<lambda>(fs, tot). t\<lparr>t_is_multi_file := True, t_files := fs, t_total_size := tot\<rparr>)
                 (parse_files mem ns [] 0)
      | _ \<Rightarrow>
          let len = bcode_int_val (bcode_dict_get (Some info) (bytes ''length''));
              t = t\<lparr>t_is_multi_file := False, t_length := len, t_total_size := len\<rparr>
          in case bcode_dict_get (Some info) (bytes ''name'') of
               Some (BCODE_STR s) \<Rightarrow> Some (t\<lparr>t_file_name := dup_str mem s\<rparr>)
             | _ \<Rightarrow> Some t)"

text \<open>
  The final check.  The quotient is the unsigned one of the code; the signed remainder is written
  unsigned too, since both numbers are positive when it is computed.
\<close>

definition torrent_valid :: "torrent \<Rightarrow> bool" where
  "torrent_valid t \<longleftrightarrow>
     \<not> (t_name t = None \<or> t_pieces t = None \<or> t_piece_length t \<le>s 0 \<or> t_total_size t \<le>s 0 \<or>
        t_pieces_len t mod SHA1_DIGEST_SIZE \<noteq> 0 \<or>
        of_nat (t_num_pieces t) \<noteq>
          t_total_size t div t_piece_length t +
            (if t_total_size t mod t_piece_length t \<noteq> 0 then 1 else 0))"

definition is_dict :: "bcode_node \<Rightarrow> bool" where
  "is_dict n = (case n of BCODE_DICT _ \<Rightarrow> True | _ \<Rightarrow> False)"

definition torrent_parse :: "allocator \<Rightarrow> byte list \<Rightarrow> torrent option" where
  "torrent_parse mem data =
     (if data = [] then None
      else do {
        root \<leftarrow> bcode_parse mem data;
        if \<not> is_dict root \<or> \<not> mem sizeof_torrent then None
        else do {
          t \<leftarrow> parse_announce_list mem root (parse_announce mem root torrent_zero);
          t \<leftarrow> parse_web_seeds mem root t;
          info \<leftarrow> bcode_dict_get (Some root) (bytes ''info'');
          if \<not> is_dict info then None
          else do {
            t \<leftarrow> parse_info_hash mem info t;
            t \<leftarrow> parse_layout mem info
                   (parse_pieces mem info (parse_piece_length info (parse_name mem info t)));
            if torrent_valid t then Some t else None
          }
        }
      })"

text \<open>
  \<open>torrent_parse_file\<close>: the file's bytes are \<open>None\<close> where \<open>fopen\<close> fails, and \<open>nread\<close> is what
  \<open>fread\<close> delivers of them.
\<close>

definition torrent_parse_file :: "allocator \<Rightarrow> byte list option \<Rightarrow> nat \<Rightarrow> torrent option" where
  "torrent_parse_file mem file nread =
     do { bs \<leftarrow> file;
          if length bs = 0 \<or> \<not> mem (length bs) then None
          else if nread \<noteq> length bs then None
          else torrent_parse mem bs }"

text \<open>\<open>sprintf (buf + 2 * i, "%02x", info_hash[i])\<close> for the twenty bytes.\<close>

definition torrent_info_hash_str :: "torrent \<Rightarrow> byte list" where
  "torrent_info_hash_str t =
     concat (map (\<lambda>c. [hex_hi hex_lower c, hex_lo hex_lower c])
                 (take SHA1_DIGEST_SIZE (t_info_hash t)))"

section \<open>Signed arithmetic\<close>

lemma sint_add_exact:
  fixes a b :: i64
  assumes "- (2 ^ 63) \<le> sint a + sint b" "sint a + sint b < 2 ^ 63"
  shows "sint (a + b) = sint a + sint b"
  using assms by (simp add: sint_word_ariths signed_take_bit_int_eq_self)

lemma sint_room:
  fixes tot :: i64
  assumes "0 \<le> sint tot" shows "sint (INT64_MAX - tot) = 2 ^ 63 - 1 - sint tot"
proof -
  have m: "sint INT64_MAX = 2 ^ 63 - 1" by (simp add: INT64_MAX_def)
  have "sint tot < 2 ^ 63" using sint_lt [of tot] by simp
  with assms m show ?thesis by (simp add: sint_word_ariths signed_take_bit_int_eq_self)
qed

lemma sint_total:
  fixes tot len :: i64
  assumes "0 \<le> sint tot" "\<not> len <s 0" "\<not> INT64_MAX - tot <s len"
  shows "sint (tot + len) = sint tot + sint len \<and> 0 \<le> sint len"
  using assms sint_add_exact [of tot len] sint_room [of tot]
  by (simp add: word_sless_alt)

lemma unat_sint:
  assumes "0 \<le> sint (w :: i64)" shows "int (unat w) = sint w"
proof -
  have "uint w = uint (word_of_int (sint w) :: i64)" by simp
  also have "\<dots> = sint w mod 2 ^ 64" by (simp add: uint_word_of_int del: of_int_sint)
  also have "\<dots> = sint w" using assms sint_lt [of w] by (intro mod_pos_pos_trivial) simp_all
  finally show ?thesis by simp
qed

section \<open>What a parsed torrent satisfies\<close>

definition sum_lengths :: "torrent_file list \<Rightarrow> int" where
  "sum_lengths fs = sum_list (map (\<lambda>f. sint (tf_length f)) fs)"

lemma parse_path_length [simp]: "tf_length (parse_path mem n f) = tf_length f"
  by (simp add: parse_path_def split: option.split bcode_node.split)

lemma parse_files_total:
  assumes "parse_files mem ns acc tot = Some (fs, tot')"
    and "sint tot = sum_lengths acc" "\<forall>f \<in> set acc. 0 \<le> sint (tf_length f)"
  shows "sint tot' = sum_lengths fs \<and> (\<forall>f \<in> set fs. 0 \<le> sint (tf_length f)) \<and>
         length fs = length acc + length ns"
  using assms
proof (induction mem ns acc tot rule: parse_files.induct)
  case (2 mem es ns acc tot)
  let ?len = "bcode_int_val (bcode_dict_get (Some (BCODE_DICT es)) (bytes ''length''))"
  have "0 \<le> sint tot" using "2.prems"(2,3) by (auto simp: sum_lengths_def intro!: sum_list_nonneg)
  then have "sint (tot + ?len) = sint tot + sint ?len \<and> 0 \<le> sint ?len"
    using "2.prems"(1) by (intro sint_total) (auto simp: Let_def split: if_splits)
  then show ?case
    using 2 by (auto simp: Let_def sum_lengths_def file_zero_def split: if_splits)
qed (auto simp: sum_lengths_def file_zero_def)

text \<open>
  The contract of \<open>torrent_parse\<close>: a name and whole digests, positive sizes, exactly as many digests
  as pieces of the given length cover the content, and files that add up to it.
\<close>

definition torrent_wf :: "torrent \<Rightarrow> bool" where
  "torrent_wf t \<longleftrightarrow>
     t_name t \<noteq> None \<and>
     (\<exists>ps. t_pieces t = Some ps \<and> length ps = 20 * t_num_pieces t) \<and>
     0 < sint (t_piece_length t) \<and> 0 < sint (t_total_size t) \<and>
     t_num_pieces t =
       (nat (sint (t_total_size t)) + nat (sint (t_piece_length t)) - 1)
         div nat (sint (t_piece_length t)) \<and>
     (if t_is_multi_file t
      then length (t_files t) \<le> MAX_TORRENT_FILES \<and>
           (\<forall>f \<in> set (t_files t). 0 \<le> sint (tf_length f)) \<and>
           sum_lengths (t_files t) = sint (t_total_size t)
      else t_files t = [] \<and> t_length t = t_total_size t)"

lemma div_ceiling:
  assumes "0 < (p :: nat)"
  shows "n div p + (if n mod p \<noteq> 0 then 1 else 0) = (n + p - 1) div p"
proof (cases "n mod p = 0")
  case True
  then obtain k where k: "n = p * k" by (auto elim: dvdE)
  have "p * k + p - 1 = (p - 1) + p * k" using assms by simp
  also have "\<dots> div p = k" using assms by (subst div_mult_self2) simp_all
  finally show ?thesis using k assms by simp
next
  case False
  have "n + p - 1 = (n mod p - 1) + p * (n div p + 1)"
    using False mult_div_mod_eq [of p n] unfolding distrib_left mult_1_right by linarith
  also have "\<dots> div p = n div p + 1"
    using assms mod_less_divisor [OF assms, of n] by (subst div_mult_self2) (auto intro: div_less)
  finally show ?thesis using False by simp
qed

text \<open>The members of the torrent that carry the check, read off the composition of the parser.\<close>

definition pieces_ok :: "torrent \<Rightarrow> bool" where
  "pieces_ok t \<longleftrightarrow> (\<forall>ps. t_pieces t = Some ps \<longrightarrow>
     t_pieces_len t = length ps \<and> t_num_pieces t = length ps div 20 \<and> length ps < 2 ^ 63)"

definition layout_ok :: "torrent \<Rightarrow> bool" where
  "layout_ok t \<longleftrightarrow>
     (if t_is_multi_file t
      then length (t_files t) \<le> MAX_TORRENT_FILES \<and>
           (\<forall>f \<in> set (t_files t). 0 \<le> sint (tf_length f)) \<and>
           sum_lengths (t_files t) = sint (t_total_size t)
      else t_files t = [] \<and> t_length t = t_total_size t)"

lemma valid_wf:
  assumes v: "torrent_valid t" and p: "pieces_ok t" and l: "layout_ok t"
  shows "torrent_wf t"
proof -
  obtain ps where ps: "t_pieces t = Some ps" "length ps mod 20 = 0" "t_num_pieces t = length ps div 20"
      "length ps < 2 ^ 63"
    using v p by (auto simp: torrent_valid_def pieces_ok_def SHA1_DIGEST_SIZE_def)
  have pos: "0 < sint (t_piece_length t)" "0 < sint (t_total_size t)"
    using v by (auto simp: torrent_valid_def word_sle_eq)
  let ?T = "unat (t_total_size t)" and ?P = "unat (t_piece_length t)"
  have T: "nat (sint (t_total_size t)) = ?T" "nat (sint (t_piece_length t)) = ?P" "0 < ?P"
    using pos unat_sint [of "t_total_size t"] unat_sint [of "t_piece_length t"] by linarith+
  have "?T < 2 ^ 63" using T(1) sint_lt [of "t_total_size t"] by simp
  with div_le_dividend have "?T div ?P < 2 ^ 63" by (rule le_less_trans)
  then have q: "?T div ?P + 1 < 2 ^ 64" by simp
  have "of_nat (t_num_pieces t) =
      (of_nat (?T div ?P + (if ?T mod ?P \<noteq> 0 then 1 else 0)) :: i64)"
  proof -
    have "t_total_size t div t_piece_length t = of_nat (?T div ?P)"
      by (simp add: word_arith_nat_div)
    moreover have "t_total_size t mod t_piece_length t \<noteq> 0 \<longleftrightarrow> ?T mod ?P \<noteq> 0"
      by (metis unat_eq_zero unat_mod_distrib)
    ultimately show ?thesis using v by (simp add: torrent_valid_def)
  qed
  then have "unat (of_nat (t_num_pieces t) :: i64) =
      unat (of_nat (?T div ?P + (if ?T mod ?P \<noteq> 0 then 1 else 0)) :: i64)" by simp
  then have "t_num_pieces t = ?T div ?P + (if ?T mod ?P \<noteq> 0 then 1 else 0)"
    using q ps(3,4) by (subst (asm) (1 2) unat_of_nat64) auto
  then show ?thesis
    using v l ps pos T div_ceiling [of ?P ?T]
    by (auto simp: torrent_wf_def torrent_valid_def layout_ok_def)
qed

text \<open>The keys read before the layout leave the layout members of the zeroed structure alone.\<close>

definition untouched :: "torrent \<Rightarrow> bool" where
  "untouched t \<longleftrightarrow> t_files t = [] \<and> t_pieces t = None"

lemma untouched_zero: "untouched torrent_zero"
  by (simp add: untouched_def torrent_zero_def)

lemma untouched_announce: "untouched t \<Longrightarrow> untouched (parse_announce mem root t)"
  by (simp add: untouched_def parse_announce_def split: option.split)

lemma untouched_announce_list:
  "parse_announce_list mem root t = Some t' \<Longrightarrow> untouched t \<Longrightarrow> untouched t'"
  by (auto simp: untouched_def parse_announce_list_def Let_def
           split: option.splits bcode_node.splits if_splits)

lemma untouched_web_seeds:
  "parse_web_seeds mem root t = Some t' \<Longrightarrow> untouched t \<Longrightarrow> untouched t'"
  by (auto simp: untouched_def parse_web_seeds_def Let_def
           split: option.splits bcode_node.splits if_splits)

lemma untouched_info_hash:
  "parse_info_hash mem info t = Some t' \<Longrightarrow> untouched t \<Longrightarrow> untouched t'"
  by (auto simp: untouched_def parse_info_hash_def bind_eq_Some_conv)

lemma untouched_name: "untouched t \<Longrightarrow> untouched (parse_name mem info t)"
  by (simp add: untouched_def parse_name_def split: option.split)

lemma untouched_piece_length: "untouched t \<Longrightarrow> untouched (parse_piece_length info t)"
  by (simp add: untouched_def parse_piece_length_def)

lemma pieces_ok_pieces:
  "malloc_limit mem \<Longrightarrow> untouched t \<Longrightarrow>
   pieces_ok (parse_pieces mem info t) \<and> t_files (parse_pieces mem info t) = []"
  by (auto simp: untouched_def pieces_ok_def parse_pieces_def SHA1_DIGEST_SIZE_def malloc_limit_def
           split: option.split bcode_node.split)

lemma layout_facts:
  assumes "parse_layout mem info t = Some t'" "pieces_ok t" "t_files t = []"
  shows "pieces_ok t' \<and> layout_ok t' \<and> t_info_hash t' = t_info_hash t \<and>
         t_info_dict_raw t' = t_info_dict_raw t"
proof (cases "\<exists>ns. bcode_dict_get (Some info) (bytes ''files'') = Some (BCODE_LIST ns)")
  case True
  then obtain ns where ns: "bcode_dict_get (Some info) (bytes ''files'') = Some (BCODE_LIST ns)" ..
  then obtain fs tot where r: "parse_files mem ns [] 0 = Some (fs, tot)"
      "t' = t\<lparr>t_is_multi_file := True, t_files := fs, t_total_size := tot\<rparr>"
      "length ns \<le> MAX_TORRENT_FILES"
    using assms(1) by (auto simp: parse_layout_def split: if_splits)
  have "sint tot = sum_lengths fs \<and> (\<forall>f \<in> set fs. 0 \<le> sint (tf_length f)) \<and> length fs = length ns"
    using parse_files_total [OF r(1)] by (simp add: sum_lengths_def)
  then show ?thesis using r assms(2) by (simp add: layout_ok_def pieces_ok_def)
next
  case False
  then have "\<not> t_is_multi_file t' \<and> t_files t' = t_files t \<and> t_length t' = t_total_size t' \<and>
      t_pieces t' = t_pieces t \<and> t_pieces_len t' = t_pieces_len t \<and>
      t_num_pieces t' = t_num_pieces t \<and> t_info_hash t' = t_info_hash t \<and>
      t_info_dict_raw t' = t_info_dict_raw t"
    using assms(1)
    by (auto simp: parse_layout_def Let_def split: option.splits bcode_node.splits)
  then show ?thesis using assms(2,3) by (auto simp: layout_ok_def pieces_ok_def)
qed

lemma torrent_parse_steps:
  assumes "torrent_parse mem d = Some t"
  obtains root info t1 t2 raw where
    "bcode_parse mem d = Some root" "bcode_dict_get (Some root) (bytes ''info'') = Some info"
    "untouched t1" "bcode_encode mem info = Some raw"
    "t2 = t1\<lparr>t_info_dict_raw := raw, t_info_hash := sha1_hash raw\<rparr>"
    "parse_layout mem info
       (parse_pieces mem info (parse_piece_length info (parse_name mem info t2))) = Some t"
    "torrent_valid t"
proof -
  from assms obtain root info t0 t1 raw where st:
    "bcode_parse mem d = Some root" "bcode_dict_get (Some root) (bytes ''info'') = Some info"
    "parse_announce_list mem root (parse_announce mem root torrent_zero) = Some t0"
    "parse_web_seeds mem root t0 = Some t1" "bcode_encode mem info = Some raw"
    "parse_layout mem info (parse_pieces mem info (parse_piece_length info (parse_name mem info
       (t1\<lparr>t_info_dict_raw := raw, t_info_hash := sha1_hash raw\<rparr>)))) = Some t"
    "torrent_valid t"
    by (auto simp: torrent_parse_def bind_eq_Some_conv parse_info_hash_def split: if_splits)
  have "untouched t1"
    using untouched_web_seeds [OF st(4) untouched_announce_list [OF st(3)
            untouched_announce [OF untouched_zero]]] .
  from that [OF st(1,2) this st(5) refl st(6,7)] show ?thesis .
qed

lemma info_hash_kept:
  "t_info_hash (parse_pieces mem info (parse_piece_length info (parse_name mem info t))) = t_info_hash t"
  "t_info_dict_raw (parse_pieces mem info (parse_piece_length info (parse_name mem info t))) =
     t_info_dict_raw t"
  by (simp_all add: parse_pieces_def parse_piece_length_def parse_name_def
           split: option.split bcode_node.split)

lemma torrent_parse_facts:
  assumes "torrent_parse mem d = Some t" "malloc_limit mem"
  shows "torrent_wf t"
    and "\<exists>root info. bcode_parse mem d = Some root \<and>
           bcode_dict_get (Some root) (bytes ''info'') = Some info \<and>
           t_info_dict_raw t = benc info \<and> t_info_hash t = sha1_hash (benc info)"
proof -
  from assms(1) obtain root info t1 t2 raw where st:
    "bcode_parse mem d = Some root" "bcode_dict_get (Some root) (bytes ''info'') = Some info"
    "untouched t1" "bcode_encode mem info = Some raw"
    "t2 = t1\<lparr>t_info_dict_raw := raw, t_info_hash := sha1_hash raw\<rparr>"
    "parse_layout mem info
       (parse_pieces mem info (parse_piece_length info (parse_name mem info t2))) = Some t"
    "torrent_valid t"
    by (rule torrent_parse_steps)
  have "untouched t2" using st(3,5) by (simp add: untouched_def)
  note lay = layout_facts [OF st(6)]
    pieces_ok_pieces [OF assms(2) untouched_piece_length [OF untouched_name [OF this]]]
  then show "torrent_wf t" using valid_wf st(7) by blast
  have "raw = benc info" using st(4) by (rule bcode_encode_benc)
  then show "\<exists>root info. bcode_parse mem d = Some root \<and>
           bcode_dict_get (Some root) (bytes ''info'') = Some info \<and>
           t_info_dict_raw t = benc info \<and> t_info_hash t = sha1_hash (benc info)"
    using st(1,2,5) lay info_hash_kept [of mem info t2] by auto
qed

section \<open>Copies stay in their arrays\<close>

lemma join_path_total: "length (join_path cs) = path_total cs"
  by (induction cs rule: join_path.induct) auto

lemma add_tier_bound: "length acc \<le> count \<Longrightarrow> length (add_tier mem count us acc) \<le> count"
  by (induction us arbitrary: acc) (auto split: option.split)

lemma add_tiers_bound: "length acc \<le> count \<Longrightarrow> length (add_tiers mem count ns acc) \<le> count"
  by (induction mem count ns acc rule: add_tiers.induct) (auto intro: add_tier_bound)

text \<open>With memory enough no URL is lost to the bound: it is never reached before the last one.\<close>

lemma add_tier_all:
  "\<forall>n. mem n \<Longrightarrow> length acc + length us \<le> count \<Longrightarrow>
   add_tier mem count us acc = acc @ map component (filter is_str us)"
  by (induction us arbitrary: acc)
     (auto simp: dup_str_def is_str_def component_def split: option.split)

fun tier_urls :: "bcode_node \<Rightarrow> byte list list" where
  "tier_urls (BCODE_LIST us) = map component (filter is_str us)"
| "tier_urls _ = []"

lemma tier_urls_le: "length (tier_urls n) \<le> bcode_list_len (Some n)"
  by (cases n) simp_all

lemma tier_urls_none: "tier_count ns = 0 \<Longrightarrow> concat (map tier_urls ns) = []"
  by (induction ns)
     (auto simp: tier_count_def, metis le_zero_eq length_0_conv tier_urls_le)

lemma tier_urls_full:
  "m + tier_count ns \<le> count \<Longrightarrow> count \<le> m \<Longrightarrow> concat (map tier_urls ns) = []"
  by (rule tier_urls_none) linarith

lemma tier_count_Cons [simp]:
  "tier_count [] = 0" "tier_count (n # ns) = bcode_list_len (Some n) + tier_count ns"
  by (simp_all add: tier_count_def)

lemma add_tiers_all:
  "\<forall>n. mem n \<Longrightarrow> length acc + tier_count ns \<le> count \<Longrightarrow>
   add_tiers mem count ns acc = acc @ concat (map tier_urls ns)"
proof (induction mem count ns acc rule: add_tiers.induct)
  case (2 mem count us ns acc)
  have u: "length (map component (filter is_str us)) \<le> length us" by simp
  show ?case
  proof (cases "count \<le> length acc")
    case True
    then have "tier_count (BCODE_LIST us # ns) = 0" using "2.prems"(2) by linarith
    then have "us = []" "tier_count ns = 0" by simp_all
    then show ?thesis using True tier_urls_none [of ns] by simp
  next
    case False
    then show ?thesis
      using 2 u by (simp add: add_tier_all del: length_map)
  qed
qed (simp_all del: concat_eq_Nil_conv, (blast intro: tier_urls_full)+)

lemma add_seeds_bound:
  "add_seeds mem us acc = Some ss \<Longrightarrow> length ss \<le> length acc + length (filter is_str us)"
  by (induction us arbitrary: acc)
     (fastforce simp: is_str_def bind_eq_Some_conv split: option.splits if_splits)+

section \<open>The info hash of a canonical file\<close>

lemma find_key_split:
  "find_key es k = Some v \<Longrightarrow> \<exists>xs ys. es = xs @ (k, v) # ys"
proof (induction es)
  case (Cons e es)
  obtain k' v' where e: "e = (k', v')" by fastforce
  show ?case
  proof (cases "k' = k")
    case True
    with Cons.prems e have "e # es = [] @ (k, v) # es" by simp
    then show ?thesis by blast
  next
    case False
    with Cons e obtain xs ys where "es = xs @ (k, v) # ys" by auto
    then have "e # es = (e # xs) @ (k, v) # ys" by simp
    then show ?thesis by blast
  qed
qed simp

lemma dict_get_slice:
  assumes "bcode_dict_get (Some root) k = Some v"
  shows "\<exists>pre post. benc root = pre @ benc v @ post"
proof -
  obtain es where es: "root = BCODE_DICT es" using assms by (cases root) auto
  then obtain xs ys where "es = xs @ (k, v) # ys" using assms find_key_split by fastforce
  then show ?thesis using es by simp (metis append.assoc append_Cons)
qed

section \<open>Properties\<close>

text \<open>
  C7.  Whatever bytes \<open>torrent_parse\<close> accepts, the result satisfies the contract of the
  downloader: the sizes are positive, there are exactly as many 20-byte digests as pieces are needed
  to cover the content, there are at most 1024 files, none of negative length, and their lengths add
  up, without overflow, to the total size.
\<close>

theorem parsed_torrent_wf:
  assumes "malloc_limit mem" "torrent_parse mem d = Some t"
  shows "torrent_wf t"
  using assms(2,1) by (rule torrent_parse_facts)

text \<open>A torrent of one file, \<open>a\<close>, of five bytes in pieces of four.\<close>

definition demo_info :: bcode_node where
  "demo_info = BCODE_DICT
     [(bytes ''length'', BCODE_INT 5), (bytes ''name'', BCODE_STR (bytes ''a'')),
      (bytes ''piece length'', BCODE_INT 4), (bytes ''pieces'', BCODE_STR (replicate 40 7))]"

definition demo_root :: bcode_node where
  "demo_root = BCODE_DICT [(bytes ''announce'', BCODE_STR (bytes ''udp://t'')), (bytes ''info'', demo_info)]"

definition demo_mem :: allocator where
  "demo_mem = (\<lambda>n. n < 2500)"

definition demo_torrent :: torrent where
  "demo_torrent =
     torrent_zero\<lparr>t_announce := Some (bytes ''udp://t''), t_announce_len := 7,
       t_info_dict_raw := benc demo_info, t_info_hash := sha1_hash (benc demo_info),
       t_name := Some (bytes ''a''), t_name_len := 1, t_piece_length := 4,
       t_pieces := Some (replicate 40 7), t_pieces_len := 40, t_num_pieces := 2,
       t_total_size := 5, t_length := 5, t_file_name := Some (bytes ''a'')\<rparr>"

lemma demo_encode: "bcode_encode demo_mem demo_info = Some (benc demo_info)"
  by code_simp

lemma demo_length: "length (benc demo_root) = 118"
  by code_simp

lemma demo_mem_for: "length d \<le> 150 \<Longrightarrow> mem_for demo_mem d"
  by (auto simp: mem_for_def demo_mem_def)

lemma demo_limit: "malloc_limit demo_mem"
  by (simp add: malloc_limit_def demo_mem_def)

lemma demo_keys:
  "is_dict demo_root" "is_dict demo_info"
  "bcode_dict_get (Some demo_root) (bytes ''announce'') = Some (BCODE_STR (bytes ''udp://t''))"
  "bcode_dict_get (Some demo_root) (bytes ''announce-list'') = None"
  "bcode_dict_get (Some demo_root) (bytes ''url-list'') = None"
  "bcode_dict_get (Some demo_root) (bytes ''info'') = Some demo_info"
  "bcode_dict_get (Some demo_info) (bytes ''name'') = Some (BCODE_STR (bytes ''a''))"
  "bcode_dict_get (Some demo_info) (bytes ''piece length'') = Some (BCODE_INT 4)"
  "bcode_dict_get (Some demo_info) (bytes ''pieces'') = Some (BCODE_STR (replicate 40 7))"
  "bcode_dict_get (Some demo_info) (bytes ''files'') = None"
  "bcode_dict_get (Some demo_info) (bytes ''length'') = Some (BCODE_INT 5)"
  by (simp_all add: demo_root_def demo_info_def is_dict_def)

lemma demo_room: "n < 2500 \<Longrightarrow> demo_mem n" "demo_mem sizeof_torrent"
  by (simp_all add: demo_mem_def sizeof_torrent_def)

lemma demo_parse: "torrent_parse demo_mem (benc demo_root) = Some demo_torrent"
proof -
  have "bcode_parse demo_mem (benc demo_root) = Some demo_root"
    using bcode_parse_benc [of demo_mem "benc demo_root" demo_root "[]"] demo_mem_for demo_length
    by simp
  moreover have "benc demo_root \<noteq> []" using demo_length by auto
  ultimately show ?thesis
    using demo_encode
    by (simp add: torrent_parse_def demo_keys demo_room parse_announce_def parse_announce_list_def
          parse_web_seeds_def parse_info_hash_def parse_name_def parse_piece_length_def
          parse_pieces_def parse_layout_def dup_str_def demo_torrent_def torrent_zero_def
          torrent_valid_def SHA1_DIGEST_SIZE_def Let_def word_sle_eq del: bytes_Cons)
qed

lemma demo_wf: "torrent_wf demo_torrent"
  using torrent_parse_facts(1) [OF demo_parse demo_limit] .

theorem parsed_torrent_wf_witness:
  "torrent_parse demo_mem (benc demo_root) = Some demo_torrent \<and> torrent_wf demo_torrent"
  using parsed_torrent_wf [OF demo_limit demo_parse] demo_parse by simp

text \<open>
  C12.  The info hash.  Of any accepted file it is the SHA-1 (of FIPS 180-4) of the canonical
  encoding of the value under \<open>info\<close>; and where the file is itself in canonical form, possibly
  with trailing bytes, that is the SHA-1 of the very slice of the file that holds the dictionary.
\<close>

theorem info_hash_of_file:
  assumes "malloc_limit mem" "torrent_parse mem d = Some t"
  shows "\<exists>root info. bcode_parse mem d = Some root \<and>
           bcode_dict_get (Some root) (bytes ''info'') = Some info \<and>
           t_info_hash t = fips_sha1 (benc info) \<and>
           (\<forall>v rest. d = benc v @ rest \<longrightarrow> mem_for mem d \<longrightarrow> length d < 2 ^ 63 \<longrightarrow>
              v = root \<and> (\<exists>pre post. d = pre @ benc info @ post))"
proof -
  obtain root info where r: "bcode_parse mem d = Some root"
    "bcode_dict_get (Some root) (bytes ''info'') = Some info" "t_info_hash t = sha1_hash (benc info)"
    using torrent_parse_facts(2) [OF assms(2,1)] by blast
  have "v = root \<and> (\<exists>pre post. d = pre @ benc info @ post)"
    if "d = benc v @ rest" "mem_for mem d" "length d < 2 ^ 63" for v rest
  proof -
    have "v = root" using bcode_parse_benc [OF that(2,3,1)] r(1) by simp
    moreover obtain pre post where "benc root = pre @ benc info @ post"
      using dict_get_slice [OF r(2)] by blast
    ultimately show ?thesis using that(1) by (metis append.assoc)
  qed
  with r show ?thesis by (auto simp: sha1_hash_fips)
qed

theorem info_hash_of_file_witness:
  "\<exists>info. bcode_dict_get (Some demo_root) (bytes ''info'') = Some info \<and>
     t_info_hash demo_torrent = fips_sha1 (benc info)"
  using info_hash_of_file [OF demo_limit demo_parse]
    bcode_parse_benc [of demo_mem "benc demo_root" demo_root "[]"] demo_mem_for demo_length
  by auto

text \<open>
  The copies that \<open>torrent_parse\<close> makes fit the arrays it allocates for them: the joined path
  has the length that was counted, the tracker URLs are at most as many as the pointers reserved
  (and, while memory lasts, none of them is left out), and so are the web seeds.
\<close>

theorem parsed_copies_fit:
  "length (join_path cs) = path_total cs \<and>
   length (add_tiers mem (tier_count ns) ns []) \<le> tier_count ns \<and>
   add_tiers (\<lambda>_. True) (tier_count ns) ns [] = concat (map tier_urls ns) \<and>
   (case add_seeds mem us [] of None \<Rightarrow> True | Some ss \<Rightarrow> length ss \<le> length (filter is_str us))"
  using add_seeds_bound [of mem us "[]"]
  by (simp add: join_path_total add_tiers_bound add_tiers_all split: option.split)

section \<open>The sizes of the pieces\<close>

text \<open>\<open>torrent_piece_size\<close> of \<open>src/torrent_mgr.c\<close>, in its 64-bit arithmetic.\<close>

definition torrent_piece_size :: "torrent \<Rightarrow> nat \<Rightarrow> nat" where
  "torrent_piece_size t index =
     (if t_num_pieces t \<le> index then 0
      else let size = t_piece_length t;
               size = (if index = t_num_pieces t - 1 then t_total_size t - of_nat index * size else size)
           in unat size)"

lemma wf_nat:
  assumes "torrent_wf t"
  obtains T P where "sint (t_total_size t) = int T" "sint (t_piece_length t) = int P"
    "unat (t_total_size t) = T" "unat (t_piece_length t) = P" "0 < T" "0 < P" "T < 2 ^ 63"
    "t_num_pieces t = (T + P - 1) div P"
proof -
  have pos: "0 < sint (t_total_size t)" "0 < sint (t_piece_length t)"
    using assms by (auto simp: torrent_wf_def)
  have u: "int (unat (t_total_size t)) = sint (t_total_size t)"
      "int (unat (t_piece_length t)) = sint (t_piece_length t)"
    using unat_sint [OF less_imp_le [OF pos(1)]] unat_sint [OF less_imp_le [OF pos(2)]] by blast+
  then have "unat (t_total_size t) < 2 ^ 63" using sint_lt [of "t_total_size t"] by (simp del: of_nat_unat)
  moreover have "nat (sint (t_total_size t)) = unat (t_total_size t)"
      "nat (sint (t_piece_length t)) = unat (t_piece_length t)" using u by linarith+
  ultimately show ?thesis
    using that [of "unat (t_total_size t)" "unat (t_piece_length t)"] u pos assms
    by (simp add: torrent_wf_def)
qed

lemma ceiling_bounds:
  assumes "0 < (P :: nat)" "0 < T" "n = (T + P - 1) div P"
  shows "0 < n" "(n - 1) * P < T" "T \<le> n * P"
proof -
  show n: "0 < n" using assms by (simp add: div_greater_zero_iff)
  have "n * P \<le> T + P - 1" using assms(3) by simp
  then show "(n - 1) * P < T" using assms(1,2) n by (simp add: diff_mult_distrib)
  have "n * P = (T + P - 1) div P * P" using assms(3) by simp
  then have "T + P - 1 < n * P + P" using mod_less_divisor [OF assms(1), of "T + P - 1"]
      div_mult_mod_eq [of "T + P - 1" P] by linarith
  then show "T \<le> n * P" using assms(1) by linarith
qed

lemma piece_size_eq:
  assumes "torrent_wf t" "unat (t_total_size t) = T" "unat (t_piece_length t) = P" "i < t_num_pieces t"
  shows "torrent_piece_size t i = min P (T - i * P)" "i * P < T"
proof -
  obtain T' P' where w: "unat (t_total_size t) = T'" "unat (t_piece_length t) = P'" "0 < T'" "0 < P'"
      "T' < 2 ^ 63" "t_num_pieces t = (T' + P' - 1) div P'"
    using wf_nat [OF assms(1)] by metis
  note T = w [unfolded assms(2,3)]
  have b: "(t_num_pieces t - 1) * P < T" "T \<le> t_num_pieces t * P"
    using ceiling_bounds [of P T "t_num_pieces t"] T by auto
  have "i * P \<le> (t_num_pieces t - 1) * P" using assms(4) by (intro mult_right_mono) auto
  then show lt: "i * P < T" using b by linarith
  show "torrent_piece_size t i = min P (T - i * P)"
  proof (cases "i = t_num_pieces t - 1")
    case True
    have "t_total_size t = of_nat T" "t_piece_length t = of_nat P" using assms(2,3) by auto
    then have "t_total_size t - of_nat i * t_piece_length t = of_nat (T - i * P)"
      using lt by (simp add: of_nat_diff)
    moreover have "unat (of_nat (T - i * P) :: i64) = T - i * P"
      by (rule unat_of_nat64) (use T(1,5) in simp)
    moreover have "\<not> t_num_pieces t \<le> i" using assms(4) by simp
    ultimately have "torrent_piece_size t i = T - i * P"
      using True by (simp only: torrent_piece_size_def Let_def if_not_P if_P if_False)
    moreover have "T - i * P \<le> P" using b(2) True assms(4) by (simp add: diff_mult_distrib)
    ultimately show ?thesis by simp
  next
    case False
    then have "Suc i * P \<le> (t_num_pieces t - 1) * P"
      using assms(4) by (intro mult_right_mono) auto
    then have "P \<le> T - i * P" using b(1) by simp
    then show ?thesis using False assms(3,4) by (simp add: torrent_piece_size_def)
  qed
qed

lemma sum_min_blocks:
  "(\<Sum>i < n. min P (T - i * P)) = min (n * P) (T :: nat)"
  by (induction n) (auto simp: min_def)

text \<open>
  C20.  The pieces tile the content: every piece of an accepted torrent is non-empty and at most one
  piece length, the 64-bit computation of the last one's size does not wrap, piece \<open>i\<close> ends inside
  the content, and the sizes add up to the total size.
\<close>

theorem pieces_tile_content:
  assumes "torrent_wf t"
  shows "(\<forall>i < t_num_pieces t.
             0 < torrent_piece_size t i \<and>
             int (torrent_piece_size t i) \<le> sint (t_piece_length t) \<and>
             int i * sint (t_piece_length t) + int (torrent_piece_size t i) \<le> sint (t_total_size t)) \<and>
         (\<Sum>i < t_num_pieces t. int (torrent_piece_size t i)) = sint (t_total_size t)"
proof -
  obtain T P where w: "sint (t_total_size t) = int T" "sint (t_piece_length t) = int P"
      "unat (t_total_size t) = T" "unat (t_piece_length t) = P" "0 < T" "0 < P"
      "t_num_pieces t = (T + P - 1) div P"
    by (rule wf_nat [OF assms])
  note sz = piece_size_eq [OF assms w(3,4)]
  have "(\<Sum>i < t_num_pieces t. torrent_piece_size t i) = (\<Sum>i < t_num_pieces t. min P (T - i * P))"
    using sz by simp
  also have "\<dots> = T"
    using ceiling_bounds(3) [OF w(6,5,7)] by (simp add: sum_min_blocks)
  finally have "(\<Sum>i < t_num_pieces t. int (torrent_piece_size t i)) = int T"
    by (simp flip: of_nat_sum)
  moreover have "0 < min P (T - i * P) \<and> min P (T - i * P) \<le> P \<and>
      int i * int P + int (min P (T - i * P)) \<le> int T" if "i * P < T" for i
  proof -
    have "i * P + min P (T - i * P) \<le> T" using that by simp
    then have "int i * int P + int (min P (T - i * P)) \<le> int T"
      by (metis of_nat_add of_nat_le_iff of_nat_mult)
    then show ?thesis using that w(6) by simp
  qed
  ultimately show ?thesis using sz w(1,2,6) by simp
qed

theorem pieces_tile_content_witness:
  "(\<Sum>i < t_num_pieces demo_torrent. int (torrent_piece_size demo_torrent i)) = 5"
  using pieces_tile_content [OF demo_wf]
  by (simp add: demo_torrent_def)

end
