(* ===== verification/PieceMgr.thy ===== *)
theory PieceMgr
  imports Complex_Main Sha1
begin

text \<open>
  \<open>src/piece_mgr.c\<close>: which pieces of a torrent are free, requested, complete or failed, the
  choice of the next piece to download, and the verification of a downloaded piece against its
  SHA-1 digest.

  Counts and indexes (\<open>size_t\<close>) are naturals; the \<open>int\<close> that \<open>piece_mgr_get_next\<close> returns is
  the signed reading of the low 32 bits of the index.  A \<open>NULL\<close> array is \<open>None\<close>; the operations
  dereference it without a test, as the code does, so nothing is claimed of them there.  A peer's
  bitfield and its length are one optional list.
\<close>

section \<open>State\<close>

datatype piece_state = PIECE_FREE | PIECE_REQUESTED | PIECE_COMPLETE | PIECE_FAILED

record piece_t =
  pc_index :: u32
  pc_state :: piece_state
  pc_hash :: "byte list"
  pc_num_blocks :: "32 word"
  pc_blocks_done :: "32 word"

record piece_mgr =
  pm_pieces :: "piece_t list option"
  pm_num_pieces :: nat
  pm_piece_length :: "64 word"
  pm_total_size :: "64 word"
  pm_num_complete :: nat
  pm_num_failed :: nat
  pm_bitfield :: "byte list option"
  pm_bitfield_len :: nat
  pm_expected_hashes :: "byte list option"

text \<open>The zeroed structure that \<open>memset (pm, 0, sizeof (piece_mgr_t))\<close> leaves.\<close>

definition pm_zero :: piece_mgr where
  "pm_zero = \<lparr>pm_pieces = None, pm_num_pieces = 0, pm_piece_length = 0, pm_total_size = 0,
              pm_num_complete = 0, pm_num_failed = 0, pm_bitfield = None, pm_bitfield_len = 0,
              pm_expected_hashes = None\<rparr>"

definition piece_size_of :: nat where "piece_size_of = 36"

section \<open>Operations\<close>

text \<open>The \<open>i\<close>-th entry of the initialisation loop: the digest is copied when one is given.\<close>

definition init_piece :: "byte list option \<Rightarrow> nat \<Rightarrow> piece_t" where
  "init_piece hs i =
     \<lparr>pc_index = of_nat i, pc_state = PIECE_FREE,
      pc_hash = (case hs of None \<Rightarrow> replicate 20 0 | Some h \<Rightarrow> take 20 (drop (i * 20) h)),
      pc_num_blocks = 0, pc_blocks_done = 0\<rparr>"

definition piece_mgr_init ::
  "allocator \<Rightarrow> nat \<Rightarrow> 64 word \<Rightarrow> 64 word \<Rightarrow> byte list option \<Rightarrow> piece_mgr" where
  "piece_mgr_init mem num_pieces piece_length total_size expected_hashes =
     (let pm = pm_zero\<lparr>pm_num_pieces := num_pieces, pm_piece_length := piece_length,
                       pm_total_size := total_size, pm_expected_hashes := expected_hashes\<rparr>;
          bf_len = (num_pieces + 7) div 8;
          pm = pm\<lparr>pm_bitfield_len := bf_len\<rparr>
      in if \<not> mem (num_pieces * piece_size_of) \<or> \<not> mem bf_len then pm
         else pm\<lparr>pm_pieces := Some (map (init_piece expected_hashes) [0..<num_pieces]),
                 pm_bitfield := Some (replicate bf_len 0)\<rparr>)"

definition piece_at :: "piece_mgr \<Rightarrow> nat \<Rightarrow> piece_t" where
  "piece_at pm i = the (pm_pieces pm) ! i"

definition state_at :: "piece_mgr \<Rightarrow> nat \<Rightarrow> piece_state" where
  "state_at pm i = pc_state (piece_at pm i)"

text \<open>\<open>pm->pieces[i].state = s\<close>.\<close>

definition set_state :: "nat \<Rightarrow> piece_state \<Rightarrow> piece_mgr \<Rightarrow> piece_mgr" where
  "set_state i s pm =
     pm\<lparr>pm_pieces := map_option (\<lambda>ps. ps[i := (ps ! i)\<lparr>pc_state := s\<rparr>]) (pm_pieces pm)\<rparr>"

text \<open>The mask \<open>1 << (7 - i % 8)\<close> of piece \<open>i\<close> in byte \<open>i / 8\<close>.\<close>

definition bit_mask :: "nat \<Rightarrow> byte" where
  "bit_mask i = push_bit (7 - i mod 8) 1"

definition has_bit :: "byte list \<Rightarrow> nat \<Rightarrow> bool" where
  "has_bit bf i \<longleftrightarrow> bf ! (i div 8) AND bit_mask i \<noteq> 0"

definition piece_mgr_is_done :: "piece_mgr \<Rightarrow> bool" where
  "piece_mgr_is_done pm = (pm_num_pieces pm \<le> pm_num_complete pm)"

text \<open>The peer test: a piece is skipped when its byte is inside the bitfield and its bit is 0.\<close>

definition peer_lacks :: "byte list option \<Rightarrow> nat \<Rightarrow> bool" where
  "peer_lacks bitfield idx =
     (case bitfield of None \<Rightarrow> False
      | Some bf \<Rightarrow> idx div 8 < length bf \<and> \<not> has_bit bf idx)"

primrec next_from :: "piece_mgr \<Rightarrow> byte list option \<Rightarrow> nat \<Rightarrow> nat list \<Rightarrow> int" where
  "next_from pm bitfield start [] = - 1"
| "next_from pm bitfield start (i # is) =
     (let idx = (start + i) mod pm_num_pieces pm
      in if state_at pm idx \<noteq> PIECE_FREE then next_from pm bitfield start is
         else if peer_lacks bitfield idx then next_from pm bitfield start is
         else sint (of_nat idx :: u32))"

definition piece_mgr_get_next :: "piece_mgr \<Rightarrow> byte list option \<Rightarrow> int" where
  "piece_mgr_get_next pm bitfield =
     (if piece_mgr_is_done pm then - 1
      else next_from pm bitfield 0 [0..<pm_num_pieces pm])"

definition piece_mgr_request :: "piece_mgr \<Rightarrow> nat \<Rightarrow> piece_mgr" where
  "piece_mgr_request pm index =
     (if pm_num_pieces pm \<le> index then pm else set_state index PIECE_REQUESTED pm)"

definition set_have :: "nat \<Rightarrow> piece_mgr \<Rightarrow> piece_mgr" where
  "set_have i pm =
     (if i div 8 < pm_bitfield_len pm
      then pm\<lparr>pm_bitfield := map_option (\<lambda>bf. bf[i div 8 := bf ! (i div 8) OR bit_mask i])
                               (pm_bitfield pm)\<rparr>
      else pm)"

definition piece_mgr_complete :: "piece_mgr \<Rightarrow> nat \<Rightarrow> byte list \<Rightarrow> int \<times> piece_mgr" where
  "piece_mgr_complete pm index data =
     (if pm_num_pieces pm \<le> index then (- 1, pm)
      else if sha1_hash data \<noteq> pc_hash (piece_at pm index)
      then (- 1, set_state index PIECE_FAILED pm)
      else let pm = set_state index PIECE_COMPLETE pm;
               pm = pm\<lparr>pm_num_complete := pm_num_complete pm + 1\<rparr>
           in (0, set_have index pm))"

definition piece_mgr_failed :: "piece_mgr \<Rightarrow> nat \<Rightarrow> piece_mgr" where
  "piece_mgr_failed pm index =
     (if pm_num_pieces pm \<le> index then pm else set_state index PIECE_FAILED pm)"

text \<open>The quotient, before the code rounds it to a \<open>float\<close>.\<close>

definition piece_mgr_progress :: "piece_mgr \<Rightarrow> rat" where
  "piece_mgr_progress pm =
     (if pm_num_pieces pm = 0 then 0
      else of_nat (pm_num_complete pm) / of_nat (pm_num_pieces pm))"

definition piece_mgr_destroy :: "piece_mgr \<Rightarrow> piece_mgr" where
  "piece_mgr_destroy pm = pm_zero"

text \<open>
  The guarded reset of \<open>release_piece\<close>, \<open>collect_web_seed\<close> and \<open>schedule_web_seed_one\<close> in
  \<open>src/torrent_mgr.c\<close>, which the owner of a requested piece applies to hand it back.
\<close>

definition piece_release :: "piece_mgr \<Rightarrow> nat \<Rightarrow> piece_mgr" where
  "piece_release pm index =
     (if pm_pieces pm \<noteq> None \<and> index < pm_num_pieces pm \<and> state_at pm index \<noteq> PIECE_COMPLETE
      then set_state index PIECE_FREE pm else pm)"

section \<open>Well-formedness\<close>

text \<open>The pieces that are complete.\<close>

definition done_set :: "piece_mgr \<Rightarrow> nat set" where
  "done_set pm = {i. i < pm_num_pieces pm \<and> state_at pm i = PIECE_COMPLETE}"

definition pm_shape :: "piece_mgr \<Rightarrow> bool" where
  "pm_shape pm \<longleftrightarrow>
     (\<exists>ps bf. pm_pieces pm = Some ps \<and> length ps = pm_num_pieces pm \<and>
              pm_bitfield pm = Some bf \<and> length bf = pm_bitfield_len pm) \<and>
     pm_bitfield_len pm = (pm_num_pieces pm + 7) div 8"

text \<open>
  The invariant: the arrays have their lengths, the counter counts the complete pieces, and the
  bitfield advertises exactly these, its spare bits zero.
\<close>

definition pm_ok :: "piece_mgr \<Rightarrow> bool" where
  "pm_ok pm \<longleftrightarrow>
     pm_shape pm \<and> pm_num_complete pm = card (done_set pm) \<and>
     (\<forall>i < 8 * pm_bitfield_len pm. has_bit (the (pm_bitfield pm)) i \<longleftrightarrow> i \<in> done_set pm)"

lemma has_bit_iff: "has_bit bf i \<longleftrightarrow> bit (bf ! (i div 8)) (7 - i mod 8)"
  by (simp add: has_bit_def bit_mask_def push_bit_eq_mult and_exp_eq_0_iff_not_bit)

lemma bit_pos_inj:
  assumes "i div 8 = j div 8" "7 - i mod 8 = 7 - j mod 8" shows "i = (j :: nat)"
proof -
  have "i mod 8 < 8" "j mod 8 < 8" by simp_all
  with assms(2) have "i mod 8 = j mod 8" by linarith
  with assms(1) show ?thesis by (metis div_mult_mod_eq)
qed

lemma has_bit_set:
  assumes "i div 8 < length bf" "j div 8 < length bf"
  shows "has_bit (bf[i div 8 := bf ! (i div 8) OR bit_mask i]) j \<longleftrightarrow> j = i \<or> has_bit bf j"
proof (cases "j div 8 = i div 8")
  case True
  have "bit_mask i = 2 ^ (7 - i mod 8)" by (simp add: bit_mask_def push_bit_eq_mult)
  moreover have lt: "7 - j mod 8 < LENGTH(8)" by simp
  ultimately have "bit (bit_mask i) (7 - j mod 8) \<longleftrightarrow> 7 - j mod 8 = 7 - i mod 8"
    by (simp only: bit_exp_iff possible_bit_word lt simp_thms)
  then have "bit (bit_mask i) (7 - j mod 8) \<longleftrightarrow> j = i"
    using bit_pos_inj [of j i] True by blast
  then have "bit (bf ! (i div 8) OR bit_mask i) (7 - j mod 8) \<longleftrightarrow>
      j = i \<or> bit (bf ! (i div 8)) (7 - j mod 8)"
    by (simp add: bit_or_iff disj_commute)
  then show ?thesis
    using True assms(1) by (simp only: has_bit_iff nth_list_update_eq True)
next
  case False
  then have "j \<noteq> i" by blast
  with False show ?thesis by (simp add: has_bit_iff)
qed

lemma has_bit_zeros: "i div 8 < n \<Longrightarrow> \<not> has_bit (replicate n 0) i"
  by (simp add: has_bit_iff)

section \<open>Shape and state of the operations\<close>

lemma set_state_simps [simp]:
  "pm_num_pieces (set_state i s pm) = pm_num_pieces pm"
  "pm_num_complete (set_state i s pm) = pm_num_complete pm"
  "pm_bitfield (set_state i s pm) = pm_bitfield pm"
  "pm_bitfield_len (set_state i s pm) = pm_bitfield_len pm"
  "pm_expected_hashes (set_state i s pm) = pm_expected_hashes pm"
  "pm_pieces (set_state i s pm) = None \<longleftrightarrow> pm_pieces pm = None"
  by (simp_all add: set_state_def)

lemma set_have_simps [simp]:
  "pm_num_pieces (set_have i pm) = pm_num_pieces pm"
  "pm_num_complete (set_have i pm) = pm_num_complete pm"
  "pm_pieces (set_have i pm) = pm_pieces pm"
  "pm_bitfield_len (set_have i pm) = pm_bitfield_len pm"
  "pm_expected_hashes (set_have i pm) = pm_expected_hashes pm"
  "piece_at (set_have i pm) = piece_at pm" "state_at (set_have i pm) = state_at pm"
  "done_set (set_have i pm) = done_set pm"
  by (simp_all add: set_have_def piece_at_def state_at_def done_set_def fun_eq_iff)

lemma shape_set_state [keeps]: "pm_shape pm \<Longrightarrow> pm_shape (set_state i s pm)"
  by (auto simp: pm_shape_def set_state_def)

lemma shape_set_have [keeps]: "pm_shape pm \<Longrightarrow> pm_shape (set_have i pm)"
  by (auto simp: pm_shape_def set_have_def)

lemma state_set_state:
  assumes "pm_shape pm" "j < pm_num_pieces pm"
  shows "state_at (set_state i s pm) j = (if j = i then s else state_at pm j)"
    and "pc_hash (piece_at (set_state i s pm) j) = pc_hash (piece_at pm j)"
  using assms
  by (cases "i = j"; auto simp: pm_shape_def set_state_def state_at_def piece_at_def)+

lemma done_set_state:
  assumes "pm_shape pm" "i < pm_num_pieces pm"
  shows "done_set (set_state i s pm) =
         (if s = PIECE_COMPLETE then insert i (done_set pm) else done_set pm - {i})"
  using assms by (auto simp: done_set_def state_set_state split: if_splits)

lemma finite_done [simp]: "finite (done_set pm)"
  by (simp add: done_set_def)

lemma done_set_below: "i \<in> done_set pm \<Longrightarrow> i < pm_num_pieces pm"
  by (simp add: done_set_def)

lemma byte_in_shape: "pm_shape pm \<Longrightarrow> i < pm_num_pieces pm \<Longrightarrow> i div 8 < pm_bitfield_len pm"
  by (auto simp: pm_shape_def)

section \<open>The invariant is kept\<close>

lemma init_ok [keeps]:
  assumes "mem (np * piece_size_of)" "mem ((np + 7) div 8)"
  shows "pm_ok (piece_mgr_init mem np pl ts hs)"
  using assms
  by (auto simp: pm_ok_def pm_shape_def piece_mgr_init_def done_set_def state_at_def piece_at_def
                 pm_zero_def Let_def init_piece_def has_bit_zeros less_mult_imp_div_less mult.commute)

lemma set_state_ok [keeps]:
  assumes "pm_ok pm" "i < pm_num_pieces pm" "i \<notin> done_set pm" "s \<noteq> PIECE_COMPLETE"
  shows "pm_ok (set_state i s pm)"
  using assms by (simp add: pm_ok_def shape_set_state done_set_state)

lemma complete_ok [keeps]:
  assumes "pm_ok pm" "i < pm_num_pieces pm" "i \<notin> done_set pm"
  shows "pm_ok (set_have i ((set_state i PIECE_COMPLETE pm)
                  \<lparr>pm_num_complete := pm_num_complete pm + 1\<rparr>))"
    (is "pm_ok (set_have i ?pm)")
proof -
  have sh: "pm_shape pm" using assms(1) by (simp add: pm_ok_def)
  have shape: "pm_shape ?pm"
    using shape_set_state [OF sh, of i PIECE_COMPLETE] by (auto simp: pm_shape_def)
  have ds: "done_set ?pm = insert i (done_set pm)"
    using done_set_state [OF sh assms(2), of PIECE_COMPLETE]
    by (simp add: done_set_def state_at_def piece_at_def)
  obtain bf where bf: "pm_bitfield pm = Some bf" "length bf = pm_bitfield_len pm"
    using sh by (auto simp: pm_shape_def)
  have ib: "i div 8 < length bf" using byte_in_shape [OF sh assms(2)] bf by simp
  have "has_bit (the (pm_bitfield (set_have i ?pm))) j \<longleftrightarrow> j \<in> insert i (done_set pm)"
    if "j < 8 * pm_bitfield_len pm" for j
    using that assms(1) bf ib has_bit_set [of i bf j]
    by (simp add: set_have_def pm_ok_def less_mult_imp_div_less mult.commute)
  then show ?thesis
    using assms ds shape_set_have [OF shape] by (simp add: pm_ok_def)
qed

lemma complete_match:
  assumes "pm_ok pm" "i < pm_num_pieces pm" "i \<notin> done_set pm"
    and "sha1_hash d = pc_hash (piece_at pm i)"
  shows "fst (piece_mgr_complete pm i d) = 0"
    and "pm_ok (snd (piece_mgr_complete pm i d))"
    and "done_set (snd (piece_mgr_complete pm i d)) = insert i (done_set pm)"
proof -
  let ?pm = "(set_state i PIECE_COMPLETE pm)\<lparr>pm_num_complete := pm_num_complete pm + 1\<rparr>"
  have sh: "pm_shape pm" using assms(1) by (simp add: pm_ok_def)
  have c: "piece_mgr_complete pm i d = (0, set_have i ?pm)"
    using assms by (simp add: piece_mgr_complete_def)
  show "fst (piece_mgr_complete pm i d) = 0" using c by simp
  show "pm_ok (snd (piece_mgr_complete pm i d))" using c complete_ok assms by simp
  have "done_set ?pm = done_set (set_state i PIECE_COMPLETE pm)"
    by (simp add: done_set_def state_at_def piece_at_def)
  then show "done_set (snd (piece_mgr_complete pm i d)) = insert i (done_set pm)"
    using c done_set_state [OF sh assms(2), of PIECE_COMPLETE] by simp
qed

lemma complete_state:
  assumes "pm_ok pm" "i < pm_num_pieces pm" "j < pm_num_pieces pm"
  shows "state_at (snd (piece_mgr_complete pm i d)) j =
         (if j = i then if sha1_hash d = pc_hash (piece_at pm i) then PIECE_COMPLETE else PIECE_FAILED
          else state_at pm j)"
    and "pc_hash (piece_at (snd (piece_mgr_complete pm i d)) j) = pc_hash (piece_at pm j)"
    and "pm_num_pieces (snd (piece_mgr_complete pm i d)) = pm_num_pieces pm"
proof -
  have sh: "pm_shape pm" using assms(1) by (simp add: pm_ok_def)
  have at: "piece_at (q\<lparr>pm_num_complete := c\<rparr>) = piece_at q"
    "state_at (q\<lparr>pm_num_complete := c\<rparr>) = state_at q" for q c
    by (simp_all add: piece_at_def state_at_def fun_eq_iff)
  note st = state_set_state [OF sh assms(3)]
  show "state_at (snd (piece_mgr_complete pm i d)) j =
         (if j = i then if sha1_hash d = pc_hash (piece_at pm i) then PIECE_COMPLETE else PIECE_FAILED
          else state_at pm j)"
    using st assms(2) by (cases "j = i") (simp_all add: piece_mgr_complete_def Let_def at)
  show "pc_hash (piece_at (snd (piece_mgr_complete pm i d)) j) = pc_hash (piece_at pm j)"
    using st assms(2) by (simp add: piece_mgr_complete_def Let_def at)
  show "pm_num_pieces (snd (piece_mgr_complete pm i d)) = pm_num_pieces pm"
    by (simp add: piece_mgr_complete_def Let_def)
qed

lemma complete_keeps [keeps]:
  assumes "pm_ok pm" "i \<notin> done_set pm"
  shows "pm_ok (snd (piece_mgr_complete pm i d))"
  using assms complete_match(2) [OF assms(1) _ assms(2)] set_state_ok [OF assms(1) _ assms(2)]
  by (cases "i < pm_num_pieces pm"; cases "sha1_hash d = pc_hash (piece_at pm i)")
     (simp_all add: piece_mgr_complete_def)

lemma failed_keeps [keeps]: "pm_ok pm \<Longrightarrow> i \<notin> done_set pm \<Longrightarrow> pm_ok (piece_mgr_failed pm i)"
  by (simp add: piece_mgr_failed_def set_state_ok)

lemma request_keeps [keeps]: "pm_ok pm \<Longrightarrow> i \<notin> done_set pm \<Longrightarrow> pm_ok (piece_mgr_request pm i)"
  by (simp add: piece_mgr_request_def set_state_ok)

lemma num_pieces_request: "pm_num_pieces (piece_mgr_request pm i) = pm_num_pieces pm"
  by (simp add: piece_mgr_request_def)

lemma release_keeps [keeps]: "pm_ok pm \<Longrightarrow> pm_ok (piece_release pm i)"
  by (simp add: piece_release_def set_state_ok done_set_def)

lemma done_iff:
  assumes "pm_ok pm"
  shows "piece_mgr_is_done pm \<longleftrightarrow> (\<forall>i < pm_num_pieces pm. state_at pm i = PIECE_COMPLETE)"
proof -
  have "done_set pm \<subseteq> {..<pm_num_pieces pm}" by (auto simp: done_set_def)
  then have "pm_num_pieces pm \<le> card (done_set pm) \<longleftrightarrow> done_set pm = {..<pm_num_pieces pm}"
    by (metis card_lessThan card_seteq finite_lessThan order_refl)
  then show ?thesis
    using assms by (auto simp: piece_mgr_is_done_def pm_ok_def done_set_def)
qed

section \<open>The next piece\<close>

text \<open>The pieces that \<open>piece_mgr_get_next\<close> may offer a peer with this bitfield.\<close>

definition wanted :: "piece_mgr \<Rightarrow> byte list option \<Rightarrow> nat \<Rightarrow> bool" where
  "wanted pm bf i \<longleftrightarrow> i < pm_num_pieces pm \<and> state_at pm i = PIECE_FREE \<and> \<not> peer_lacks bf i"

lemma next_from_find:
  assumes "\<forall>i \<in> set is. i < pm_num_pieces pm" "pm_num_pieces pm \<le> 2 ^ 31"
  shows "next_from pm bf 0 is =
         (case find (wanted pm bf) is of None \<Rightarrow> - 1 | Some i \<Rightarrow> int i)"
  using assms(1)
proof (induction "is")
  case (Cons i "is")
  have "sint (of_nat i :: u32) = int i"
    using Cons.prems assms(2) by (simp add: signed_of_nat signed_take_bit_int_eq_self)
  with Cons show ?case by (simp add: wanted_def)
qed simp

lemma find_least:
  "find P [0..<n] = Some i \<longleftrightarrow> i < n \<and> P i \<and> (\<forall>j < i. \<not> P j)"
  by (auto simp: find_Some_iff)

lemma get_next_find:
  assumes "pm_ok pm" "pm_num_pieces pm \<le> 2 ^ 31"
  shows "piece_mgr_get_next pm bf =
         (case find (wanted pm bf) [0..<pm_num_pieces pm] of None \<Rightarrow> - 1 | Some i \<Rightarrow> int i)"
proof -
  have "find (wanted pm bf) [0..<pm_num_pieces pm] = None" if "piece_mgr_is_done pm"
    using that assms(1) by (auto simp: find_None_iff done_iff wanted_def)
  then show ?thesis
    using assms(2) next_from_find [of "[0..<pm_num_pieces pm]" pm bf]
    by (auto simp: piece_mgr_get_next_def)
qed

text \<open>
  What the schedulers of \<open>src/torrent_mgr.c\<close> rely on when they pick work: \<open>next\<close> names the least
  free piece, and claiming a piece takes it, and nothing else, out of the free ones.
\<close>

primrec claims :: "('b \<Rightarrow> int) \<Rightarrow> ('b \<Rightarrow> nat \<Rightarrow> 'b) \<Rightarrow> nat \<Rightarrow> 'b \<Rightarrow> nat list \<times> 'b" where
  "claims nxt claim 0 b = ([], b)"
| "claims nxt claim (Suc n) b =
     (if nxt b < 0 then ([], b)
      else let i = nat (nxt b); (is, b') = claims nxt claim n (claim b i) in (i # is, b'))"

locale piece_board =
  fixes ok :: "'b \<Rightarrow> bool"
    and free :: "'b \<Rightarrow> nat set"
    and nxt :: "'b \<Rightarrow> int"
    and claim :: "'b \<Rightarrow> nat \<Rightarrow> 'b"
  assumes finite_free: "ok b \<Longrightarrow> finite (free b)"
    and nxt_none: "ok b \<Longrightarrow> free b = {} \<Longrightarrow> nxt b = - 1"
    and nxt_least: "ok b \<Longrightarrow> free b \<noteq> {} \<Longrightarrow> nxt b = int (Min (free b))"
    and claim_ok: "ok b \<Longrightarrow> i \<in> free b \<Longrightarrow> ok (claim b i)"
    and claim_free: "ok b \<Longrightarrow> i \<in> free b \<Longrightarrow> free (claim b i) = free b - {i}"
begin

lemma claims_sorted:
  "ok b \<Longrightarrow> fst (claims nxt claim n b) = take n (sorted_list_of_set (free b))"
proof (induction n arbitrary: b)
  case (Suc n)
  show ?case
  proof (cases "free b = {}")
    case True
    with Suc.prems show ?thesis by (simp add: nxt_none)
  next
    case False
    let ?m = "Min (free b)"
    have m: "?m \<in> free b" using False Suc.prems finite_free by simp
    have "sorted_list_of_set (free b) = ?m # sorted_list_of_set (free b - {?m})"
      using False Suc.prems finite_free by (simp add: sorted_list_of_set_nonempty)
    moreover have "fst (claims nxt claim n (claim b ?m)) = take n (sorted_list_of_set (free b - {?m}))"
      using Suc m by (simp add: claim_ok claim_free)
    ultimately show ?thesis
      using Suc.prems False by (simp add: nxt_least Let_def case_prod_beta)
  qed
qed simp

lemma claims_ok_free:
  "ok b \<Longrightarrow> ok (snd (claims nxt claim n b)) \<and>
     free (snd (claims nxt claim n b)) = free b - set (fst (claims nxt claim n b))"
proof (induction n arbitrary: b)
  case (Suc n)
  show ?case
  proof (cases "free b = {}")
    case False
    then have m: "Min (free b) \<in> free b" using Suc.prems finite_free by simp
    obtain "is" b' where r: "claims nxt claim n (claim b (Min (free b))) = (is, b')"
      by (rule prod.exhaust)
    have "claims nxt claim (Suc n) b = (Min (free b) # is, b')"
      using Suc.prems False r by (simp add: nxt_least)
    then show ?thesis
      using Suc.IH [OF claim_ok [OF Suc.prems m]] r Suc.prems m by (simp add: claim_free) blast
  qed (simp add: Suc.prems nxt_none)
qed simp

lemma claims_all:
  assumes "ok b" "card (free b) \<le> n"
  shows "set (fst (claims nxt claim n b)) = free b" "free (snd (claims nxt claim n b)) = {}"
proof -
  have "length (sorted_list_of_set (free b)) \<le> n" using assms(2) by simp
  then show s: "set (fst (claims nxt claim n b)) = free b"
    using assms(1) by (simp add: claims_sorted finite_free)
  show "free (snd (claims nxt claim n b)) = {}"
    using claims_ok_free [OF assms(1)] s by simp
qed

end

definition pm_small :: "piece_mgr \<Rightarrow> bool" where
  "pm_small pm \<longleftrightarrow> pm_ok pm \<and> pm_num_pieces pm \<le> 2 ^ 31"

lemma wanted_Min:
  assumes "Collect (wanted pm bf) \<noteq> {}"
  shows "find (wanted pm bf) [0..<pm_num_pieces pm] = Some (Min (Collect (wanted pm bf)))"
proof -
  have fin: "finite (Collect (wanted pm bf))"
    by (rule finite_subset [of _ "{..<pm_num_pieces pm}"]) (auto simp: wanted_def)
  have "Min (Collect (wanted pm bf)) \<in> Collect (wanted pm bf)" using fin assms by (rule Min_in)
  moreover have "\<not> wanted pm bf j" if "j < Min (Collect (wanted pm bf))" for j
    using that Min_le [OF fin, of j] by auto
  ultimately show ?thesis by (simp add: find_least) (simp add: wanted_def)
qed

lemma wanted_request:
  assumes "pm_ok pm" "wanted pm bf i"
  shows "Collect (wanted (piece_mgr_request pm i) bf) = Collect (wanted pm bf) - {i}"
  using assms by (auto simp: wanted_def piece_mgr_request_def pm_ok_def state_set_state split: if_splits)

interpretation board: piece_board pm_small "\<lambda>pm. Collect (wanted pm bf)"
  "\<lambda>pm. piece_mgr_get_next pm bf" piece_mgr_request for bf
proof
  fix pm i
  show "finite (Collect (wanted pm bf))"
    by (rule finite_subset [of _ "{..<pm_num_pieces pm}"]) (auto simp: wanted_def)
  assume ok: "pm_small pm"
  show "piece_mgr_get_next pm bf = - 1" if "Collect (wanted pm bf) = {}"
    using ok that by (auto simp: get_next_find pm_small_def find_None_iff split: option.split)
  show "piece_mgr_get_next pm bf = int (Min (Collect (wanted pm bf)))"
    if "Collect (wanted pm bf) \<noteq> {}"
    using ok wanted_Min [OF that] by (simp add: get_next_find pm_small_def)
  assume i: "i \<in> Collect (wanted pm bf)"
  then have "i \<notin> done_set pm" by (simp add: wanted_def done_set_def)
  then show "pm_small (piece_mgr_request pm i)"
    using ok by (simp add: pm_small_def request_keeps num_pieces_request)
  show "Collect (wanted (piece_mgr_request pm i) bf) = Collect (wanted pm bf) - {i}"
    using ok i by (simp add: pm_small_def wanted_request)
qed

section \<open>Runs of the piece manager\<close>

text \<open>
  One call of the manager by its owner, with the bytes that were accepted for each piece as a ghost
  component.  The guards are those of \<open>src/torrent_mgr.c\<close>: a piece is requested when
  \<open>piece_mgr_get_next\<close> names it, and one that is complete is neither completed again
  (\<open>collect_web_seed\<close> skips it) nor failed.
\<close>

type_synonym pm_run = "piece_mgr \<times> (nat \<Rightarrow> byte list option)"

inductive pm_step :: "pm_run \<Rightarrow> pm_run \<Rightarrow> bool" where
  step_request:
    "piece_mgr_get_next pm bf = int i \<Longrightarrow> pm_step (pm, st) (piece_mgr_request pm i, st)"
| step_complete:
    "state_at pm i \<noteq> PIECE_COMPLETE \<Longrightarrow> piece_mgr_complete pm i d = (r, pm') \<Longrightarrow>
     pm_step (pm, st) (pm', if r = 0 then st(i \<mapsto> d) else st)"
| step_failed:
    "state_at pm i \<noteq> PIECE_COMPLETE \<Longrightarrow> pm_step (pm, st) (piece_mgr_failed pm i, st)"
| step_release: "pm_step (pm, st) (piece_release pm i, st)"

inductive pm_reach :: "nat \<Rightarrow> byte list \<Rightarrow> pm_run \<Rightarrow> bool" for np hs where
  reach_init:
    "mem (np * piece_size_of) \<Longrightarrow> mem ((np + 7) div 8) \<Longrightarrow>
     pm_reach np hs (piece_mgr_init mem np pl ts (Some hs), Map.empty)"
| reach_step: "pm_reach np hs s \<Longrightarrow> pm_step s s' \<Longrightarrow> pm_reach np hs s'"

inductive_cases pm_stepE: "pm_step (pm, st) s'"

definition piece_digest :: "byte list \<Rightarrow> nat \<Rightarrow> byte list" where
  "piece_digest hs i = take 20 (drop (i * 20) hs)"

definition verified :: "nat \<Rightarrow> byte list \<Rightarrow> pm_run \<Rightarrow> bool" where
  "verified np hs s \<longleftrightarrow>
     (case s of (pm, st) \<Rightarrow>
       pm_small pm \<and> pm_num_pieces pm = np \<and>
       (\<forall>i < np. pc_hash (piece_at pm i) = piece_digest hs i) \<and>
       (\<forall>i < np. state_at pm i = PIECE_COMPLETE \<longrightarrow>
          (\<exists>d. st i = Some d \<and> sha1_hash d = piece_digest hs i)))"

lemma verified_set_state:
  assumes "verified np hs (pm, st)" "i \<notin> done_set pm" "s \<noteq> PIECE_COMPLETE" "i < np"
  shows "verified np hs (set_state i s pm, st)"
  using assms set_state_ok [of pm i s]
  by (auto simp: verified_def pm_small_def pm_ok_def state_set_state split: if_splits)

lemma verified_complete:
  assumes v: "verified np hs (pm, st)" and ni: "state_at pm i \<noteq> PIECE_COMPLETE"
    and c: "piece_mgr_complete pm i d = (r, pm')"
  shows "verified np hs (pm', if r = 0 then st(i \<mapsto> d) else st)"
proof (cases "i < np")
  case True
  have ok: "pm_ok pm" and np: "pm_num_pieces pm = np" and sm: "np \<le> 2 ^ 31"
    using v by (auto simp: verified_def pm_small_def)
  have nd: "i \<notin> done_set pm" using ni by (simp add: done_set_def)
  have ok': "pm_ok pm'" using complete_keeps [OF ok nd, of d] c by simp
  have np': "pm_num_pieces pm' = np"
    using complete_state(3) [OF ok, of i i d] c True np by simp
  have r: "r = 0 \<longleftrightarrow> sha1_hash d = pc_hash (piece_at pm i)"
    using c True np by (auto simp: piece_mgr_complete_def Let_def split: if_splits)
  note st = complete_state [OF ok, of i _ d, unfolded c snd_conv np, OF True]
  show ?thesis
    using v ok' np' sm r st by (auto simp: verified_def pm_small_def)
next
  case False
  with v c have "r = - 1 \<and> pm' = pm" by (auto simp: verified_def piece_mgr_complete_def)
  with v show ?thesis by simp
qed

lemma verified_step:
  assumes "verified np hs s" "pm_step s s'" shows "verified np hs s'"
proof -
  obtain pm st where s: "s = (pm, st)" by (rule prod.exhaust)
  have v: "verified np hs (pm, st)" and np: "pm_num_pieces pm = np" and sm: "pm_small pm"
    using assms(1) s by (auto simp: verified_def)
  from assms(2) [unfolded s] show ?thesis
  proof (rule pm_stepE)
    fix bf i
    assume s': "s' = (piece_mgr_request pm i, st)" and n: "piece_mgr_get_next pm bf = int i"
    then have ne: "Collect (wanted pm bf) \<noteq> {}" using board.nxt_none [OF sm, of bf] by auto
    then have "i = Min (Collect (wanted pm bf))" using board.nxt_least [OF sm ne] n by simp
    then have "i \<in> Collect (wanted pm bf)"
      using Min_in [OF board.finite_free [OF sm] ne] by simp
    then show ?thesis
      using v np s' by (simp add: piece_mgr_request_def verified_set_state wanted_def done_set_def)
  next
    fix i d r pm'
    assume "s' = (pm', if r = 0 then st(i \<mapsto> d) else st)" "state_at pm i \<noteq> PIECE_COMPLETE"
      "piece_mgr_complete pm i d = (r, pm')"
    then show ?thesis using verified_complete [OF v] by simp
  next
    fix i
    assume "s' = (piece_mgr_failed pm i, st)" "state_at pm i \<noteq> PIECE_COMPLETE"
    then show ?thesis
      using v np by (simp add: piece_mgr_failed_def verified_set_state done_set_def)
  next
    fix i
    assume "s' = (piece_release pm i, st)"
    then show ?thesis
      using v np by (simp add: piece_release_def verified_set_state done_set_def)
  qed
qed

lemma verified_init:
  assumes "mem (np * piece_size_of)" "mem ((np + 7) div 8)" "np \<le> 2 ^ 31"
  shows "verified np hs (piece_mgr_init mem np pl ts (Some hs), Map.empty)"
  using assms init_ok [of mem np pl ts "Some hs"]
  by (simp add: verified_def pm_small_def)
     (simp add: piece_mgr_init_def Let_def piece_at_def state_at_def init_piece_def piece_digest_def)

lemma verified_reach: "pm_reach np hs s \<Longrightarrow> np \<le> 2 ^ 31 \<Longrightarrow> verified np hs s"
  by (induction rule: pm_reach.induct) (auto intro: verified_init verified_step)

section \<open>Properties\<close>

text \<open>A torrent of one piece, holding one byte, for the examples below.\<close>

definition one_piece :: "byte list \<Rightarrow> piece_mgr" where
  "one_piece hs = piece_mgr_init (\<lambda>_. True) 1 1 1 (Some hs)"

lemma one_piece_facts:
  "pm_ok (one_piece hs)" "pm_num_pieces (one_piece hs) = 1" "pm_num_complete (one_piece hs) = 0"
  "state_at (one_piece hs) 0 = PIECE_FREE" "pc_hash (piece_at (one_piece hs) 0) = take 20 hs"
  using init_ok [of "\<lambda>_. True" 1 1 1 "Some hs"]
  by (simp_all add: one_piece_def)
     (simp_all add: piece_mgr_init_def Let_def state_at_def piece_at_def init_piece_def pm_zero_def)

lemma shifted_digest: "sha1_hash d \<noteq> take 20 (map (\<lambda>b. b + 1) (sha1_hash d))"
proof -
  obtain x xs where x: "sha1_hash d = x # xs"
    using length_sha1_hash [of d] by (metis length_0_conv neq_Nil_conv zero_neq_numeral)
  have "x \<noteq> x + 1" by simp
  with x show ?thesis by simp
qed

text \<open>
  C4.  Integrity of a download: in every state the manager reaches, a piece is marked complete only
  if the bytes accepted for it have the SHA-1 digest that the torrent file lists at its position;
  and then the counter, the \<open>is_done\<close> test and the bitfield all agree with the set of complete
  pieces.
\<close>

theorem complete_pieces_verified:
  assumes "pm_reach np hs (pm, st)" "np \<le> 2 ^ 31"
  shows "(\<forall>i < np. state_at pm i = PIECE_COMPLETE \<longrightarrow>
             (\<exists>d. st i = Some d \<and> sha1_hash d = piece_digest hs i)) \<and>
         pm_num_complete pm = card {i. i < np \<and> state_at pm i = PIECE_COMPLETE} \<and>
         (piece_mgr_is_done pm \<longleftrightarrow> (\<forall>i < np. state_at pm i = PIECE_COMPLETE)) \<and>
         (\<forall>i < 8 * pm_bitfield_len pm. has_bit (the (pm_bitfield pm)) i \<longleftrightarrow>
             i < np \<and> state_at pm i = PIECE_COMPLETE)"
proof -
  have v: "verified np hs (pm, st)" using assms by (rule verified_reach)
  then have ok: "pm_ok pm" and np: "pm_num_pieces pm = np" by (auto simp: verified_def pm_small_def)
  then show ?thesis
    using v done_iff [OF ok] by (simp add: verified_def pm_ok_def done_set_def)
qed

theorem complete_pieces_verified_witness:
  "(\<exists>d. ((\<lambda>_. None) (0 := Some [1])) (0 :: nat) = Some d \<and>
        sha1_hash d = piece_digest (sha1_hash [1]) 0) \<and>
   piece_mgr_is_done (snd (piece_mgr_complete (piece_mgr_request (one_piece (sha1_hash [1])) 0) 0 [1]))"
proof -
  let ?h = "sha1_hash [1]" and ?p = "piece_mgr_request (one_piece (sha1_hash [1])) 0"
  let ?q = "snd (piece_mgr_complete ?p 0 [1])"
  note f = one_piece_facts [of ?h]
  have ok: "pm_ok ?p" and np: "pm_num_pieces ?p = 1"
    using f by (simp_all add: request_keeps num_pieces_request done_set_def)
  have sh: "pm_shape (one_piece ?h)" using f by (simp add: pm_ok_def)
  have st: "state_at ?p 0 = PIECE_REQUESTED" and h: "pc_hash (piece_at ?p 0) = ?h"
    using f state_set_state [OF sh, of 0 0] by (simp_all add: piece_mgr_request_def)
  have c: "piece_mgr_complete ?p 0 [1] = (0, ?q)" and d: "state_at ?q 0 = PIECE_COMPLETE"
    using complete_match(1) [OF ok, of 0 "[1]"] complete_state(1) [OF ok, of 0 0 "[1]"] np st h
    by (simp_all add: done_set_def prod_eq_iff)
  have "wanted (one_piece ?h) None = (\<lambda>i. i = 0)"
    using f by (auto simp: wanted_def peer_lacks_def fun_eq_iff)
  then have "piece_mgr_get_next (one_piece ?h) None = int 0"
    using get_next_find [of "one_piece ?h" None] f by simp
  then have s1: "pm_step (one_piece ?h, Map.empty) (?p, Map.empty)" by (rule step_request)
  have s2: "pm_step (?p, Map.empty) (?q, if (0 :: int) = 0 then [0 \<mapsto> [1]] else Map.empty)"
    by (rule step_complete [OF _ c]) (simp add: st)
  have "pm_reach 1 ?h (one_piece ?h, Map.empty)"
    unfolding one_piece_def by (rule reach_init) simp_all
  from reach_step [OF reach_step [OF this s1] s2] have "pm_reach 1 ?h (?q, [0 \<mapsto> [1]])"
    by (simp only: if_True refl)
  note r = complete_pieces_verified [OF this]
  have "\<exists>e. [0 \<mapsto> [1]] 0 = Some e \<and> sha1_hash e = piece_digest ?h 0"
    using r [THEN conjunct1] d by simp
  moreover have "piece_mgr_is_done ?q"
    using r [THEN conjunct2, THEN conjunct2, THEN conjunct1] d by simp
  ultimately show ?thesis by (rule conjI)
qed

text \<open>
  The piece offered to a peer is the first one that is free and that the peer does not lack,
  and \<open>-1\<close> means that there is none.
\<close>

theorem get_next_is_least:
  assumes "pm_ok pm" "pm_num_pieces pm \<le> 2 ^ 31"
  shows "(piece_mgr_get_next pm bf = - 1 \<and>
            (\<forall>i < pm_num_pieces pm. state_at pm i = PIECE_FREE \<longrightarrow> peer_lacks bf i)) \<or>
         (\<exists>i < pm_num_pieces pm. piece_mgr_get_next pm bf = int i \<and>
            state_at pm i = PIECE_FREE \<and> \<not> peer_lacks bf i \<and>
            (\<forall>j < i. state_at pm j = PIECE_FREE \<longrightarrow> peer_lacks bf j))"
proof (cases "find (wanted pm bf) [0..<pm_num_pieces pm]")
  case None
  then have "piece_mgr_get_next pm bf = - 1" using get_next_find [OF assms, of bf] by simp
  with None show ?thesis by (auto simp: find_None_iff wanted_def)
next
  case (Some i)
  then show ?thesis
    using get_next_find [OF assms, of bf] by (intro disjI2 exI [of _ i]) (simp, simp add: find_least wanted_def)
qed

theorem get_next_is_least_witness:
  "piece_mgr_get_next (one_piece (sha1_hash [1])) (Some [0x80]) = 0"
proof -
  have "\<not> peer_lacks (Some [0x80]) 0" by (simp add: peer_lacks_def has_bit_def bit_mask_def)
  then show ?thesis
    using get_next_is_least [of "one_piece (sha1_hash [1])" "Some [0x80]"]
      one_piece_facts [of "sha1_hash [1]"] by auto
qed

text \<open>
  Verification of a downloaded piece that is not complete yet.  With the digest of the torrent
  file, the call returns 0, marks the piece, counts it and sets exactly its bit; with any other
  digest it returns -1 and marks it failed.  No other piece changes, and the invariant is kept.
\<close>

theorem complete_accepts_matching_digest:
  assumes "pm_ok pm" "i < pm_num_pieces pm" "state_at pm i \<noteq> PIECE_COMPLETE"
    and "piece_mgr_complete pm i d = (r, pm')"
  shows "pm_ok pm' \<and>
    (if sha1_hash d = pc_hash (piece_at pm i)
     then r = 0 \<and> state_at pm' i = PIECE_COMPLETE \<and>
          pm_num_complete pm' = Suc (pm_num_complete pm) \<and>
          (\<forall>j < 8 * pm_bitfield_len pm. has_bit (the (pm_bitfield pm')) j \<longleftrightarrow>
             j = i \<or> has_bit (the (pm_bitfield pm)) j)
     else r = - 1 \<and> state_at pm' i = PIECE_FAILED \<and>
          pm_num_complete pm' = pm_num_complete pm \<and> pm_bitfield pm' = pm_bitfield pm) \<and>
    (\<forall>j < pm_num_pieces pm. j \<noteq> i \<longrightarrow> state_at pm' j = state_at pm j)"
proof -
  have nd: "i \<notin> done_set pm" using assms(3) by (simp add: done_set_def)
  have ok': "pm_ok pm'" using complete_keeps [OF assms(1) nd, of d] assms(4) by simp
  note st = complete_state(1) [OF assms(1,2), of _ d, unfolded assms(4) snd_conv]
  show ?thesis
  proof (cases "sha1_hash d = pc_hash (piece_at pm i)")
    case True
    note m = complete_match [OF assms(1,2) nd True, unfolded assms(4) fst_conv snd_conv]
    have "pm_num_complete pm' = Suc (pm_num_complete pm)"
      using m nd assms(1) by (simp add: pm_ok_def)
    moreover have "pm_bitfield_len pm' = pm_bitfield_len pm"
      using assms(4) True assms(2) by (auto simp: piece_mgr_complete_def Let_def)
    ultimately show ?thesis
      using True m ok' st assms(1,2) by (simp add: pm_ok_def)
  next
    case False
    then show ?thesis
      using ok' st assms(2,4) by (auto simp: piece_mgr_complete_def)
  qed
qed

theorem complete_accepts_matching_digest_witness:
  "fst (piece_mgr_complete (one_piece (sha1_hash [1])) 0 [1]) = 0 \<and>
   pm_num_complete (snd (piece_mgr_complete (one_piece (sha1_hash [1])) 0 [1])) = 1"
  using complete_accepts_matching_digest
      [of "one_piece (sha1_hash [1])" 0 "[1]", OF _ _ _ prod.collapse [symmetric]]
    one_piece_facts [of "sha1_hash [1]"]
  by simp



text \<open>
  A piece whose digest did not match is out of the game until its owner resets it: the header
  says of failed pieces that they can be retried, but \<open>piece_mgr_get_next\<close> never offers one, and
  when all other pieces are complete the manager is neither done nor has anything to download.
\<close>

theorem failed_piece_not_offered:
  assumes "pm_ok pm" "pm_num_pieces pm \<le> 2 ^ 31" "i < pm_num_pieces pm"
    and "state_at pm i \<noteq> PIECE_COMPLETE" "sha1_hash d \<noteq> pc_hash (piece_at pm i)"
    and "piece_mgr_complete pm i d = (r, pm')"
  shows "piece_mgr_get_next pm' bf \<noteq> int i \<and> \<not> piece_mgr_is_done pm' \<and>
    ((\<forall>j < pm_num_pieces pm. j \<noteq> i \<longrightarrow> state_at pm j = PIECE_COMPLETE) \<longrightarrow>
       piece_mgr_get_next pm' bf = - 1) \<and>
    wanted (piece_release pm' i) None i"
proof -
  have nd: "i \<notin> done_set pm" using assms(4) by (simp add: done_set_def)
  have ok': "pm_ok pm'" using complete_keeps [OF assms(1) nd, of d] assms(6) by simp
  note st = complete_state(1) [OF assms(1,3), of _ d, unfolded assms(6) snd_conv]
  have np: "pm_num_pieces pm' = pm_num_pieces pm"
    using complete_state(3) [OF assms(1,3), of i d] assms(3,6) by simp
  have f: "state_at pm' i = PIECE_FAILED" using st assms(3,5) by simp
  have sh: "pm_shape pm'" "pm_pieces pm' \<noteq> None" using ok' by (auto simp: pm_ok_def pm_shape_def)
  have "wanted (piece_release pm' i) None i"
    using f sh np assms(3) by (simp add: piece_release_def wanted_def peer_lacks_def state_set_state)
  moreover have "\<not> piece_mgr_is_done pm'" using done_iff [OF ok'] f np assms(3) by auto
  moreover have "find (wanted pm' bf) [0..<pm_num_pieces pm'] \<noteq> Some i"
    using f by (auto simp: find_least wanted_def)
  moreover have "find (wanted pm' bf) [0..<pm_num_pieces pm'] = None"
    if "\<forall>j < pm_num_pieces pm. j \<noteq> i \<longrightarrow> state_at pm j = PIECE_COMPLETE"
    using that st f np assms(5) by (auto simp: find_None_iff wanted_def split: if_splits)
  ultimately show ?thesis
    using get_next_find [OF ok', of bf] np assms(2) by (auto split: option.splits)
qed

theorem failed_piece_not_offered_witness:
  "piece_mgr_get_next
     (snd (piece_mgr_complete (one_piece (map (\<lambda>b. b + 1) (sha1_hash [1]))) 0 [1])) None = - 1"
  using failed_piece_not_offered
      [of "one_piece (map (\<lambda>b. b + 1) (sha1_hash [1]))" 0 "[1]", OF _ _ _ _ _ prod.collapse [symmetric]]
    one_piece_facts [of "map (\<lambda>b. b + 1) (sha1_hash [1])"] shifted_digest [of "[1]"]
  by simp

end
