(* ===== verification/FileIO.thy ===== *)
theory FileIO
  imports Torrent
begin

text \<open>
  \<open>src/file_io.c\<close>: the files of a download.  The file system maps the components of a path (the
  text between its slashes) to the bytes of the file there; what the kernel answers to \<open>mkdir\<close>,
  \<open>open\<close>, \<open>lseek\<close> and \<open>write\<close> is a parameter of every call.  \<open>off_t\<close> values are unbounded integers:
  for the torrents that \<open>torrent_parse\<close> accepts and the indexes of their pieces they stay below
  \<open>2 ^ 63\<close> (\<open>piece_end_le\<close>).  \<open>errno\<close> is not modelled.
\<close>

section \<open>Paths\<close>

abbreviation slash :: byte where "slash \<equiv> ch CHR ''/''"
abbreviation dot :: byte where "dot \<equiv> ch CHR ''.''"

text \<open>The text between slashes, empty parts included.\<close>

primrec segments :: "byte list \<Rightarrow> byte list list" where
  "segments [] = [[]]"
| "segments (c # cs) =
     (if c = slash then [] # segments cs
      else case segments cs of [] \<Rightarrow> [[c]] | s # ss \<Rightarrow> (c # s) # ss)"

text \<open>Where the kernel finds a path: repeated and final slashes do not matter.\<close>

type_synonym path_key = "byte list list"

definition key_of :: "byte list \<Rightarrow> path_key" where
  "key_of p = filter (\<lambda>s. s \<noteq> []) (segments p)"

text \<open>The scan of \<open>safe_relative_path\<close>; the flag is \<open>p == path || p[-1] == '/'\<close>.\<close>

definition ends_segment :: "byte list \<Rightarrow> bool" where
  "ends_segment cs \<longleftrightarrow> (case cs of [] \<Rightarrow> True | c # _ \<Rightarrow> c = slash)"

primrec safe_scan :: "bool \<Rightarrow> byte list \<Rightarrow> bool" where
  "safe_scan start [] = True"
| "safe_scan start (c # cs) =
     (if c < 0x20 \<or>
         (c = dot \<and> start \<and>
          (ends_segment cs \<or> (hd cs = dot \<and> ends_segment (tl cs))))
      then False else safe_scan (c = slash) cs)"

definition safe_relative_path :: "byte list option \<Rightarrow> bool" where
  "safe_relative_path path =
     (case path of
        None \<Rightarrow> False
      | Some p \<Rightarrow> let s = cstr p
                  in if s = [] \<or> hd s = slash then False else safe_scan True s)"

section \<open>The kernel\<close>

record fsys =
  fs_files :: "path_key \<Rightarrow> byte list option"
  fs_dirs :: "path_key set"

text \<open>
  The kernel's answers: \<open>os_mkdir p\<close> says that \<open>mkdir\<close> succeeds or fails with \<open>EEXIST\<close>,
  \<open>os_open p\<close> is the descriptor or negative, \<open>os_lseek p off\<close> whether the seek succeeds, and
  \<open>os_write p off n\<close> is what \<open>write\<close> returns for \<open>n\<close> bytes at \<open>off\<close>.
\<close>

record kernel =
  os_mkdir :: "byte list \<Rightarrow> bool"
  os_open :: "byte list \<Rightarrow> int"
  os_lseek :: "path_key \<Rightarrow> int \<Rightarrow> bool"
  os_write :: "path_key \<Rightarrow> int \<Rightarrow> nat \<Rightarrow> int"

text \<open>POSIX: \<open>write\<close> returns -1 or the number of bytes that it wrote, at most all of them.\<close>

definition posix_write :: "kernel \<Rightarrow> bool" where
  "posix_write os \<longleftrightarrow> (\<forall>k off n. - 1 \<le> os_write os k off n \<and> os_write os k off n \<le> int n)"

text \<open>The bytes of a file after a write at \<open>off\<close>: a gap before it reads as zeros.\<close>

definition pwrite :: "nat \<Rightarrow> byte list \<Rightarrow> byte list \<Rightarrow> byte list" where
  "pwrite off xs file =
     take off (file @ replicate (off - length file) 0) @ xs @ drop (off + length xs) file"

definition contents :: "fsys \<Rightarrow> path_key \<Rightarrow> byte list" where
  "contents fs k = (case fs_files fs k of None \<Rightarrow> [] | Some bs \<Rightarrow> bs)"

definition set_file :: "path_key \<Rightarrow> byte list \<Rightarrow> fsys \<Rightarrow> fsys" where
  "set_file k bs fs = fs\<lparr>fs_files := (fs_files fs) (k := Some bs)\<rparr>"

text \<open>\<open>open (.., O_WRONLY | O_CREAT)\<close> leaves an existing file, \<open>O_TRUNC\<close> empties it.\<close>

definition open_create :: "path_key \<Rightarrow> fsys \<Rightarrow> fsys" where
  "open_create k fs = set_file k (contents fs k) fs"

text \<open>\<open>write (fd, xs, length xs)\<close> at offset \<open>off\<close>: the answer, and the file with what was written.\<close>

definition sys_write :: "kernel \<Rightarrow> path_key \<Rightarrow> int \<Rightarrow> byte list \<Rightarrow> fsys \<Rightarrow> int \<times> fsys" where
  "sys_write os k off xs fs =
     (let n = os_write os k off (length xs)
      in (n, if n \<le> 0 then fs
             else set_file k (pwrite (nat off) (take (nat n) xs) (contents fs k)) fs))"

section \<open>Operations\<close>

text \<open>\<open>mkdir\<close> of every prefix that ends before a slash, the one at the start of the path excepted.\<close>

primrec make_dirs :: "kernel \<Rightarrow> byte list \<Rightarrow> byte list \<Rightarrow> fsys \<Rightarrow> bool \<times> fsys" where
  "make_dirs os pre [] fs = (True, fs)"
| "make_dirs os pre (c # cs) fs =
     (if c \<noteq> slash then make_dirs os (pre @ [c]) cs fs
      else if \<not> os_mkdir os pre then (False, fs)
      else make_dirs os (pre @ [c]) cs (fs\<lparr>fs_dirs := insert (key_of pre) (fs_dirs fs)\<rparr>))"

definition create_parent_directories :: "kernel \<Rightarrow> byte list \<Rightarrow> fsys \<Rightarrow> bool \<times> fsys" where
  "create_parent_directories os full_path fs = make_dirs os (take 1 full_path) (drop 1 full_path) fs"

text \<open>
  The writer.  \<open>fw_fd\<close> is the descriptor of the single file and \<open>fw_key\<close> the file it is open on.
\<close>

record file_writer =
  fw_base_path :: "byte list option"
  fw_torrent :: "torrent option"
  fw_multi_file :: bool
  fw_fd :: int
  fw_key :: path_key
  fw_written :: int

definition fw_zero :: file_writer where
  "fw_zero = \<lparr>fw_base_path = None, fw_torrent = None, fw_multi_file = False, fw_fd = 0,
              fw_key = [], fw_written = 0\<rparr>"

text \<open>\<open>snprintf (full_path, 1024, "%s/%s", base, relative)\<close>, which fails when it is truncated.\<close>

definition full_path :: "byte list \<Rightarrow> byte list \<Rightarrow> byte list option" where
  "full_path base rel =
     (let p = cstr base @ slash # cstr rel in if 1024 \<le> length p then None else Some p)"

definition file_writer_init ::
  "kernel \<Rightarrow> allocator \<Rightarrow> torrent \<Rightarrow> byte list \<Rightarrow> fsys \<Rightarrow> int \<times> file_writer \<times> fsys" where
  "file_writer_init os mem t base fs =
     (if \<not> mem (length base + 1) then (- 1, fw_zero, fs)
      else let fw = fw_zero\<lparr>fw_base_path := Some base, fw_torrent := Some t,
                            fw_multi_file := t_is_multi_file t, fw_fd := - 1\<rparr>
      in if fw_multi_file fw then (0, fw, fs)
         else let rel = (if t_file_name t \<noteq> None then t_file_name t else t_name t)
         in if \<not> safe_relative_path rel then (- 1, fw\<lparr>fw_base_path := None\<rparr>, fs)
            else case full_path base (the rel) of
              None \<Rightarrow> (- 1, fw\<lparr>fw_base_path := None\<rparr>, fs)
            | Some p \<Rightarrow>
                let fw = fw\<lparr>fw_fd := os_open os p\<rparr>
                in if fw_fd fw < 0 then (- 1, fw\<lparr>fw_base_path := None\<rparr>, fs)
                   else (0, fw\<lparr>fw_key := key_of p\<rparr>, set_file (key_of p) [] fs))"

text \<open>
  One file of a multi-file torrent: the part \<open>write_start .. write_end\<close> of the piece that falls into
  it, from \<open>data_offset\<close> of the piece.
\<close>

definition write_part ::
  "kernel \<Rightarrow> byte list \<Rightarrow> torrent_file \<Rightarrow> int \<Rightarrow> byte list \<Rightarrow> fsys \<Rightarrow> bool \<times> fsys" where
  "write_part os base f write_start xs fs =
     (if \<not> safe_relative_path (tf_path f) then (False, fs)
      else case full_path base (the (tf_path f)) of
        None \<Rightarrow> (False, fs)
      | Some p \<Rightarrow>
          let (ok, fs) = create_parent_directories os p fs
          in if \<not> ok then (False, fs)
             else if os_open os p < 0 then (False, fs)
             else let fs = open_create (key_of p) fs
             in if \<not> os_lseek os (key_of p) write_start then (False, fs)
                else let (n, fs) = sys_write os (key_of p) write_start xs fs
                in (n = int (length xs), fs))"

text \<open>The loop over the files; the third component of the result is what \<open>fw->written\<close> gained.\<close>

primrec write_files ::
  "kernel \<Rightarrow> byte list \<Rightarrow> torrent_file list \<Rightarrow> int \<Rightarrow> int \<Rightarrow> byte list \<Rightarrow> int \<Rightarrow> nat \<Rightarrow> fsys \<Rightarrow>
   bool \<times> fsys \<times> int" where
  "write_files os base [] piece_start piece_end data file_offset data_offset fs = (True, fs, 0)"
| "write_files os base (f # files) piece_start piece_end data file_offset data_offset fs =
     (if length data \<le> data_offset then (True, fs, 0)
      else let file_start = file_offset;
               file_end = file_offset + sint (tf_length f)
      in if piece_start < file_end \<and> file_start < piece_end
         then let write_start = (if file_start < piece_start then piece_start - file_start else 0);
                  write_end = (if piece_end < file_end then piece_end - file_start
                               else sint (tf_length f));
                  write_len = nat (write_end - write_start)
              in if 0 < write_len
                 then let (ok, fs) = write_part os base f write_start
                                       (take write_len (drop data_offset data)) fs
                      in if \<not> ok then (False, fs, 0)
                         else let (ok, fs, w) = write_files os base files piece_start piece_end data
                                                  file_end (data_offset + write_len) fs
                              in (ok, fs, int write_len + w)
                 else write_files os base files piece_start piece_end data file_end data_offset fs
         else write_files os base files piece_start piece_end data file_end data_offset fs)"

definition piece_offset :: "torrent \<Rightarrow> nat \<Rightarrow> int" where
  "piece_offset t i = int i * sint (t_piece_length t)"

definition file_writer_write_piece ::
  "kernel \<Rightarrow> file_writer \<Rightarrow> byte list \<Rightarrow> nat \<Rightarrow> fsys \<Rightarrow> int \<times> file_writer \<times> fsys" where
  "file_writer_write_piece os fw data piece_index fs =
     (case fw_torrent fw of
        None \<Rightarrow> (- 1, fw, fs)
      | Some t \<Rightarrow>
          if \<not> fw_multi_file fw
          then let offset = piece_offset t piece_index
               in if fw_fd fw < 0 \<or> \<not> os_lseek os (fw_key fw) offset then (- 1, fw, fs)
                  else let (n, fs) = sys_write os (fw_key fw) offset data fs
                  in if n < 0 \<or> n \<noteq> int (length data) then (- 1, fw, fs)
                     else (0, fw\<lparr>fw_written := fw_written fw + int (length data)\<rparr>, fs)
          else let piece_start = piece_offset t piece_index;
                   piece_end = piece_start + int (length data);
                   (ok, fs, w) = write_files os (the (fw_base_path fw)) (t_files t)
                                   piece_start piece_end data 0 0 fs
               in (if ok then 0 else - 1, fw\<lparr>fw_written := fw_written fw + w\<rparr>, fs))"

text \<open>\<open>file_writer_finish\<close> and \<open>file_writer_destroy\<close>, with the descriptors that they close.\<close>

definition file_writer_finish :: "file_writer \<Rightarrow> file_writer \<times> int list" where
  "file_writer_finish fw = (if 0 \<le> fw_fd fw then (fw\<lparr>fw_fd := - 1\<rparr>, [fw_fd fw]) else (fw, []))"

definition file_writer_destroy :: "file_writer \<Rightarrow> file_writer \<times> int list" where
  "file_writer_destroy fw =
     (let (fw, closed) = file_writer_finish fw in (fw_zero\<lparr>fw_fd := - 1\<rparr>, closed))"

section \<open>Safe paths stay below the download directory\<close>

lemma segments_not_Nil [simp]: "segments p \<noteq> []"
  by (cases p) (auto split: list.split)

lemma segments_slash: "segments (p @ slash # q) = segments p @ segments q"
proof (induction p)
  case (Cons c p)
  then show ?case by (cases "segments p") auto
qed simp

lemma key_of_join: "key_of (p @ slash # q) = key_of p @ key_of q"
  by (simp only: key_of_def segments_slash filter_append)

lemma hd_segments: "hd (segments p) = takeWhile (\<lambda>c. c \<noteq> slash) p"
  by (induction p) (auto split: list.split)

lemma ends_segment_take: "ends_segment cs \<longleftrightarrow> takeWhile (\<lambda>c. c \<noteq> slash) cs = []"
  by (cases cs) (auto simp: ends_segment_def)

lemma safe_scan_segments:
  "safe_scan start p \<Longrightarrow>
     (\<forall>s \<in> set (tl (segments p)). s \<noteq> [dot] \<and> s \<noteq> [dot, dot]) \<and>
     (start \<longrightarrow> hd (segments p) \<noteq> [dot] \<and> hd (segments p) \<noteq> [dot, dot])"
proof (induction p arbitrary: start)
  case (Cons c p)
  have IH: "safe_scan (c = slash) p" using Cons.prems by (simp split: if_splits)
  obtain s ss where ss: "segments p = s # ss" by (cases "segments p") auto
  show ?case
  proof (cases "c = slash")
    case True
    then show ?thesis using Cons.IH [OF IH] ss by auto
  next
    case False
    have hd: "hd (segments (c # p)) = c # s" using False ss by simp
    have s: "s = takeWhile (\<lambda>c. c \<noteq> slash) p" using hd_segments [of p] ss by simp
    have "c # s \<noteq> [dot] \<and> c # s \<noteq> [dot, dot]" if start
    proof (rule ccontr)
      assume "\<not> (c # s \<noteq> [dot] \<and> c # s \<noteq> [dot, dot])"
      then have "c = dot \<and> (s = [] \<or> s = [dot])" by auto
      then have "c = dot \<and> (ends_segment p \<or> (hd p = dot \<and> ends_segment (tl p)))"
        using s by (cases p) (auto simp: ends_segment_take split: if_splits)
      then show False using Cons.prems that by auto
    qed
    then show ?thesis using Cons.IH [OF IH] ss False hd by simp
  qed
qed simp

lemma safe_path_key:
  assumes "safe_relative_path (Some p)"
  shows "key_of (cstr p) \<noteq> [] \<and> [dot] \<notin> set (key_of (cstr p)) \<and> [dot, dot] \<notin> set (key_of (cstr p))"
proof -
  let ?s = "cstr p"
  have s: "?s \<noteq> []" "hd ?s \<noteq> slash" "safe_scan True ?s"
    using assms by (auto simp: safe_relative_path_def Let_def split: if_splits)
  have hd: "hd (segments ?s) \<noteq> []" using s(1,2) by (cases ?s) (auto simp: hd_segments simp del: segments.simps)
  then have "hd (segments ?s) \<in> set (key_of ?s)"
    by (simp add: key_of_def)
  then have "key_of ?s \<noteq> []" by auto
  moreover have "x \<noteq> [dot] \<and> x \<noteq> [dot, dot]" if "x \<in> set (segments ?s)" for x
    using that safe_scan_segments [OF s(3)] by (cases "segments ?s") auto
  ultimately show ?thesis by (auto simp: key_of_def)
qed

section \<open>What a write changes\<close>

definition file_key :: "byte list \<Rightarrow> torrent_file \<Rightarrow> path_key" where
  "file_key base f = key_of (cstr base @ slash # cstr (the (tf_path f)))"

lemma full_path_key: "full_path base (the (tf_path f)) = Some p \<Longrightarrow> key_of p = file_key base f"
  by (auto simp: full_path_def file_key_def Let_def split: if_splits)

lemma make_dirs_files: "fs_files (snd (make_dirs os pre p fs)) = fs_files fs"
  by (induction p arbitrary: pre fs) auto

lemma contents_set_file [simp]:
  "contents (set_file k bs fs) j = (if j = k then bs else contents fs j)"
  by (simp add: contents_def set_file_def)

lemma contents_make_dirs:
  "create_parent_directories os p fs = (ok, fs') \<Longrightarrow> fs_files fs' = fs_files fs"
  using make_dirs_files [of os "take 1 p" "drop 1 p" fs] by (simp add: create_parent_directories_def)

lemma contents_files: "fs_files fs = fs_files fs' \<Longrightarrow> contents fs k = contents fs' k"
  by (simp add: contents_def)

lemma write_part_frame:
  assumes "write_part os base f ws xs fs = (ok, fs')" "fs_files fs' k \<noteq> fs_files fs k"
  shows "safe_relative_path (tf_path f) \<and> k = file_key base f"
  using assms full_path_key [of base f]
  by (auto simp: write_part_def Let_def sys_write_def open_create_def set_file_def
           dest!: contents_make_dirs split: if_splits option.splits prod.splits)

lemma write_part_ok:
  assumes "write_part os base f (int ws) xs fs = (True, fs')" "posix_write os" "xs \<noteq> []"
  shows "contents fs' (file_key base f) = pwrite ws xs (contents fs (file_key base f))"
proof -
  obtain p ok fs1 where p: "full_path base (the (tf_path f)) = Some p"
      "create_parent_directories os p fs = (ok, fs1)"
      "sys_write os (key_of p) (int ws) xs (open_create (key_of p) fs1) = (int (length xs), fs')"
    using assms(1) by (auto simp: write_part_def Let_def split: if_splits option.splits prod.splits)
  have "contents fs1 k = contents fs k" for k
    using contents_make_dirs [OF p(2)] by (rule contents_files)
  moreover have "os_write os (key_of p) (int ws) (length xs) = int (length xs)"
    using p(3) by (simp add: sys_write_def Let_def)
  ultimately show ?thesis
    using p(3) full_path_key [OF p(1)] assms(3) by (auto simp: sys_write_def open_create_def)
qed

lemma write_files_frame:
  "write_files os base files ps pe data fo doff fs = (ok, fs', w) \<Longrightarrow>
   fs_files fs' k \<noteq> fs_files fs k \<Longrightarrow>
   \<exists>f \<in> set files. 0 < sint (tf_length f) \<and> safe_relative_path (tf_path f) \<and> k = file_key base f"
proof (induction files arbitrary: fo doff fs w)
  case (Cons f files)
  let ?n = "sint (tf_length f)"
  let ?ws = "if fo < ps then ps - fo else 0"
  let ?wl = "nat ((if pe < fo + ?n then pe - fo else ?n) - ?ws)"
  show ?case
  proof (cases "doff < length data \<and> ps < fo + ?n \<and> fo < pe \<and> 0 < ?wl")
    case False
    then have "write_files os base files ps pe data (fo + ?n) doff fs = (ok, fs', w) \<or> fs' = fs"
      using Cons.prems(1) by (auto simp: Let_def split: if_splits)
    then show ?thesis using Cons.IH Cons.prems(2) by fastforce
  next
    case True
    then have pos: "0 < ?n" by (auto split: if_splits)
    obtain ok1 fs1 where wp: "write_part os base f ?ws (take ?wl (drop doff data)) fs = (ok1, fs1)"
      by (rule prod.exhaust)
    show ?thesis
    proof (cases "fs_files fs1 k = fs_files fs k")
      case False
      then show ?thesis using write_part_frame [OF wp] pos by auto
    next
      case same: True
      have "\<exists>w'. write_files os base files ps pe data (fo + ?n) (doff + ?wl) fs1 = (ok, fs', w') \<or> fs' = fs1"
        using Cons.prems(1) True wp by (simp add: Let_def split: if_splits prod.splits)
      then show ?thesis using Cons.IH Cons.prems(2) same by fastforce
    qed
  qed
qed simp

section \<open>The content of a download\<close>

text \<open>
  The abstract content: the files one after the other, each at the length the torrent gives it,
  what is missing read as zeros.
\<close>

definition fit :: "nat \<Rightarrow> byte list \<Rightarrow> byte list" where
  "fit n xs = take n (xs @ replicate n 0)"

definition file_size :: "torrent_file \<Rightarrow> nat" where
  "file_size f = nat (sint (tf_length f))"

definition file_view :: "byte list \<Rightarrow> fsys \<Rightarrow> torrent_file \<Rightarrow> byte list" where
  "file_view base fs f = fit (file_size f) (contents fs (file_key base f))"

definition flat_content :: "byte list \<Rightarrow> torrent_file list \<Rightarrow> fsys \<Rightarrow> byte list" where
  "flat_content base files fs = concat (map (file_view base fs) files)"

text \<open>No two files that hold bytes are at the same place.\<close>

definition distinct_files :: "byte list \<Rightarrow> torrent_file list \<Rightarrow> bool" where
  "distinct_files base files \<longleftrightarrow>
     distinct (map (file_key base) (filter (\<lambda>f. 0 < sint (tf_length f)) files))"

lemma length_fit [simp]: "length (fit n xs) = n"
  by (simp add: fit_def)

lemma nth_fit: "k < n \<Longrightarrow> fit n xs ! k = (if k < length xs then xs ! k else 0)"
  by (simp add: fit_def nth_append)

lemma nth_pwrite:
  "k < length (pwrite off xs c) \<Longrightarrow> pwrite off xs c ! k =
     (if off \<le> k \<and> k < off + length xs then xs ! (k - off) else if k < length c then c ! k else 0)"
  by (cases "length c \<le> off") (auto simp: pwrite_def nth_append min_def)

lemma length_pwrite: "length (pwrite off xs c) = max (length c) (off + length xs)"
  by (simp add: pwrite_def)

lemma fit_pwrite:
  assumes "off + length xs \<le> n"
  shows "fit n (pwrite off xs c) = blit off xs (fit n c)"
proof (rule nth_equalityI)
  show "length (fit n (pwrite off xs c)) = length (blit off xs (fit n c))" using assms by simp
  fix k assume "k < length (fit n (pwrite off xs c))"
  then show "fit n (pwrite off xs c) ! k = blit off xs (fit n c) ! k"
    using assms by (auto simp: nth_fit nth_blit nth_pwrite length_pwrite)
qed

text \<open>
  \<open>overlay o s data buf\<close>: the bytes \<open>buf\<close>, which sit at \<open>o\<close> in the content, after \<open>data\<close> has been
  put at \<open>s\<close> of the content.
\<close>

definition overlay :: "nat \<Rightarrow> nat \<Rightarrow> byte list \<Rightarrow> byte list \<Rightarrow> byte list" where
  "overlay p s data buf =
     map (\<lambda>k. if s \<le> p + k \<and> p + k < s + length data then data ! (p + k - s) else buf ! k)
       [0..<length buf]"

lemma length_overlay [simp]: "length (overlay p s data buf) = length buf"
  by (simp add: overlay_def)

lemma overlay_Nil [simp]: "overlay p s data [] = []"
  by (simp add: overlay_def)

lemma overlay_append: "overlay p s data (xs @ ys) = overlay p s data xs @ overlay (p + length xs) s data ys"
  by (rule nth_equalityI) (auto simp: overlay_def nth_append algebra_simps)

lemma overlay_outside:
  "p + length buf \<le> s \<or> s + length data \<le> p \<Longrightarrow> overlay p s data buf = buf"
  by (rule nth_equalityI) (auto simp: overlay_def)

lemma overlay_no_data [simp]: "overlay p s [] buf = buf"
  by (rule nth_equalityI) (auto simp: overlay_def)

lemma overlay_blit: "s + length data \<le> length buf \<Longrightarrow> overlay 0 s data buf = blit s data buf"
  by (rule nth_equalityI) (auto simp: overlay_def nth_blit)

text \<open>The part of the data that falls into a file, at the place the code computes for it.\<close>

lemma overlay_part:
  assumes "p + ws - s = d" "s \<le> p + ws" "ws + wl \<le> length buf" "d + wl \<le> length data"
    and "0 < ws \<longrightarrow> d = 0" "ws + wl < length buf \<longrightarrow> d + wl = length data"
  shows "blit ws (take wl (drop d data)) buf = overlay p s data buf"
proof (rule nth_equalityI)
  have l: "length (take wl (drop d data)) = wl" using assms(4) by simp
  show "length (blit ws (take wl (drop d data)) buf) = length (overlay p s data buf)"
    using assms(3) l by simp
  fix k assume "k < length (blit ws (take wl (drop d data)) buf)"
  then have k: "k < length buf" using assms(3) l by simp
  have b: "blit ws (take wl (drop d data)) buf ! k =
      (if ws \<le> k \<and> k < ws + wl then take wl (drop d data) ! (k - ws) else buf ! k)"
    using nth_blit [of ws "take wl (drop d data)" buf k] assms(3) l k by simp
  have o: "overlay p s data buf ! k =
      (if s \<le> p + k \<and> p + k < s + length data then data ! (p + k - s) else buf ! k)"
    using k by (simp add: overlay_def)
  consider "ws \<le> k" "k < ws + wl" | "k < ws" | "ws + wl \<le> k" by linarith
  then show "blit ws (take wl (drop d data)) buf ! k = overlay p s data buf ! k"
  proof cases
    case 1
    then have "d + (k - ws) = p + k - s" using assms(1,2) by linarith
    moreover have "s \<le> p + k" "p + k < s + length data" using 1 assms(1,2,4) by linarith+
    moreover have "take wl (drop d data) ! (k - ws) = data ! (d + (k - ws))"
      using 1 assms(4) by (subst nth_take) auto
    ultimately show ?thesis using 1 b o by simp
  next
    case 2
    then have "p + k < s" using assms(1,2,5) by linarith
    then show ?thesis using 2 b o by simp
  next
    case 3
    then have "s + length data \<le> p + k" using assms(1,2,6) k by linarith
    then show ?thesis using 3 b o by simp
  qed
qed

lemma take_own_length: "xs = take m ys \<Longrightarrow> xs = take (length xs) ys"
  by (cases "m \<le> length ys") simp_all

lemma length_part: "d + wl \<le> length xs \<Longrightarrow> length (take wl (drop d xs)) = wl"
  by simp

lemma write_part_view:
  assumes "write_part os base f (int ws) (take wl (drop d data)) fs = (True, fs1)" "posix_write os"
    and "0 < wl" "p + ws - s = d" "s \<le> p + ws" "ws + wl \<le> file_size f" "d + wl \<le> length data"
    and "0 < ws \<longrightarrow> d = 0" "ws + wl < file_size f \<longrightarrow> d + wl = length data"
  shows "file_view base fs1 f = overlay p s data (file_view base fs f)"
proof -
  let ?xs = "take wl (drop d data)"
  have l: "length ?xs = wl" using assms(7) by (rule length_part)
  then have "?xs \<noteq> []" using assms(3) by auto
  then have "contents fs1 (file_key base f) = pwrite ws ?xs (contents fs (file_key base f))"
    by (rule write_part_ok [OF assms(1,2)])
  then have "file_view base fs1 f = blit ws ?xs (file_view base fs f)"
    using fit_pwrite [of ws ?xs "file_size f"] assms(6) l by (simp add: file_view_def)
  also have "\<dots> = overlay p s data (file_view base fs f)"
    by (rule overlay_part) (use assms in \<open>simp_all add: file_view_def\<close>)
  finally show ?thesis .
qed

lemma view_frame:
  assumes "fs_files fs' (file_key base f) = fs_files fs (file_key base f)"
  shows "file_view base fs' f = file_view base fs f"
  using assms by (simp add: file_view_def contents_def)

lemma view_empty: "\<not> 0 < sint (tf_length f) \<Longrightarrow> file_view base fs f = []"
  by (simp add: file_view_def file_size_def fit_def)

lemma write_files_overlay:
  "write_files os base files (int s) (int (s + length data)) data (int p)
     (if p \<le> s then 0 else min (p - s) (length data)) fs = (True, fs', w) \<Longrightarrow>
   posix_write os \<Longrightarrow> distinct_files base files \<Longrightarrow>
   \<forall>f \<in> set files. 0 \<le> sint (tf_length f) \<Longrightarrow>
   flat_content base files fs' = overlay p s data (flat_content base files fs)"
proof (induction files arbitrary: p fs w)
  case Nil
  then show ?case by (simp add: flat_content_def)
next
  case (Cons f files)
  let ?L = "length data" and ?n = "file_size f"
  let ?d = "if p \<le> s then 0 else min (p - s) ?L"
  have n: "sint (tf_length f) = int ?n" using Cons.prems(4) by (simp add: file_size_def)
  have dist: "distinct_files base files" and
    other: "0 < sint (tf_length f) \<longrightarrow>
      (\<forall>g \<in> set files. 0 < sint (tf_length g) \<longrightarrow> file_key base g \<noteq> file_key base f)"
    using Cons.prems(3) by (auto simp: distinct_files_def image_iff split: if_splits)
  have nn: "\<forall>g \<in> set files. 0 \<le> sint (tf_length g)" using Cons.prems(4) by simp
  have len: "length (file_view base fs f) = ?n" for fs by (simp add: file_view_def)
  have split: "overlay p s data (flat_content base (f # files) fs) =
      overlay p s data (file_view base fs f) @ overlay (p + ?n) s data (flat_content base files fs)"
    by (simp add: flat_content_def overlay_append len)
  show ?case
  proof (cases "?L \<le> ?d")
    case True
    then have "s + ?L \<le> p \<or> data = []" by (auto split: if_splits)
    then have "overlay p s data (flat_content base (f # files) fs) = flat_content base (f # files) fs"
      by (auto intro: overlay_outside)
    then show ?thesis using Cons.prems(1) True by simp
  next
    case False
    let ?ws = "if p < s then s - p else 0"
    let ?wl = "(if s + ?L < p + ?n then s + ?L - p else ?n) - ?ws"
    have next_d: "(if p + ?n \<le> s then 0 else min (p + ?n - s) ?L) =
        (if s < p + ?n \<and> p < s + ?L then ?d + ?wl else ?d)"
      using False by (auto split: if_splits)
    show ?thesis
    proof (cases "s < p + ?n \<and> p < s + ?L \<and> 0 < ?wl")
      case out: False
      then have "s < p + ?n \<and> p < s + ?L \<longrightarrow> ?wl = 0" by (metis neq0_conv)
      then have "(if p + ?n \<le> s then 0 else min (p + ?n - s) ?L) = ?d"
        using next_d by presburger
      then have run: "write_files os base files (int s) (int (s + ?L)) data (int (p + ?n))
          (if p + ?n \<le> s then 0 else min (p + ?n - s) ?L) fs = (True, fs', w)"
        using Cons.prems(1) False out n by (auto simp: Let_def split: if_splits)
      note IH = Cons.IH [OF run Cons.prems(2) dist nn]
      have "file_view base fs' f = file_view base fs f"
      proof (cases "0 < sint (tf_length f)")
        case True
        have "fs_files fs' (file_key base f) = fs_files fs (file_key base f)"
          using write_files_frame [OF run, of "file_key base f"]
            other True by metis
        then show ?thesis by (rule view_frame)
      qed (simp add: view_empty)
      moreover have "overlay p s data (file_view base fs f) = file_view base fs f"
      proof (cases "?n = 0")
        case False
        have L: "0 < ?L" using \<open>\<not> ?L \<le> ?d\<close> by (cases data) simp_all
        have "0 < ?wl" if "s < p + ?n" "p < s + ?L"
          using that L False
          by (cases "p < s"; cases "s + ?L < p + ?n"; simp only: if_True if_False; linarith)
        then have "\<not> (s < p + ?n \<and> p < s + ?L)" using out by blast
        then show ?thesis using len by (intro overlay_outside) auto
      qed (simp add: file_view_def fit_def)
      ultimately show ?thesis using IH split by (simp add: flat_content_def)
    next
      case True
      let ?xs = "take ?wl (drop ?d data)"
      have wsi: "(if int p < int s then int s - int p else 0) = int ?ws" by simp
      have wli: "nat ((if int (s + ?L) < int p + int ?n then int (s + ?L) - int p else int ?n) - int ?ws) = ?wl"
        using True by (auto split: if_splits)
      have bounds: "p + ?ws - s = ?d" "s \<le> p + ?ws" "?ws + ?wl \<le> ?n" "?d + ?wl \<le> ?L"
        "0 < ?ws \<longrightarrow> ?d = 0" "?ws + ?wl < ?n \<longrightarrow> ?d + ?wl = ?L"
        using True False by (auto split: if_splits)
      obtain ok1 fs1 where wp: "write_part os base f (int ?ws) ?xs fs = (ok1, fs1)"
        by (rule prod.exhaust)
      have "ok1 \<and> (\<exists>w'. write_files os base files (int s) (int (s + ?L)) data (int p + int ?n)
          (?d + ?wl) fs1 = (True, fs', w'))"
        using Cons.prems(1) False True wp n wsi wli by (simp add: Let_def split: prod.splits if_splits)
      then obtain w' where ok1: ok1 and rest: "write_files os base files (int s) (int (s + ?L)) data
          (int (p + ?n)) (if p + ?n \<le> s then 0 else min (p + ?n - s) ?L) fs1 = (True, fs', w')"
        using next_d True by auto
      note IH = Cons.IH [OF rest Cons.prems(2) dist nn]
      have wp': "write_part os base f (int ?ws) ?xs fs = (True, fs1)"
        using wp eqTrueI [OF ok1] by (simp only:)
      have v1: "file_view base fs1 f = overlay p s data (file_view base fs f)"
        by (rule write_part_view [OF wp' Cons.prems(2) _ bounds]) (use True in blast)
      have pos: "0 < sint (tf_length f)" using n True bounds(3) by linarith
      have "fs_files fs' (file_key base f) = fs_files fs1 (file_key base f)"
        using write_files_frame [OF rest, of "file_key base f"] other pos by metis
      then have "file_view base fs' f = file_view base fs1 f" by (rule view_frame)
      moreover have "file_view base fs1 g = file_view base fs g" if "g \<in> set files" for g
      proof (cases "0 < sint (tf_length g)")
        case True
        then have "fs_files fs1 (file_key base g) = fs_files fs (file_key base g)"
          using write_part_frame [OF wp, of "file_key base g"] other pos that by metis
        then show ?thesis by (rule view_frame)
      qed (simp add: view_empty)
      then have "flat_content base files fs1 = flat_content base files fs"
        by (simp add: flat_content_def cong: map_cong)
      ultimately show ?thesis using IH split v1 by (simp add: flat_content_def)
    qed
  qed
qed

section \<open>A store written at positions\<close>

text \<open>
  What the downloader relies on: a state with a content of fixed size, and a fallible operation that
  writes piece \<open>i\<close> at its place and touches nothing else.  Then the order in which the pieces
  arrive does not matter, nor does writing one twice.
\<close>

primrec put_all :: "(nat \<Rightarrow> byte list \<Rightarrow> 's \<Rightarrow> 's option) \<Rightarrow> (nat \<times> byte list) list \<Rightarrow> 's \<Rightarrow> 's option" where
  "put_all put [] s = Some s"
| "put_all put (p # ps) s = Option.bind (put (fst p) (snd p) s) (put_all put ps)"

locale positional_store =
  fixes ok :: "'s \<Rightarrow> bool"
    and view :: "'s \<Rightarrow> byte list"
    and put :: "nat \<Rightarrow> byte list \<Rightarrow> 's \<Rightarrow> 's option"
    and place :: "nat \<Rightarrow> nat"
    and size :: nat
  assumes view_size: "ok s \<Longrightarrow> length (view s) = size"
    and put_ok: "ok s \<Longrightarrow> put i xs s = Some s' \<Longrightarrow> ok s'"
    and put_view: "ok s \<Longrightarrow> place i + length xs \<le> size \<Longrightarrow> put i xs s = Some s' \<Longrightarrow>
                   view s' = blit (place i) xs (view s)"
begin

definition part :: "byte list \<Rightarrow> nat \<times> byte list \<Rightarrow> bool" where
  "part c p \<longleftrightarrow> place (fst p) + length (snd p) \<le> size \<and>
     snd p = take (length (snd p)) (drop (place (fst p)) c)"

definition covers :: "(nat \<times> byte list) list \<Rightarrow> nat \<Rightarrow> bool" where
  "covers ps k \<longleftrightarrow> (\<exists>p \<in> set ps. place (fst p) \<le> k \<and> k < place (fst p) + length (snd p))"

lemma put_agrees:
  assumes "ok s" "put (fst p) (snd p) s = Some s'" "part c p" "length c = size" "k < size"
    and "view s ! k = c ! k \<or> place (fst p) \<le> k \<and> k < place (fst p) + length (snd p)"
  shows "view s' ! k = c ! k"
proof -
  have b: "place (fst p) + length (snd p) \<le> size" "snd p = take (length (snd p)) (drop (place (fst p)) c)"
    using assms(3) by (auto simp: part_def)
  have "view s' = blit (place (fst p)) (snd p) (view s)" using put_view assms(1,2) b(1) by blast
  moreover have "snd p ! (k - place (fst p)) = c ! k"
    if "place (fst p) \<le> k" "k < place (fst p) + length (snd p)"
  proof -
    have "take (length (snd p)) (drop (place (fst p)) c) ! (k - place (fst p)) = c ! k"
      using that b(1) assms(4) by simp
    then show ?thesis by (simp only: b(2) [symmetric])
  qed
  ultimately show ?thesis
    using assms(5,6) b(1) view_size [OF assms(1)] by (auto simp: nth_blit)
qed

lemma put_all_agrees:
  assumes "ok s" "put_all put ps s = Some s'" "\<forall>p \<in> set ps. part c p" "length c = size" "k < size"
    and "view s ! k = c ! k \<or> covers ps k"
  shows "ok s' \<and> view s' ! k = c ! k"
  using assms
proof (induction ps arbitrary: s)
  case (Cons p ps)
  obtain s1 where s1: "put (fst p) (snd p) s = Some s1" "put_all put ps s1 = Some s'"
    using Cons.prems(2) by (auto simp: bind_eq_Some_conv)
  have "view s1 ! k = c ! k \<or> covers ps k"
    using put_agrees [OF Cons.prems(1) s1(1), of c k] Cons.prems(3-6) by (auto simp: covers_def)
  then show ?case
    using Cons.IH [OF put_ok [OF Cons.prems(1) s1(1)] s1(2)] Cons.prems(3,4,5) by simp
qed (auto simp: covers_def)

lemma put_all_content:
  assumes "ok s" "put_all put ps s = Some s'" "\<forall>p \<in> set ps. part c p" "length c = size"
    and "\<forall>k < size. covers ps k"
  shows "view s' = c"
proof -
  have ok: "ok s'" if "0 < size" using put_all_agrees [OF assms(1-4), of 0] assms(5) that by blast
  show ?thesis
  proof (cases "size = 0")
    case True
    have "ok s'" using assms(1,2)
    proof (induction ps arbitrary: s)
      case (Cons p ps)
      then show ?case by (auto simp: bind_eq_Some_conv intro: put_ok)
    qed simp
    then show ?thesis using True assms(4) view_size by simp
  next
    case False
    then show ?thesis
      using put_all_agrees [OF assms(1-4)] assms(4,5) view_size [OF ok]
      by (intro nth_equalityI) auto
  qed
qed

end

section \<open>The writer is such a store\<close>

text \<open>
  The writer and the disk, set up for an accepted torrent: after \<open>file_writer_init\<close>, until the
  writer is finished.
\<close>

definition writer_ok :: "kernel \<Rightarrow> torrent \<Rightarrow> file_writer \<times> fsys \<Rightarrow> bool" where
  "writer_ok os t s \<longleftrightarrow>
     posix_write os \<and> torrent_wf t \<and> fw_torrent (fst s) = Some t \<and>
     fw_multi_file (fst s) = t_is_multi_file t \<and>
     (if t_is_multi_file t
      then \<exists>base. fw_base_path (fst s) = Some base \<and> distinct_files base (t_files t)
      else 0 \<le> fw_fd (fst s))"

definition writer_view :: "torrent \<Rightarrow> file_writer \<times> fsys \<Rightarrow> byte list" where
  "writer_view t s =
     (if t_is_multi_file t then flat_content (the (fw_base_path (fst s))) (t_files t) (snd s)
      else fit (nat (sint (t_total_size t))) (contents (snd s) (fw_key (fst s))))"

definition writer_put ::
  "kernel \<Rightarrow> nat \<Rightarrow> byte list \<Rightarrow> file_writer \<times> fsys \<Rightarrow> (file_writer \<times> fsys) option" where
  "writer_put os i xs s =
     (case file_writer_write_piece os (fst s) xs i (snd s) of
        (r, s') \<Rightarrow> if r = 0 then Some s' else None)"

definition piece_place :: "torrent \<Rightarrow> nat \<Rightarrow> nat" where
  "piece_place t i = i * nat (sint (t_piece_length t))"

lemma piece_offset_place: "torrent_wf t \<Longrightarrow> piece_offset t i = int (piece_place t i)"
  by (simp add: torrent_wf_def piece_offset_def piece_place_def)

lemma sum_file_sizes:
  assumes "\<forall>f \<in> set fs. 0 \<le> sint (tf_length f)"
  shows "int (sum_list (map file_size fs)) = sum_lengths fs"
  using assms by (induction fs) (auto simp: sum_lengths_def file_size_def)

lemma length_flat: "length (flat_content base files fs) = sum_list (map file_size files)"
  by (induction files) (auto simp: flat_content_def file_view_def)

lemma writer_view_size:
  assumes "writer_ok os t s" shows "length (writer_view t s) = nat (sint (t_total_size t))"
  using assms sum_file_sizes [of "t_files t"]
  by (auto simp: writer_view_def writer_ok_def torrent_wf_def length_flat split: if_splits)

lemma write_piece_keeps:
  assumes "file_writer_write_piece os fw xs i fs = (r, fw', fs')"
  shows "fw_torrent fw' = fw_torrent fw \<and> fw_multi_file fw' = fw_multi_file fw \<and>
         fw_base_path fw' = fw_base_path fw \<and> fw_fd fw' = fw_fd fw \<and> fw_key fw' = fw_key fw"
  using assms
  by (auto simp: file_writer_write_piece_def Let_def split: option.splits if_splits prod.splits)

lemma writer_put_keeps [keeps]:
  assumes "writer_ok os t s" "writer_put os i xs s = Some s'" shows "writer_ok os t s'"
proof -
  obtain fw' fs' where r: "file_writer_write_piece os (fst s) xs i (snd s) = (0, fw', fs')"
      "s' = (fw', fs')"
    using assms(2) by (auto simp: writer_put_def split: prod.splits if_splits)
  then show ?thesis using write_piece_keeps [OF r(1)] assms(1) by (simp add: writer_ok_def)
qed

lemma writer_put_view:
  assumes ok: "writer_ok os t s" and room: "piece_place t i + length xs \<le> nat (sint (t_total_size t))"
    and put: "writer_put os i xs s = Some s'"
  shows "writer_view t s' = blit (piece_place t i) xs (writer_view t s)"
proof -
  obtain fw' fs' where r: "file_writer_write_piece os (fst s) xs i (snd s) = (0, fw', fs')"
      "s' = (fw', fs')"
    using put by (auto simp: writer_put_def split: prod.splits if_splits)
  note kp = write_piece_keeps [OF r(1)]
  have wf: "torrent_wf t" and pw: "posix_write os" and ft: "fw_torrent (fst s) = Some t"
    and m: "fw_multi_file (fst s) = t_is_multi_file t" using ok by (auto simp: writer_ok_def)
  note off = piece_offset_place [OF wf, of i]
  show ?thesis
  proof (cases "t_is_multi_file t")
    case True
    obtain base where b: "fw_base_path (fst s) = Some base" "distinct_files base (t_files t)"
      using ok True by (auto simp: writer_ok_def)
    obtain w where run: "write_files os base (t_files t) (int (piece_place t i))
        (int (piece_place t i + length xs)) xs (int 0)
        (if 0 \<le> piece_place t i then 0 else min (0 - piece_place t i) (length xs)) (snd s) = (True, fs', w)"
      using r(1) True m ft b off
      by (auto simp: file_writer_write_piece_def Let_def split: prod.splits if_splits)
    have nn: "\<forall>f \<in> set (t_files t). 0 \<le> sint (tf_length f)"
      using wf True by (simp add: torrent_wf_def)
    have "flat_content base (t_files t) fs' =
        overlay 0 (piece_place t i) xs (flat_content base (t_files t) (snd s))"
      by (rule write_files_overlay [OF run pw b(2) nn])
    also have "\<dots> = blit (piece_place t i) xs (flat_content base (t_files t) (snd s))"
      using room writer_view_size [OF ok] True b(1) by (intro overlay_blit) (simp add: writer_view_def)
    finally show ?thesis using r(2) kp b(1) True by (simp add: writer_view_def)
  next
    case False
    have n: "sys_write os (fw_key (fst s)) (int (piece_place t i)) xs (snd s) = (int (length xs), fs')"
      using r(1) False m ft off
      by (auto simp: file_writer_write_piece_def Let_def split: prod.splits if_splits)
    show ?thesis
    proof (cases "xs = []")
      case True
      then show ?thesis using n r(2) kp False
        by (auto simp: sys_write_def Let_def writer_view_def)
    next
      case ne: False
      then have "contents fs' (fw_key (fst s)) =
          pwrite (piece_place t i) xs (contents (snd s) (fw_key (fst s)))"
        using n by (auto simp: sys_write_def Let_def)
      then show ?thesis
        using r(2) kp False room by (simp add: writer_view_def fit_pwrite)
    qed
  qed
qed

interpretation disk: positional_store "writer_ok os t" "writer_view t" "writer_put os" "piece_place t"
  "nat (sint (t_total_size t))" for os t
  by unfold_locales (auto intro: writer_view_size writer_put_keeps writer_put_view)

section \<open>What a write leaves alone\<close>

text \<open>
  The bytes \<open>xs\<close> and \<open>ys\<close>, which sit at \<open>p\<close> of the content, agree outside the \<open>n\<close> bytes from \<open>s\<close>.
\<close>

definition same_outside :: "nat \<Rightarrow> nat \<Rightarrow> nat \<Rightarrow> byte list \<Rightarrow> byte list \<Rightarrow> bool" where
  "same_outside s n p xs ys \<longleftrightarrow> length xs = length ys \<and>
     (\<forall>k < length xs. p + k < s \<or> s + n \<le> p + k \<longrightarrow> xs ! k = ys ! k)"

lemma same_outside_refl [simp]: "same_outside s n p xs xs"
  by (simp add: same_outside_def)

lemma same_outside_trans: "same_outside s n p xs ys \<Longrightarrow> same_outside s n p ys zs \<Longrightarrow> same_outside s n p xs zs"
  by (simp add: same_outside_def)

lemma same_outside_append:
  "same_outside s n p xs ys \<Longrightarrow> same_outside s n (p + length xs) us vs \<Longrightarrow>
   same_outside s n p (xs @ us) (ys @ vs)"
  by (auto simp: same_outside_def nth_append)

lemma write_part_any:
  assumes "write_part os base f (int ws) xs fs = (ok, fs')"
  shows "contents fs' (file_key base f) = contents fs (file_key base f) \<or>
    (\<exists>m. contents fs' (file_key base f) = pwrite ws (take m xs) (contents fs (file_key base f)))"
proof (cases "safe_relative_path (tf_path f) \<and> full_path base (the (tf_path f)) \<noteq> None")
  case False
  then show ?thesis using assms by (auto simp: write_part_def split: option.splits)
next
  case True
  then obtain p where p: "full_path base (the (tf_path f)) = Some p" "safe_relative_path (tf_path f)" by blast
  obtain ok1 fs1 where d: "create_parent_directories os p fs = (ok1, fs1)" by (rule prod.exhaust)
  have c: "contents fs1 k = contents fs k" for k
    using contents_make_dirs [OF d] by (rule contents_files)
  have "fs' = fs1 \<or> fs' = open_create (key_of p) fs1 \<or>
      fs' = snd (sys_write os (key_of p) (int ws) xs (open_create (key_of p) fs1))"
    using assms p d by (auto simp: write_part_def Let_def split: if_splits prod.splits)
  then show ?thesis
    using c full_path_key [OF p(1)] by (auto simp: sys_write_def open_create_def Let_def split: if_splits)
qed

lemma fit_pwrite_outside:
  assumes "s \<le> p + ws" "p + ws + length xs \<le> s + n"
  shows "same_outside s n p (fit m c) (fit m (pwrite ws xs c))"
  using assms by (auto simp: same_outside_def nth_fit nth_pwrite length_pwrite)

lemma write_part_outside:
  assumes "write_part os base f (int ws) xs fs = (ok, fs')" "s \<le> p + ws" "p + ws + length xs \<le> s + n"
  shows "same_outside s n p (file_view base fs f) (file_view base fs' f)"
  using write_part_any [OF assms(1)] fit_pwrite_outside [OF assms(2), of "take _ xs" n] assms(3)
  by (auto simp: file_view_def)

lemma write_files_outside:
  "write_files os base files (int s) (int (s + n)) data (int p) doff fs = (ok, fs', w) \<Longrightarrow>
   distinct_files base files \<Longrightarrow> \<forall>f \<in> set files. 0 \<le> sint (tf_length f) \<Longrightarrow>
   same_outside s n p (flat_content base files fs) (flat_content base files fs')"
proof (induction files arbitrary: p fs w doff)
  case Nil
  then show ?case by (simp add: flat_content_def)
next
  case (Cons f files)
  let ?m = "file_size f"
  have m: "sint (tf_length f) = int ?m" using Cons.prems(3) by (simp add: file_size_def)
  have dist: "distinct_files base files" and
    other: "0 < sint (tf_length f) \<longrightarrow>
      (\<forall>g \<in> set files. 0 < sint (tf_length g) \<longrightarrow> file_key base g \<noteq> file_key base f)"
    using Cons.prems(2) by (auto simp: distinct_files_def image_iff split: if_splits)
  have nn: "\<forall>g \<in> set files. 0 \<le> sint (tf_length g)" using Cons.prems(3) by simp
  have len: "length (file_view base fs f) = ?m" for fs by (simp add: file_view_def)
  have flat: "flat_content base (f # files) fs = file_view base fs f @ flat_content base files fs" for fs
    by (simp add: flat_content_def)
  have tail: "same_outside s n p (flat_content base (f # files) fs1) (flat_content base (f # files) fs')"
    if "write_files os base files (int s) (int (s + n)) data (int (p + ?m)) d fs1 = (ok, fs', w')" for d fs1 w'
  proof -
    have "file_view base fs' f = file_view base fs1 f"
    proof (cases "0 < sint (tf_length f)")
      case True
      then have "fs_files fs' (file_key base f) = fs_files fs1 (file_key base f)"
        using write_files_frame [OF that, of "file_key base f"] other by metis
      then show ?thesis by (rule view_frame)
    qed (simp add: view_empty)
    then show ?thesis
      unfolding flat using Cons.IH [OF that dist nn] len by (intro same_outside_append) simp_all
  qed
  let ?ws = "if p < s then s - p else 0"
  let ?wl = "(if s + n < p + ?m then s + n - p else ?m) - ?ws"
  show ?case
  proof (cases "doff < length data \<and> s < p + ?m \<and> p < s + n \<and> 0 < ?wl")
    case False
    then have "fs' = fs \<or> (\<exists>w'. write_files os base files (int s) (int (s + n)) data (int (p + ?m)) doff fs = (ok, fs', w'))"
      using Cons.prems(1) m by (auto simp: Let_def split: if_splits)
    then show ?thesis using tail by auto
  next
    case True
    let ?xs = "take ?wl (drop doff data)"
    have wsi: "(if int p < int s then int s - int p else 0) = int ?ws" by simp
    have wli: "nat ((if int (s + n) < int p + int ?m then int (s + n) - int p else int ?m) - int ?ws) = ?wl"
      using True by (auto split: if_splits)
    obtain ok1 fs1 where wp: "write_part os base f (int ?ws) ?xs fs = (ok1, fs1)"
      by (rule prod.exhaust)
    have run: "fs' = fs1 \<or> (\<exists>d w'. write_files os base files (int s) (int (s + n)) data (int (p + ?m))
        d fs1 = (ok, fs', w'))"
      using Cons.prems(1) True wp m wsi wli by (simp add: Let_def split: prod.splits if_splits) blast+
    have "same_outside s n p (file_view base fs f) (file_view base fs1 f)"
      by (rule write_part_outside [OF wp]) (use True in \<open>auto simp: min_def split: if_splits\<close>)
    moreover have pos: "0 < sint (tf_length f)" using m True by (auto split: if_splits)
    have "file_view base fs1 g = file_view base fs g" if "g \<in> set files" for g
    proof (cases "0 < sint (tf_length g)")
      case True
      then have "fs_files fs1 (file_key base g) = fs_files fs (file_key base g)"
        using write_part_frame [OF wp, of "file_key base g"] other pos that by metis
      then show ?thesis by (rule view_frame)
    qed (simp add: view_empty)
    then have "flat_content base files fs1 = flat_content base files fs"
      by (simp add: flat_content_def cong: map_cong)
    ultimately have "same_outside s n p (flat_content base (f # files) fs) (flat_content base (f # files) fs1)"
      unfolding flat by (intro same_outside_append) simp_all
    then show ?thesis using run tail same_outside_trans by blast
  qed
qed

text \<open>Whether it succeeds or not, the write of a piece leaves the other pieces alone.\<close>

lemma write_piece_outside:
  assumes ok: "writer_ok os t (fw, fs)"
    and w: "file_writer_write_piece os fw xs i fs = (r, fw', fs')"
  shows "writer_ok os t (fw', fs') \<and>
    same_outside (piece_place t i) (length xs) 0 (writer_view t (fw, fs)) (writer_view t (fw', fs'))"
proof -
  note kp = write_piece_keeps [OF w]
  have wf: "torrent_wf t" and ft: "fw_torrent fw = Some t" and m: "fw_multi_file fw = t_is_multi_file t"
    using ok by (auto simp: writer_ok_def)
  note off = piece_offset_place [OF wf, of i]
  have "writer_ok os t (fw', fs')" using ok kp by (cases "t_is_multi_file t") (auto simp: writer_ok_def)
  moreover have "same_outside (piece_place t i) (length xs) 0 (writer_view t (fw, fs)) (writer_view t (fw', fs'))"
  proof (cases "t_is_multi_file t")
    case True
    obtain base where b: "fw_base_path fw = Some base" "distinct_files base (t_files t)"
      using ok True by (auto simp: writer_ok_def)
    obtain ok1 v where run: "write_files os base (t_files t) (int (piece_place t i))
        (int (piece_place t i + length xs)) xs (int 0) 0 fs = (ok1, fs', v)"
      using w True m ft b off
      by (auto simp: file_writer_write_piece_def Let_def split: prod.splits if_splits)
    have nn: "\<forall>f \<in> set (t_files t). 0 \<le> sint (tf_length f)"
      using wf True by (simp add: torrent_wf_def)
    show ?thesis
      using write_files_outside [OF run b(2) nn] kp b(1) True by (simp add: writer_view_def)
  next
    case False
    have "fs' = fs \<or> fs' = snd (sys_write os (fw_key fw) (int (piece_place t i)) xs fs)"
      using w False m ft off
      by (auto simp: file_writer_write_piece_def Let_def split: prod.splits if_splits)
    then show ?thesis
      using kp False fit_pwrite_outside [of "piece_place t i" 0 "piece_place t i" "take _ xs" "length xs"]
      by (auto simp: writer_view_def sys_write_def Let_def)
  qed
  ultimately show ?thesis by blast
qed

section \<open>When a write succeeds\<close>

text \<open>A kernel that refuses nothing and writes everything, and files whose paths are accepted.\<close>

definition good_kernel :: "kernel \<Rightarrow> bool" where
  "good_kernel os \<longleftrightarrow> (\<forall>p. os_mkdir os p) \<and> (\<forall>p. 0 \<le> os_open os p) \<and>
     (\<forall>k off. os_lseek os k off) \<and> (\<forall>k off n. os_write os k off n = int n)"

definition writable :: "byte list \<Rightarrow> torrent_file \<Rightarrow> bool" where
  "writable base f \<longleftrightarrow> safe_relative_path (tf_path f) \<and> full_path base (the (tf_path f)) \<noteq> None"

lemma good_posix: "good_kernel os \<Longrightarrow> posix_write os"
  by (simp add: good_kernel_def posix_write_def)

lemma make_dirs_good: "good_kernel os \<Longrightarrow> fst (make_dirs os pre p fs)"
  by (induction p arbitrary: pre fs) (auto simp: good_kernel_def)

lemma write_part_good:
  assumes "good_kernel os" "writable base f" shows "fst (write_part os base f ws xs fs)"
proof -
  obtain p where p: "full_path base (the (tf_path f)) = Some p" "safe_relative_path (tf_path f)"
    using assms(2) by (auto simp: writable_def)
  obtain fs1 where d: "create_parent_directories os p fs = (True, fs1)"
    using make_dirs_good [OF assms(1), of "take 1 p" "drop 1 p" fs]
    by (cases "make_dirs os (take 1 p) (drop 1 p) fs") (simp add: create_parent_directories_def)
  have os: "\<not> os_open os p < 0" "os_lseek os k off" "os_write os k off n = int n" for k off n
    using assms(1) by (auto simp: good_kernel_def not_less)
  show ?thesis using p d by (simp add: write_part_def Let_def os sys_write_def)
qed

lemma write_files_good:
  assumes "good_kernel os" "\<forall>f \<in> set files. 0 < sint (tf_length f) \<longrightarrow> writable base f"
  shows "fst (write_files os base files ps pe data fo doff fs)"
  using assms(2)
proof (induction files arbitrary: fo doff fs)
  case (Cons f files)
  let ?n = "sint (tf_length f)"
  let ?ws = "if fo < ps then ps - fo else 0"
  let ?wl = "nat ((if pe < fo + ?n then pe - fo else ?n) - ?ws)"
  have IH: "fst (write_files os base files ps pe data fo' doff' fs')" for fo' doff' fs'
    using Cons by simp
  show ?case
  proof (cases "doff < length data \<and> ps < fo + ?n \<and> fo < pe \<and> 0 < ?wl")
    case True
    then have "0 < ?n" by (auto split: if_splits)
    then have "writable base f" using Cons.prems by simp
    from write_part_good [OF assms(1) this]
    show ?thesis using IH by (simp add: Let_def case_prod_beta)
  next
    case False
    then show ?thesis using IH by (auto simp: Let_def)
  qed
qed simp

lemma writer_put_good:
  assumes "good_kernel os" "writer_ok os t s"
    and "t_is_multi_file t \<Longrightarrow>
      \<forall>f \<in> set (t_files t). 0 < sint (tf_length f) \<longrightarrow> writable (the (fw_base_path (fst s))) f"
  shows "\<exists>s'. writer_put os i xs s = Some s'"
proof (cases "t_is_multi_file t")
  case True
  have "fst (write_files os (the (fw_base_path (fst s))) (t_files t) ps pe data fo doff fs)"
    for ps pe data fo doff fs
    by (rule write_files_good [OF assms(1) assms(3) [OF True]])
  then show ?thesis
    using assms(2) True
    by (auto simp: writer_put_def file_writer_write_piece_def writer_ok_def Let_def split: prod.split)
       (metis fst_conv)
next
  case False
  then show ?thesis
    using assms(1,2)
    by (simp add: writer_put_def file_writer_write_piece_def writer_ok_def Let_def good_kernel_def
          sys_write_def)
qed

section \<open>Properties\<close>

text \<open>Five bytes in the files \<open>a\<close> and \<open>d/b\<close>, below \<open>/data\<close>, in pieces of four.\<close>

definition demo_files :: "torrent_file list" where
  "demo_files = [\<lparr>tf_path = Some (bytes ''a''), tf_path_len = 1, tf_length = 3\<rparr>,
                 \<lparr>tf_path = Some (bytes ''d/b''), tf_path_len = 3, tf_length = 2\<rparr>]"

definition demo_multi :: torrent where
  "demo_multi = demo_torrent\<lparr>t_is_multi_file := True, t_files := demo_files\<rparr>"

definition demo_kernel :: kernel where
  "demo_kernel = \<lparr>os_mkdir = (\<lambda>_. True), os_open = (\<lambda>_. 3), os_lseek = (\<lambda>_ _. True),
                  os_write = (\<lambda>_ _ n. int n)\<rparr>"

definition demo_disk :: fsys where
  "demo_disk = \<lparr>fs_files = (\<lambda>_. None), fs_dirs = {}\<rparr>"

definition demo_writer :: file_writer where
  "demo_writer = fw_zero\<lparr>fw_base_path := Some (bytes ''/data''), fw_torrent := Some demo_multi,
                         fw_multi_file := True, fw_fd := - 1\<rparr>"

lemma demo_good: "good_kernel demo_kernel"
  by (simp add: good_kernel_def demo_kernel_def)

lemma demo_multi_wf: "torrent_wf demo_multi"
  by (simp add: torrent_wf_def demo_multi_def demo_torrent_def torrent_zero_def demo_files_def
        sum_lengths_def MAX_TORRENT_FILES_def)

lemma demo_distinct: "distinct_files (bytes ''/data'') demo_files"
  by (simp add: distinct_files_def demo_files_def file_key_def key_of_def cstr_def)

lemma demo_writable: "\<forall>f \<in> set demo_files. writable (bytes ''/data'') f"
  by (simp add: demo_files_def writable_def safe_relative_path_def full_path_def cstr_def Let_def
        ends_segment_def)

lemma demo_writer_ok: "writer_ok demo_kernel demo_multi (demo_writer, demo_disk)"
  using demo_multi_wf demo_distinct good_posix [OF demo_good]
  by (simp add: writer_ok_def demo_writer_def demo_multi_def)

lemma demo_put:
  "writer_ok demo_kernel demo_multi s \<Longrightarrow> fw_base_path (fst s) = Some (bytes ''/data'') \<Longrightarrow>
   \<exists>s'. writer_put demo_kernel i xs s = Some s'"
  using demo_writable by (intro writer_put_good [OF demo_good]) (auto simp: demo_multi_def)

text \<open>
  A verified piece lands at its place.  For an accepted torrent with distinct files, a
  \<open>file_writer_write_piece\<close> that returns 0 has overwritten exactly the bytes
  \<open>i * piece_length ..\<close> of the content, across the file boundaries that the piece spans, whatever
  the files held before; no other byte of the content changes, and the writer stays usable.
\<close>

theorem written_piece_in_place:
  assumes "writer_ok os t (fw, fs)" "i < t_num_pieces t" "length xs = torrent_piece_size t i"
    and "file_writer_write_piece os fw xs i fs = (0, fw', fs')"
  shows "writer_ok os t (fw', fs') \<and>
         writer_view t (fw', fs') = blit (piece_place t i) xs (writer_view t (fw, fs))"
proof -
  have wf: "torrent_wf t" using assms(1) by (simp add: writer_ok_def)
  obtain T P where w: "sint (t_total_size t) = int T" "sint (t_piece_length t) = int P"
      "unat (t_total_size t) = T" "unat (t_piece_length t) = P"
    by (rule wf_nat [OF wf])
  note sz = piece_size_eq [OF wf w(3,4) assms(2)]
  have room: "piece_place t i + length xs \<le> nat (sint (t_total_size t))"
    using sz assms(3) w by (simp add: piece_place_def)
  have put: "writer_put os i xs (fw, fs) = Some (fw', fs')"
    using assms(4) by (simp add: writer_put_def)
  show ?thesis
    using disk.put_view [OF assms(1) room put] disk.put_ok [OF assms(1) put] by blast
qed

theorem written_piece_in_place_witness:
  "\<exists>fw' fs'. file_writer_write_piece demo_kernel demo_writer [1, 2, 3, 4] 0 demo_disk = (0, fw', fs') \<and>
     writer_view demo_multi (fw', fs') =
       blit 0 [1, 2, 3, 4] (writer_view demo_multi (demo_writer, demo_disk))"
proof -
  obtain fw' fs' where "writer_put demo_kernel 0 [1, 2, 3, 4] (demo_writer, demo_disk) = Some (fw', fs')"
    using demo_put [OF demo_writer_ok] by (fastforce simp: demo_writer_def)
  then have "file_writer_write_piece demo_kernel demo_writer [1, 2, 3, 4] 0 demo_disk = (0, fw', fs')"
    by (auto simp: writer_put_def split: prod.splits if_splits)
  from written_piece_in_place [OF demo_writer_ok _ _ this] this show ?thesis
    by (simp add: demo_multi_def demo_torrent_def torrent_piece_size_def piece_place_def)
qed



text \<open>
  C9.  Confinement.  Whatever the paths in the torrent file, a file that the writer creates or
  changes lies below the download directory: its place is that of the base path followed by at least
  one component, and no component after the base is \<open>.\<close> or \<open>..\<close>.
\<close>

definition below :: "byte list \<Rightarrow> path_key \<Rightarrow> bool" where
  "below base k \<longleftrightarrow>
     (\<exists>rel. k = key_of (cstr base) @ rel \<and> rel \<noteq> [] \<and> [dot] \<notin> set rel \<and> [dot, dot] \<notin> set rel)"

lemma safe_key_below:
  "safe_relative_path (Some p) \<Longrightarrow> below base (key_of (cstr base @ slash # cstr p))"
  using safe_path_key unfolding below_def by (metis key_of_join)

lemma full_path_below:
  assumes "safe_relative_path rel" "full_path base (the rel) = Some p" shows "below base (key_of p)"
proof -
  obtain r where r: "rel = Some r" using assms(1) by (cases rel) (auto simp: safe_relative_path_def)
  have "p = cstr base @ slash # cstr r"
    using assms(2) r by (simp add: full_path_def Let_def split: if_splits)
  then show ?thesis using safe_key_below assms(1) r by simp
qed

theorem writes_stay_below_base:
  "(fw_multi_file fw \<and> file_writer_write_piece os fw xs i fs = (r, fw', fs') \<and>
      fs_files fs' k \<noteq> fs_files fs k \<longrightarrow> below (the (fw_base_path fw)) k) \<and>
   (file_writer_init os mem t base fs = (r, fw', fs') \<and> fs_files fs' k \<noteq> fs_files fs k \<longrightarrow>
      below base k)"
proof (intro conjI impI; elim conjE)
  assume m: "fw_multi_file fw" and r: "file_writer_write_piece os fw xs i fs = (r, fw', fs')"
    and ch: "fs_files fs' k \<noteq> fs_files fs k"
  then obtain t ok w where "write_files os (the (fw_base_path fw)) (t_files t) (piece_offset t i)
      (piece_offset t i + int (length xs)) xs 0 0 fs = (ok, fs', w)"
    by (auto simp: file_writer_write_piece_def Let_def split: option.splits prod.splits if_splits)
  from write_files_frame [OF this ch] obtain f where f: "safe_relative_path (tf_path f)"
      "k = file_key (the (fw_base_path fw)) f" by blast
  then obtain p where "tf_path f = Some p" by (cases "tf_path f") (auto simp: safe_relative_path_def)
  then show "below (the (fw_base_path fw)) k"
    using f safe_key_below by (simp add: file_key_def)
next
  assume "file_writer_init os mem t base fs = (r, fw', fs')" and ch: "fs_files fs' k \<noteq> fs_files fs k"
  then obtain rel p where "safe_relative_path rel" "full_path base (the rel) = Some p" "k = key_of p"
    by (auto simp: file_writer_init_def Let_def set_file_def split: option.splits if_splits)
  then show "below base k" using full_path_below by blast
qed

theorem writes_stay_below_base_witness:
  "below (bytes ''/data'') (key_of (bytes ''/data/a''))"
proof -
  let ?w = "file_writer_init demo_kernel (\<lambda>n. n < 100) demo_torrent (bytes ''/data'') demo_disk"
  have w: "?w = (fst ?w, fst (snd ?w), snd (snd ?w))" by simp
  have "fs_files (snd (snd ?w)) (key_of (bytes ''/data/a'')) = Some []"
    by (simp add: file_writer_init_def demo_torrent_def torrent_zero_def safe_relative_path_def
          full_path_def cstr_def Let_def ends_segment_def demo_kernel_def set_file_def fw_zero_def
          key_of_def)
  then show ?thesis
    using writes_stay_below_base [THEN conjunct2, rule_format, OF conjI [OF w], of "key_of (bytes ''/data/a'')"]
    by (simp add: demo_disk_def)
qed



text \<open>
  A descriptor that was never opened: when \<open>file_writer_init\<close> cannot copy the base path it
  returns before it has set \<open>fd\<close> to -1, and the cleared structure says descriptor 0; finishing or
  destroying that writer, as stopping or removing the torrent does, closes descriptor 0.
\<close>

theorem failed_init_closes_descriptor_0:
  assumes "\<not> mem (length base + 1)"
  shows "\<exists>fw. file_writer_init os mem t base fs = (- 1, fw, fs) \<and>
           snd (file_writer_finish fw) = [0] \<and> snd (file_writer_destroy fw) = [0]"
  using assms
  by (simp add: file_writer_init_def file_writer_finish_def file_writer_destroy_def fw_zero_def)

theorem failed_init_closes_descriptor_0_witness:
  "\<exists>fw. file_writer_init demo_kernel (\<lambda>n. n < 3) demo_torrent (bytes ''/data'') demo_disk =
          (- 1, fw, demo_disk) \<and>
     snd (file_writer_finish fw) = [0] \<and> snd (file_writer_destroy fw) = [0]"
  by (rule failed_init_closes_descriptor_0) simp

end
