(* ===== verification/NetUtils.thy ===== *)
theory NetUtils
  imports Prelude
begin

text \<open>
  \<open>src/net_utils.c\<close>: exact sends and receives over a socket, connection set-up, and percent-encoding.
  A socket carries the answers that the kernel will give to \<open>recv\<close> and \<open>send\<close>; the lemmas show
  that the loops make the cut of the stream into these answers invisible.
\<close>

section \<open>Sockets\<close>

text \<open>
  One answer to \<open>recv\<close>: bytes (those that do not fit the request stay), an interrupted call, or an
  error.  The peer has closed the connection where the answers end.
\<close>

datatype rx = Chunk "byte list" | RxIntr | RxFail

text \<open>One answer to \<open>send\<close>: at most so many bytes are taken.  Where the answers end, all are.\<close>

datatype tx = Sent nat | TxIntr | TxFail

record socket =
  sk_rx :: "rx list"
  sk_tx :: "tx list"
  sk_out :: "byte list"

section \<open>Exact transfers\<close>

text \<open>\<open>net_send_all\<close>: one call of \<open>send\<close> per answer.  The first component is the return code.\<close>

primrec send_loop :: "tx list \<Rightarrow> byte list \<Rightarrow> byte list \<Rightarrow> bool \<times> tx list \<times> byte list" where
  "send_loop [] rest out = (True, [], out @ rest)"
| "send_loop (a # as) rest out =
     (if rest = [] then (True, a # as, out)
      else case a of
        TxIntr \<Rightarrow> send_loop as rest out
      | TxFail \<Rightarrow> (False, as, out)
      | Sent k \<Rightarrow>
          if min k (length rest) = 0 then (False, as, out)
          else send_loop as (drop k rest) (out @ take k rest))"

definition net_send_all :: "socket \<Rightarrow> byte list \<Rightarrow> int \<times> socket" where
  "net_send_all sk data =
     (case send_loop (sk_tx sk) data (sk_out sk) of
        (ok, tx, out) \<Rightarrow> (if ok then 0 else - 1, sk\<lparr>sk_tx := tx, sk_out := out\<rparr>))"

text \<open>\<open>net_recv_exact\<close>: the bytes that arrive, or \<open>None\<close> for -1, and the answers left.\<close>

primrec recv_loop :: "rx list \<Rightarrow> nat \<Rightarrow> byte list \<Rightarrow> byte list option \<times> rx list" where
  "recv_loop [] need acc = (if need = 0 then (Some acc, []) else (None, []))"
| "recv_loop (a # as) need acc =
     (if need = 0 then (Some acc, a # as)
      else case a of
        RxIntr \<Rightarrow> recv_loop as need acc
      | RxFail \<Rightarrow> (None, as)
      | Chunk bs \<Rightarrow>
          if bs = [] then (None, as)
          else if length bs \<le> need then recv_loop as (need - length bs) (acc @ bs)
          else (Some (acc @ take need bs), Chunk (drop need bs) # as))"

definition net_recv_exact :: "socket \<Rightarrow> nat \<Rightarrow> byte list option \<times> socket" where
  "net_recv_exact sk n =
     (case recv_loop (sk_rx sk) n [] of (r, rx) \<Rightarrow> (r, sk\<lparr>sk_rx := rx\<rparr>))"

text \<open>\<open>net_recv_some\<close>: one answer, interrupted calls apart; \<open>Some []\<close> is the end of the stream.\<close>

primrec some_loop :: "rx list \<Rightarrow> nat \<Rightarrow> byte list option \<times> rx list" where
  "some_loop [] n = (Some [], [])"
| "some_loop (a # as) n =
     (case a of
        RxIntr \<Rightarrow> some_loop as n
      | RxFail \<Rightarrow> (None, as)
      | Chunk bs \<Rightarrow> (Some (take n bs), if length bs \<le> n then as else Chunk (drop n bs) # as))"

definition net_recv_some :: "socket \<Rightarrow> nat \<Rightarrow> byte list option \<times> socket" where
  "net_recv_some sk n =
     (case some_loop (sk_rx sk) n of (r, rx) \<Rightarrow> (r, sk\<lparr>sk_rx := rx\<rparr>))"

section \<open>Connecting\<close>

text \<open>
  \<open>net_tcp_connect\<close>.  The answers of the kernel are a parameter: \<open>co_socket\<close> the descriptor of
  \<open>socket\<close>, \<open>co_getfl\<close> the flags (negative where \<open>fcntl\<close> fails), \<open>co_nonblock\<close> and \<open>co_restore\<close>
  whether they can be set, \<open>co_connect\<close> the outcome of \<open>connect\<close>, \<open>co_select\<close> that of \<open>select\<close>
  within three seconds, \<open>co_soerror\<close> the pending error (\<open>None\<close> where \<open>getsockopt\<close> fails).  The
  result is the descriptor or -1, with the descriptors that were closed.
\<close>

datatype connect_answer = Connected | InProgress | Refused

record connect_os =
  co_socket :: int
  co_getfl :: int
  co_nonblock :: bool
  co_connect :: connect_answer
  co_select :: int
  co_soerror :: "int option"
  co_restore :: bool

definition net_tcp_connect :: "connect_os \<Rightarrow> int \<times> int list" where
  "net_tcp_connect os =
     (let sock = co_socket os
      in if sock < 0 then (- 1, [])
         else if co_getfl os < 0 \<or> \<not> co_nonblock os then (- 1, [sock])
         else let connected = (case co_connect os of Connected \<Rightarrow> True | Refused \<Rightarrow> False
                 | InProgress \<Rightarrow> 0 < co_select os \<and> co_soerror os = Some 0)
              in if \<not> connected \<or> \<not> co_restore os then (- 1, [sock]) else (sock, []))"

text \<open>\<open>net_resolve\<close>: a dotted address, else the first of the resolver's answers.\<close>

definition net_resolve ::
  "(byte list \<Rightarrow> u32 option) \<Rightarrow> (byte list \<Rightarrow> u32 list option) \<Rightarrow> byte list \<Rightarrow> u32 option" where
  "net_resolve pton getaddrinfo hostname =
     (case pton hostname of
        Some a \<Rightarrow> Some a
      | None \<Rightarrow> (case getaddrinfo hostname of Some (a # _) \<Rightarrow> Some a | _ \<Rightarrow> None))"

text \<open>\<open>net_set_timeout\<close>: both options must be accepted.  \<open>net_close\<close> ignores negative ones.\<close>

definition net_set_timeout :: "bool \<Rightarrow> bool \<Rightarrow> int" where
  "net_set_timeout rcv_ok snd_ok = (if \<not> rcv_ok then - 1 else if \<not> snd_ok then - 1 else 0)"

definition net_close :: "int \<Rightarrow> int list" where
  "net_close sock = (if 0 \<le> sock then [sock] else [])"

section \<open>Percent-encoding\<close>

definition unreserved :: "byte \<Rightarrow> bool" where
  "unreserved c \<longleftrightarrow>
     (ch CHR ''0'' \<le> c \<and> c \<le> ch CHR ''9'') \<or> (ch CHR ''a'' \<le> c \<and> c \<le> ch CHR ''z'') \<or>
     (ch CHR ''A'' \<le> c \<and> c \<le> ch CHR ''Z'') \<or>
     c = ch CHR ''.'' \<or> c = ch CHR ''-'' \<or> c = ch CHR ''_'' \<or> c = ch CHR ''~''"

primrec net_url_encode :: "byte list \<Rightarrow> byte list" where
  "net_url_encode [] = []"
| "net_url_encode (c # cs) =
     (if unreserved c then [c]
      else [ch CHR ''%'', hex_hi hex_lower c, hex_lo hex_lower c]) @ net_url_encode cs"

section \<open>The byte stream behind the answers\<close>

text \<open>
  The bytes that a reader can get: up to the first error, empty answer or the end.
\<close>

primrec stream :: "rx list \<Rightarrow> byte list" where
  "stream [] = []"
| "stream (a # as) =
     (case a of RxIntr \<Rightarrow> stream as | RxFail \<Rightarrow> []
      | Chunk bs \<Rightarrow> if bs = [] then [] else bs @ stream as)"

lemma recv_loop_some:
  "n \<le> length (stream rx) \<Longrightarrow>
   fst (recv_loop rx n acc) = Some (acc @ take n (stream rx)) \<and>
   stream (snd (recv_loop rx n acc)) = drop n (stream rx)"
  by (induction rx arbitrary: n acc) (auto split: rx.split)

lemma recv_loop_none: "length (stream rx) < n \<Longrightarrow> fst (recv_loop rx n acc) = None"
  by (induction rx arbitrary: n acc) (auto split: rx.split)

text \<open>
  The contract of an exact reader: it sees a stream, returns exactly the bytes asked for when they
  are there, moves past them, and fails otherwise.  What a client parses from it is a function of
  the stream alone.
\<close>

locale exact_reader =
  fixes recv :: "'s \<Rightarrow> nat \<Rightarrow> byte list option \<times> 's"
    and str :: "'s \<Rightarrow> byte list"
  assumes recv_bytes: "n \<le> length (str s) \<Longrightarrow> fst (recv s n) = Some (take n (str s))"
    and recv_rest: "n \<le> length (str s) \<Longrightarrow> str (snd (recv s n)) = drop n (str s)"
    and recv_short: "length (str s) < n \<Longrightarrow> fst (recv s n) = None"
begin

lemma recv_cases:
  "recv s n = (Some bs, s') \<Longrightarrow> length bs = n \<and> str s = bs @ str s'"
  using recv_bytes [of n s] recv_rest [of n s] recv_short [of s n]
  by (cases "n \<le> length (str s)") auto

lemma recv_split:
  assumes "str s = bs @ rest"
  shows "\<exists>s'. recv s (length bs) = (Some bs, s') \<and> str s' = rest"
  using recv_bytes [of "length bs" s] recv_rest [of "length bs" s] assms
  by (cases "recv s (length bs)") auto

text \<open>Reading in two steps is reading at once.\<close>

lemma recv_twice:
  assumes "recv s m = (Some a, s1)" "recv s1 n = (Some b, s2)"
  shows "fst (recv s (m + n)) = Some (a @ b) \<and> str (snd (recv s (m + n))) = str s2"
  using recv_cases [OF assms(1)] recv_cases [OF assms(2)]
    recv_bytes [of "m + n" s] recv_rest [of "m + n" s] by simp

end

definition sock_stream :: "socket \<Rightarrow> byte list" where
  "sock_stream sk = stream (sk_rx sk)"

interpretation net: exact_reader net_recv_exact sock_stream
proof
  fix n and sk :: socket
  obtain r rx where l: "recv_loop (sk_rx sk) n [] = (r, rx)" by (rule prod.exhaust)
  show "fst (net_recv_exact sk n) = Some (take n (sock_stream sk))"
    and "sock_stream (snd (net_recv_exact sk n)) = drop n (sock_stream sk)"
    if "n \<le> length (sock_stream sk)"
    using that recv_loop_some [of n "sk_rx sk" "[]"] l
    by (simp_all add: net_recv_exact_def sock_stream_def)
  show "fst (net_recv_exact sk n) = None" if "length (sock_stream sk) < n"
    using that recv_loop_none [of "sk_rx sk" n "[]"] l
    by (simp add: net_recv_exact_def sock_stream_def)
qed

text \<open>Receiving leaves the sending side alone.\<close>

lemma recv_exact_out [simp]:
  "net_recv_exact sk n = (r, sk') \<Longrightarrow> sk_out sk' = sk_out sk \<and> sk_tx sk' = sk_tx sk"
  by (auto simp: net_recv_exact_def split: prod.splits)

lemma send_loop_out:
  "send_loop tx rest out = (ok, tx', out') \<Longrightarrow>
   \<exists>k. out' = out @ take k rest \<and> (ok \<longrightarrow> out' = out @ rest)"
proof (induction tx arbitrary: rest out)
  case (Cons a tx)
  show ?case
  proof (cases a)
    case (Sent k)
    show ?thesis
    proof (cases "rest = [] \<or> min k (length rest) = 0")
      case True
      then show ?thesis using Cons.prems Sent by (auto split: if_splits intro: exI [of _ 0])
    next
      case False
      then have "send_loop tx (drop k rest) (out @ take k rest) = (ok, tx', out')"
        using Cons.prems Sent by (auto simp: min_def split: if_splits)
      from Cons.IH [OF this] obtain j where
        "out' = (out @ take k rest) @ take j (drop k rest)" "ok \<longrightarrow> out' = out @ rest" by auto
      then show ?thesis by (intro exI [of _ "k + j"]) (simp add: take_add)
    qed
  qed (use Cons in \<open>auto split: if_splits intro: exI [of _ 0]\<close>)
qed (auto, metis order_refl take_all)

section \<open>Properties\<close>

text \<open>
  Segmentation is invisible to the receiver: however the kernel cuts the incoming bytes into
  answers, with interrupted calls in between, \<open>net_recv_exact\<close> returns the next \<open>n\<close> bytes of the
  stream and leaves the rest, and fails exactly when the stream has fewer than \<open>n\<close> bytes before its
  end or an error.
\<close>

theorem recv_exact_is_stream:
  "fst (net_recv_exact sk n) =
     (if n \<le> length (sock_stream sk) then Some (take n (sock_stream sk)) else None) \<and>
   (case fst (net_recv_exact sk n) of
      None \<Rightarrow> True
    | Some bs \<Rightarrow> sock_stream sk = bs @ sock_stream (snd (net_recv_exact sk n)))"
  using net.recv_bytes [of n sk] net.recv_rest [of n sk] net.recv_short [of sk n]
  by (auto split: option.split)

text \<open>
  \<open>net_send_all\<close> sends a prefix of the data, in order and without repetition, over short and
  interrupted sends; it returns 0 only if all of it was sent.
\<close>

theorem send_all_in_order:
  "\<exists>k \<le> length data.
     sk_out (snd (net_send_all sk data)) = sk_out sk @ take k data \<and>
     (if fst (net_send_all sk data) = 0 then k = length data else fst (net_send_all sk data) = - 1)"
proof -
  obtain ok tx out where r: "send_loop (sk_tx sk) data (sk_out sk) = (ok, tx, out)"
    by (metis prod.exhaust)
  from send_loop_out [OF r] obtain k where k: "out = sk_out sk @ take k data"
      "ok \<longrightarrow> out = sk_out sk @ data" by blast
  show ?thesis
  proof (cases ok)
    case True
    then show ?thesis using r k by (intro exI [of _ "length data"]) (simp add: net_send_all_def)
  next
    case False
    then show ?thesis using r k
      by (intro exI [of _ "min k (length data)"]) (simp add: net_send_all_def min_def)
  qed
qed

text \<open>
  A failed connection attempt never leaks its descriptor and a successful one keeps it open.
\<close>

theorem tcp_connect_no_leak:
  "(case net_tcp_connect os of (r, closed) \<Rightarrow>
      if r = - 1 then closed = net_close (co_socket os) \<or> co_socket os < 0 \<and> closed = []
      else r = co_socket os \<and> 0 \<le> r \<and> closed = [])"
  by (simp add: net_tcp_connect_def Let_def net_close_def)

end
