(* ===== verification/PeerWire.thy ===== *)
theory PeerWire
  imports NetUtils
begin

text \<open>
  \<open>src/peer_wire.c\<close>: the BitTorrent handshake and the frames of the peer protocol, read and
  written through \<open>net_send_all\<close> and \<open>net_recv_exact\<close>.  Buffers that a failed read has partly
  filled are not modelled: their contents are not read.
\<close>

section \<open>Messages out\<close>

definition PEER_BLOCK_SIZE :: nat where "PEER_BLOCK_SIZE = 16 * 1024"

definition PEER_MSG_CHOKE :: byte where "PEER_MSG_CHOKE = 0"
definition PEER_MSG_UNCHOKE :: byte where "PEER_MSG_UNCHOKE = 1"
definition PEER_MSG_INTERESTED :: byte where "PEER_MSG_INTERESTED = 2"
definition PEER_MSG_NOT_INTERESTED :: byte where "PEER_MSG_NOT_INTERESTED = 3"
definition PEER_MSG_HAVE :: byte where "PEER_MSG_HAVE = 4"
definition PEER_MSG_BITFIELD :: byte where "PEER_MSG_BITFIELD = 5"
definition PEER_MSG_REQUEST :: byte where "PEER_MSG_REQUEST = 6"
definition PEER_MSG_PIECE :: byte where "PEER_MSG_PIECE = 7"
definition PEER_MSG_CANCEL :: byte where "PEER_MSG_CANCEL = 8"
definition PEER_MSG_KEEPALIVE :: int where "PEER_MSG_KEEPALIVE = - 1"

lemmas peer_msg_defs = PEER_MSG_CHOKE_def PEER_MSG_UNCHOKE_def PEER_MSG_INTERESTED_def
  PEER_MSG_NOT_INTERESTED_def PEER_MSG_HAVE_def PEER_MSG_BITFIELD_def PEER_MSG_REQUEST_def
  PEER_MSG_PIECE_def PEER_MSG_CANCEL_def PEER_MSG_KEEPALIVE_def

definition protocol_name :: "byte list" where
  "protocol_name = bytes ''BitTorrent protocol''"

text \<open>The packed \<open>peer_handshake_t\<close> of 68 bytes.\<close>

definition peer_handshake_init :: "byte list \<Rightarrow> byte list \<Rightarrow> byte list" where
  "peer_handshake_init info_hash peer_id =
     19 # protocol_name @ replicate 8 0 @ info_hash @ peer_id"

definition peer_send_interested :: "socket \<Rightarrow> int \<times> socket" where
  "peer_send_interested sk = net_send_all sk (be32 1 @ [PEER_MSG_INTERESTED])"

definition peer_send_request :: "socket \<Rightarrow> u32 \<Rightarrow> u32 \<Rightarrow> u32 \<Rightarrow> int \<times> socket" where
  "peer_send_request sk index begin len =
     net_send_all sk (be32 13 @ [PEER_MSG_REQUEST] @ be32 index @ be32 begin @ be32 len)"

section \<open>The handshake\<close>

text \<open>The result is the return code, the peer's id where it is 0, and the socket.\<close>

definition peer_handshake ::
  "socket \<Rightarrow> byte list \<Rightarrow> byte list \<Rightarrow> int \<times> byte list \<times> socket" where
  "peer_handshake sk info_hash peer_id =
     (case net_send_all sk (peer_handshake_init info_hash peer_id) of (r, sk) \<Rightarrow>
      if r < 0 then (- 1, [], sk)
      else case net_recv_exact sk 1 of
        (None, sk) \<Rightarrow> (- 1, [], sk)
      | (Some b, sk) \<Rightarrow>
          if b ! 0 \<noteq> 19 then (- 1, [], sk)
          else case net_recv_exact sk 19 of
            (None, sk) \<Rightarrow> (- 1, [], sk)
          | (Some pstr, sk) \<Rightarrow>
              if pstr \<noteq> protocol_name then (- 1, [], sk)
              else case net_recv_exact sk 48 of
                (None, sk) \<Rightarrow> (- 1, [], sk)
              | (Some rest, sk) \<Rightarrow>
                  if take 20 (drop 8 rest) \<noteq> info_hash then (- 1, [], sk)
                  else (0, drop 28 rest, sk))"

section \<open>Frames in\<close>

text \<open>What \<open>peer_recv_event\<close> stores through its output pointers.\<close>

record peer_event =
  ev_type :: int
  ev_index :: u32
  ev_begin :: u32
  ev_data :: "byte list"
  ev_length :: u32

text \<open>
  The kernel's answers to the poll of the non-blocking mode: how many bytes are buffered (as
  \<open>FIONREAD\<close> reports them, \<open>MSG_PEEK\<close> delivers the first four of them), nothing yet or interrupted,
  the end of the stream, or an error.
\<close>

datatype poll = PollBytes nat | PollAgain | PollEnd | PollFail

definition MAX_FRAME :: u32 where "MAX_FRAME = 256 * 1024 + 9"

text \<open>\<open>None\<close> where a whole frame is buffered, else the code to return.\<close>

definition poll_frame :: "poll \<Rightarrow> bool \<Rightarrow> socket \<Rightarrow> int option" where
  "poll_frame p ioctl_ok sk =
     (case p of
        PollEnd \<Rightarrow> Some (- 1)
      | PollFail \<Rightarrow> Some (- 1)
      | PollAgain \<Rightarrow> Some 2
      | PollBytes avail \<Rightarrow>
          if avail = 0 then Some (- 1)
          else if avail < 4 then Some 2
          else let len = of_be32 (take 4 (sock_stream sk))
               in if MAX_FRAME < len then Some (- 1)
                  else if \<not> ioctl_ok then Some (- 1)
                  else if of_nat avail < len + 4 then Some 2
                  else None)"

text \<open>\<open>malloc (n)\<close>, a read of \<open>n\<close> bytes whose result is ignored, and \<open>free\<close>.\<close>

definition skip_bytes :: "allocator \<Rightarrow> u32 \<Rightarrow> socket \<Rightarrow> socket" where
  "skip_bytes mem n sk = (if mem (unat n) then snd (net_recv_exact sk (unat n)) else sk)"

text \<open>The frame after its length and message id.\<close>

definition peer_payload ::
  "allocator \<Rightarrow> bool \<Rightarrow> byte \<Rightarrow> u32 \<Rightarrow> peer_event \<Rightarrow> socket \<Rightarrow> int \<times> peer_event \<times> socket" where
  "peer_payload mem data_given msg_id msg_len ev sk =
     (if msg_id = PEER_MSG_CHOKE \<or> msg_id = PEER_MSG_UNCHOKE \<or> msg_id = PEER_MSG_INTERESTED \<or>
         msg_id = PEER_MSG_NOT_INTERESTED then (1, ev, sk)
      else if msg_id = PEER_MSG_HAVE then
        (case net_recv_exact sk 4 of
           (None, sk) \<Rightarrow> (- 1, ev, sk)
         | (Some b, sk) \<Rightarrow> (1, ev\<lparr>ev_index := of_be32 b\<rparr>, sk))
      else if msg_id = PEER_MSG_BITFIELD then
        (let payload_len = msg_len - 1
         in if 256 * 1024 < payload_len then (- 1, ev, sk)
            else if 0 < payload_len
            then if \<not> data_given then (- 1, ev, sk)
                 else case net_recv_exact sk (unat payload_len) of
                   (None, sk) \<Rightarrow> (- 1, ev, sk)
                 | (Some b, sk) \<Rightarrow> (1, ev\<lparr>ev_data := b, ev_length := payload_len\<rparr>, sk)
            else (1, ev\<lparr>ev_length := payload_len\<rparr>, sk))
      else if msg_id = PEER_MSG_PIECE then
        (if msg_len < 9 then (- 1, ev, sk)
         else case net_recv_exact sk 4 of
           (None, sk) \<Rightarrow> (- 1, ev, sk)
         | (Some ib, sk) \<Rightarrow>
             (case net_recv_exact sk 4 of
                (None, sk) \<Rightarrow> (- 1, ev, sk)
              | (Some bb, sk) \<Rightarrow>
                  let block_len = msg_len - 9;
                      ev' = ev\<lparr>ev_index := of_be32 ib, ev_begin := of_be32 bb, ev_length := block_len\<rparr>
                  in if data_given \<and> 0 < block_len
                     then case net_recv_exact sk (unat block_len) of
                       (None, sk) \<Rightarrow> (- 1, ev, sk)
                     | (Some d, sk) \<Rightarrow> (0, ev'\<lparr>ev_data := d\<rparr>, sk)
                     else if \<not> mem (unat block_len) then (- 1, ev, sk)
                     else (0, ev', snd (net_recv_exact sk (unat block_len)))))
      else if 1 < msg_len then (1, ev, skip_bytes mem (msg_len - 1) sk)
      else (1, ev, sk))"

text \<open>The frame from its length on: everything after the poll or the timeout set-up.\<close>

definition peer_frame ::
  "allocator \<Rightarrow> bool \<Rightarrow> peer_event \<Rightarrow> socket \<Rightarrow> int \<times> peer_event \<times> socket" where
  "peer_frame mem data_given ev sk =
     (case net_recv_exact sk 4 of
        (None, sk) \<Rightarrow> (- 1, ev, sk)
      | (Some lb, sk) \<Rightarrow>
          let msg_len = of_be32 lb
          in if MAX_FRAME < msg_len then (- 1, ev, sk)
             else if msg_len = 0 then (1, ev, sk)
             else case net_recv_exact sk 1 of
               (None, sk) \<Rightarrow> (- 1, ev, sk)
             | (Some ib, sk) \<Rightarrow>
                 let msg_id = ib ! 0;
                     ev = ev\<lparr>ev_type := int (unat msg_id)\<rparr>
                 in if msg_id \<le> PEER_MSG_NOT_INTERESTED \<and> msg_len \<noteq> 1 then (- 1, ev, sk)
                    else if msg_id = PEER_MSG_HAVE \<and> msg_len \<noteq> 5 then (- 1, ev, sk)
                    else if (msg_id = PEER_MSG_REQUEST \<or> msg_id = PEER_MSG_CANCEL) \<and> msg_len \<noteq> 13
                    then (- 1, ev, sk)
                    else peer_payload mem data_given msg_id msg_len ev sk)"

definition peer_recv_event ::
  "allocator \<Rightarrow> poll \<Rightarrow> bool \<Rightarrow> bool \<Rightarrow> bool \<Rightarrow> nat \<Rightarrow> peer_event \<Rightarrow> socket \<Rightarrow>
   int \<times> peer_event \<times> socket" where
  "peer_recv_event mem p ioctl_ok timeout_ok data_given timeout_sec ev sk =
     (let ev = ev\<lparr>ev_type := PEER_MSG_KEEPALIVE, ev_length := 0\<rparr>
      in if timeout_sec = 0
         then case poll_frame p ioctl_ok sk of
                Some r \<Rightarrow> (r, ev, sk)
              | None \<Rightarrow> peer_frame mem data_given ev sk
         else if \<not> timeout_ok then (- 1, ev, sk)
         else peer_frame mem data_given ev sk)"

text \<open>\<open>peer_recv_message\<close>: the same call without a place for the message type.\<close>

definition peer_recv_message ::
  "allocator \<Rightarrow> poll \<Rightarrow> bool \<Rightarrow> bool \<Rightarrow> bool \<Rightarrow> nat \<Rightarrow> peer_event \<Rightarrow> socket \<Rightarrow>
   int \<times> peer_event \<times> socket" where
  "peer_recv_message mem p ioctl_ok timeout_ok data_given timeout_sec ev sk =
     (case peer_recv_event mem p ioctl_ok timeout_ok data_given timeout_sec ev sk of
        (r, ev', sk') \<Rightarrow> (r, ev'\<lparr>ev_type := ev_type ev\<rparr>, sk'))"

section \<open>The protocol\<close>

text \<open>The messages of the peer protocol that the client knows, and their frames.\<close>

datatype pmsg =
    KeepAlive | Choke | Unchoke | Interested | NotInterested
  | Have u32 | Bitfield "byte list" | Request u32 u32 u32 | Piece u32 u32 "byte list"
  | Cancel u32 u32 u32

definition frame :: "byte \<Rightarrow> byte list \<Rightarrow> byte list" where
  "frame i payload = be32 (of_nat (Suc (length payload))) @ i # payload"

fun encode :: "pmsg \<Rightarrow> byte list" where
  "encode KeepAlive = be32 0"
| "encode Choke = frame PEER_MSG_CHOKE []"
| "encode Unchoke = frame PEER_MSG_UNCHOKE []"
| "encode Interested = frame PEER_MSG_INTERESTED []"
| "encode NotInterested = frame PEER_MSG_NOT_INTERESTED []"
| "encode (Have i) = frame PEER_MSG_HAVE (be32 i)"
| "encode (Bitfield bs) = frame PEER_MSG_BITFIELD bs"
| "encode (Request i b n) = frame PEER_MSG_REQUEST (be32 i @ be32 b @ be32 n)"
| "encode (Piece i b d) = frame PEER_MSG_PIECE (be32 i @ be32 b @ d)"
| "encode (Cancel i b n) = frame PEER_MSG_CANCEL (be32 i @ be32 b @ be32 n)"

text \<open>What the receiver makes of a message: the return code and the stored event.\<close>

definition no_event :: "peer_event \<Rightarrow> peer_event" where
  "no_event ev = ev\<lparr>ev_type := PEER_MSG_KEEPALIVE, ev_length := 0\<rparr>"

definition store_data :: "byte list \<Rightarrow> peer_event \<Rightarrow> peer_event" where
  "store_data d ev = (if d = [] then ev else ev\<lparr>ev_data := d\<rparr>)"

fun received :: "pmsg \<Rightarrow> peer_event \<Rightarrow> int \<times> peer_event" where
  "received KeepAlive ev = (1, no_event ev)"
| "received Choke ev = (1, (no_event ev)\<lparr>ev_type := 0\<rparr>)"
| "received Unchoke ev = (1, (no_event ev)\<lparr>ev_type := 1\<rparr>)"
| "received Interested ev = (1, (no_event ev)\<lparr>ev_type := 2\<rparr>)"
| "received NotInterested ev = (1, (no_event ev)\<lparr>ev_type := 3\<rparr>)"
| "received (Have i) ev = (1, (no_event ev)\<lparr>ev_type := 4, ev_index := i\<rparr>)"
| "received (Bitfield bs) ev =
     (1, store_data bs ((no_event ev)\<lparr>ev_type := 5, ev_length := of_nat (length bs)\<rparr>))"
| "received (Request _ _ _) ev = (1, (no_event ev)\<lparr>ev_type := 6\<rparr>)"
| "received (Piece i b d) ev =
     (0, store_data d ((no_event ev)\<lparr>ev_type := 7, ev_index := i, ev_begin := b,
                                       ev_length := of_nat (length d)\<rparr>))"
| "received (Cancel _ _ _) ev = (1, (no_event ev)\<lparr>ev_type := 8\<rparr>)"

fun fits :: "pmsg \<Rightarrow> bool" where
  "fits (Bitfield bs) \<longleftrightarrow> length bs \<le> 256 * 1024"
| "fits (Piece _ _ d) \<longleftrightarrow> length d \<le> 256 * 1024"
| "fits _ \<longleftrightarrow> True"

section \<open>Reading frames\<close>

lemma recv_take:
  assumes "sock_stream sk = bs @ rest" "length bs = n"
  obtains sk' where "net_recv_exact sk n = (Some bs, sk')" "sock_stream sk' = rest"
    "sk_out sk' = sk_out sk"
  using net.recv_split [OF assms(1)] assms(2) recv_exact_out that by blast

text \<open>The first five bytes of a frame.\<close>

lemma frame_head:
  assumes st: "sock_stream sk = be32 len @ i # rest" and len: "len \<le> MAX_FRAME" "len \<noteq> 0"
  obtains sk' where "sock_stream sk' = rest"
    "peer_frame mem dg ev sk =
       (let ev = ev\<lparr>ev_type := int (unat i)\<rparr>
        in if i \<le> PEER_MSG_NOT_INTERESTED \<and> len \<noteq> 1 then (- 1, ev, sk')
           else if i = PEER_MSG_HAVE \<and> len \<noteq> 5 then (- 1, ev, sk')
           else if (i = PEER_MSG_REQUEST \<or> i = PEER_MSG_CANCEL) \<and> len \<noteq> 13 then (- 1, ev, sk')
           else peer_payload mem dg i len ev sk')"
proof -
  obtain sk1 where s1: "net_recv_exact sk 4 = (Some (be32 len), sk1)" "sock_stream sk1 = [i] @ rest"
    using recv_take [of sk "be32 len" "[i] @ rest" 4] st by auto
  obtain sk2 where s2: "net_recv_exact sk1 1 = (Some [i], sk2)" "sock_stream sk2 = rest"
    using recv_take [OF s1(2), of 1] by auto
  show ?thesis
    by (rule that [OF s2(2)])
       (use s1 s2 len in \<open>simp add: peer_frame_def Let_def not_le [symmetric]\<close>)
qed

lemma frame_length:
  assumes "length payload < 256 * 1024 + 9"
  shows "of_nat (Suc (length payload)) \<le> MAX_FRAME" "(of_nat (Suc (length payload)) :: u32) \<noteq> 0"
    "unat (of_nat (Suc (length payload)) :: u32) = Suc (length payload)"
proof -
  show u: "unat (of_nat (Suc (length payload)) :: u32) = Suc (length payload)"
    using assms by (intro unat_of_nat32) simp
  show "of_nat (Suc (length payload)) \<le> MAX_FRAME"
    unfolding word_le_nat_alt u using assms by (simp add: MAX_FRAME_def)
  show "(of_nat (Suc (length payload)) :: u32) \<noteq> 0"
    using u by (metis nat.simps(3) unat_0)
qed

lemma take_drop_be32 [simp]: "length d = n \<Longrightarrow> take n (d @ rest) = d"
  by simp

fun pid :: "pmsg \<Rightarrow> byte" where
  "pid KeepAlive = 0" | "pid Choke = 0" | "pid Unchoke = 1" | "pid Interested = 2"
| "pid NotInterested = 3" | "pid (Have _) = 4" | "pid (Bitfield _) = 5" | "pid (Request _ _ _) = 6"
| "pid (Piece _ _ _) = 7" | "pid (Cancel _ _ _) = 8"

fun payload_of :: "pmsg \<Rightarrow> byte list" where
  "payload_of (Have i) = be32 i"
| "payload_of (Bitfield bs) = bs"
| "payload_of (Request i b n) = be32 i @ be32 b @ be32 n"
| "payload_of (Piece i b d) = be32 i @ be32 b @ d"
| "payload_of (Cancel i b n) = be32 i @ be32 b @ be32 n"
| "payload_of _ = []"

lemma encode_frame: "m \<noteq> KeepAlive \<Longrightarrow> encode m = frame (pid m) (payload_of m)"
  by (cases m) (simp_all add: peer_msg_defs)

lemma skip_take:
  assumes "sock_stream sk = bs @ rest" "length bs = unat n" "mem (unat n)"
  shows "\<exists>sk'. skip_bytes mem n sk = sk' \<and> sock_stream sk' = rest \<and> sk_out sk' = sk_out sk"
proof -
  obtain sk' where "net_recv_exact sk (unat n) = (Some bs, sk')" "sock_stream sk' = rest"
      "sk_out sk' = sk_out sk"
    by (rule recv_take [OF assms(1,2)])
  then show ?thesis using assms(3) by (simp add: skip_bytes_def)
qed

lemma payload_piece:
  assumes "sock_stream sk = be32 i @ be32 b @ d @ rest" "length d \<le> 256 * 1024" "mem 0"
  shows "\<exists>sk'. peer_payload mem True 7 (of_nat (Suc (8 + length d))) ev sk =
           (0, store_data d (ev\<lparr>ev_index := i, ev_begin := b, ev_length := of_nat (length d)\<rparr>), sk') \<and>
         sock_stream sk' = rest"
proof -
  let ?len = "of_nat (Suc (8 + length d)) :: u32"
  have u: "unat (of_nat (length d) :: u32) = length d" "unat ?len = Suc (8 + length d)"
    using assms(2) by (intro unat_of_nat32; simp)+
  have len: "?len - 9 = of_nat (length d)" by simp
  have nlt: "\<not> ?len < 9" unfolding word_less_nat_alt u by simp
  have pos: "(0 :: u32) < of_nat (length d) \<longleftrightarrow> d \<noteq> []" unfolding word_less_nat_alt u by simp
  obtain sk1 where s1: "net_recv_exact sk 4 = (Some (be32 i), sk1)" "sock_stream sk1 = be32 b @ d @ rest"
    by (rule recv_take [OF assms(1)]) simp_all
  obtain sk2 where s2: "net_recv_exact sk1 4 = (Some (be32 b), sk2)" "sock_stream sk2 = d @ rest"
    by (rule recv_take [OF s1(2)]) simp_all
  obtain sk3 where s3: "net_recv_exact sk2 (length d) = (Some d, sk3)" "sock_stream sk3 = rest"
    by (rule recv_take [OF s2(2)]) simp_all
  show ?thesis
    using s1(1) s2(1) s3 assms(3)
    unfolding peer_payload_def Let_def len pos u if_not_P [OF nlt] peer_msg_defs
    by (cases "d = []") (simp_all add: store_data_def)
qed

lemma payload_bitfield:
  assumes "sock_stream sk = bs @ rest" "length bs \<le> 256 * 1024"
  shows "\<exists>sk'. peer_payload mem True 5 (of_nat (Suc (length bs))) ev sk =
           (1, store_data bs (ev\<lparr>ev_length := of_nat (length bs)\<rparr>), sk') \<and>
         sock_stream sk' = rest"
proof -
  have u: "unat (of_nat (length bs) :: u32) = length bs"
    using assms(2) by (intro unat_of_nat32) simp
  have len: "(of_nat (Suc (length bs)) :: u32) - 1 = of_nat (length bs)" by simp
  have small: "\<not> (256 * 1024 :: u32) < of_nat (length bs)"
    unfolding word_less_nat_alt u using assms(2) by simp
  have pos: "(0 :: u32) < of_nat (length bs) \<longleftrightarrow> bs \<noteq> []" unfolding word_less_nat_alt u by simp
  obtain sk1 where s1: "net_recv_exact sk (length bs) = (Some bs, sk1)" "sock_stream sk1 = rest"
    by (rule recv_take [OF assms(1)]) simp_all
  show ?thesis
    using s1 assms(1)
    unfolding peer_payload_def Let_def len pos u if_not_P [OF small] peer_msg_defs
    by (cases "bs = []") (simp_all add: store_data_def)
qed

lemma read_frame:
  assumes st: "sock_stream sk = encode m @ rest" and fit: "fits m" and mem: "\<forall>n \<le> 256 * 1024 + 9. mem n"
  shows "\<exists>sk'. peer_frame mem True (no_event ev) sk = (fst (received m ev), snd (received m ev), sk') \<and>
               sock_stream sk' = rest"
proof (cases "m = KeepAlive")
  case True
  obtain sk1 where s1: "net_recv_exact sk 4 = (Some (be32 0), sk1)" "sock_stream sk1 = rest"
    using recv_take [of sk "be32 0" rest 4] st True by auto
  then show ?thesis using True by (simp add: peer_frame_def Let_def MAX_FRAME_def)
next
  case False
  have fr: "encode m = frame (pid m) (payload_of m)" using False by (rule encode_frame)
  have small: "length (payload_of m) < 256 * 1024 + 9" using fit by (cases m) simp_all
  let ?len = "of_nat (Suc (length (payload_of m))) :: u32"
  note len = frame_length [OF small]
  have st': "sock_stream sk = be32 ?len @ pid m # (payload_of m @ rest)"
    using st fr by (simp add: frame_def)
  obtain sk2 where s2: "sock_stream sk2 = payload_of m @ rest" and
    body: "peer_frame mem True (no_event ev) sk =
       (let ev = (no_event ev)\<lparr>ev_type := int (unat (pid m))\<rparr>
        in if pid m \<le> PEER_MSG_NOT_INTERESTED \<and> ?len \<noteq> 1 then (- 1, ev, sk2)
           else if pid m = PEER_MSG_HAVE \<and> ?len \<noteq> 5 then (- 1, ev, sk2)
           else if (pid m = PEER_MSG_REQUEST \<or> pid m = PEER_MSG_CANCEL) \<and> ?len \<noteq> 13 then (- 1, ev, sk2)
           else peer_payload mem True (pid m) ?len ev sk2)"
    by (rule frame_head [OF st' len(1,2)])
  have control: "?thesis" if "m \<in> {Choke, Unchoke, Interested, NotInterested}"
    using body s2 that by (auto simp: peer_payload_def peer_msg_defs)
  have skip: "?thesis" if "\<exists>i b n. m = Request i b n \<or> m = Cancel i b n"
  proof -
    have l: "length (payload_of m) = 12" "pid m = 6 \<or> pid m = 8" using that by auto
    have "mem 12" using mem by simp
    then obtain sk3 where "skip_bytes mem 12 sk2 = sk3" "sock_stream sk3 = rest"
      using skip_take [OF s2, of 12 mem] l(1) by auto
    then show ?thesis
      using body l that by (auto simp: peer_payload_def peer_msg_defs)
  qed
  show ?thesis
  proof (cases m)
    case (Have i)
    obtain sk3 where "net_recv_exact sk2 4 = (Some (be32 i), sk3)" "sock_stream sk3 = rest"
      using recv_take [of sk2 "be32 i" rest 4] s2 Have by auto
    then show ?thesis using body Have by (simp add: peer_payload_def peer_msg_defs)
  next
    case (Bitfield bs)
    then show ?thesis
      using body payload_bitfield [of sk2 bs rest mem "(no_event ev)\<lparr>ev_type := 5\<rparr>"] s2 fit
      by (auto simp: peer_msg_defs Let_def)
  next
    case (Piece i b d)
    have "mem 0" using mem by simp
    have p7: "pid m = 7" "payload_of m = be32 i @ be32 b @ d" using Piece by simp_all
    have g: "\<not> pid m \<le> PEER_MSG_NOT_INTERESTED" "pid m \<noteq> PEER_MSG_HAVE" "pid m \<noteq> PEER_MSG_REQUEST"
      "pid m \<noteq> PEER_MSG_CANCEL" by (simp_all add: peer_msg_defs p7)
    have "peer_frame mem True (no_event ev) sk =
        peer_payload mem True (pid m) ?len ((no_event ev)\<lparr>ev_type := int (unat (pid m))\<rparr>) sk2"
      using body g by (simp only: Let_def simp_thms if_False)
    moreover have "length (payload_of m) = 8 + length d" "int (unat (pid m)) = 7"
      by (simp_all add: p7)
    ultimately have "peer_frame mem True (no_event ev) sk =
        peer_payload mem True 7 (of_nat (Suc (8 + length d))) ((no_event ev)\<lparr>ev_type := 7\<rparr>) sk2"
      by (simp only: p7)
    then show ?thesis
      using payload_piece [of sk2 i b d rest mem "(no_event ev)\<lparr>ev_type := 7\<rparr>"] s2 fit Piece p7 \<open>mem 0\<close>
      by auto
  qed (use False control skip in \<open>auto\<close>)
qed

section \<open>Nothing is read that is not buffered\<close>

text \<open>\<open>reads k sk sk'\<close>: exactly the next \<open>k\<close> bytes of the stream have been consumed.\<close>

definition reads :: "nat \<Rightarrow> socket \<Rightarrow> socket \<Rightarrow> bool" where
  "reads k sk sk' \<longleftrightarrow> k \<le> length (sock_stream sk) \<and> sock_stream sk' = drop k (sock_stream sk)"

lemma reads_refl [simp]: "reads 0 sk sk"
  by (simp add: reads_def)

lemma reads_recv: "n \<le> length (sock_stream sk) \<Longrightarrow>
   \<exists>bs sk'. net_recv_exact sk n = (Some bs, sk') \<and> length bs = n \<and> reads n sk sk'"
  using net.recv_bytes [of n sk] net.recv_rest [of n sk]
  by (cases "net_recv_exact sk n") (auto simp: reads_def)

lemma reads_trans: "reads j sk sk1 \<Longrightarrow> reads k sk1 sk2 \<Longrightarrow> reads (j + k) sk sk2"
  by (auto simp: reads_def add.commute)

lemma payload_reads:
  assumes "unat len - 1 \<le> length (sock_stream sk)" "len \<noteq> 0"
    and "i = PEER_MSG_HAVE \<longrightarrow> len = 5"
    and "peer_payload mem dg i len ev sk = (r, ev', sk')"
  shows "\<exists>k \<le> unat len - 1. reads k sk sk'"
proof -
  have u: "unat (len - 1) = unat len - 1"
    using assms(2) by (simp add: unat_minus_one)
  have u9: "unat (len - 9) = unat len - 9" if "\<not> len < 9"
    using that by (simp add: unat_sub not_less)
  have n9: "9 \<le> unat len" if "\<not> len < 9" using that by (simp add: word_less_nat_alt)
  let ?S = "length (sock_stream sk)"
  note ids = peer_msg_defs
  consider (hv) "i = PEER_MSG_HAVE" | (bits) "i = PEER_MSG_BITFIELD" | (piece) "i = PEER_MSG_PIECE"
    | (flag) "i = PEER_MSG_CHOKE \<or> i = PEER_MSG_UNCHOKE \<or> i = PEER_MSG_INTERESTED \<or> i = PEER_MSG_NOT_INTERESTED"
    | (other) "i \<notin> {PEER_MSG_CHOKE, PEER_MSG_UNCHOKE, PEER_MSG_INTERESTED, PEER_MSG_NOT_INTERESTED,
        PEER_MSG_HAVE, PEER_MSG_BITFIELD, PEER_MSG_PIECE}" by blast
  then show ?thesis
  proof cases
    case hv
    obtain bs sk1 where "net_recv_exact sk 4 = (Some bs, sk1)" "reads 4 sk sk1"
      using reads_recv [of 4 sk] assms(1,3) hv by auto
    then show ?thesis using assms(3,4) hv by (auto simp: peer_payload_def ids)
  next
    case bits
    obtain bs sk1 where "net_recv_exact sk (unat len - 1) = (Some bs, sk1)" "reads (unat len - 1) sk sk1"
      using reads_recv [OF assms(1)] by auto
    then show ?thesis
      using assms(4) bits reads_refl [of sk]
      by (auto simp: peer_payload_def ids Let_def u split: if_splits)
  next
    case piece
    show ?thesis
    proof (cases "len < 9")
      case True
      then show ?thesis using assms(4) piece reads_refl [of sk] by (auto simp: peer_payload_def ids)
    next
      case False
      have S: "8 \<le> ?S" using assms(1) n9 [OF False] by linarith
      then obtain b1 sk1 where s1: "net_recv_exact sk 4 = (Some b1, sk1)" "reads 4 sk sk1"
        using reads_recv [of 4 sk] by auto
      have "4 \<le> length (sock_stream sk1)" using s1(2) S by (simp add: reads_def)
      then obtain b2 sk2 where s2: "net_recv_exact sk1 4 = (Some b2, sk2)" "reads 4 sk1 sk2"
        using reads_recv [of 4 sk1] by auto
      have r2: "reads 8 sk sk2" using reads_trans [OF s1(2) s2(2)] by simp
      have "unat (len - 9) \<le> length (sock_stream sk2)"
        using r2 assms(1) n9 [OF False] u9 [OF False] unfolding reads_def length_drop by simp
      then obtain b3 sk3 where s3: "net_recv_exact sk2 (unat (len - 9)) = (Some b3, sk3)"
          "reads (unat (len - 9)) sk2 sk3"
        using reads_recv [of "unat (len - 9)" sk2] by auto
      have r3: "reads (8 + unat (len - 9)) sk sk3" by (rule reads_trans [OF r2 s3(2)])
      have "sk' = sk2 \<or> sk' = sk3"
        using assms(4) piece False s1(1) s2(1) s3(1)
        by (auto simp: peer_payload_def ids Let_def split: if_splits)
      then show ?thesis
      proof
        assume "sk' = sk2"
        then show ?thesis using r2 n9 [OF False] by (intro exI [of _ 8]) simp
      next
        assume "sk' = sk3"
        then show ?thesis using r3 n9 [OF False] u9 [OF False]
          by (intro exI [of _ "8 + unat (len - 9)"]) simp
      qed
    qed
  next
    case flag
    then have "sk' = sk" using assms(4) by (auto simp: peer_payload_def)
    then show ?thesis using reads_refl [of sk] by blast
  next
    case other
    obtain bs sk1 where s1: "net_recv_exact sk (unat len - 1) = (Some bs, sk1)" "reads (unat len - 1) sk sk1"
      using reads_recv [OF assms(1)] by auto
    have "sk' = sk \<or> sk' = sk1"
      using assms(4) other s1(1)
      by (auto simp: peer_payload_def skip_bytes_def u split: if_splits)
    then show ?thesis using s1(2) reads_refl [of sk] by auto
  qed
qed

lemma payload_code: "fst (peer_payload mem dg i len ev sk) \<noteq> 2"
  by (simp add: peer_payload_def Let_def split: option.split prod.split)

lemma frame_code: "fst (peer_frame mem dg ev sk) \<noteq> 2"
  using payload_code by (simp add: peer_frame_def Let_def split: option.split prod.split)

lemma frame_reads:
  assumes "4 \<le> length (sock_stream sk)"
    and "4 + unat (of_be32 (take 4 (sock_stream sk))) \<le> length (sock_stream sk)"
    and "peer_frame mem dg ev sk = (r, ev', sk')"
  shows "\<exists>k \<le> 4 + unat (of_be32 (take 4 (sock_stream sk))). reads k sk sk'"
proof -
  let ?len = "of_be32 (take 4 (sock_stream sk))"
  obtain sk1 where s1: "net_recv_exact sk 4 = (Some (take 4 (sock_stream sk)), sk1)" "reads 4 sk sk1"
    using reads_recv [OF assms(1)] net.recv_bytes [OF assms(1)] by auto
  show ?thesis
  proof (cases "MAX_FRAME < ?len \<or> ?len = 0")
    case True
    then have "sk' = sk1" using assms(3) s1(1) by (auto simp: peer_frame_def Let_def split: if_splits)
    then show ?thesis using s1(2) by (intro exI [of _ 4]) simp
  next
    case False
    have pos: "0 < unat ?len" using False by (simp add: unat_gt_0)
    have "1 \<le> length (sock_stream sk1)" using s1(2) assms(2) pos by (simp add: reads_def)
    then obtain ib sk2 where s2: "net_recv_exact sk1 1 = (Some ib, sk2)" "reads 1 sk1 sk2"
      using reads_recv [of 1 sk1] by auto
    have r2: "reads 5 sk sk2" using reads_trans [OF s1(2) s2(2)] by simp
    have "sk' = sk2 \<or> (\<exists>ev. (ib ! 0 = PEER_MSG_HAVE \<longrightarrow> ?len = 5) \<and>
        peer_payload mem dg (ib ! 0) ?len ev sk2 = (r, ev', sk'))"
      using assms(3) False s1(1) s2(1) by (auto simp: peer_frame_def Let_def split: if_splits)
    then show ?thesis
    proof (elim disjE exE conjE)
      assume "sk' = sk2"
      then show ?thesis using r2 pos by (intro exI [of _ 5]) auto
    next
      fix ev
      assume "ib ! 0 = PEER_MSG_HAVE \<longrightarrow> ?len = 5" "peer_payload mem dg (ib ! 0) ?len ev sk2 = (r, ev', sk')"
      moreover have "unat ?len - 1 \<le> length (sock_stream sk2)"
        using r2 assms(2) pos unfolding reads_def by simp
      ultimately obtain k where "k \<le> unat ?len - 1" "reads k sk2 sk'"
        using payload_reads False by blast
      then have "reads (5 + k) sk sk'" "5 + k \<le> 4 + unat ?len" using reads_trans [OF r2] pos by auto
      then show ?thesis by blast
    qed
  qed
qed

section \<open>Properties\<close>


definition demo_socket :: "byte list \<Rightarrow> socket" where
  "demo_socket bs = \<lparr>sk_rx = [Chunk (take 3 bs), RxIntr, Chunk (drop 3 bs)], sk_tx = [], sk_out = []\<rparr>"

definition demo_event :: peer_event where
  "demo_event = \<lparr>ev_type = 0, ev_index = 0, ev_begin = 0, ev_data = [], ev_length = 0\<rparr>"


text \<open>
  The non-blocking mode never waits and never splits a frame.  With \<open>avail\<close> bytes buffered, a
  call with timeout 0 consumes none of them when it returns 2, and otherwise at most those of one
  frame, all of which were buffered: no read of it reaches past them.
\<close>

theorem nonblocking_stays_in_buffer:
  assumes "peer_recv_event mem (PollBytes avail) ioctl_ok timeout_ok data_given 0 ev sk = (r, ev', sk')"
    and "avail \<le> length (sock_stream sk)" "avail < 2 ^ 31"
  shows "(r = 2 \<longrightarrow> sk' = sk) \<and>
         (\<exists>k \<le> avail. sock_stream sk = take k (sock_stream sk) @ sock_stream sk' \<and>
            (0 < k \<longrightarrow> k \<le> 4 + unat (of_be32 (take 4 (sock_stream sk)))))"
proof -
  let ?len = "of_be32 (take 4 (sock_stream sk))"
  show ?thesis
  proof (cases "poll_frame (PollBytes avail) ioctl_ok sk")
    case (Some c)
    then have eq: "sk' = sk" using assms(1) by (simp add: peer_recv_event_def Let_def)
    then have "0 \<le> avail \<and> sock_stream sk = take 0 (sock_stream sk) @ sock_stream sk' \<and>
        (0 < (0 :: nat) \<longrightarrow> 0 \<le> 4 + unat ?len)" by simp
    then show ?thesis using eq by blast
  next
    case None
    then have a: "4 \<le> avail" "\<not> MAX_FRAME < ?len" "\<not> (of_nat avail :: u32) < ?len + 4"
      by (auto simp: poll_frame_def Let_def split: if_splits)
    have "unat ?len \<le> 256 * 1024 + 9"
      using a(2) unfolding not_less word_le_nat_alt by (simp add: MAX_FRAME_def)
    then have "unat (?len + 4) = unat ?len + 4" by (subst unat_add_lem [THEN iffD1]) simp_all
    moreover have "unat (of_nat avail :: u32) = avail" using assms(3) by (intro unat_of_nat32) simp
    ultimately have fits: "4 + unat ?len \<le> avail"
      using a(3) unfolding not_less word_le_nat_alt by simp
    have run: "peer_frame mem data_given (no_event ev) sk = (r, ev', sk')"
      using assms(1) None by (simp add: peer_recv_event_def Let_def no_event_def)
    obtain k where k: "k \<le> 4 + unat ?len" "reads k sk sk'"
      using frame_reads [OF _ _ run] a(1) fits assms(2) by auto
    have "r \<noteq> 2" using frame_code [of mem data_given "no_event ev" sk] run by simp
    moreover have "k \<le> avail" using k(1) fits by linarith
    moreover have "sock_stream sk = take k (sock_stream sk) @ sock_stream sk'"
      using k(2) by (simp add: reads_def)
    ultimately show ?thesis using k(1) by blast
  qed
qed

theorem nonblocking_stays_in_buffer_witness:
  "sock_stream (snd (snd (peer_recv_event (\<lambda>n. n < 100) (PollBytes 5) True True True 0 demo_event
      (demo_socket (encode (Have 7)))))) = encode (Have 7)"
proof -
  let ?sk = "demo_socket (encode (Have 7))"
  have st: "sock_stream ?sk = encode (Have 7)"
    by (simp add: sock_stream_def demo_socket_def frame_def be32_def)
  have "poll_frame (PollBytes 5) True ?sk = Some 2"
    unfolding poll_frame_def st by code_simp
  then have r: "peer_recv_event (\<lambda>n. n < 100) (PollBytes 5) True True True 0 demo_event ?sk =
      (2, no_event demo_event, ?sk)"
    by (simp add: peer_recv_event_def no_event_def Let_def)
  from nonblocking_stays_in_buffer [OF r] st r show ?thesis
    by (simp add: frame_def)
qed

lemma recv_length: "net_recv_exact sk n = (Some bs, sk') \<Longrightarrow> length bs = n"
  using net.recv_cases by blast

lemma payload_other:
  "i \<noteq> PEER_MSG_BITFIELD \<Longrightarrow> i \<noteq> PEER_MSG_PIECE \<Longrightarrow>
   ev_data (fst (snd (peer_payload mem dg i len ev sk))) = ev_data ev"
  by (simp add: peer_payload_def Let_def split: option.split prod.split)

lemma payload_data:
  assumes "len \<le> MAX_FRAME" "length (ev_data ev) \<le> 256 * 1024"
  shows "length (ev_data (fst (snd (peer_payload mem dg i len ev sk)))) \<le> 256 * 1024"
proof -
  have "unat len \<le> 256 * 1024 + 9"
    using assms(1) unfolding word_le_nat_alt by (simp add: MAX_FRAME_def)
  then have piece: "unat (len - 9) \<le> 256 * 1024" if "\<not> len < 9"
    using that by (simp add: unat_sub not_less)
  have bits: "unat (len - 1) \<le> 256 * 1024" if "\<not> 256 * 1024 < len - 1"
    using that unfolding not_less word_le_nat_alt by simp
  consider "i \<noteq> PEER_MSG_BITFIELD \<and> i \<noteq> PEER_MSG_PIECE" | "i = PEER_MSG_BITFIELD" | "i = PEER_MSG_PIECE"
    by blast
  then show ?thesis
  proof cases
    case 1
    then show ?thesis using assms(2) by (simp add: payload_other)
  next
    case 2
    have "length (ev_data (fst (snd (peer_payload mem dg 5 len ev sk)))) \<le> 256 * 1024"
      using assms(2) bits
      by (auto simp: peer_payload_def peer_msg_defs Let_def dest!: recv_length split: option.split prod.split)
    then show ?thesis using 2 by (simp add: PEER_MSG_BITFIELD_def)
  next
    case 3
    have "length (ev_data (fst (snd (peer_payload mem dg 7 len ev sk)))) \<le> 256 * 1024"
      using assms(2) piece
      by (auto simp: peer_payload_def peer_msg_defs Let_def dest!: recv_length split: option.split prod.split)
    then show ?thesis using 3 by (simp add: PEER_MSG_PIECE_def)
  qed
qed

lemma frame_data:
  "length (ev_data ev) \<le> 256 * 1024 \<Longrightarrow>
   length (ev_data (fst (snd (peer_frame mem dg ev sk)))) \<le> 256 * 1024"
  by (auto simp: peer_frame_def Let_def not_less intro!: payload_data [simplified] split: option.split prod.split)

text \<open>
  The data buffer of 256 KiB is large enough: whatever arrives, no event stores more bytes in
  it.
\<close>

theorem event_data_bounded:
  assumes "length (ev_data ev) \<le> 256 * 1024"
    and "peer_recv_event mem p ioctl_ok timeout_ok data_given timeout_sec ev sk = (r, ev', sk')"
  shows "length (ev_data ev') \<le> 256 * 1024"
proof -
  let ?e = "ev\<lparr>ev_type := PEER_MSG_KEEPALIVE, ev_length := 0\<rparr>"
  have "length (ev_data (fst (snd (peer_frame mem data_given ?e sk)))) \<le> 256 * 1024"
    using assms(1) by (intro frame_data) simp
  then have "length (ev_data (fst (snd
      (peer_recv_event mem p ioctl_ok timeout_ok data_given timeout_sec ev sk)))) \<le> 256 * 1024"
    using assms(1) by (simp add: peer_recv_event_def Let_def split: option.split)
  then show ?thesis using assms(2) by simp
qed

theorem event_data_bounded_witness:
  "length (ev_data (fst (snd (peer_recv_event (\<lambda>n. n < 100) PollAgain True True True 15 demo_event
      (demo_socket (encode (Bitfield [1, 2]))))))) \<le> 256 * 1024"
proof -
  let ?c = "peer_recv_event (\<lambda>n. n < 100) PollAgain True True True 15 demo_event
      (demo_socket (encode (Bitfield [1, 2])))"
  have "?c = (fst ?c, fst (snd ?c), snd (snd ?c))" by simp
  from event_data_bounded [OF _ this] show ?thesis by (simp add: demo_event_def)
qed

lemma length_protocol: "length protocol_name = 19"
  by (simp add: protocol_name_def)

lemma handshake_ok:
  assumes "peer_handshake sk ih me = (0, their, sk')" "length ih = 20"
  shows "fst (net_send_all sk (peer_handshake_init ih me)) = 0 \<and> length their = 20 \<and>
    (\<exists>res. length res = 8 \<and> sock_stream sk = 19 # protocol_name @ res @ ih @ their @ sock_stream sk')"
proof -
  obtain r sk0 where s0: "net_send_all sk (peer_handshake_init ih me) = (r, sk0)" by (rule prod.exhaust)
  have st0: "sock_stream sk0 = sock_stream sk"
    using s0 by (auto simp: net_send_all_def sock_stream_def split: prod.splits)
  have r: "r = 0 \<or> r = - 1" using s0 by (auto simp: net_send_all_def split: prod.splits if_splits)
  from assms(1) s0 r obtain b sk1 rest sk2 where
    a: "r = 0" "net_recv_exact sk0 1 = (Some b, sk1)" "b ! 0 = 19"
    "net_recv_exact sk1 19 = (Some protocol_name, sk2)"
    "net_recv_exact sk2 48 = (Some rest, sk')" "take 20 (drop 8 rest) = ih" "their = drop 28 rest"
    by (auto simp: peer_handshake_def split: if_splits option.splits prod.splits)
  have "b = [19]" using recv_length [OF a(2)] a(3) by (cases b) auto
  then have st: "sock_stream sk = 19 # protocol_name @ rest @ sock_stream sk'"
    using st0 net.recv_cases [OF a(2)] net.recv_cases [OF a(4)] net.recv_cases [OF a(5)] by simp
  have "drop 28 rest = drop 20 (drop 8 rest)" by simp
  then have rest: "rest = take 8 rest @ ih @ their"
    using a(6,7) append_take_drop_id [of 8 rest] append_take_drop_id [of 20 "drop 8 rest"] by metis
  then have "sock_stream sk = 19 # protocol_name @ take 8 rest @ ih @ their @ sock_stream sk'"
    using st by (metis append.assoc)
  moreover have "length rest = 48" using recv_length [OF a(5)] .
  ultimately show ?thesis using a(1,7) s0 by (intro conjI exI [of _ "take 8 rest"]) auto
qed

lemma handshake_complete:
  assumes "fst (net_send_all sk (peer_handshake_init ih me)) = 0" "length ih = 20" "length their = 20"
    and "length res = 8" "sock_stream sk = 19 # protocol_name @ res @ ih @ their @ rest"
  shows "\<exists>sk'. peer_handshake sk ih me = (0, their, sk') \<and> sock_stream sk' = rest"
proof -
  obtain sk0 where s0: "net_send_all sk (peer_handshake_init ih me) = (0, sk0)"
    using assms(1) by (metis prod.collapse)
  have "sock_stream sk0 = sock_stream sk"
    using s0 by (auto simp: net_send_all_def sock_stream_def split: prod.splits)
  then have st0: "sock_stream sk0 = [19] @ protocol_name @ res @ ih @ their @ rest" using assms(5) by simp
  obtain sk1 where s1: "net_recv_exact sk0 1 = (Some [19], sk1)"
      "sock_stream sk1 = protocol_name @ res @ ih @ their @ rest"
    by (rule recv_take [OF st0]) simp_all
  obtain sk2 where s2: "net_recv_exact sk1 19 = (Some protocol_name, sk2)"
      "sock_stream sk2 = (res @ ih @ their) @ rest"
    by (rule recv_take [OF s1(2) length_protocol]) simp_all
  obtain sk3 where s3: "net_recv_exact sk2 48 = (Some (res @ ih @ their), sk3)" "sock_stream sk3 = rest"
    by (rule recv_take [OF s2(2)]) (simp_all add: assms(2-4))
  have "take 20 (drop 8 (res @ ih @ their)) = ih" "drop 28 (res @ ih @ their) = their"
    using assms(2-4) by simp_all
  then show ?thesis using s0 s1 s2 s3 by (simp add: peer_handshake_def)
qed

text \<open>
  C39.  The handshake succeeds exactly with a peer of the same torrent: it returns 0 if and only if
  all 68 bytes went out and the incoming stream starts with the protocol name, any eight reserved
  bytes, the same info hash and a peer id, which is the id returned.
\<close>

theorem handshake_same_torrent:
  assumes "length ih = 20"
  shows "(\<exists>sk'. peer_handshake sk ih me = (0, their, sk') \<and> sock_stream sk' = rest) \<longleftrightarrow>
         fst (net_send_all sk (peer_handshake_init ih me)) = 0 \<and> length their = 20 \<and>
         (\<exists>res. length res = 8 \<and> sock_stream sk = 19 # protocol_name @ res @ ih @ their @ rest)"
  using handshake_ok [OF _ assms] handshake_complete [OF _ assms] by blast

theorem handshake_same_torrent_witness:
  "\<exists>sk'. peer_handshake
       (demo_socket (19 # protocol_name @ replicate 8 5 @ replicate 20 1 @ replicate 20 2 @ [3]))
       (replicate 20 1) (replicate 20 9) = (0, replicate 20 2, sk') \<and> sock_stream sk' = [3]"
proof -
  let ?sk = "demo_socket (19 # protocol_name @ replicate 8 5 @ replicate 20 1 @ replicate 20 2 @ [3])"
  have "sock_stream ?sk = 19 # protocol_name @ replicate 8 5 @ replicate 20 1 @ replicate 20 2 @ [3]"
    by (simp add: sock_stream_def demo_socket_def protocol_name_def)
  moreover have "fst (net_send_all ?sk (peer_handshake_init (replicate 20 1) (replicate 20 9))) = 0"
    by (simp add: net_send_all_def demo_socket_def)
  ultimately show ?thesis
    by (subst handshake_same_torrent) (auto intro!: exI [of _ "replicate 8 5"])
qed

text \<open>
  Where memory runs out while an unknown or cancel frame is skipped, the call still reports a
  message, but its payload stays in the stream and is read as the next frame.
\<close>

theorem skipped_frame_left_in_stream:
  assumes "sock_stream sk = encode (Cancel i b n) @ rest" "\<not> mem 12" "timeout_ok" "0 < timeout_sec"
  shows "\<exists>sk'. peer_recv_event mem p ioctl_ok timeout_ok True timeout_sec ev sk =
           (1, (no_event ev)\<lparr>ev_type := 8\<rparr>, sk') \<and>
         sock_stream sk' = be32 i @ be32 b @ be32 n @ rest"
proof -
  have st: "sock_stream sk = be32 13 @ PEER_MSG_CANCEL # (be32 i @ be32 b @ be32 n @ rest)"
    using assms(1) by (simp add: frame_def)
  obtain sk2 where s2: "sock_stream sk2 = be32 i @ be32 b @ be32 n @ rest"
    "peer_frame mem True (no_event ev) sk =
       (let ev = (no_event ev)\<lparr>ev_type := int (unat PEER_MSG_CANCEL)\<rparr>
        in if PEER_MSG_CANCEL \<le> PEER_MSG_NOT_INTERESTED \<and> (13 :: u32) \<noteq> 1 then (- 1, ev, sk2)
           else if PEER_MSG_CANCEL = PEER_MSG_HAVE \<and> (13 :: u32) \<noteq> 5 then (- 1, ev, sk2)
           else if (PEER_MSG_CANCEL = PEER_MSG_REQUEST \<or> PEER_MSG_CANCEL = PEER_MSG_CANCEL) \<and>
             (13 :: u32) \<noteq> 13 then (- 1, ev, sk2)
           else peer_payload mem True PEER_MSG_CANCEL 13 ev sk2)"
    by (rule frame_head [OF st]) (simp_all add: MAX_FRAME_def)
  then have "peer_frame mem True (no_event ev) sk = (1, (no_event ev)\<lparr>ev_type := 8\<rparr>, sk2)"
    using assms(2) by (simp add: peer_msg_defs peer_payload_def skip_bytes_def)
  then show ?thesis
    using s2(1) assms(3,4) by (simp add: peer_recv_event_def Let_def no_event_def)
qed

theorem skipped_frame_left_in_stream_witness:
  "\<exists>sk'. peer_recv_event (\<lambda>_. False) PollAgain True True True 15 demo_event
       (demo_socket (encode (Cancel 1 2 3))) = (1, (no_event demo_event)\<lparr>ev_type := 8\<rparr>, sk') \<and>
     sock_stream sk' = be32 1 @ be32 2 @ be32 3"
proof -
  have "sock_stream (demo_socket (encode (Cancel 1 2 3))) = encode (Cancel 1 2 3) @ []"
    by (simp add: sock_stream_def demo_socket_def frame_def be32_def)
  from skipped_frame_left_in_stream [OF this, of "\<lambda>_. False" True 15] show ?thesis by simp
qed

end
