(* ===== verification/HttpServer.thy ===== *)
theory HttpServer
  imports NetUtils Bencode "HOL-Library.Multiset"
begin

text \<open>
  \<open>src/http_server.c\<close>: the web server of the user interface.  Query parameters and percent-decoding,
  the multipart parser of uploads, the request parser, the prefix table of handlers and the response
  writer.  A C string is the list of its bytes before the NUL; a pointer into a buffer is the offset
  from its start, \<open>NULL\<close> is \<open>None\<close>.  The request of a client is read from a socket of \<open>NetUtils\<close>.
\<close>

definition HTTP_MAX_BODY :: nat where "HTTP_MAX_BODY = 1024 * 1024"
definition MAX_HANDLERS :: nat where "MAX_HANDLERS = 16"
definition MAX_CLIENTS :: nat where "MAX_CLIENTS = 8"

section \<open>Percent-decoding and parameters\<close>

text \<open>The bytes that \<open>http_url_decode\<close> writes, before it terminates the string.\<close>

fun decode_bytes :: "byte list \<Rightarrow> byte list" where
  "decode_bytes [] = []"
| "decode_bytes (c # cs) =
     (if c = ch CHR ''%'' \<and> 2 \<le> length cs
      then word_of_int (strtol16_pair (cs ! 0) (cs ! 1)) # decode_bytes (drop 2 cs)
      else (if c = ch CHR ''+'' then ch CHR '' '' else c) # decode_bytes cs)"

text \<open>The string that is left in the buffer: a decoded NUL ends it.\<close>

definition http_url_decode :: "byte list \<Rightarrow> byte list" where
  "http_url_decode str = cstr (decode_bytes str)"

function get_param :: "byte list \<Rightarrow> nat \<Rightarrow> byte list \<Rightarrow> byte list option" where
  "get_param key val_len p =
     (if p = [] then None
      else let p' = (if hd p = ch CHR ''&'' then tl p else p)
           in if p' = [] then None
              else if take (length key) p' = key \<and> length key < length p' \<and>
                      p' ! length key = ch CHR ''=''
              then Some (http_url_decode (take (val_len - 1)
                     (takeWhile (\<lambda>c. c \<noteq> ch CHR ''&'') (drop (length key + 1) p'))))
              else get_param key val_len (dropWhile (\<lambda>c. c \<noteq> ch CHR ''&'') p'))"
  by pat_completeness auto
termination
proof (relation "measure (\<lambda>(k, n, p). length p)", goal_cases)
  case (2 key val_len p p')
  show ?case
  proof (cases "hd p = ch CHR ''&''")
    case True
    then have "length p' < length p" using 2(1,2) by simp
    then show ?thesis using length_dropWhile_le [of "\<lambda>c. c \<noteq> ch CHR ''&''" p'] by simp
  next
    case False
    then obtain c cs where "p' = c # cs" "c \<noteq> ch CHR ''&''" "p' = p" using 2(1,2) by (cases p) auto
    then show ?thesis using length_dropWhile_le [of "\<lambda>c. c \<noteq> ch CHR ''&''" cs] by simp
  qed
qed simp

declare get_param.simps [simp del]

text \<open>\<open>http_get_param\<close> with a query and a buffer: the value where it returns 1, else the buffer stays.\<close>

definition http_get_param :: "byte list \<Rightarrow> byte list \<Rightarrow> nat \<Rightarrow> byte list option" where
  "http_get_param query key val_len = get_param key val_len query"

section \<open>Multipart bodies\<close>

definition find_bytes :: "byte list \<Rightarrow> byte list \<Rightarrow> nat option" where
  "find_bytes hay needle =
     (if length needle = 0 \<or> length hay < length needle then None
      else find (\<lambda>i. hay ! i = needle ! 0 \<and> take (length needle) (drop i hay) = needle)
             [0..<Suc (length hay - length needle)])"

abbreviation crlf :: "byte list" where "crlf \<equiv> [13, 10]"

text \<open>The offset of the data behind the blank line that ends the headers of a field.\<close>

definition multipart_data_start :: "byte list \<Rightarrow> nat option" where
  "multipart_data_start field =
     (case find_bytes field (crlf @ crlf) of
        Some b \<Rightarrow> Some (b + 4)
      | None \<Rightarrow> (case find_bytes field [10, 10] of Some b \<Rightarrow> Some (b + 2) | None \<Rightarrow> None))"

definition field_search :: "byte list \<Rightarrow> byte list option" where
  "field_search field_name =
     (let search = bytes ''name='' @ [34] @ field_name @ [34]
      in if 256 \<le> length search then None else Some search)"

definition boundary_mark :: "byte list" where
  "boundary_mark = crlf @ bytes ''--''"

text \<open>
  \<open>http_get_upload\<close>: the uploaded bytes, and the file name where one is stored (it must be shorter
  than the caller's buffer).
\<close>

definition http_get_upload ::
  "byte list \<Rightarrow> byte list \<Rightarrow> nat \<Rightarrow> (byte list \<times> byte list option) option" where
  "http_get_upload body field_name filename_len =
     (case field_search field_name of
        None \<Rightarrow> None
      | Some search \<Rightarrow>
        (case find_bytes body search of
           None \<Rightarrow> None
         | Some f \<Rightarrow>
           let field = drop f body;
               fn_start = find_bytes field (bytes ''filename='' @ [34]);
               headers_end = multipart_data_start field;
               filename =
                 (case (fn_start, headers_end) of
                    (Some s, Some h) \<Rightarrow>
                      if s < h
                      then let s = s + 10
                           in case find_bytes (take (h - s) (drop s field)) [34] of
                                Some n \<Rightarrow> if n < filename_len then Some (take n (drop s field)) else None
                              | None \<Rightarrow> None
                      else None
                  | _ \<Rightarrow> None)
           in case headers_end of
                None \<Rightarrow> None
              | Some h \<Rightarrow>
                  let rest = drop h field;
                      data = (case find_bytes rest boundary_mark of Some b \<Rightarrow> take b rest | None \<Rightarrow> rest)
                  in if 0 < length data then Some (data, filename) else None))"

definition http_get_multipart_field :: "byte list \<Rightarrow> byte list \<Rightarrow> nat \<Rightarrow> byte list option" where
  "http_get_multipart_field body field_name value_len =
     (if value_len = 0 then None
      else case field_search field_name of
        None \<Rightarrow> None
      | Some search \<Rightarrow>
        (case find_bytes body search of
           None \<Rightarrow> None
         | Some f \<Rightarrow>
           (case multipart_data_start (drop f body) of
              None \<Rightarrow> None
            | Some h \<Rightarrow>
              let data = drop h (drop f body)
              in case find_bytes data boundary_mark of
                   None \<Rightarrow> None
                 | Some b \<Rightarrow> Some (take (if value_len \<le> b then value_len - 1 else b) data))))"

section \<open>Requests\<close>

datatype http_method = HTTP_GET | HTTP_POST | HTTP_UNSUPPORTED

record http_request =
  rq_method :: http_method
  rq_path :: "byte list"
  rq_query :: "byte list"
  rq_body :: "byte list option"
  rq_content_type :: "byte list"

text \<open>\<open>strstr\<close> on C strings, and \<open>strtok (.., " ")\<close>: the next token and what follows it.\<close>

definition strstr :: "byte list \<Rightarrow> byte list \<Rightarrow> nat option" where
  "strstr hay needle = (if needle = [] then Some 0 else find_bytes hay needle)"

definition strtok_space :: "byte list \<Rightarrow> (byte list \<times> byte list) option" where
  "strtok_space s =
     (let t = dropWhile (\<lambda>c. c = 32) s
      in if t = [] then None
         else Some (takeWhile (\<lambda>c. c \<noteq> 32) t, drop 1 (dropWhile (\<lambda>c. c \<noteq> 32) t)))"

text \<open>One \<open>recv\<close>, without a retry; \<open>None\<close> where it returns 0 or -1.\<close>

fun recv_once :: "socket \<Rightarrow> nat \<Rightarrow> byte list option \<times> socket" where
  "recv_once sk n =
     (case sk_rx sk of
        Chunk bs # as \<Rightarrow>
          (if take n bs = [] then None else Some (take n bs),
           sk\<lparr>sk_rx := (if length bs \<le> n then as else Chunk (drop n bs) # as)\<rparr>)
      | _ # as \<Rightarrow> (None, sk\<lparr>sk_rx := as\<rparr>)
      | [] \<Rightarrow> (None, sk))"

text \<open>The loop that reads the rest of a body: one \<open>recv\<close> per answer, until one gives nothing.\<close>

primrec read_more :: "rx list \<Rightarrow> nat \<Rightarrow> byte list \<Rightarrow> byte list \<times> rx list" where
  "read_more [] need acc = (acc, [])"
| "read_more (a # as) need acc =
     (if need = 0 then (acc, a # as)
      else case a of
        Chunk bs \<Rightarrow>
          if bs = [] then (acc, as)
          else if length bs \<le> need then read_more as (need - length bs) (acc @ bs)
          else (acc @ take need bs, Chunk (drop need bs) # as)
      | _ \<Rightarrow> (acc, as))"

definition parse_size :: "byte list \<Rightarrow> u64" where
  "parse_size s = foldl (\<lambda>a d. a * 10 + ucast (d - ch CHR ''0'')) 0 (takeWhile is_digit s)"

text \<open>The value of a header, looked up in two spellings: the text behind the colon and its blanks.\<close>

definition header_value :: "byte list \<Rightarrow> byte list \<Rightarrow> byte list \<Rightarrow> byte list option" where
  "header_value headers name1 name2 =
     (case (case strstr headers name1 of Some i \<Rightarrow> Some i | None \<Rightarrow> strstr headers name2) of
        None \<Rightarrow> None
      | Some i \<Rightarrow> Some (dropWhile (\<lambda>c. c = 32) (drop (i + length name1) headers)))"

definition content_length :: "byte list \<Rightarrow> nat option" where
  "content_length headers =
     map_option (\<lambda>v. let clen = unat (parse_size v) in if HTTP_MAX_BODY < clen then HTTP_MAX_BODY else clen)
       (header_value headers (bytes ''Content-Length:'') (bytes ''content-length:''))"

text \<open>The body: what the first \<open>recv\<close> brought of it, and the rest where that is not all.\<close>

definition read_body ::
  "allocator \<Rightarrow> nat \<Rightarrow> byte list \<Rightarrow> socket \<Rightarrow> byte list option \<times> socket" where
  "read_body mem clen avail sk =
     (if \<not> mem (clen + 1) then (None, sk)
      else let to_copy = (if clen < length avail then clen else length avail);
               body = take to_copy avail
           in if to_copy < clen \<and> mem (clen + 1)
              then case read_more (sk_rx sk) (clen - to_copy) body of
                     (body, rx) \<Rightarrow> (Some body, sk\<lparr>sk_rx := rx\<rparr>)
              else (Some body, sk))"

definition parse_content_type :: "byte list \<Rightarrow> byte list" where
  "parse_content_type headers =
     (case header_value headers (bytes ''Content-Type:'') (bytes ''content-type:'') of
        None \<Rightarrow> []
      | Some v \<Rightarrow>
          let ct_len = (case strstr v crlf of Some e \<Rightarrow> e | None \<Rightarrow> length v)
          in take (if 128 \<le> ct_len then 127 else ct_len) v)"

definition parse_method :: "byte list \<Rightarrow> http_method" where
  "parse_method m =
     (if m = bytes ''GET'' then HTTP_GET else if m = bytes ''POST'' then HTTP_POST else HTTP_UNSUPPORTED)"

text \<open>The request line: method, decoded path and query.\<close>

definition parse_request_line :: "byte list \<Rightarrow> http_request option" where
  "parse_request_line line =
     (case strtok_space line of
        None \<Rightarrow> None
      | Some (method, rest) \<Rightarrow>
        (case strtok_space rest of
           None \<Rightarrow> None
         | Some (path, _) \<Rightarrow>
           let raw = takeWhile (\<lambda>c. c \<noteq> ch CHR ''?'') path;
               query = (if ch CHR ''?'' \<in> set path then strncpy0 2048 (drop (length raw + 1) path) else [])
           in Some \<lparr>rq_method = parse_method method, rq_path = http_url_decode (strncpy0 1024 raw),
                    rq_query = query, rq_body = None, rq_content_type = []\<rparr>))"

definition parse_http_request :: "allocator \<Rightarrow> socket \<Rightarrow> http_request option \<times> socket" where
  "parse_http_request mem sk =
     (case recv_once sk 8191 of
        (None, sk) \<Rightarrow> (None, sk)
      | (Some buf, sk) \<Rightarrow>
        (case strstr (cstr buf) crlf of
           None \<Rightarrow> (None, sk)
         | Some e \<Rightarrow>
           (case parse_request_line (take e (cstr buf)) of
              None \<Rightarrow> (None, sk)
            | Some req \<Rightarrow>
              let headers = drop (e + 2) (cstr buf)
              in case strstr headers (crlf @ crlf) of
                   None \<Rightarrow> (Some req, sk)
                 | Some b \<Rightarrow>
                   let avail = drop (e + 2 + b + 4) buf;
                       (body, sk) = (case content_length headers of
                           None \<Rightarrow> (None, sk)
                         | Some clen \<Rightarrow> read_body mem clen avail sk)
                   in (Some (req\<lparr>rq_body := body, rq_content_type := parse_content_type headers\<rparr>), sk))))"

section \<open>Responses\<close>

record http_response =
  rs_status :: nat
  rs_content_type :: "byte list option"
  rs_body :: "byte list option"
  rs_body_len :: nat

definition sizeof_response :: nat where "sizeof_response = 32"

definition http_response_new ::
  "allocator \<Rightarrow> nat \<Rightarrow> byte list option \<Rightarrow> byte list \<Rightarrow> http_response option" where
  "http_response_new mem status content_type body =
     (if \<not> mem sizeof_response then None
      else let ct = (case content_type of Some c \<Rightarrow> c | None \<Rightarrow> bytes ''text/plain'')
      in Some \<lparr>rs_status = status,
               rs_content_type = (if mem (length ct + 1) then Some ct else None),
               rs_body = (if mem (length body + 1) then Some body else None),
               rs_body_len = length body\<rparr>)"

definition status_text :: "nat \<Rightarrow> byte list" where
  "status_text s =
     (if s = 200 then bytes ''OK'' else if s = 404 then bytes ''Not Found''
      else if s = 400 then bytes ''Bad Request'' else bytes ''Error'')"

definition response_header :: "http_response \<Rightarrow> byte list" where
  "response_header r =
     bytes ''HTTP/1.1 '' @ dec (rs_status r) @ [32] @ status_text (rs_status r) @ crlf @
     bytes ''Content-Type: '' @
       (case rs_content_type r of Some c \<Rightarrow> c | None \<Rightarrow> bytes ''text/html'') @ crlf @
     bytes ''Content-Length: '' @ dec (rs_body_len r) @ crlf @
     bytes ''Connection: close'' @ crlf @
     bytes ''Access-Control-Allow-Origin: *'' @ crlf @
     bytes ''Cache-Control: no-cache'' @ crlf @ crlf"

text \<open>\<open>send_response_bytes\<close> is the loop of \<open>net_send_all\<close>.\<close>

definition http_server_send_response :: "socket \<Rightarrow> http_response \<Rightarrow> socket" where
  "http_server_send_response sk resp =
     (let header = response_header resp
      in if 1024 \<le> length header then sk
         else case net_send_all sk header of
           (r, sk) \<Rightarrow>
             if r < 0 then sk
             else case rs_body resp of
               Some body \<Rightarrow> if 0 < rs_body_len resp then snd (net_send_all sk (take (rs_body_len resp) body)) else sk
             | None \<Rightarrow> sk)"

section \<open>The server\<close>

type_synonym handler = "http_request \<Rightarrow> http_response option"

record server =
  sv_fd :: int
  sv_handlers :: "(byte list \<times> handler) list"
  sv_clients :: "int list"

text \<open>
  \<open>http_server_init\<close>: the answers of \<open>socket\<close>, \<open>bind\<close> and \<open>listen\<close> are parameters.  The result is the
  return code, the server and the descriptors closed.
\<close>

definition http_server_init :: "int \<Rightarrow> bool \<Rightarrow> bool \<Rightarrow> server \<Rightarrow> int \<times> server \<times> int list" where
  "http_server_init fd bind_ok listen_ok sv =
     (if fd < 0 then (- 1, sv\<lparr>sv_fd := fd\<rparr>, [])
      else if \<not> bind_ok \<or> \<not> listen_ok then (- 1, sv\<lparr>sv_fd := - 1\<rparr>, [fd])
      else (0, sv\<lparr>sv_fd := fd\<rparr>, []))"

definition http_server_register :: "byte list \<Rightarrow> handler \<Rightarrow> server \<Rightarrow> server" where
  "http_server_register path h sv =
     (if MAX_HANDLERS \<le> length (sv_handlers sv) then sv
      else sv\<lparr>sv_handlers := sv_handlers sv @ [(strncpy0 128 path, h)]\<rparr>)"

text \<open>The first handler whose path is a prefix of the request's; a missing answer is a 404.\<close>

primrec find_handler :: "(byte list \<times> handler) list \<Rightarrow> byte list \<Rightarrow> handler option" where
  "find_handler [] path = None"
| "find_handler (e # es) path = (if starts_with path (fst e) then Some (snd e) else find_handler es path)"

definition dispatch :: "allocator \<Rightarrow> server \<Rightarrow> http_request \<Rightarrow> http_response option" where
  "dispatch mem sv req =
     (case Option.bind (find_handler (sv_handlers sv) (rq_path req)) (\<lambda>h. h req) of
        Some r \<Rightarrow> Some r
      | None \<Rightarrow> http_response_new mem 404 (Some (bytes ''text/plain'')) (bytes ''404 Not Found''))"

text \<open>One client whose socket is readable; its socket is closed afterwards in any case.\<close>

definition serve_client :: "allocator \<Rightarrow> server \<Rightarrow> socket \<Rightarrow> socket" where
  "serve_client mem sv sk =
     (case parse_http_request mem sk of
        (None, sk) \<Rightarrow> sk
      | (Some req, sk) \<Rightarrow>
          (case dispatch mem sv req of None \<Rightarrow> sk | Some r \<Rightarrow> http_server_send_response sk r))"

text \<open>
  \<open>http_server_poll\<close>: what \<open>select\<close> returns (with whether it was interrupted), the descriptors it
  reports readable, the descriptor that \<open>accept\<close> gives and the sockets behind the descriptors are
  parameters.  The result is the return code, the server, the sockets after the requests and the
  descriptors closed.
\<close>

definition http_server_poll ::
  "allocator \<Rightarrow> int \<Rightarrow> bool \<Rightarrow> int set \<Rightarrow> int \<Rightarrow> (int \<Rightarrow> socket) \<Rightarrow> server \<Rightarrow>
   int \<times> server \<times> (int \<Rightarrow> socket) \<times> int list" where
  "http_server_poll mem selected intr readable client socks sv =
     (if sv_fd sv < 0 then (- 1, sv, socks, [])
      else if selected < 0 then (if intr then 1 else - 1, sv, socks, [])
      else if selected = 0 then (1, sv, socks, [])
      else
        let (sv, closed) =
              (if sv_fd sv \<in> readable \<and> 0 \<le> client
               then if length (sv_clients sv) < MAX_CLIENTS
                    then (sv\<lparr>sv_clients := sv_clients sv @ [client]\<rparr>, [])
                    else (sv, [client])
               else (sv, []));
            served = filter (\<lambda>c. 0 \<le> c \<and> c \<in> readable) (sv_clients sv)
        in (0, sv\<lparr>sv_clients := filter (\<lambda>c. 0 \<le> c \<and> c \<notin> readable) (sv_clients sv)\<rparr>,
            \<lambda>c. if c \<in> set served then serve_client mem sv (socks c) else socks c,
            closed @ served))"

definition http_server_shutdown :: "server \<Rightarrow> server \<times> int list" where
  "http_server_shutdown sv =
     (sv\<lparr>sv_fd := - 1, sv_clients := []\<rparr>,
      (if 0 \<le> sv_fd sv then [sv_fd sv] else []) @ filter (\<lambda>c. 0 \<le> c) (sv_clients sv))"

section \<open>Searching\<close>

lemma starts_with_drop_bound: "needle \<noteq> [] \<Longrightarrow> starts_with (drop i hay) needle \<Longrightarrow> i + length needle \<le> length hay"
proof -
  assume "needle \<noteq> []" "starts_with (drop i hay) needle"
  then obtain r where "drop i hay = needle @ r" "needle \<noteq> []" by (auto simp: starts_with_iff)
  then show ?thesis by (metis append_is_Nil_conv drop_eq_Nil le_add1 le_add_diff_inverse length_append
        length_drop nat_add_left_cancel_le not_le_imp_less order_less_imp_le)
qed

lemma find_bytes_eq: "find_bytes hay needle =
    (if needle = [] then None else find (\<lambda>i. starts_with (drop i hay) needle) [0..<length hay])"
proof (cases "needle = [] \<or> length hay < length needle")
  case True
  have "\<not> starts_with (drop i hay) needle" if "needle \<noteq> []" for i
    using starts_with_drop_bound [OF that, of i hay] True that by auto
  then have "needle \<noteq> [] \<Longrightarrow> find (\<lambda>i. starts_with (drop i hay) needle) [0..<length hay] = None"
    by (simp add: find_None_iff)
  then show ?thesis using True by (auto simp: find_bytes_def)
next
  case False
  let ?n = "Suc (length hay - length needle)"
  have le: "?n \<le> length hay" using False by (cases needle) auto
  have eq: "(hay ! i = needle ! 0 \<and> take (length needle) (drop i hay) = needle) = starts_with (drop i hay) needle"
    if "i < ?n" for i
  proof -
    have "take (length needle) (drop i hay) = needle \<Longrightarrow> hay ! i = needle ! 0"
      using False that by (metis drop_eq_Nil hd_conv_nth hd_drop_conv_nth hd_take le less_le_trans length_greater_0_conv take_eq_Nil)
    then show ?thesis by (auto simp: starts_with_def)
  qed
  have "[0..<length hay] = [0..<?n] @ [?n..<length hay]"
    using upt_add_eq_append [of 0 ?n "length hay - ?n"] le by (metis le_add_diff_inverse zero_le)
  moreover have "find (\<lambda>i. starts_with (drop i hay) needle) [?n..<length hay] = None"
  proof -
    have "\<not> starts_with (drop i hay) needle" if "?n \<le> i" for i
      using starts_with_drop_bound [of needle i hay] False that by force
    then show ?thesis by (auto simp: find_None_iff)
  qed
  moreover have "find P (xs @ ys) = find P xs" if "find P ys = None" for P :: "nat \<Rightarrow> bool" and xs ys
    using that by (induction xs) auto
  ultimately have "find (\<lambda>i. starts_with (drop i hay) needle) [0..<length hay] =
      find (\<lambda>i. starts_with (drop i hay) needle) [0..<?n]" by presburger
  also have "\<dots> = find (\<lambda>i. hay ! i = needle ! 0 \<and> take (length needle) (drop i hay) = needle) [0..<?n]"
    by (rule find_cong) (use eq in \<open>simp_all del: upt_Suc\<close>)
  finally show ?thesis using False by (simp add: find_bytes_def del: upt_Suc)
qed

lemma find_upt_Some: "find P [0..<n] = Some i \<longleftrightarrow> i < n \<and> P i \<and> (\<forall>j < i. \<not> P j)"
  by (auto simp: find_Some_iff)

text \<open>\<open>find_bytes\<close> finds the first occurrence.\<close>

lemma find_bytes_Some: "find_bytes hay needle = Some i \<longleftrightarrow>
    needle \<noteq> [] \<and> starts_with (drop i hay) needle \<and> (\<forall>j < i. \<not> starts_with (drop j hay) needle)"
  using starts_with_drop_bound [of needle i hay]
  by (cases needle) (auto simp: find_bytes_eq find_upt_Some)

lemma find_bytes_None: "find_bytes hay needle = None \<longleftrightarrow>
    needle = [] \<or> (\<forall>j. \<not> starts_with (drop j hay) needle)"
  using starts_with_drop_bound [of needle _ hay]
  by (cases needle) (auto simp: find_bytes_eq find_None_iff, fastforce)

lemma find_bytes_split:
  assumes "find_bytes hay needle = Some i"
  obtains rest where "hay = take i hay @ needle @ rest" "length (take i hay) = i"
    "\<forall>j < i. \<not> starts_with (drop j hay) needle"
proof -
  from assms obtain rest where "drop i hay = needle @ rest" "needle \<noteq> []"
    by (auto simp: find_bytes_Some starts_with_iff)
  moreover from this have "i + length needle \<le> length hay"
    by (intro starts_with_drop_bound) (auto simp: starts_with_iff)
  ultimately show ?thesis
    using assms append_take_drop_id [of i hay] by (intro that [of rest]) (auto simp: find_bytes_Some)
qed

section \<open>Percent-encoding and parameters\<close>

lemma nibbles: "unat (drop_bit 4 c) < 16" "unat (c AND 15) < 16"
    "unat c = 16 * unat (drop_bit 4 c) + unat (c AND 15)" for c :: byte
proof -
  have c: "unat c < 256" using unsigned_less [of c] by simp
  have hi: "unat (drop_bit 4 c) = unat c div 16" by (simp add: drop_bit_eq_div unat_div_distrib)
  have "c AND 15 = take_bit 4 c" by (simp add: take_bit_eq_mask mask_eq_exp_minus_1)
  then have lo: "unat (c AND 15) = unat c mod 16"
    by (simp add: take_bit_eq_mod unat_mod_distrib)
  show "unat (drop_bit 4 c) < 16" "unat (c AND 15) < 16"
    "unat c = 16 * unat (drop_bit 4 c) + unat (c AND 15)"
    unfolding hi lo using c by auto
qed

lemma hex_lower_digits:
  "\<forall>n \<in> set [0..<16]. hex_digit_val (hex_lower ! n) = Some n \<and> hex_lower ! n \<noteq> ch CHR ''&''"
  by code_simp

lemma hex_digit: "n < 16 \<Longrightarrow> hex_digit_val (hex_lower ! n) = Some n \<and> hex_lower ! n \<noteq> ch CHR ''&''"
  using hex_lower_digits by simp

lemma hex_pair: "strtol16_pair (hex_hi hex_lower c) (hex_lo hex_lower c) = int (unat c)"
  unfolding strtol16_pair_def hex_hi_def hex_lo_def
  by (simp only: hex_digit [OF nibbles(1)] hex_digit [OF nibbles(2)] option.case nibbles(3) [symmetric])

lemma unreserved_plain: "unreserved c \<Longrightarrow> c \<noteq> ch CHR ''%'' \<and> c \<noteq> ch CHR ''+'' \<and> c \<noteq> ch CHR ''&'' \<and> c \<noteq> 0"
  by (auto simp: unreserved_def)

lemma hex_plain: "hex_hi hex_lower c \<noteq> ch CHR ''&''" "hex_lo hex_lower c \<noteq> ch CHR ''&''"
  unfolding hex_hi_def hex_lo_def using hex_digit [OF nibbles(1)] hex_digit [OF nibbles(2)] by blast+

lemma decode_encode: "decode_bytes (net_url_encode bs) = bs"
proof (induction bs)
  case (Cons c cs)
  show ?case
    using Cons unreserved_plain [of c] hex_pair [of c] by (simp add: word_unat_eq_iff)
qed simp

lemma encode_no_amp: "ch CHR ''&'' \<notin> set (net_url_encode bs)"
proof (induction bs)
  case (Cons c cs)
  have "ch CHR ''&'' \<notin> set [c]" if "unreserved c"
    using unreserved_plain [OF that] by (metis list.set_cases set_ConsD empty_iff empty_set list.set(1))
  moreover have "ch CHR ''&'' \<notin> set [ch CHR ''%'', hex_hi hex_lower c, hex_lo hex_lower c]"
    using hex_plain [of c] by (auto dest: sym)
  ultimately show ?case using Cons by (simp only: net_url_encode.simps set_append Un_iff split: if_splits) blast
qed simp

text \<open>The query string that a client builds from parameters.\<close>

fun query_of :: "(byte list \<times> byte list) list \<Rightarrow> byte list" where
  "query_of [] = []"
| "query_of [(k, v)] = k @ [61] @ net_url_encode v"
| "query_of ((k, v) # e # es) = k @ [61] @ net_url_encode v @ 38 # query_of (e # es)"

definition plain_key :: "byte list \<Rightarrow> bool" where
  "plain_key k \<longleftrightarrow> 38 \<notin> set k \<and> 61 \<notin> set k"

lemma key_match:
  assumes "61 \<notin> set k" "61 \<notin> set key"
  shows "take (length key) (k @ 61 # r) = key \<and> length key < length (k @ 61 # r) \<and>
      (k @ 61 # r) ! length key = 61 \<longleftrightarrow> key = (k :: byte list)"
proof (cases "length key" "length k" rule: linorder_cases)
  case less
  then have "k ! length key \<noteq> 61" using assms(1) nth_mem by force
  then show ?thesis using less by (auto simp: nth_append)
next
  case greater
  then have "k @ 61 # take (length key - Suc (length k)) r = key \<Longrightarrow> 61 \<in> set key"
    by (metis in_set_conv_decomp)
  then show ?thesis using greater assms by (auto simp: take_Cons')
qed (auto simp: nth_append)

lemma encode_no_38: "x \<in> set (net_url_encode bs) \<Longrightarrow> x \<noteq> 38"
  using encode_no_amp [of bs] by auto

lemma get_param_Nil: "get_param key n [] = None"
  by (subst get_param.simps) simp

lemma get_param_skip:
  assumes "p \<noteq> []" "hd p \<noteq> 38"
  shows "get_param key n (38 # p) = get_param key n p"
  using assms by (subst (1 2) get_param.simps) (simp add: Let_def)

lemma get_param_miss:
  assumes "p \<noteq> []" "hd p \<noteq> 38"
    and "\<not> (take (length key) p = key \<and> length key < length p \<and> p ! length key = 61)"
  shows "get_param key n p = get_param key n (dropWhile (\<lambda>c. c \<noteq> 38) p)"
  using assms by (subst get_param.simps) auto

lemma get_param_entry:
  assumes k: "plain_key k" and key: "plain_key key" and r: "r = [] \<or> hd r = 38"
  shows "get_param key n (k @ 61 # net_url_encode v @ r) =
    (if key = k then Some (http_url_decode (take (n - 1) (net_url_encode v))) else get_param key n r)"
proof -
  let ?p = "k @ 61 # net_url_encode v @ r"
  have hd: "hd ?p \<noteq> 38" using k by (cases k) (auto simp: plain_key_def)
  have stop: "takeWhile (\<lambda>c. c \<noteq> 38) r = []" "dropWhile (\<lambda>c. c \<noteq> 38) r = r"
    using r by (cases r; simp)+
  have tk: "takeWhile (\<lambda>c. c \<noteq> 38) (drop (length k + 1) ?p) = net_url_encode v"
    using encode_no_38 stop by (simp add: takeWhile_append2)
  have "dropWhile (\<lambda>c. c \<noteq> 38) (k @ (61 # net_url_encode v) @ r) = dropWhile (\<lambda>c. c \<noteq> 38) ((61 # net_url_encode v) @ r)"
    using k by (intro dropWhile_append2) (auto simp: plain_key_def)
  also have "\<dots> = r"
    using encode_no_38 stop by (subst dropWhile_append2) auto
  finally have dr: "dropWhile (\<lambda>c. c \<noteq> 38) ?p = r" by simp
  have m: "take (length key) ?p = key \<and> length key < length ?p \<and> ?p ! length key = 61 \<longleftrightarrow> key = k"
    using key_match [of k key "net_url_encode v @ r"] k key by (simp add: plain_key_def)
  show ?thesis
  proof (cases "key = k")
    case True
    then show ?thesis using hd tk m by (subst get_param.simps) simp
  next
    case False
    then have "\<not> (take (length key) ?p = key \<and> length key < length ?p \<and> ?p ! length key = 61)"
      using m by blast
    from get_param_miss [OF _ hd this] show ?thesis using False dr by simp
  qed
qed

lemma query_head: "plain_key k \<Longrightarrow> query_of ((k, v) # es) \<noteq> [] \<and> hd (query_of ((k, v) # es)) \<noteq> 38"
  by (cases es; cases k) (auto simp: plain_key_def)

lemma entry_value:
  "length (net_url_encode v) < n \<Longrightarrow> 0 \<notin> set v \<Longrightarrow>
     http_url_decode (take (n - Suc 0) (net_url_encode v)) = v"
proof -
  assume a: "length (net_url_encode v) < n" "0 \<notin> set v"
  then have "take (n - Suc 0) (net_url_encode v) = net_url_encode v" by simp
  then show ?thesis using a by (simp add: http_url_decode_def decode_encode cstr_ident)
qed

lemma query_lookup:
  assumes "plain_key key" "\<forall>(k, v) \<in> set kvs. plain_key k \<and> length (net_url_encode v) < n \<and> 0 \<notin> set v"
  shows "get_param key n (query_of kvs) = map_of kvs key"
  using assms(2)
proof (induction kvs rule: query_of.induct)
  case 1
  show ?case by (simp add: get_param_Nil)
next
  case (2 k v)
  then show ?case using get_param_entry [OF _ assms(1), of k "[]" n v]
    by (simp add: entry_value get_param_Nil)
next
  case (3 k v e es)
  obtain k' v' where e: "e = (k', v')" by fastforce
  have "get_param key n (38 # query_of (e # es)) = get_param key n (query_of (e # es))"
    using query_head [of k' v' es] 3(2) e by (intro get_param_skip) auto
  then show ?case
    using 3 get_param_entry [OF _ assms(1), of k "38 # query_of (e # es)" n v]
    by (simp add: entry_value)
qed

text \<open>
  Round trip between the encoder of \<open>net_utils.c\<close> and the decoder of \<open>http_server.c\<close>: looking up
  a key in the query string built from parameters with encoded values gives the value of its first
  entry, and nothing where the key does not occur.
\<close>

theorem query_param_roundtrip:
  assumes "plain_key key" "\<forall>(k, v) \<in> set kvs. plain_key k \<and> length (net_url_encode v) < n \<and> 0 \<notin> set v"
  shows "http_get_param (query_of kvs) key n = map_of kvs key"
  using query_lookup [OF assms] by (simp add: http_get_param_def)

theorem query_param_roundtrip_witness:
  "http_get_param (query_of [(bytes ''path'', bytes ''/a b''), (bytes ''id'', bytes ''7'')]) (bytes ''id'') 16
     = Some (bytes ''7'')"
  by (subst query_param_roundtrip) (code_simp)+

section \<open>Uploads\<close>

lemma first_drop: "find_bytes hay needle = Some i \<Longrightarrow> \<exists>rest. drop i hay = needle @ rest"
  by (auto simp: find_bytes_Some starts_with_iff)

lemma data_start_split:
  assumes "multipart_data_start field = Some h"
  shows "\<exists>hdr. (take h field = hdr @ crlf @ crlf \<or> take h field = hdr @ [10, 10]) \<and> h \<le> length field"
proof -
  from assms consider b where "find_bytes field (crlf @ crlf) = Some b" "h = b + 4"
    | b where "find_bytes field [10, 10] = Some b" "h = b + 2"
    by (auto simp: multipart_data_start_def split: option.splits)
  then show ?thesis
  proof cases
    case 1
    from 1(1) obtain rest where f: "field = take b field @ (crlf @ crlf) @ rest" and l: "length (take b field) = b"
      by (rule find_bytes_split)
    have "take h field = take b field @ crlf @ crlf"
      by (subst f) (use l 1(2) in simp)
    moreover have "h \<le> length field" using arg_cong [OF f, of length] l 1(2) by simp
    ultimately show ?thesis by blast
  next
    case 2
    from 2(1) obtain rest where f: "field = take b field @ [10, 10] @ rest" and l: "length (take b field) = b"
      by (rule find_bytes_split)
    have "take h field = take b field @ [10, 10]"
      by (subst f) (use l 2(2) in simp)
    moreover have "h \<le> length field" using arg_cong [OF f, of length] l 2(2) by simp
    ultimately show ?thesis by blast
  qed
qed

text \<open>The bytes up to the first boundary mark.\<close>

definition upto_mark :: "byte list \<Rightarrow> byte list" where
  "upto_mark rest = (case find_bytes rest boundary_mark of Some b \<Rightarrow> take b rest | None \<Rightarrow> rest)"

lemma upto_mark_cut:
  "\<exists>tl. rest = upto_mark rest @ tl \<and> (tl = [] \<or> starts_with tl boundary_mark) \<and>
     (\<forall>j < length (upto_mark rest). \<not> starts_with (drop j rest) boundary_mark)"
proof (cases "find_bytes rest boundary_mark")
  case None
  then have "upto_mark rest = rest" by (simp add: upto_mark_def)
  moreover have "\<forall>j. \<not> starts_with (drop j rest) boundary_mark"
    using None by (auto simp: find_bytes_None boundary_mark_def)
  ultimately show ?thesis by simp
next
  case (Some b)
  then have "upto_mark rest = take b rest" by (simp add: upto_mark_def)
  moreover have "starts_with (drop b rest) boundary_mark" "\<forall>j < b. \<not> starts_with (drop j rest) boundary_mark"
    using Some by (auto simp: find_bytes_Some)
  ultimately show ?thesis by (intro exI [of _ "drop b rest"]) simp
qed

lemma upload_shape:
  assumes "http_get_upload body field_name n = Some (d, fn)"
  obtains f h where
    "find_bytes body (bytes ''name='' @ [34] @ field_name @ [34]) = Some f"
    "multipart_data_start (drop f body) = Some h" "d = upto_mark (drop h (drop f body))" "d \<noteq> []"
    "\<And>g. fn = Some g \<Longrightarrow> length g < n \<and> 34 \<notin> set g"
proof -
  from assms obtain f h where *: "find_bytes body (bytes ''name='' @ [34] @ field_name @ [34]) = Some f"
    "multipart_data_start (drop f body) = Some h" "d = upto_mark (drop h (drop f body))" "d \<noteq> []"
    by (auto simp: http_get_upload_def field_search_def Let_def upto_mark_def split: option.splits if_splits)
  have "length g < n \<and> 34 \<notin> set g" if "fn = Some g" for g
  proof -
    have q: "34 \<notin> set (take m xs) \<and> m \<le> length xs" if "find_bytes xs [34] = Some m" for m and xs :: "byte list"
    proof -
      have a: "xs ! j \<noteq> 34" if "j < m" "j < length xs" for j
        using that \<open>find_bytes xs [34] = Some m\<close> Cons_nth_drop_Suc [OF that(2)]
        by (auto simp: find_bytes_Some starts_with_iff) metis
      have "m < length xs"
        using \<open>find_bytes xs [34] = Some m\<close> by (cases "m < length xs") (auto simp: find_bytes_Some starts_with_iff)
      then show ?thesis using a by (auto simp: in_set_conv_nth)
    qed
    from assms that * show ?thesis
      by (auto simp: http_get_upload_def field_search_def Let_def min_def dest!: q
          split: option.splits if_splits)
  qed
  with * show ?thesis by (intro that) auto
qed


definition demo_form :: "byte list \<Rightarrow> byte list" where
  "demo_form file = bytes ''--B'' @ crlf @ bytes ''form-data; name='' @ [34] @ bytes ''f'' @ [34] @
     bytes ''; filename='' @ [34] @ bytes ''a.torrent'' @ [34] @ crlf @ crlf @ file @ crlf @
     bytes ''--B--'' @ crlf"

lemma demo_upload: "http_get_upload (demo_form [1, 2, 3]) (bytes ''f'') 64 = Some ([1, 2, 3], Some (bytes ''a.torrent''))"
  by code_simp


text \<open>
  The boundary that the request declares is not compared: an uploaded file that contains a line
  break followed by two dashes is cut at that place, and the rest of it is lost without an error.
\<close>

theorem upload_cut_at_mark:
  assumes "find_bytes body (bytes ''name='' @ [34] @ field_name @ [34]) = Some f"
    and "multipart_data_start (drop f body) = Some h" "length field_name < 200"
    and "drop h (drop f body) = a @ boundary_mark @ b" "a \<noteq> []"
    and "\<forall>j < length a. \<not> starts_with (drop j (a @ boundary_mark @ b)) boundary_mark"
  shows "\<exists>fn. http_get_upload body field_name n = Some (a, fn)"
proof -
  have "find_bytes (a @ boundary_mark @ b) boundary_mark = Some (length a)"
    using assms(6) by (auto simp: find_bytes_Some starts_with_iff boundary_mark_def)
  moreover have "field_search field_name = Some (bytes ''name='' @ [34] @ field_name @ [34])"
    using assms(3) by (simp add: field_search_def bytes_def)
  ultimately show ?thesis
    using assms(1,2,4,5) by (simp add: http_get_upload_def Let_def)
qed

theorem upload_cut_at_mark_witness:
  "\<exists>fn. http_get_upload (demo_form ([7] @ boundary_mark @ [8, 9])) (bytes ''f'') 64 = Some ([7], fn)"
  by (rule upload_cut_at_mark [where f = 16 and h = 34 and b = "[8, 9] @ boundary_mark @ bytes ''B--'' @ crlf"])
    (code_simp)+

section \<open>Well-formed requests\<close>

text \<open>The C types of the request record: bounded strings without NUL, a body of at most 1 MiB.\<close>

definition str_ok :: "nat \<Rightarrow> byte list \<Rightarrow> bool" where
  "str_ok cap s \<longleftrightarrow> length s < cap \<and> 0 \<notin> set s"

definition request_ok :: "http_request \<Rightarrow> bool" where
  "request_ok r \<longleftrightarrow> str_ok 1024 (rq_path r) \<and> str_ok 2048 (rq_query r) \<and>
     str_ok 128 (rq_content_type r) \<and>
     (case rq_body r of None \<Rightarrow> True | Some b \<Rightarrow> length b \<le> HTTP_MAX_BODY)"

lemma length_decode: "length (decode_bytes s) \<le> length s"
  by (induction s rule: decode_bytes.induct) auto

lemma decode_str_ok: "length s < cap \<Longrightarrow> str_ok cap (http_url_decode s)"
  using length_decode [of s] length_cstr_le [of "decode_bytes s"]
  by (simp add: str_ok_def http_url_decode_def)

lemma strncpy0_str_ok: "0 \<notin> set s \<Longrightarrow> 0 < n \<Longrightarrow> str_ok n (strncpy0 n s)"
  using length_strncpy0 [of n s] by (auto simp: str_ok_def strncpy0_def dest: in_set_takeD)

lemma strtok_no_nul:
  "strtok_space s = Some (t, r) \<Longrightarrow> 0 \<notin> set s \<Longrightarrow> 0 \<notin> set t \<and> 0 \<notin> set r"
  by (auto simp: strtok_space_def Let_def split: if_splits dest!: set_takeWhileD in_set_dropD set_dropWhileD)

lemma request_line_ok:
  assumes "parse_request_line line = Some req" "0 \<notin> set line"
  shows "request_ok req \<and> rq_body req = None"
proof -
  from assms(1) obtain m rest path t where
    a: "strtok_space line = Some (m, rest)" "strtok_space rest = Some (path, t)"
    and req: "req = \<lparr>rq_method = parse_method m,
      rq_path = http_url_decode (strncpy0 1024 (takeWhile (\<lambda>c. c \<noteq> ch CHR ''?'') path)),
      rq_query = (if ch CHR ''?'' \<in> set path
        then strncpy0 2048 (drop (length (takeWhile (\<lambda>c. c \<noteq> ch CHR ''?'') path) + 1) path) else []),
      rq_body = None, rq_content_type = []\<rparr>"
    by (auto simp: parse_request_line_def Let_def simp del: bytes_def split: option.splits prod.splits)
  have z: "0 \<notin> set path" using strtok_no_nul a assms(2) by blast
  have "length (strncpy0 1024 s) < 1024" for s using length_strncpy0 [of 1024 s] by simp
  then have "str_ok 1024 (rq_path req)" unfolding req by (simp add: decode_str_ok)
  moreover have "str_ok 2048 (rq_query req)"
    unfolding req using z strncpy0_str_ok [of "drop _ path" 2048]
    by (simp add: str_ok_def) (meson in_set_dropD)
  ultimately show ?thesis by (simp add: request_ok_def req str_ok_def)
qed

lemma read_more_length: "length (fst (read_more rx need acc)) \<le> length acc + need"
proof (induction rx arbitrary: need acc)
  case (Cons a as)
  show ?case
  proof (cases a)
    case (Chunk bs)
    show ?thesis using Cons [of "need - length bs" "acc @ bs"] Chunk by auto
  qed simp_all
qed simp

lemma read_body_length: "fst (read_body mem clen avail sk) = Some b \<Longrightarrow> length b \<le> clen"
  using read_more_length [of "sk_rx sk" "clen - min clen (length avail)" "take (min clen (length avail)) avail"]
  by (auto simp: read_body_def Let_def min_def split: if_splits prod.splits)

lemma content_length_bound: "content_length headers = Some n \<Longrightarrow> n \<le> HTTP_MAX_BODY"
  by (auto simp: content_length_def Let_def split: if_splits)

lemma content_type_ok: "0 \<notin> set headers \<Longrightarrow> str_ok 128 (parse_content_type headers)"
proof -
  assume z: "0 \<notin> set headers"
  have "0 \<notin> set v" if "header_value headers a b = Some v" for a b v
    using that z by (auto simp: header_value_def split: option.splits dest!: set_dropWhileD in_set_dropD)
  then show ?thesis
    by (auto simp: parse_content_type_def str_ok_def Let_def split: option.split dest!: in_set_takeD)
qed

text \<open>
  Every request that the parser delivers is well typed: path, query and content type are C
  strings that fit their arrays, and the body has at most \<open>HTTP_MAX_BODY\<close> bytes, whatever the client
  sends and however long it says its body is.
\<close>

theorem request_well_typed:
  assumes "parse_http_request mem sk = (Some req, sk')"
  shows "request_ok req"
proof -
  from assms obtain buf sk1 e req0 where a: "recv_once sk 8191 = (Some buf, sk1)"
    "strstr (cstr buf) crlf = Some e" "parse_request_line (take e (cstr buf)) = Some req0"
    by (auto simp: parse_http_request_def split: option.splits prod.splits)
  have r0: "request_ok req0 \<and> rq_body req0 = None"
    by (rule request_line_ok [OF a(3)]) (metis cstr_no_nul in_set_takeD)
  let ?h = "drop (e + 2) (cstr buf)"
  have z: "0 \<notin> set ?h" by (metis cstr_no_nul in_set_dropD)
  show ?thesis
  proof (cases "strstr ?h (crlf @ crlf)")
    case None
    then show ?thesis using assms a r0 by (simp add: parse_http_request_def)
  next
    case (Some b)
    obtain body sk2 where bd: "(case content_length ?h of None \<Rightarrow> (None, sk1)
      | Some clen \<Rightarrow> read_body mem clen (drop (e + 2 + b + 4) buf) sk1) = (body, sk2)"
      by (rule prod.exhaust)
    have req: "req = req0\<lparr>rq_body := body, rq_content_type := parse_content_type ?h\<rparr>"
      using assms by (simp only: parse_http_request_def a Some bd Let_def prod.case option.case) simp
    have "length bs \<le> HTTP_MAX_BODY" if "body = Some bs" for bs
    proof (cases "content_length ?h")
      case None
      then show ?thesis using bd that by simp
    next
      case (Some clen)
      then have "fst (read_body mem clen (drop (e + 2 + b + 4) buf) sk1) = fst (body, sk2)"
        using bd by (simp only: option.case)
      then have "length bs \<le> clen" using that by (intro read_body_length) simp
      then show ?thesis using content_length_bound [OF Some] by simp
    qed
    then show ?thesis
      using r0 content_type_ok [OF z] by (auto simp: req request_ok_def split: option.split)
  qed
qed

definition demo_get :: socket where
  "demo_get = \<lparr>sk_rx = [Chunk (bytes ''GET /%41?b X'' @ crlf @ bytes ''T'' @ crlf @ crlf)],
     sk_tx = [], sk_out = []\<rparr>"

definition demo_req :: http_request where
  "demo_req = \<lparr>rq_method = HTTP_GET, rq_path = bytes ''/A'', rq_query = bytes ''b'', rq_body = None,
     rq_content_type = []\<rparr>"

definition demo_sock :: socket where
  "demo_sock = \<lparr>sk_rx = [], sk_tx = [], sk_out = []\<rparr>"

definition demo_buf :: "byte list" where
  "demo_buf = bytes ''GET /%41?b X'' @ crlf @ bytes ''T'' @ crlf @ crlf"

lemma demo_recv: "recv_once demo_get 8191 = (Some demo_buf, demo_sock)"
  by (simp add: demo_get_def demo_buf_def demo_sock_def bytes_def)

lemma demo_buf_parts: "strstr (cstr demo_buf) crlf = Some 12"
    "strstr (drop 14 (cstr demo_buf)) (crlf @ crlf) = Some 1"
    "take 12 (cstr demo_buf) = bytes ''GET /%41?b X''"
  by code_simp+

lemma demo_headers: "header_value (drop 14 (cstr demo_buf)) (bytes ''Content-Length:'') (bytes ''content-length:'') = None"
    "header_value (drop 14 (cstr demo_buf)) (bytes ''Content-Type:'') (bytes ''content-type:'') = None"
  by code_simp+

lemma demo_fields: "content_length (drop 14 (cstr demo_buf)) = None"
    "parse_content_type (drop 14 (cstr demo_buf)) = []"
  by (simp_all only: content_length_def parse_content_type_def demo_headers option.map option.case)

lemma demo_line: "parse_request_line (bytes ''GET /%41?b X'') = Some demo_req"
proof -
  have "strtok_space (bytes ''GET /%41?b X'') = Some (bytes ''GET'', bytes ''/%41?b X'')"
    "strtok_space (bytes ''/%41?b X'') = Some (bytes ''/%41?b'', bytes ''X'')"
    "takeWhile (\<lambda>c. c \<noteq> ch CHR ''?'') (bytes ''/%41?b'') = bytes ''/%41''"
    "drop (length (bytes ''/%41'') + 1) (bytes ''/%41?b'') = bytes ''b''"
    "http_url_decode (bytes ''/%41'') = bytes ''/A''"
    "parse_method (bytes ''GET'') = HTTP_GET" "ch CHR ''?'' \<in> set (bytes ''/%41?b'')"
    by code_simp+
  moreover have "strncpy0 1024 (bytes ''/%41'') = bytes ''/%41''"
    "strncpy0 2048 (bytes ''b'') = bytes ''b''"
    by (simp_all add: strncpy0_def bytes_def cstr_def)
  ultimately show ?thesis
    by (simp only: parse_request_line_def demo_req_def option.case prod.case Let_def if_True)
qed

lemma demo_get_parse: "parse_http_request (\<lambda>_. True) demo_get = (Some demo_req, demo_sock)"
proof -
  have n: "(12 :: nat) + 2 = 14" by simp
  show ?thesis
    by (simp only: n parse_http_request_def demo_recv prod.case option.case demo_buf_parts demo_fields demo_line Let_def)
      (simp add: demo_req_def)
qed

theorem request_well_typed_witness: "request_ok demo_req"
  by (rule request_well_typed [OF demo_get_parse])

section \<open>Answers\<close>

text \<open>The bytes of a response on the wire.\<close>

definition response_bytes :: "http_response \<Rightarrow> byte list" where
  "response_bytes r = response_header r @
     (case rs_body r of None \<Rightarrow> [] | Some b \<Rightarrow> take (rs_body_len r) b)"

lemma recv_once_out: "recv_once sk n = (r, sk') \<Longrightarrow> sk_out sk' = sk_out sk \<and> sk_tx sk' = sk_tx sk"
  by (auto split: list.splits rx.splits)

lemma read_body_out: "read_body mem n avail sk = (r, sk') \<Longrightarrow> sk_out sk' = sk_out sk \<and> sk_tx sk' = sk_tx sk"
  by (auto simp: read_body_def Let_def split: if_splits prod.splits)

lemma parse_out:
  assumes "parse_http_request mem sk = (r, sk')"
  shows "sk_out sk' = sk_out sk \<and> sk_tx sk' = sk_tx sk"
proof -
  obtain b sk1 where s: "recv_once sk 8191 = (b, sk1)" by (rule prod.exhaust)
  have "sk_out sk' = sk_out sk1 \<and> sk_tx sk' = sk_tx sk1"
    using assms unfolding parse_http_request_def s prod.case
    by (auto simp: Let_def dest: read_body_out split: option.splits prod.splits simp del: recv_once.simps)
  then show ?thesis using recv_once_out [OF s] by simp
qed

lemma send_prefix:
  assumes "net_send_all sk data = (r, sk')"
  shows "\<exists>k. sk_out sk' = sk_out sk @ take k data \<and> (r = 0 \<longrightarrow> sk_out sk' = sk_out sk @ data) \<and>
    (r = 0 \<or> r = - 1) \<and> (sk_tx sk = [] \<longrightarrow> r = 0 \<and> sk_tx sk' = [])"
proof -
  obtain ok tx out where l: "send_loop (sk_tx sk) data (sk_out sk) = (ok, tx, out)" by (metis prod.exhaust)
  from send_loop_out [OF l] obtain k where "out = sk_out sk @ take k data" "ok \<longrightarrow> out = sk_out sk @ data"
    by blast
  then show ?thesis using l assms by (intro exI [of _ k]) (cases ok; auto simp: net_send_all_def)
qed

lemma response_sent:
  assumes "length (response_header r) < 1024"
  shows "\<exists>k. sk_out (http_server_send_response sk r) = sk_out sk @ take k (response_bytes r) \<and>
    (sk_tx sk = [] \<longrightarrow> sk_out (http_server_send_response sk r) = sk_out sk @ response_bytes r)"
proof -
  obtain c sk1 where s1: "net_send_all sk (response_header r) = (c, sk1)" by (rule prod.exhaust)
  from send_prefix [OF s1] obtain k where k: "sk_out sk1 = sk_out sk @ take k (response_header r)"
    "c = 0 \<longrightarrow> sk_out sk1 = sk_out sk @ response_header r" "c = 0 \<or> c = - 1"
    "sk_tx sk = [] \<longrightarrow> c = 0 \<and> sk_tx sk1 = []" by blast
  consider "c < 0" | "c = 0" "rs_body r = None \<or> rs_body_len r = 0"
    | b where "c = 0" "rs_body r = Some b" "0 < rs_body_len r"
    using k(3) by (cases "rs_body r") auto
  then show ?thesis
  proof cases
    case 1
    then have "http_server_send_response sk r = sk1" using s1 assms by (simp add: http_server_send_response_def)
    moreover have "take (min k (length (response_header r))) (response_bytes r) = take k (response_header r)"
      by (simp add: response_bytes_def min_def)
    ultimately show ?thesis using 1 k(1,4) by (metis less_irrefl)
  next
    case 2
    then have "http_server_send_response sk r = sk1" "response_bytes r = response_header r"
      using s1 assms by (auto simp: http_server_send_response_def response_bytes_def split: option.split)
    then show ?thesis using 2(1) k(2) by (intro exI [of _ "length (response_header r)"]) simp
  next
    case (3 b)
    obtain d sk2 where s2: "net_send_all sk1 (take (rs_body_len r) b) = (d, sk2)" by (rule prod.exhaust)
    from send_prefix [OF s2] obtain j where j: "sk_out sk2 = sk_out sk1 @ take j (take (rs_body_len r) b)"
      "d = 0 \<longrightarrow> sk_out sk2 = sk_out sk1 @ take (rs_body_len r) b" "sk_tx sk1 = [] \<longrightarrow> d = 0" by blast
    have "http_server_send_response sk r = sk2"
      using s1 s2 3 assms by (simp add: http_server_send_response_def)
    moreover have "response_bytes r = response_header r @ take (rs_body_len r) b"
      using 3(2) by (simp add: response_bytes_def)
    ultimately show ?thesis using 3(1) j k(2,4)
      by (intro exI [of _ "length (response_header r) + j"]) simp
  qed
qed

lemma find_handler_first:
  "\<forall>e \<in> set pre. \<not> starts_with path (fst e) \<Longrightarrow> starts_with path p \<Longrightarrow>
   find_handler (pre @ (p, h) # post) path = Some h"
  by (induction pre) auto

text \<open>
  A parsed request is answered by the first registered handler whose path is a prefix of the
  request's path.  The client receives a prefix of the header and the body of its response, in this
  order, and all of it where the kernel takes every send.
\<close>

theorem first_handler_answers:
  assumes "parse_http_request mem sk = (Some req, sk1)"
    and "sv_handlers sv = pre @ (p, h) # post" "starts_with (rq_path req) p"
    and "\<forall>e \<in> set pre. \<not> starts_with (rq_path req) (fst e)"
    and "h req = Some r" "length (response_header r) < 1024"
  shows "\<exists>k. sk_out (serve_client mem sv sk) = sk_out sk @ take k (response_bytes r) \<and>
    (sk_tx sk = [] \<longrightarrow> sk_out (serve_client mem sv sk) = sk_out sk @ response_bytes r)"
proof -
  have "dispatch mem sv req = Some r"
    using find_handler_first [OF assms(4,3)] assms(2,5) by (simp add: dispatch_def)
  then have "serve_client mem sv sk = http_server_send_response sk1 r"
    using assms(1) by (simp add: serve_client_def)
  then show ?thesis using response_sent [OF assms(6), of sk1] parse_out [OF assms(1)] by simp
qed

lemma demo_dec: "length (dec 200) = 3" "length (dec (Suc 0)) = 1" "length (dec 100) = 3"
  by code_simp+

definition demo_server :: server where
  "demo_server = \<lparr>sv_fd = 3, sv_handlers = [(bytes ''/b'', \<lambda>_. None),
     (bytes ''/'', \<lambda>_. Some \<lparr>rs_status = 200, rs_content_type = None, rs_body = Some [104], rs_body_len = 1\<rparr>)],
     sv_clients = [4, 5]\<rparr>"

theorem first_handler_answers_witness:
  "sk_out (serve_client (\<lambda>_. True) demo_server demo_get) =
     response_bytes (\<lparr>rs_status = 200, rs_content_type = None, rs_body = Some [104], rs_body_len = 1\<rparr>)"
proof -
  let ?r = "\<lparr>rs_status = 200, rs_content_type = None, rs_body = Some [104 :: byte], rs_body_len = 1\<rparr>"
  have h: "sv_handlers demo_server = [(bytes ''/b'', \<lambda>_. None)] @ (bytes ''/'', \<lambda>_. Some ?r) # []"
    "starts_with (rq_path demo_req) (bytes ''/'')"
    "\<forall>e \<in> set [(bytes ''/b'', \<lambda>_ :: http_request. None :: http_response option)]. \<not> starts_with (rq_path demo_req) (fst e)"
    by (simp_all add: demo_server_def demo_req_def starts_with_def bytes_def)
  have "length (response_header ?r) < 1024"
    by (simp add: response_header_def status_text_def bytes_def demo_dec)
  moreover have "sk_tx demo_get = []" "sk_out demo_get = []" by (simp_all add: demo_get_def)
  ultimately show ?thesis
    using first_handler_answers [OF demo_get_parse h refl] by (metis append_Nil)
qed

text \<open>
  A round of the poll loop neither leaks nor forgets a descriptor: the clients kept and the
  descriptors closed are together the clients before and the accepted one, and the table stays
  within its bounds.
\<close>

definition server_ok :: "server \<Rightarrow> bool" where
  "server_ok sv \<longleftrightarrow> length (sv_clients sv) \<le> MAX_CLIENTS \<and> (\<forall>c \<in> set (sv_clients sv). 0 \<le> c) \<and>
     length (sv_handlers sv) \<le> MAX_HANDLERS"

lemma mset_split_filter:
  "\<forall>c \<in> set cs. 0 \<le> c \<Longrightarrow>
   mset (filter (\<lambda>c. 0 \<le> c \<and> c \<notin> R) cs) + mset (filter (\<lambda>c. 0 \<le> c \<and> c \<in> R) cs) = mset (cs :: int list)"
  by (induction cs) auto

theorem poll_conserves_descriptors:
  assumes "server_ok sv"
    and "http_server_poll mem selected intr readable client socks sv = (r, sv', socks', closed)"
  shows "server_ok sv' \<and> sv_handlers sv' = sv_handlers sv \<and>
    mset (sv_clients sv') + mset closed = mset (sv_clients sv) +
      (if 0 \<le> sv_fd sv \<and> 0 < selected \<and> sv_fd sv \<in> readable \<and> 0 \<le> client then {#client#} else {#})"
proof -
  have len: "length (filter P cs) \<le> n" if "length cs \<le> n" for P and cs :: "int list" and n
    using that length_filter_le le_trans by blast
  have len': "Suc (length (filter P cs)) \<le> n" if "length cs < n" for P and cs :: "int list" and n
    using that length_filter_le [of P cs] by linarith
  show ?thesis
    using assms mset_split_filter [of "sv_clients sv" readable] len len'
    by (auto simp: http_server_poll_def server_ok_def Let_def split: if_splits)
qed

theorem poll_conserves_descriptors_witness:
  "(case http_server_poll (\<lambda>_. True) 1 False {3, 4} 7 (\<lambda>_. demo_sock) demo_server of
      (r, sv', socks', closed) \<Rightarrow> mset (sv_clients sv') + mset closed = {#4, 5, 7#})"
proof -
  obtain r sv' socks' closed where p: "http_server_poll (\<lambda>_. True) 1 False {3, 4} 7 (\<lambda>_. demo_sock) demo_server
      = (r, sv', socks', closed)" by (metis prod.exhaust)
  have "server_ok demo_server"
    by (simp add: server_ok_def demo_server_def MAX_CLIENTS_def MAX_HANDLERS_def)
  from poll_conserves_descriptors [OF this p] show ?thesis
    unfolding p by (simp add: demo_server_def add_mset_commute)
qed

text \<open>
  Where the copy of a body cannot be allocated, the response still announces its length: the
  client is told of \<open>length body\<close> bytes and receives none.
\<close>

theorem lost_body_still_announced:
  assumes "mem sizeof_response" "\<not> mem (length body + 1)" "sk_tx sk = []"
    and "http_response_new mem status ct body = Some r" "length (response_header r) < 1024"
  shows "rs_body_len r = length body \<and> sk_out (http_server_send_response sk r) = sk_out sk @ response_header r"
  using assms response_sent [OF assms(5), of sk]
  by (auto simp: http_response_new_def response_bytes_def Let_def)

theorem lost_body_still_announced_witness:
  "sk_out (http_server_send_response demo_sock
       \<lparr>rs_status = 200, rs_content_type = Some (bytes ''text/plain''), rs_body = None, rs_body_len = 100\<rparr>)
     = response_header \<lparr>rs_status = 200, rs_content_type = Some (bytes ''text/plain''), rs_body = None, rs_body_len = 100\<rparr>"
proof -
  let ?mem = "\<lambda>n. n < 50"
  let ?r = "\<lparr>rs_status = 200, rs_content_type = Some (bytes ''text/plain''), rs_body = None, rs_body_len = 100\<rparr>"
  have n: "http_response_new ?mem 200 None (replicate 100 7) = Some ?r"
    by (simp add: http_response_new_def sizeof_response_def bytes_def)
  have l: "length (response_header ?r) < 1024"
    by (simp add: response_header_def status_text_def bytes_def demo_dec)
  have "?mem sizeof_response" "\<not> ?mem (length (replicate 100 (7 :: byte)) + 1)" "sk_tx demo_sock = []"
    by (simp_all add: sizeof_response_def demo_sock_def)
  from lost_body_still_announced [OF this n l] show ?thesis by (simp add: demo_sock_def)
qed

end
