(* ===== verification/Tracker.thy ===== *)
theory Tracker
  imports HttpServer Torrent
begin

text \<open>
  \<open>src/tracker.c\<close> and \<open>src/tracker_udp.c\<close>: announces to HTTP and UDP trackers, and the peer id.

  A peer address keeps the numbers that its bytes denote in network order, so that \<open>ntohs\<close> and
  \<open>htons\<close> are the identity here.  The network is a parameter: what a host name resolves to, the
  answers of the kernel to a connection attempt, and the socket that it gives.  The log is not
  modelled.
\<close>

section \<open>Data\<close>

definition MAX_TRACKER_PEERS :: nat where "MAX_TRACKER_PEERS = 200"
definition HTTP_BUF_SIZE :: nat where "HTTP_BUF_SIZE = 8192"

record peer_addr =
  pa_ip :: u32
  pa_port :: u16

record tracker_response =
  tr_peers :: "peer_addr list option"
  tr_num_peers :: int
  tr_interval :: int
  tr_complete :: int
  tr_incomplete :: int
  tr_failure_reason :: "byte list option"

record tracker_params =
  tp_info_hash :: "byte list"
  tp_peer_id :: "byte list"
  tp_port :: u16
  tp_uploaded :: i64
  tp_downloaded :: i64
  tp_left :: i64
  tp_compact :: bool

definition tr_zero :: tracker_response where
  "tr_zero = \<lparr>tr_peers = None, tr_num_peers = 0, tr_interval = 0, tr_complete = 0, tr_incomplete = 0,
     tr_failure_reason = None\<rparr>"

definition sizeof_tracker_response :: nat where "sizeof_tracker_response = 32"
definition sizeof_peer_addr :: nat where "sizeof_peer_addr = 8"

section \<open>The HTTP response\<close>

text \<open>The digits are read as \<open>char\<close>s, which are signed.\<close>

definition status_digits :: "byte list \<Rightarrow> int" where
  "status_digits p = (sint (p ! 0) - 48) * 100 + (sint (p ! 1) - 48) * 10 + (sint (p ! 2) - 48)"

definition parse_http_response :: "byte list \<Rightarrow> (int \<times> byte list) option" where
  "parse_http_response resp =
     (let p = dropWhile (\<lambda>c. c \<noteq> 32) resp
      in if p = [] then None
         else let p = tl p
         in if length p < 3 then None
            else case find_bytes p (crlf @ crlf) of
              None \<Rightarrow> None
            | Some s \<Rightarrow> Some (status_digits p, drop (s + 4) p))"

text \<open>Six bytes per peer; \<open>num\<close> of them.\<close>

definition of_be16 :: "byte list \<Rightarrow> u16" where
  "of_be16 p = push_bit 8 (ucast (p ! 0)) OR ucast (p ! 1)"

definition be16 :: "u16 \<Rightarrow> byte list" where
  "be16 v = [ucast (drop_bit 8 v), ucast v]"

definition compact_peer :: "byte list \<Rightarrow> nat \<Rightarrow> peer_addr" where
  "compact_peer s i = \<lparr>pa_ip = of_be32 (take 4 (drop (i * 6) s)), pa_port = of_be16 (take 2 (drop (i * 6 + 4) s))\<rparr>"

definition compact_peers :: "nat \<Rightarrow> byte list \<Rightarrow> peer_addr list" where
  "compact_peers num s = map (compact_peer s) [0..<num]"

definition failure_text :: "allocator \<Rightarrow> bcode_node \<Rightarrow> byte list option" where
  "failure_text mem root =
     (case bcode_dict_get (Some root) (bytes ''failure reason'') of
        Some (BCODE_STR s) \<Rightarrow> if mem (length s + 1) then Some s else None
      | _ \<Rightarrow> None)"

definition int_of_node :: "bcode_node \<Rightarrow> int" where
  "int_of_node n = sint (ucast (bcode_int_val (Some n)) :: u32)"

definition parse_peers :: "allocator \<Rightarrow> bcode_node \<Rightarrow> tracker_response \<Rightarrow> tracker_response" where
  "parse_peers mem root tr =
     (case bcode_dict_get (Some root) (bytes ''peers'') of
        Some (BCODE_STR s) \<Rightarrow>
          let num = length s div 6;
              num = (if MAX_TRACKER_PEERS < num then MAX_TRACKER_PEERS else num)
          in if mem (num * sizeof_peer_addr)
             then tr\<lparr>tr_peers := Some (compact_peers num s), tr_num_peers := int num\<rparr>
             else tr
      | _ \<Rightarrow> tr)"

text \<open>The response made of a received HTTP message: \<open>None\<close> is \<open>NULL\<close>.\<close>

definition decode_response :: "allocator \<Rightarrow> byte list \<Rightarrow> tracker_response option" where
  "decode_response mem resp =
     (case parse_http_response resp of
        None \<Rightarrow> None
      | Some (status, body) \<Rightarrow>
        if \<not> mem sizeof_tracker_response then None
        else if status \<noteq> 200
        then let fr = (case bcode_parse mem body of None \<Rightarrow> None | Some root \<Rightarrow> failure_text mem root)
             in Some (tr_zero\<lparr>tr_failure_reason :=
                  (if fr = None then dup_str mem (bytes ''Unknown tracker error'') else fr)\<rparr>)
        else (case bcode_parse mem body of
           None \<Rightarrow> Some (tr_zero\<lparr>tr_failure_reason := dup_str mem (bytes ''Failed to parse tracker response'')\<rparr>)
         | Some root \<Rightarrow>
           (case bcode_dict_get (Some root) (bytes ''failure reason'') of
              Some (BCODE_STR s) \<Rightarrow> Some (tr_zero\<lparr>tr_failure_reason := dup_str mem s\<rparr>)
            | _ \<Rightarrow>
              let get = (\<lambda>k. map_option int_of_node (bcode_dict_get (Some root) k));
                  interval = (case get (bytes ''interval'') of None \<Rightarrow> 0 | Some i \<Rightarrow> i);
                  tr = tr_zero\<lparr>tr_interval := (if interval < 60 then 60 else interval),
                    tr_complete := (case get (bytes ''complete'') of None \<Rightarrow> 0 | Some i \<Rightarrow> i),
                    tr_incomplete := (case get (bytes ''incomplete'') of None \<Rightarrow> 0 | Some i \<Rightarrow> i)\<rparr>
              in Some (parse_peers mem root tr))))"

section \<open>The HTTP request\<close>

text \<open>Host, port and path of an announce URL.  The port is the decimal number behind the colon.\<close>

definition tracker_url :: "byte list \<Rightarrow> (byte list \<times> int \<times> byte list) option" where
  "tracker_url url =
     (if \<not> starts_with url (bytes ''http://'') then None
      else let u = drop 7 url;
               auth = takeWhile (\<lambda>c. c \<noteq> ch CHR ''/'') u;
               path = dropWhile (\<lambda>c. c \<noteq> ch CHR ''/'') u
           in if path = [] then None
              else let host = takeWhile (\<lambda>c. c \<noteq> ch CHR '':'') auth;
                       port = (if ch CHR '':'' \<in> set auth
                               then int (dec_val (takeWhile is_digit (drop (length host + 1) auth))) else 80)
                   in if 256 \<le> length host then None else Some (host, port, path))"

definition tracker_request :: "byte list \<Rightarrow> byte list \<Rightarrow> tracker_params \<Rightarrow> byte list" where
  "tracker_request host path params =
     bytes ''GET '' @ path @ [if ch CHR ''?'' \<in> set path then ch CHR ''&'' else ch CHR ''?''] @
     bytes ''info_hash='' @ net_url_encode (tp_info_hash params) @
     bytes ''&peer_id='' @ net_url_encode (tp_peer_id params) @
     bytes ''&port='' @ dec (unat (tp_port params)) @
     bytes ''&uploaded='' @ dec_int (sint (tp_uploaded params)) @
     bytes ''&downloaded='' @ dec_int (sint (tp_downloaded params)) @
     bytes ''&left='' @ dec_int (sint (tp_left params)) @
     bytes ''&compact='' @ (if tp_compact params then dec 1 else dec 0) @
     bytes ''&numwant='' @ dec MAX_TRACKER_PEERS @ bytes '' HTTP/1.0'' @ crlf @
     bytes ''Host: '' @ host @ crlf @
     bytes ''User-Agent: PS5Torrent/1.0'' @ crlf @
     bytes ''Connection: close'' @ crlf @ crlf"

text \<open>The receive loop: everything up to the end, an error, or a full buffer.\<close>

primrec recv_until :: "rx list \<Rightarrow> nat \<Rightarrow> byte list \<Rightarrow> byte list" where
  "recv_until [] cap acc = acc"
| "recv_until (a # as) cap acc =
     (if cap = 0 then acc
      else case a of
        RxIntr \<Rightarrow> recv_until as cap acc
      | RxFail \<Rightarrow> acc
      | Chunk bs \<Rightarrow> if bs = [] then acc
                    else if length bs \<le> cap then recv_until as (cap - length bs) (acc @ bs)
                    else acc @ take cap bs)"

text \<open>The network behind an announce.\<close>

record network =
  nw_pton :: "byte list \<Rightarrow> u32 option"
  nw_getaddrinfo :: "byte list \<Rightarrow> u32 list option"
  nw_connect :: "u32 \<Rightarrow> u16 \<Rightarrow> connect_os"
  nw_socket :: "int \<Rightarrow> socket"
  nw_timeout :: bool

definition nw_resolve :: "network \<Rightarrow> byte list \<Rightarrow> u32 option" where
  "nw_resolve nw host = net_resolve (nw_pton nw) (nw_getaddrinfo nw) host"

text \<open>
  An announce to an HTTP tracker, with the bytes that were sent on its socket and the descriptors
  that were closed.
\<close>

definition tracker_announce_http ::
  "allocator \<Rightarrow> network \<Rightarrow> byte list \<Rightarrow> tracker_params \<Rightarrow>
   tracker_response option \<times> byte list \<times> int list" where
  "tracker_announce_http mem nw url params =
     (case tracker_url url of
        None \<Rightarrow> (None, [], [])
      | Some (host, port, path) \<Rightarrow>
        let request = tracker_request host path params
        in if 4096 \<le> length request then (None, [], [])
           else case nw_resolve nw host of
             None \<Rightarrow> (None, [], [])
           | Some addr \<Rightarrow>
             (case net_tcp_connect (nw_connect nw addr (word_of_int port)) of
                (sock, closed) \<Rightarrow>
                  if sock < 0 then (None, [], closed)
                  else if \<not> nw_timeout nw then (None, [], closed @ net_close sock)
                  else case net_send_all (nw_socket nw sock) request of
                    (r, sk) \<Rightarrow>
                      if r < 0 then (None, sk_out sk, closed @ net_close sock)
                      else let resp = recv_until (sk_rx sk) (HTTP_BUF_SIZE * 4) []
                           in ((if resp = [] then None else decode_response mem resp),
                               sk_out sk, closed @ net_close sock)))"

section \<open>UDP\<close>

text \<open>What a wait for a datagram ends with.\<close>

datatype ux = Datagram "byte list" | UxIntr | UxTimeout | UxFail

datatype udp_answer = UdpGot "byte list" | UdpError | UdpAgain

text \<open>One attempt: datagrams of other transactions or actions are skipped until the deadline.\<close>

primrec udp_wait :: "ux list \<Rightarrow> byte list \<Rightarrow> nat \<Rightarrow> u32 \<Rightarrow> udp_answer \<times> ux list" where
  "udp_wait [] request cap action = (UdpAgain, [])"
| "udp_wait (e # es) request cap action =
     (case e of
        UxIntr \<Rightarrow> udp_wait es request cap action
      | UxTimeout \<Rightarrow> (UdpAgain, es)
      | UxFail \<Rightarrow> (UdpError, es)
      | Datagram d \<Rightarrow>
          let r = take cap d
          in if length r < 8 \<or> of_be32 (take 4 (drop 4 r)) \<noteq> of_be32 (take 4 (drop 12 request))
             then udp_wait es request cap action
             else if of_be32 (take 4 r) = 3 then (UdpError, es)
             else if of_be32 (take 4 r) \<noteq> action then udp_wait es request cap action
             else if length r < (if action = 0 then 16 else 20) then (UdpError, es)
             else (UdpGot r, es))"

text \<open>Two attempts; \<open>sends\<close> says which of the two sends succeed.\<close>

definition udp_exchange ::
  "bool \<times> bool \<Rightarrow> ux list \<Rightarrow> byte list \<Rightarrow> nat \<Rightarrow> u32 \<Rightarrow> byte list option \<times> ux list" where
  "udp_exchange sends es request cap action =
     (if \<not> fst sends then (None, es)
      else case udp_wait es request cap action of
        (UdpGot r, es) \<Rightarrow> (Some r, es)
      | (UdpError, es) \<Rightarrow> (None, es)
      | (UdpAgain, es) \<Rightarrow>
          if \<not> snd sends then (None, es)
          else case udp_wait es request cap action of
            (UdpGot r, es) \<Rightarrow> (Some r, es)
          | (_, es) \<Rightarrow> (None, es))"

definition udp_counter :: "byte list \<Rightarrow> int" where
  "udp_counter p = (let v = unat (of_be32 p) in if v > 0x7FFFFFFF then 0x7FFFFFFF else int v)"

definition udp_connect_request :: "u32 \<Rightarrow> byte list" where
  "udp_connect_request tid = be64 0x41727101980 @ be32 0 @ be32 tid"

definition udp_announce_request :: "byte list \<Rightarrow> u32 \<Rightarrow> u32 \<Rightarrow> tracker_params \<Rightarrow> byte list" where
  "udp_announce_request connection tid key params =
     connection @ be32 1 @ be32 tid @ tp_info_hash params @ tp_peer_id params @
     be64 (tp_downloaded params) @ be64 (tp_left params) @ be64 (tp_uploaded params) @
     be32 0 @ be32 0 @ be32 key @ be32 (of_nat MAX_TRACKER_PEERS) @ be16 (tp_port params)"

definition udp_decode :: "allocator \<Rightarrow> byte list \<Rightarrow> tracker_response option" where
  "udp_decode mem r =
     (if length r < 20 \<or> \<not> mem sizeof_tracker_response then None
      else let interval = udp_counter (take 4 (drop 8 r));
               tr = tr_zero\<lparr>tr_interval := (if interval < 60 then 60 else interval),
                            tr_incomplete := udp_counter (take 4 (drop 12 r)),
                            tr_complete := udp_counter (take 4 (drop 16 r))\<rparr>;
               count = (length r - 20) div 6;
               count = (if MAX_TRACKER_PEERS < count then MAX_TRACKER_PEERS else count)
           in if count = 0 then Some tr
              else if \<not> mem (count * sizeof_peer_addr) then None
              else Some (tr\<lparr>tr_peers := Some (compact_peers count (drop 20 r)), tr_num_peers := int count\<rparr>))"

text \<open>
  Host and port of a UDP URL.  \<open>strtol\<close> skips white space and a plus sign; the number must end at a
  slash or the end.  A minus sign gives no port above 0.
\<close>

definition udp_port :: "byte list \<Rightarrow> u16 option" where
  "udp_port s =
     (let t = dropWhile is_space s;
          t = (if t \<noteq> [] \<and> hd t = ch CHR ''+'' then tl t else t);
          digits = takeWhile is_digit t;
          after = drop (length digits) t
      in if digits = [] \<or> (after \<noteq> [] \<and> hd after \<noteq> ch CHR ''/'') \<or>
            dec_val digits < 1 \<or> 65535 < dec_val digits then None
         else Some (of_nat (dec_val digits)))"

definition udp_url :: "byte list \<Rightarrow> (byte list \<times> u16) option" where
  "udp_url url =
     (if \<not> starts_with url (bytes ''udp://'') then None
      else let u = drop 6 url;
               host = takeWhile (\<lambda>c. c \<noteq> ch CHR '':'') u
           in if ch CHR '':'' \<notin> set u \<or> host = [] \<or> 256 \<le> length host then None
              else map_option (\<lambda>p. (host, p)) (udp_port (drop (length host + 1) u)))"

text \<open>
  An announce to a UDP tracker.  \<open>sock\<close> is the descriptor, \<open>connect_ok\<close> the answer of \<open>connect\<close>,
  \<open>rnd\<close> the three random numbers, \<open>sends\<close> the answers to the sends of both exchanges and \<open>es\<close> what
  arrives.  The result has the two requests that may have been sent and the descriptors closed.
\<close>

record udp_env =
  ud_sock :: int
  ud_connect :: bool
  ud_rnd :: "u32 \<times> u32 \<times> u32"
  ud_sends :: "(bool \<times> bool) \<times> (bool \<times> bool)"
  ud_events :: "ux list"

definition FD_SETSIZE :: int where "FD_SETSIZE = 1024"

definition tracker_announce_udp ::
  "allocator \<Rightarrow> (byte list \<Rightarrow> u32 option) \<Rightarrow> udp_env \<Rightarrow> byte list \<Rightarrow> tracker_params \<Rightarrow>
   tracker_response option \<times> int list" where
  "tracker_announce_udp mem resolve env url params =
     (case udp_url url of
        None \<Rightarrow> (None, [])
      | Some (host, port) \<Rightarrow>
        (case resolve host of
           None \<Rightarrow> (None, [])
         | Some ip \<Rightarrow>
           if ud_sock env < 0 then (None, [])
           else if FD_SETSIZE \<le> ud_sock env \<or> \<not> ud_connect env then (None, net_close (ud_sock env))
           else let (r1, r2, r3) = ud_rnd env
           in case udp_exchange (fst (ud_sends env)) (ud_events env) (udp_connect_request r1) 65536 0 of
                (None, es) \<Rightarrow> (None, net_close (ud_sock env))
              | (Some resp, es) \<Rightarrow>
                (case udp_exchange (snd (ud_sends env)) es
                        (udp_announce_request (take 8 (drop 8 resp)) r2 r3 params) 65536 1 of
                   (None, es) \<Rightarrow> (None, net_close (ud_sock env))
                 | (Some resp, es) \<Rightarrow> (udp_decode mem resp, net_close (ud_sock env)))))"

text \<open>\<open>tracker_announce\<close> chooses by the scheme of the URL.\<close>

definition tracker_announce ::
  "allocator \<Rightarrow> network \<Rightarrow> udp_env \<Rightarrow> byte list \<Rightarrow> tracker_params \<Rightarrow> tracker_response option" where
  "tracker_announce mem nw env url params =
     (if starts_with url (bytes ''udp://'')
      then fst (tracker_announce_udp mem (nw_resolve nw) env url params)
      else fst (tracker_announce_http mem nw url params))"

section \<open>The peer id\<close>

text \<open>The generator is static: it goes on from the seed of the last call.\<close>

primrec id_digits :: "nat \<Rightarrow> u32 \<Rightarrow> byte list \<times> u32" where
  "id_digits 0 seed = ([], seed)"
| "id_digits (Suc n) seed =
     (let seed = seed * 1103515245 + 12345;
          (ds, seed') = id_digits n seed
      in (hex_lower ! unat (drop_bit 16 seed AND 15) # ds, seed'))"

definition tracker_generate_peer_id :: "u32 \<Rightarrow> byte list \<times> u32" where
  "tracker_generate_peer_id seed =
     (case id_digits 14 seed of (ds, seed') \<Rightarrow> (bytes ''-PS5T-'' @ ds, seed'))"

definition first_seed :: u32 where "first_seed = 0x12345678"

section \<open>Peers in responses\<close>

text \<open>The compact form of a list of addresses.\<close>

definition compact :: "peer_addr list \<Rightarrow> byte list" where
  "compact ps = concat (map (\<lambda>p. be32 (pa_ip p) @ be16 (pa_port p)) ps)"

lemma length_be16 [simp]: "length (be16 v) = 2"
  by (simp add: be16_def)

lemma of_be16_be16 [simp, codec]: "of_be16 (be16 v) = v"
proof (rule bit_word_eqI)
  fix n assume n: "n < LENGTH(16)"
  consider "n < 8" | "8 \<le> n" by linarith
  then show "bit (of_be16 (be16 v)) n = bit v n"
    using n unfolding of_be16_def be16_def by cases (auto simp: bit_simps)
qed

lemma length_compact: "length (compact ps) = 6 * length ps"
  by (induction ps) (simp_all add: compact_def)

lemma compact_peer_Cons:
  "compact_peer (compact (p # ps) @ r) 0 = p"
  "compact_peer (compact (p # ps) @ r) (Suc i) = compact_peer (compact ps @ r) i"
  by (simp_all add: compact_peer_def compact_def add.commute)

lemma compact_peer_nth: "i < length ps \<Longrightarrow> compact_peer (compact ps @ r) i = ps ! i"
proof (induction ps arbitrary: i)
  case (Cons p ps)
  then show ?case by (cases i) (simp_all add: compact_peer_Cons)
qed simp

lemma compact_peers_take: "n \<le> length ps \<Longrightarrow> compact_peers n (compact ps @ r) = take n ps"
  by (rule nth_equalityI) (simp_all add: compact_peers_def compact_peer_nth)

text \<open>
  C22.  What an HTTP tracker answers is what the client sees: a response with status 200 whose body is
  a bencoded value without a failure reason, and with the compact form of a list of addresses under
  \<open>peers\<close>, is decoded into exactly these addresses, the first 200 of them, in their order.
\<close>

theorem tracker_peers_roundtrip:
  assumes "parse_http_response resp = Some (200, benc v)"
    and "bcode_dict_get (Some v) (bytes ''failure reason'') = None"
    and "bcode_dict_get (Some v) (bytes ''peers'') = Some (BCODE_STR (compact ps))"
    and "mem_for mem (benc v)" "length (benc v) < 2 ^ 63" "mem sizeof_tracker_response"
    and "mem (min MAX_TRACKER_PEERS (length ps) * sizeof_peer_addr)"
  shows "\<exists>tr. decode_response mem resp = Some tr \<and> tr_failure_reason tr = None \<and> 60 \<le> tr_interval tr \<and>
    tr_peers tr = Some (take MAX_TRACKER_PEERS ps) \<and> tr_num_peers tr = int (min MAX_TRACKER_PEERS (length ps))"
proof -
  have v: "bcode_parse mem (benc v) = Some v"
    using bcode_parse_benc [OF assms(4,5), of v "[]"] by simp
  have n: "length (compact ps) div 6 = length ps" by (simp add: length_compact)
  have m: "(if MAX_TRACKER_PEERS < length ps then MAX_TRACKER_PEERS else length ps) = min MAX_TRACKER_PEERS (length ps)"
    by simp
  have t: "take (min MAX_TRACKER_PEERS (length ps)) ps = take MAX_TRACKER_PEERS ps" by (simp add: min_def)
  have "parse_peers mem v tr = tr\<lparr>tr_peers := Some (take MAX_TRACKER_PEERS ps),
      tr_num_peers := int (min MAX_TRACKER_PEERS (length ps))\<rparr>" for tr
    using assms(7) compact_peers_take [of "min MAX_TRACKER_PEERS (length ps)" ps "[]"]
    unfolding parse_peers_def assms(3) by (simp add: n m t Let_def)
  then show ?thesis
    using assms(1,2,6) v by (simp add: decode_response_def Let_def tr_zero_def)
qed

definition demo_reply :: bcode_node where
  "demo_reply = BCODE_DICT [(bytes ''interval'', BCODE_INT 1800),
     (bytes ''peers'', BCODE_STR (compact [\<lparr>pa_ip = 0x7F000001, pa_port = 6881\<rparr>, \<lparr>pa_ip = 7, pa_port = 1\<rparr>]))]"

theorem tracker_peers_roundtrip_witness:
  "\<exists>tr. decode_response (\<lambda>n. n < 1000) (bytes ''HTTP/1.0 200 OK'' @ crlf @ crlf @ benc demo_reply) = Some tr \<and>
     tr_peers tr = Some [\<lparr>pa_ip = 0x7F000001, pa_port = 6881\<rparr>, \<lparr>pa_ip = 7, pa_port = 1\<rparr>]"
proof -
  have l: "length (benc demo_reply) = 40" by code_simp
  have p: "parse_http_response (bytes ''HTTP/1.0 200 OK'' @ crlf @ crlf @ benc demo_reply) = Some (200, benc demo_reply)"
    by code_simp
  have d: "bcode_dict_get (Some demo_reply) (bytes ''failure reason'') = None"
    "bcode_dict_get (Some demo_reply) (bytes ''peers'') =
       Some (BCODE_STR (compact [\<lparr>pa_ip = 0x7F000001, pa_port = 6881\<rparr>, \<lparr>pa_ip = 7, pa_port = 1\<rparr>]))"
    by code_simp+
  show ?thesis
    using tracker_peers_roundtrip [OF p d, of "\<lambda>n. n < 1000"] l
    by (auto simp: mem_for_def sizeof_tracker_response_def sizeof_peer_addr_def MAX_TRACKER_PEERS_def)
qed

section \<open>UDP transactions\<close>

text \<open>A datagram that answers the transaction of a request with the action asked for.\<close>

definition answers :: "u32 \<Rightarrow> u32 \<Rightarrow> byte list \<Rightarrow> bool" where
  "answers tid action d \<longleftrightarrow> 8 \<le> length d \<and> of_be32 (take 4 (drop 4 d)) = tid \<and> of_be32 (take 4 d) = action"

lemma udp_wait_got:
  assumes "udp_wait es req cap action = (UdpGot r, es')"
  shows "\<exists>pre d. es = pre @ Datagram d # es' \<and> r = take cap d \<and>
    answers (of_be32 (take 4 (drop 12 req))) action r \<and> (if action = 0 then 16 else 20) \<le> length r"
  using assms
proof (induction es)
  case (Cons e es)
  show ?case
  proof (cases "udp_wait es req cap action = (UdpGot r, es')")
    case True
    then obtain pre d where "es = pre @ Datagram d # es' \<and> r = take cap d \<and>
      answers (of_be32 (take 4 (drop 12 req))) action r \<and> (if action = 0 then 16 else 20) \<le> length r"
      using Cons.IH by blast
    then show ?thesis by (intro exI [of _ "e # pre"] exI [of _ d]) auto
  next
    case False
    then obtain d where "e = Datagram d" "es = es'" "r = take cap d" "8 \<le> length r" "of_be32 (take 4 r) = action"
        "of_be32 (take 4 (drop 4 r)) = of_be32 (take 4 (drop 12 req))" "(if action = 0 then 16 else 20) \<le> length r"
      using Cons.prems by (auto simp: Let_def not_less split: ux.splits if_splits)
    then show ?thesis by (intro exI [of _ "[]"] exI [of _ d]) (simp add: answers_def)
  qed
qed simp

lemma udp_exchange_got:
  assumes "udp_exchange sends es req cap action = (Some r, es')"
  shows "\<exists>pre d. es = pre @ Datagram d # es' \<and> r = take cap d \<and>
    answers (of_be32 (take 4 (drop 12 req))) action r \<and> (if action = 0 then 16 else 20) \<le> length r"
proof -
  have suf: "\<exists>pre. es = pre @ snd (udp_wait es req cap action)" for es
  proof (induction es)
    case (Cons e es)
    then obtain pre where "es = pre @ snd (udp_wait es req cap action)" by blast
    moreover have "snd (udp_wait (e # es) req cap action) = es \<or>
        snd (udp_wait (e # es) req cap action) = snd (udp_wait es req cap action)"
      by (cases e) (simp_all add: Let_def)
    ultimately show ?case by (elim disjE) (metis append_Cons append_Nil)+
  qed simp
  from assms consider "udp_wait es req cap action = (UdpGot r, es')"
    | es1 where "udp_wait es req cap action = (UdpAgain, es1)" "udp_wait es1 req cap action = (UdpGot r, es')"
    by (auto simp: udp_exchange_def split: if_splits prod.splits udp_answer.splits)
  then show ?thesis
  proof cases
    case 2
    obtain pre where "es = pre @ es1" using suf [of es] 2(1) by auto
    moreover obtain q d where "es1 = q @ Datagram d # es'" "r = take cap d"
      "answers (of_be32 (take 4 (drop 12 req))) action r" "(if action = 0 then 16 else 20) \<le> length r"
      using udp_wait_got [OF 2(2)] by blast
    ultimately show ?thesis by (intro exI [of _ "pre @ q"] exI [of _ d]) simp
  qed (rule udp_wait_got)
qed

lemma request_tid:
  "of_be32 (take 4 (drop 12 (udp_connect_request tid))) = tid"
  "length conn = 8 \<Longrightarrow> of_be32 (take 4 (drop 12 (udp_announce_request conn tid key params))) = tid"
  by (simp_all add: udp_connect_request_def udp_announce_request_def be64_def)

text \<open>
  C23.  A UDP tracker is believed only on its own transactions: when an announce gives a response, it
  was decoded from a datagram that carries the number of the announce and the announce action, which
  came after one that carries the number of the connect request and the connect action, so that
  late, foreign and error datagrams are never used; and the socket is closed.
\<close>

theorem udp_answers_own_requests:
  assumes "tracker_announce_udp mem resolve env url params = (Some tr, closed)"
  shows "\<exists>pre d1 mid d2 post. ud_events env = pre @ Datagram d1 # mid @ Datagram d2 # post \<and>
    answers (fst (ud_rnd env)) 0 (take 65536 d1) \<and> answers (fst (snd (ud_rnd env))) 1 (take 65536 d2) \<and>
    udp_decode mem (take 65536 d2) = Some tr \<and> closed = [ud_sock env]"
proof -
  obtain r1 r2 r3 where rnd: "ud_rnd env = (r1, r2, r3)" by (metis prod.exhaust)
  obtain sock resp es resp2 es2 where r: "0 \<le> ud_sock env" "closed = net_close (ud_sock env)"
    "udp_exchange (fst (ud_sends env)) (ud_events env) (udp_connect_request r1) 65536 0 = (Some resp, es)"
    "udp_exchange (snd (ud_sends env)) es
       (udp_announce_request (take 8 (drop 8 resp)) r2 r3 params) 65536 1 = (Some resp2, es2)"
    "udp_decode mem resp2 = Some tr"
    using assms by (auto simp: tracker_announce_udp_def rnd split: option.splits if_splits prod.splits)
  obtain pre d1 where a: "ud_events env = pre @ Datagram d1 # es" "resp = take 65536 d1" "answers r1 0 resp" "16 \<le> length resp"
    using udp_exchange_got [OF r(3)] by (auto simp: request_tid)
  obtain mid d2 where b: "es = mid @ Datagram d2 # es2" "resp2 = take 65536 d2" "answers r2 1 resp2"
    using udp_exchange_got [OF r(4)] a(4) by (auto simp: request_tid)
  show ?thesis
    by (intro exI [of _ pre] exI [of _ d1] exI [of _ mid] exI [of _ d2] exI [of _ es2])
      (use a b r rnd in \<open>auto simp: net_close_def\<close>)
qed

definition demo_udp :: udp_env where
  "demo_udp = \<lparr>ud_sock = 5, ud_connect = True, ud_rnd = (11, 22, 33), ud_sends = ((True, True), (True, True)),
     ud_events = [Datagram (be32 0 @ be32 99 @ be64 0), Datagram (be32 0 @ be32 11 @ be64 77), UxIntr,
       Datagram (be32 1 @ be32 22 @ be32 1800 @ be32 3 @ be32 4 @ be32 7 @ be16 6881)]\<rparr>"

definition demo_params :: tracker_params where
  "demo_params = \<lparr>tp_info_hash = replicate 20 0, tp_peer_id = replicate 20 1, tp_port = 6881, tp_uploaded = 0,
     tp_downloaded = 0, tp_left = 9, tp_compact = True\<rparr>"

lemma demo_url: "udp_url (bytes ''udp://t:80/'') = Some (bytes ''t'', 80)"
  by (simp add: udp_url_def udp_port_def starts_with_def bytes_def is_space_def is_digit_def dec_val_def
      digit_val_def Let_def)

lemma demo_connect: "udp_exchange (True, True) (ud_events demo_udp) (udp_connect_request 11) 65536 0 =
    (Some (be32 0 @ be32 11 @ be64 77), drop 2 (ud_events demo_udp))"
  by (simp add: udp_exchange_def demo_udp_def request_tid be64_def Let_def)

lemma demo_announce:
  "udp_exchange (True, True) (drop 2 (ud_events demo_udp)) (udp_announce_request (be64 77) 22 33 demo_params) 65536 1 =
     (Some (be32 1 @ be32 22 @ be32 1800 @ be32 3 @ be32 4 @ be32 7 @ be16 6881), [])"
  by (simp add: udp_exchange_def demo_udp_def request_tid be64_def Let_def)

lemma demo_udp_decode:
  "udp_decode (\<lambda>_. True) (be32 1 @ be32 22 @ be32 1800 @ be32 3 @ be32 4 @ be32 7 @ be16 6881) =
     Some (tr_zero\<lparr>tr_interval := 1800, tr_incomplete := 3, tr_complete := 4,
       tr_peers := Some [\<lparr>pa_ip = 7, pa_port = 6881\<rparr>], tr_num_peers := 1\<rparr>)"
  by (simp add: udp_decode_def udp_counter_def Let_def MAX_TRACKER_PEERS_def compact_peers_def compact_peer_def)

lemma demo_udp_announce:
  "tracker_announce_udp (\<lambda>_. True) (\<lambda>_. Some 1) demo_udp (bytes ''udp://t:80/'') demo_params =
     (Some (tr_zero\<lparr>tr_interval := 1800, tr_incomplete := 3, tr_complete := 4,
       tr_peers := Some [\<lparr>pa_ip = 7, pa_port = 6881\<rparr>], tr_num_peers := 1\<rparr>), [5])"
proof -
  have u: "ud_sock demo_udp = 5" "ud_connect demo_udp" "ud_rnd demo_udp = (11, 22, 33)"
    "ud_sends demo_udp = ((True, True), (True, True))" by (simp_all add: demo_udp_def)
  have c: "take 8 (drop 8 (be32 0 @ be32 11 @ be64 77)) = be64 77" by (simp add: be64_def)
  show ?thesis
    by (simp only: tracker_announce_udp_def demo_url u option.case prod.case fst_conv snd_conv Let_def
        demo_connect c demo_announce demo_udp_decode)
      (simp add: FD_SETSIZE_def net_close_def)
qed

theorem udp_answers_own_requests_witness:
  "\<exists>d1 d2 pre mid post tr. ud_events demo_udp = pre @ Datagram d1 # mid @ Datagram d2 # post \<and>
     answers 11 0 (take 65536 d1) \<and> answers 22 1 (take 65536 d2) \<and>
     udp_decode (\<lambda>_. True) (take 65536 d2) = Some tr \<and> tr_peers tr = Some [\<lparr>pa_ip = 7, pa_port = 6881\<rparr>]"
  using udp_answers_own_requests [OF demo_udp_announce]
  by (simp add: demo_udp_def) fastforce

end
