(* ===== verification/WebSeed.thy ===== *)
theory WebSeed
  imports Tracker
begin

text \<open>
  \<open>src/web_seed.c\<close>: pieces over HTTP from the web seeds of a torrent (BEP 19).  The network behind a
  request is a parameter that depends on the URL and on the offset asked for.  The log is not
  modelled.
\<close>

section \<open>URLs\<close>

definition url_plain :: "byte \<Rightarrow> bool" where
  "url_plain c \<longleftrightarrow>
     (ch CHR ''A'' \<le> c \<and> c \<le> ch CHR ''Z'') \<or> (ch CHR ''a'' \<le> c \<and> c \<le> ch CHR ''z'') \<or>
     (ch CHR ''0'' \<le> c \<and> c \<le> ch CHR ''9'') \<or> c = ch CHR ''/'' \<or> c = ch CHR ''-'' \<or>
     c = ch CHR ''_'' \<or> c = ch CHR ''.'' \<or> c = ch CHR ''~''"

primrec append_escaped :: "nat \<Rightarrow> byte list \<Rightarrow> byte list \<Rightarrow> byte list option" where
  "append_escaped out_size out [] = Some out"
| "append_escaped out_size out (c # cs) =
     (if url_plain c
      then if out_size \<le> length out + 1 then None else append_escaped out_size (out @ [c]) cs
      else if out_size \<le> length out + 3 then None
      else append_escaped out_size (out @ [ch CHR ''%'', hex_hi hex_upper c, hex_lo hex_upper c]) cs)"

text \<open>\<open>append_url_path\<close> for a base that is not empty.\<close>

definition append_url_path :: "nat \<Rightarrow> byte list \<Rightarrow> byte list \<Rightarrow> byte list option" where
  "append_url_path out_size base path =
     (let out = (if last base = ch CHR ''/'' then base else base @ [ch CHR ''/''])
      in if out_size \<le> length out then None else append_escaped out_size out path)"

text \<open>\<open>parse_http_url\<close> with a buffer of 256 bytes for the host.\<close>

definition parse_http_url :: "byte list \<Rightarrow> (byte list \<times> int \<times> byte list) option" where
  "parse_http_url url =
     (if \<not> starts_with url (bytes ''http://'') then None
      else let u = drop 7 url;
               auth = takeWhile (\<lambda>c. c \<noteq> ch CHR ''/'') u;
               path = dropWhile (\<lambda>c. c \<noteq> ch CHR ''/'') u;
               host = takeWhile (\<lambda>c. c \<noteq> ch CHR '':'') auth;
               digits = drop (length host + 1) auth
           in if path = [] \<or> host = [] \<or> 256 \<le> length host then None
              else if ch CHR '':'' \<notin> set auth then Some (host, 80, path)
              else if \<not> list_all is_digit digits then None
              else let port = dec_val digits
                   in if port = 0 \<or> 65535 < port then None else Some (host, int port, path))"

section \<open>Range requests\<close>

definition range_request :: "byte list \<Rightarrow> byte list \<Rightarrow> u64 \<Rightarrow> nat \<Rightarrow> byte list" where
  "range_request host path start len =
     bytes ''GET '' @ path @ bytes '' HTTP/1.0'' @ crlf @
     bytes ''Host: '' @ host @ crlf @
     bytes ''User-Agent: PS5Torrent/2.0.4'' @ crlf @
     bytes ''Range: bytes='' @ dec (unat start) @ [ch CHR ''-''] @ dec (unat (start + of_nat len - 1)) @ crlf @
     bytes ''Connection: close'' @ crlf @ crlf"

text \<open>The header, byte by byte, until a blank line; \<open>None\<close> where the buffer fills or nothing comes.\<close>

primrec read_header :: "nat \<Rightarrow> socket \<Rightarrow> byte list \<Rightarrow> byte list option \<times> socket" where
  "read_header 0 sk h = (None, sk)"
| "read_header (Suc n) sk h =
     (case net_recv_some sk 1 of
        (Some (c # _), sk) \<Rightarrow>
          let h = h @ [c]
          in if 4 \<le> length h \<and> drop (length h - 4) h = crlf @ crlf
             then (if n = 0 then (None, sk) else (Some h, sk))
             else read_header n sk h
      | (_, sk) \<Rightarrow> (None, sk))"

text \<open>\<open>sscanf (header, "HTTP/%*s %d", &status)\<close>.\<close>

definition scan_int :: "byte list \<Rightarrow> int option" where
  "scan_int s =
     (let t = dropWhile is_space s;
          neg = (t \<noteq> [] \<and> hd t = ch CHR ''-'');
          t = (if t \<noteq> [] \<and> (hd t = ch CHR ''-'' \<or> hd t = ch CHR ''+'') then tl t else t);
          digits = takeWhile is_digit t
      in if digits = [] then None
         else Some (if neg then - int (dec_val digits) else int (dec_val digits)))"

definition http_status :: "byte list \<Rightarrow> int option" where
  "http_status header =
     (if \<not> starts_with header (bytes ''HTTP/'') then None
      else let t = dropWhile is_space (drop 5 header);
               word = takeWhile (\<lambda>c. \<not> is_space c) t
           in if word = [] then None else scan_int (drop (length word) t))"

text \<open>The bytes delivered, where there are exactly \<open>len\<close> of them; and the bytes sent.\<close>

definition http_fetch_range :: "network \<Rightarrow> byte list \<Rightarrow> u64 \<Rightarrow> nat \<Rightarrow> byte list option \<times> byte list \<times> int list" where
  "http_fetch_range nw url start len =
     (if len = 0 then (None, [], [])
      else case parse_http_url url of
        None \<Rightarrow> (None, [], [])
      | Some (host, port, path) \<Rightarrow>
        (case nw_resolve nw host of
           None \<Rightarrow> (None, [], [])
         | Some addr \<Rightarrow>
           (case net_tcp_connect (nw_connect nw addr (word_of_int port)) of
              (sock, closed) \<Rightarrow>
                if sock < 0 then (None, [], closed)
                else if \<not> nw_timeout nw then (None, [], closed @ net_close sock)
                else let request = range_request host path start len
                in if 1024 \<le> length request then (None, [], closed @ net_close sock)
                   else case net_send_all (nw_socket nw sock) request of
                     (r, sk) \<Rightarrow>
                       if r < 0 then (None, sk_out sk, closed @ net_close sock)
                       else case read_header 8192 sk [] of
                         (None, sk) \<Rightarrow> (None, sk_out sk, closed @ net_close sock)
                       | (Some header, sk) \<Rightarrow>
                         let status = http_status (cstr header);
                             data = recv_until (sk_rx sk) len []
                         in if status = Some 206 \<or> (status = Some 200 \<and> start = 0)
                            then ((if length data = len then Some data else None), sk_out sk,
                                  closed @ net_close sock)
                            else (None, sk_out sk, closed @ net_close sock))))"

section \<open>Pieces\<close>

type_synonym seed_net = "byte list \<Rightarrow> u64 \<Rightarrow> network"

definition fetch :: "seed_net \<Rightarrow> byte list \<Rightarrow> u64 \<Rightarrow> nat \<Rightarrow> byte list option" where
  "fetch net url start len = fst (http_fetch_range (net url start) url start len)"

definition single_url :: "torrent \<Rightarrow> byte list \<Rightarrow> byte list option" where
  "single_url t seed =
     (if last seed = ch CHR ''/''
      then append_url_path 2048 seed (cstr (the (if t_file_name t \<noteq> None then t_file_name t else t_name t)))
      else Some (take 2047 seed))"

definition fetch_single_file_piece :: "seed_net \<Rightarrow> torrent \<Rightarrow> byte list \<Rightarrow> nat \<Rightarrow> nat \<Rightarrow> byte list option" where
  "fetch_single_file_piece net t seed index len =
     (case single_url t seed of
        None \<Rightarrow> None
      | Some url \<Rightarrow> fetch net url (of_nat index * t_piece_length t) len)"

definition fetch_single_file_span :: "seed_net \<Rightarrow> torrent \<Rightarrow> byte list \<Rightarrow> nat \<Rightarrow> nat \<Rightarrow> byte list option" where
  "fetch_single_file_span net t seed first len =
     (case single_url t seed of
        None \<Rightarrow> None
      | Some url \<Rightarrow> fetch net url (of_nat first * t_piece_length t) len)"

definition file_url :: "torrent \<Rightarrow> byte list \<Rightarrow> torrent_file \<Rightarrow> byte list option" where
  "file_url t seed f =
     (let rel = cstr (the (t_name t)) @ ch CHR ''/'' # cstr (the (tf_path f))
      in if 1024 \<le> length rel then None else append_url_path 2048 seed rel)"

primrec fetch_parts ::
  "seed_net \<Rightarrow> torrent \<Rightarrow> byte list \<Rightarrow> torrent_file list \<Rightarrow> u64 \<Rightarrow> u64 \<Rightarrow> u64 \<Rightarrow> nat \<Rightarrow> byte list \<Rightarrow>
   byte list option" where
  "fetch_parts net t seed [] piece_start piece_end file_offset len acc =
     (if length acc = len then Some acc else None)"
| "fetch_parts net t seed (f # fs) piece_start piece_end file_offset len acc =
     (if len \<le> length acc then (if length acc = len then Some acc else None)
      else let file_start = file_offset;
               file_end = file_start + tf_length f
      in if piece_start < file_end \<and> file_start < piece_end
         then let from = (if file_start < piece_start then piece_start - file_start else 0);
                  upto = (if piece_end < file_end then piece_end - file_start else file_end - file_start)
              in case file_url t seed f of
                   None \<Rightarrow> None
                 | Some url \<Rightarrow>
                   (case fetch net url from (unat (upto - from)) of
                      None \<Rightarrow> None
                    | Some part \<Rightarrow>
                        fetch_parts net t seed fs piece_start piece_end file_end len (acc @ part))
         else fetch_parts net t seed fs piece_start piece_end file_end len acc)"

definition fetch_multi_file_piece :: "seed_net \<Rightarrow> torrent \<Rightarrow> byte list \<Rightarrow> nat \<Rightarrow> nat \<Rightarrow> byte list option" where
  "fetch_multi_file_piece net t seed index len =
     (let piece_start = of_nat index * t_piece_length t
      in fetch_parts net t seed (t_files t) piece_start (piece_start + of_nat len) 0 len [])"

definition usable_seed :: "byte list \<Rightarrow> bool" where
  "usable_seed seed \<longleftrightarrow> seed \<noteq> [] \<and> starts_with seed (bytes ''http://'')"

primrec fetch_piece_seeds :: "seed_net \<Rightarrow> torrent \<Rightarrow> byte list list \<Rightarrow> nat \<Rightarrow> nat \<Rightarrow> byte list option" where
  "fetch_piece_seeds net t [] index len = None"
| "fetch_piece_seeds net t (seed # seeds) index len =
     (let seed = cstr seed
      in if \<not> usable_seed seed then fetch_piece_seeds net t seeds index len
         else case (if t_is_multi_file t then fetch_multi_file_piece net t seed index len
                    else fetch_single_file_piece net t seed index len) of
           Some data \<Rightarrow> Some data
         | None \<Rightarrow> fetch_piece_seeds net t seeds index len)"

definition web_seed_fetch_piece :: "seed_net \<Rightarrow> torrent \<Rightarrow> nat \<Rightarrow> nat \<Rightarrow> byte list option" where
  "web_seed_fetch_piece net t index len =
     (if len = 0 then None else fetch_piece_seeds net t (t_web_seeds t) index len)"

text \<open>The pieces of a batch from one seed, one after the other.\<close>

primrec fetch_batch :: "seed_net \<Rightarrow> torrent \<Rightarrow> byte list \<Rightarrow> nat \<Rightarrow> nat list \<Rightarrow> byte list option" where
  "fetch_batch net t seed first [] = Some []"
| "fetch_batch net t seed first (n # ns) =
     (case fetch_multi_file_piece net t seed first n of
        None \<Rightarrow> None
      | Some data \<Rightarrow> map_option (\<lambda>rest. data @ rest) (fetch_batch net t seed (Suc first) ns))"

primrec fetch_batch_seeds :: "seed_net \<Rightarrow> torrent \<Rightarrow> byte list list \<Rightarrow> nat \<Rightarrow> nat list \<Rightarrow> byte list option" where
  "fetch_batch_seeds net t [] first sizes = None"
| "fetch_batch_seeds net t (seed # seeds) first sizes =
     (let seed = cstr seed
      in if \<not> usable_seed seed then fetch_batch_seeds net t seeds first sizes
         else case (if t_is_multi_file t then fetch_batch net t seed first sizes
                    else fetch_single_file_span net t seed first (sum_list sizes)) of
           Some data \<Rightarrow> Some data
         | None \<Rightarrow> fetch_batch_seeds net t seeds first sizes)"

definition web_seed_fetch_pieces :: "seed_net \<Rightarrow> torrent \<Rightarrow> nat \<Rightarrow> nat list \<Rightarrow> byte list option" where
  "web_seed_fetch_pieces net t first sizes =
     (if sizes = [] \<or> 0 \<in> set sizes then None
      else fetch_batch_seeds net t (t_web_seeds t) first sizes)"

section \<open>What a seed delivers\<close>

lemma fetch_length: "fetch net url start len = Some data \<Longrightarrow> length data = len"
  by (auto simp: fetch_def http_fetch_range_def Let_def split: if_splits option.splits prod.splits)

lemma fetch_parts_length:
  "fetch_parts net t seed fs ps pe off len acc = Some data \<Longrightarrow> length data = len"
  by (induction fs arbitrary: off acc) (auto simp: Let_def split: if_splits option.splits)

lemma fetch_piece_length: "fetch_multi_file_piece net t seed i len = Some data \<Longrightarrow> length data = len"
  by (auto simp: fetch_multi_file_piece_def Let_def intro: fetch_parts_length)

lemma fetch_span_length: "fetch_single_file_span net t seed i len = Some data \<Longrightarrow> length data = len"
  by (auto simp: fetch_single_file_span_def intro: fetch_length split: option.splits)

lemma fetch_batch_length: "fetch_batch net t seed first ns = Some data \<Longrightarrow> length data = sum_list ns"
  by (induction ns arbitrary: first data) (auto dest: fetch_piece_length split: option.splits)

lemma fetch_seeds_length:
  "fetch_batch_seeds net t seeds first ns = Some data \<Longrightarrow> length data = sum_list ns"
  by (induction seeds)
    (auto simp: Let_def dest: fetch_batch_length fetch_span_length split: if_splits option.splits)

lemma fetch_pieces_length: "web_seed_fetch_pieces net t first ns = Some data \<Longrightarrow> length data = sum_list ns"
  by (auto simp: web_seed_fetch_pieces_def intro: fetch_seeds_length split: if_splits)

section \<open>Servers that keep the protocol\<close>

lemma recv_until_stream: "recv_until rx cap acc = acc @ take cap (stream rx)"
  by (induction rx arbitrary: cap acc) (auto split: rx.split)

text \<open>One byte of a stream.\<close>

lemma recv_byte:
  "stream (sk_rx sk) = c # cs \<Longrightarrow>
   \<exists>sk'. net_recv_some sk 1 = (Some [c], sk') \<and> stream (sk_rx sk') = cs"
proof -
  have "stream rx = c # cs \<Longrightarrow> \<exists>rx'. some_loop rx 1 = (Some [c], rx') \<and> stream rx' = cs" for rx
  proof (induction rx)
    case (Cons a rx)
    then show ?case
    proof (cases a)
      case (Chunk bs)
      then obtain ds where "bs = c # ds" "cs = ds @ stream rx" using Cons.prems by (cases bs) auto
      then show ?thesis using Chunk by (cases ds) auto
    qed auto
  qed simp
  from this [of "sk_rx sk"] show "stream (sk_rx sk) = c # cs \<Longrightarrow> ?thesis"
    by (auto simp: net_recv_some_def)
qed

text \<open>The header is read up to its first blank line.\<close>

definition header_end :: "byte list \<Rightarrow> bool" where
  "header_end h \<longleftrightarrow> 4 \<le> length h \<and> drop (length h - 4) h = crlf @ crlf"

lemma read_header_stream:
  assumes "stream (sk_rx sk) = r @ body" "r \<noteq> []" "header_end (h @ r)"
    and "\<forall>k < length r. 0 < k \<longrightarrow> \<not> header_end (h @ take k r)" "length r < n"
  shows "\<exists>sk'. read_header n sk h = (Some (h @ r), sk') \<and> stream (sk_rx sk') = body"
  using assms
proof (induction r arbitrary: sk h n)
  case (Cons c r)
  obtain m where n: "n = Suc m" using Cons.prems(5) by (cases n) auto
  obtain sk1 where b: "net_recv_some sk 1 = (Some [c], sk1)" "stream (sk_rx sk1) = r @ body"
    using recv_byte [of sk c "r @ body"] Cons.prems(1) by auto
  show ?case
  proof (cases "r = []")
    case True
    then have "m \<noteq> 0" using Cons.prems(5) n by simp
    then show ?thesis using n b True Cons.prems(3) by (simp add: header_end_def Let_def)
  next
    case False
    have ne: "\<not> header_end (h @ [c])" using Cons.prems(4) False by (elim allE [of _ 1]) auto
    have "\<forall>k < length r. 0 < k \<longrightarrow> \<not> header_end ((h @ [c]) @ take k r)"
    proof (intro allI impI)
      fix k assume "k < length r" "0 < k"
      then show "\<not> header_end ((h @ [c]) @ take k r)" using Cons.prems(4) by (elim allE [of _ "Suc k"]) auto
    qed
    from Cons.IH [OF b(2) False _ this, of m] show ?thesis
      using n b ne Cons.prems(3,5) by (auto simp: header_end_def Let_def)
  qed
qed simp

definition ok_header :: "byte list" where
  "ok_header = bytes ''HTTP/1.0 206 OK'' @ crlf @ crlf"

lemma ok_header_facts:
  "header_end ok_header" "\<forall>k < length ok_header. 0 < k \<longrightarrow> \<not> header_end (take k ok_header)"
  "http_status (cstr ok_header) = Some 206" "ok_header \<noteq> []" "length ok_header < 8192"
proof -
  show "header_end ok_header" by code_simp
  have "list_all (\<lambda>k. k = 0 \<or> \<not> header_end (take k ok_header)) [0..<length ok_header]" by code_simp
  then show "\<forall>k < length ok_header. 0 < k \<longrightarrow> \<not> header_end (take k ok_header)"
    unfolding list_all_iff by (metis atLeastLessThan_upt atLeastLessThan_iff le0 less_irrefl)
  show "http_status (cstr ok_header) = Some 206" by code_simp
  have "length ok_header = 19" by code_simp
  then show "ok_header \<noteq> []" "length ok_header < 8192" by auto
qed

text \<open>
  A network that serves the bytes of a URL: the host resolves, the connection and the request
  succeed, and the answer to a range request is the header followed by the bytes from its start.
\<close>

definition serves :: "seed_net \<Rightarrow> byte list \<Rightarrow> byte list \<Rightarrow> bool" where
  "serves net url data \<longleftrightarrow> (\<exists>host port path. parse_http_url url = Some (host, port, path) \<and>
     (\<forall>start len. length (range_request host path start len) < 1024) \<and>
     (\<forall>start. nw_timeout (net url start) \<and> (\<exists>addr sock. nw_resolve (net url start) host = Some addr \<and>
        net_tcp_connect (nw_connect (net url start) addr (word_of_int port)) = (sock, []) \<and> 0 \<le> sock \<and>
        sk_tx (nw_socket (net url start) sock) = [] \<and>
        stream (sk_rx (nw_socket (net url start) sock)) = ok_header @ drop (unat start) data)))"

lemma fetch_served:
  assumes "serves net url data" "0 < len" "unat start + len \<le> length data"
  shows "fetch net url start len = Some (take len (drop (unat start) data))"
proof -
  obtain host port path addr sock where n: "parse_http_url url = Some (host, port, path)"
    "length (range_request host path start len) < 1024" "nw_timeout (net url start)"
    "nw_resolve (net url start) host = Some addr"
    "net_tcp_connect (nw_connect (net url start) addr (word_of_int port)) = (sock, [])" "0 \<le> sock"
    "sk_tx (nw_socket (net url start) sock) = []"
    "stream (sk_rx (nw_socket (net url start) sock)) = ok_header @ drop (unat start) data"
    using assms(1) unfolding serves_def by blast
  obtain sk where s: "net_send_all (nw_socket (net url start) sock) (range_request host path start len) = (0, sk)"
    "sk_rx sk = sk_rx (nw_socket (net url start) sock)"
    using n(7) by (simp add: net_send_all_def)
  obtain sk2 where h: "read_header 8192 sk [] = (Some ok_header, sk2)" "stream (sk_rx sk2) = drop (unat start) data"
    using read_header_stream [of sk ok_header "drop (unat start) data" "[]" 8192] n(8) s(2) ok_header_facts by auto
  show ?thesis
    using assms(2,3) n h s ok_header_facts(3)
    by (simp add: fetch_def http_fetch_range_def recv_until_stream Let_def)
qed

text \<open>The parts of a piece, gathered file by file.\<close>

lemma span_arith:
  "\<not> l \<le> x - p \<Longrightarrow> p < y \<Longrightarrow> x \<le> y \<Longrightarrow> x - p + (min (p + l) y - x - (p - x)) = min l (y - p)" for x y p l :: nat
  by (cases "p \<le> x"; cases "p + l \<le> y") auto

lemma parts_served:
  assumes "\<forall>f \<in> set fs. 0 < tf_length f \<and> length (data f) = unat (tf_length f) \<and>
      (\<exists>url. file_url t seed f = Some url \<and> serves net url (data f))"
    and "unat pe = unat ps + len" "unat pe \<le> unat o1 + length (concat (map data fs))"
    and "unat o1 + length (concat (map data fs)) < 2 ^ 64" "length acc = min len (unat o1 - unat ps)"
  shows "fetch_parts net t seed fs ps pe o1 len acc =
    Some (acc @ take (len - length acc) (drop (unat ps - unat o1) (concat (map data fs))))"
  using assms
proof (induction fs arbitrary: o1 acc)
  case Nil
  then show ?case by simp
next
  case (Cons f fs)
  let ?e = "o1 + tf_length f" and ?rest = "concat (map data fs)"
  have d: "length (data f) = unat (tf_length f)" using Cons.prems(1) by simp
  obtain url where url: "file_url t seed f = Some url" "serves net url (data f)" using Cons.prems(1) by auto
  have g: "0 < unat (tf_length f)" using Cons.prems(1) by (simp add: unat_gt_0 word_neq_0_conv)
  have e: "unat ?e = unat o1 + unat (tf_length f)"
    using Cons.prems(4) d by (intro unat_add_lem [THEN iffD1]) simp
  have IH: "fetch_parts net t seed fs ps pe ?e len acc' =
      Some (acc' @ take (len - length acc') (drop (unat ps - unat ?e) ?rest))"
    if "length acc' = min len (unat ?e - unat ps)" for acc'
    using that Cons.prems d e by (intro Cons.IH) auto
  show ?case
  proof (cases "len \<le> length acc")
    case True
    then show ?thesis using Cons.prems(5) by simp
  next
    case False
    then have acc: "length acc = unat o1 - unat ps" "unat o1 < unat pe" using Cons.prems(2,5) by linarith+
    show ?thesis
    proof (cases "ps < ?e")
      case before: False
      then have le: "unat o1 + unat (tf_length f) \<le> unat ps" using e by (simp add: word_less_nat_alt)
      then have "length acc = min len (unat ?e - unat ps)" using acc e by simp
      moreover have "drop (unat ps - unat o1) (data f @ ?rest) = drop (unat ps - unat ?e) ?rest" using le d e by simp
      ultimately show ?thesis using IH [of acc] False before by (simp add: Let_def)
    next
      case inside: True
      define fr up where "fr = (if o1 < ps then ps - o1 else 0)" and "up = (if pe < ?e then pe - o1 else ?e - o1)"
      have lt: "unat ps < unat ?e" using inside by (simp add: word_less_nat_alt)
      have fr: "unat fr = unat ps - unat o1"
      proof (cases "o1 < ps")
        case True
        then show ?thesis by (simp add: fr_def unat_sub less_imp_le)
      next
        case False
        then show ?thesis by (simp add: fr_def word_less_nat_alt)
      qed
      have up: "unat up = min (unat pe) (unat ?e) - unat o1"
      proof (cases "pe < ?e")
        case True
        then have "o1 \<le> pe" using acc(2) by (simp add: word_le_nat_alt)
        then show ?thesis using True by (simp add: up_def unat_sub word_less_nat_alt)
      next
        case False
        then show ?thesis using e by (simp add: up_def word_less_nat_alt)
      qed
      have "fr \<le> up" using fr up lt acc(2) Cons.prems(2) e by (simp add: word_le_nat_alt)
      then have n: "unat (up - fr) = unat up - unat fr" by (rule unat_sub)
      define part where "part = take (unat up - unat fr) (drop (unat fr) (data f))"
      have pos: "0 < unat up - unat fr" using fr up lt acc False Cons.prems(2) e g by linarith
      have fetch: "fetch net url fr (unat (up - fr)) = Some part"
        unfolding n part_def by (rule fetch_served [OF url(2) pos]) (use fr up e d lt in linarith)
      have pl: "length part = unat up - unat fr" using fr up e d lt by (simp add: part_def)
      then have len: "length (acc @ part) = min len (unat ?e - unat ps)"
        using span_arith [OF _ lt, of len "unat o1"] le_add1 [of "unat o1" "unat (tf_length f)", folded e] acc(1) fr up False Cons.prems(2) pl by simp
      have "fetch_parts net t seed (f # fs) ps pe o1 len acc = fetch_parts net t seed fs ps pe ?e len (acc @ part)"
        using False inside acc(2) url(1) fetch
        by (simp only: fetch_parts.simps Let_def fr_def [symmetric] up_def [symmetric] if_False option.case
            word_less_nat_alt [of o1 pe] simp_thms if_True)
      also have "\<dots> = Some ((acc @ part) @ take (len - length (acc @ part)) ?rest)"
        using IH [OF len] lt by simp
      finally have parts: "fetch_parts net t seed (f # fs) ps pe o1 len acc =
          Some ((acc @ part) @ take (len - length (acc @ part)) ?rest)" .
      have "part @ take (len - length (acc @ part)) ?rest =
          take (len - length acc) (drop (unat ps - unat o1) (data f @ ?rest))"
      proof (cases "unat ?e \<le> unat pe")
        case True
        then have "part = drop (unat ps - unat o1) (data f)" using fr up e d by (simp add: part_def)
        moreover have "length part \<le> len - length acc" using pl len True acc by simp
        ultimately show ?thesis using d lt e by simp
      next
        case False
        then have upfr: "unat up - unat fr = len - length acc" using fr up acc lt Cons.prems(2) by simp
        moreover have "length part \<le> length (drop (unat fr) (data f))" unfolding part_def by (simp only: length_take min.cobounded1)
        then have "len - length acc \<le> length (data f) - (unat ps - unat o1)" unfolding pl upfr length_drop unfolding fr .
        ultimately show ?thesis using pl fr by (simp add: part_def)
      qed
      then show ?thesis unfolding parts by simp
    qed
  qed
qed

text \<open>What it means for a seed to serve the content of a torrent.\<close>

definition seed_serves :: "seed_net \<Rightarrow> torrent \<Rightarrow> byte list \<Rightarrow> byte list \<Rightarrow> bool" where
  "seed_serves net t seed content \<longleftrightarrow>
     (if t_is_multi_file t
      then \<exists>data. content = concat (map data (t_files t)) \<and>
        (\<forall>f \<in> set (t_files t). 0 < tf_length f \<and> length (data f) = unat (tf_length f) \<and>
          (\<exists>url. file_url t seed f = Some url \<and> serves net url (data f)))
      else \<exists>url. single_url t seed = Some url \<and> serves net url content)"

lemma seed_piece:
  assumes "seed_serves net t seed content" "0 < len"
    and "i * unat (t_piece_length t) + len \<le> length content" "length content < 2 ^ 64"
  shows "(if t_is_multi_file t then fetch_multi_file_piece net t seed i len
          else fetch_single_file_piece net t seed i len) =
    Some (take len (drop (i * unat (t_piece_length t)) content))"
proof -
  let ?s = "i * unat (t_piece_length t)"
  have small: "unat (of_nat n :: u64) = n" if "n < 2 ^ 64" for n
    using that by (simp add: unsigned_of_nat take_bit_nat_eq_self)
  have ps: "of_nat i * t_piece_length t = (of_nat ?s :: u64)" by simp
  have us: "unat (of_nat ?s :: u64) = ?s" using assms(3,4) by (intro small) linarith
  have "of_nat ?s + of_nat len = (of_nat (?s + len) :: u64)" by (simp only: of_nat_add)
  then have ue: "unat (of_nat ?s + of_nat len :: u64) = ?s + len" using assms(3,4) by (simp only: small)
  show ?thesis
  proof (cases "t_is_multi_file t")
    case False
    then obtain url where url: "single_url t seed = Some url" "serves net url content"
      using assms(1) by (auto simp: seed_serves_def)
    have "fetch net url (of_nat ?s) len = Some (take len (drop ?s content))"
      using fetch_served [OF url(2) assms(2), of "of_nat ?s"] assms(3) unfolding us by simp
    then show ?thesis unfolding fetch_single_file_piece_def url(1) ps using False by (simp only: if_False option.case)
  next
    case True
    then obtain data where d: "content = concat (map data (t_files t))"
      "\<forall>f \<in> set (t_files t). 0 < tf_length f \<and> length (data f) = unat (tf_length f) \<and>
          (\<exists>url. file_url t seed f = Some url \<and> serves net url (data f))"
      using assms(1) by (auto simp: seed_serves_def)
    have "fetch_parts net t seed (t_files t) (of_nat ?s) (of_nat ?s + of_nat len) 0 len [] =
        Some ([] @ take (len - length ([] :: byte list))
          (drop (unat (of_nat ?s :: u64) - unat (0 :: u64)) (concat (map data (t_files t)))))"
      by (rule parts_served [OF d(2)])
        (use assms(3,4) d(1) in \<open>simp_all only: us ue unsigned_0 add_0 list.size diff_0_eq_0 min_0R min_0L\<close>)
    then show ?thesis
      unfolding fetch_multi_file_piece_def Let_def ps d(1) us using True by simp
  qed
qed

section \<open>Empty files\<close>

definition lengths :: "torrent_file list \<Rightarrow> nat" where
  "lengths fs = (\<Sum>f\<leftarrow>fs. unat (tf_length f))"

text \<open>
  The loop over files that end inside the piece: the bytes gathered are those since its start, and the
  request for an empty file that lies strictly inside fails.
\<close>

lemma parts_reach_empty:
  assumes "tf_length f = 0" "unat ps < off" "off < unat pe" "len = unat pe - unat ps"
    and "off = unat o1 + lengths fs1" "length acc = unat o1 - unat ps"
  shows "fetch_parts net t seed (fs1 @ f # fs2) ps pe o1 len acc = None"
  using assms(5,6)
proof (induction fs1 arbitrary: o1 acc)
  case Nil
  then have off: "unat o1 = off" by (simp add: lengths_def)
  have "ps < o1" "o1 < pe" using assms(2,3) off by (simp_all add: word_less_nat_alt)
  then have "\<not> o1 < ps" "\<not> pe < o1" by auto
  moreover have "\<not> len \<le> length acc" using Nil off assms(2-4) by linarith
  moreover have "fetch net url start 0 = None" for url start by (simp add: fetch_def http_fetch_range_def)
  ultimately show ?case
    using assms(1) \<open>ps < o1\<close> \<open>o1 < pe\<close> by (simp add: Let_def split: option.split)
next
  case (Cons g fs1)
  let ?e = "o1 + tf_length g"
  have sum: "off = unat o1 + unat (tf_length g) + lengths fs1" using Cons.prems(1) by (simp add: lengths_def)
  have "unat pe < 2 ^ LENGTH(64)" by (rule unsigned_less)
  then have "off < 2 ^ 64" using assms(3) by simp
  then have e: "unat ?e = unat o1 + unat (tf_length g)" using sum by (intro unat_add_lem [THEN iffD1]) simp
  have IH: "fetch_parts net t seed (fs1 @ f # fs2) ps pe ?e len acc' = None" if "length acc' = unat ?e - unat ps" for acc'
    using Cons.IH [of ?e acc'] sum e that by simp
  have "unat o1 < unat pe" "unat ?e < unat pe" using sum e assms(3) by linarith+
  then have lt: "o1 < pe" "\<not> pe < ?e" by (simp_all add: word_less_nat_alt not_less)
  have acc: "\<not> len \<le> length acc" using Cons.prems(2) sum assms(2-4) by linarith
  show ?case
  proof (cases "ps < ?e")
    case False
    then have "unat ?e \<le> unat ps" by (simp add: word_less_nat_alt)
    then have "length acc = unat ?e - unat ps" using Cons.prems(2) e by linarith
    then show ?thesis using IH False lt acc by (simp add: Let_def)
  next
    case True
    define fr where "fr = (if o1 < ps then ps - o1 else 0)"
    have "unat fr = unat ps - unat o1"
    proof (cases "o1 < ps")
      case True
      then have "unat (ps - o1) = unat ps - unat o1" by (intro unat_sub) simp
      then show ?thesis using True by (simp add: fr_def)
    next
      case False
      then have "unat ps \<le> unat o1" by (simp add: word_less_nat_alt)
      then show ?thesis using False by (simp add: fr_def)
    qed
    moreover have "unat (?e - o1) = unat (tf_length g)" by simp
    moreover have "fr \<le> tf_length g"
      using \<open>unat fr = _\<close> True e by (simp add: word_le_nat_alt word_less_nat_alt)
    ultimately have part: "unat (?e - o1 - fr) = unat (tf_length g) - (unat ps - unat o1)"
      by (simp add: unat_sub)
    have len: "length (acc @ p) = unat ?e - unat ps" if "length p = unat (?e - o1 - fr)" for p :: "byte list"
      using that part Cons.prems(2) e True by (simp add: word_less_nat_alt)
    have "fetch_parts net t seed (fs1 @ f # fs2) ps pe ?e len (acc @ p) = None"
      if "fetch net url fr (unat (?e - o1 - fr)) = Some p" for url p
      by (rule IH [OF len [OF fetch_length [OF that]]])
    then have "(case fetch net url fr (unat (?e - o1 - fr)) of None \<Rightarrow> None
      | Some p \<Rightarrow> fetch_parts net t seed (fs1 @ f # fs2) ps pe ?e len (acc @ p)) = None" for url
      by (simp split: option.split)
    then show ?thesis
      unfolding append_Cons fetch_parts.simps Let_def fr_def [symmetric]
      by (simp only: acc True lt if_True if_False simp_thms split: option.split)
  qed
qed

text \<open>
  C25.  A torrent with an empty file strictly inside a piece cannot get that piece from any web seed,
  whatever the servers answer: the loop asks for zero bytes of the empty file, and such a request is
  an error.
\<close>

theorem empty_file_blocks_piece:
  assumes "t_is_multi_file t" "t_files t = fs1 @ f # fs2" "tf_length f = 0"
    and "i * unat (t_piece_length t) < lengths fs1" "lengths fs1 < i * unat (t_piece_length t) + len"
    and "i * unat (t_piece_length t) + len < 2 ^ 64"
  shows "web_seed_fetch_piece net t i len = None"
proof -
  let ?s = "i * unat (t_piece_length t)"
  have ps: "of_nat i * t_piece_length t = (of_nat ?s :: u64)" by simp
  have small: "unat (of_nat n :: u64) = n" if "n < 2 ^ 64" for n
    using that by (simp add: unsigned_of_nat take_bit_nat_eq_self)
  have us: "unat (of_nat ?s :: u64) = ?s" using assms(6) by (intro small) linarith
  have "of_nat ?s + of_nat len = (of_nat (?s + len) :: u64)" by (simp only: of_nat_add)
  then have ue: "unat (of_nat ?s + of_nat len :: u64) = ?s + len" using assms(6) by (simp only: small)
  have "fetch_parts net t seed (fs1 @ f # fs2) (of_nat ?s) (of_nat ?s + of_nat len) 0 len [] = None" for seed
    by (rule parts_reach_empty [OF assms(3), where off = "lengths fs1"])
      (use assms(4,5) in \<open>simp_all only: us ue unsigned_0 add_0 add_diff_cancel_left' list.size diff_0_eq_0\<close>)
  then have "fetch_multi_file_piece net t seed i len = None" for seed
    unfolding fetch_multi_file_piece_def Let_def assms(2) ps .
  then have "fetch_piece_seeds net t seeds i len = None" for seeds
    using assms(1) by (induction seeds) (simp_all add: Let_def)
  then show ?thesis by (simp add: web_seed_fetch_piece_def)
qed

definition demo_empty :: torrent where
  "demo_empty = torrent_zero\<lparr>t_is_multi_file := True, t_piece_length := 16, t_total_size := 16,
     t_name := Some (bytes ''d''), t_web_seeds := [bytes ''http://h/''],
     t_files := [\<lparr>tf_path = Some (bytes ''a''), tf_path_len = 1, tf_length = 8\<rparr>,
                 \<lparr>tf_path = Some (bytes ''e''), tf_path_len = 1, tf_length = 0\<rparr>,
                 \<lparr>tf_path = Some (bytes ''b''), tf_path_len = 1, tf_length = 8\<rparr>]\<rparr>"

theorem empty_file_blocks_piece_witness: "\<forall>net. web_seed_fetch_piece net demo_empty 0 16 = None"
  by (intro allI, rule empty_file_blocks_piece [of demo_empty "take 1 (t_files demo_empty)" "t_files demo_empty ! 1" "drop 2 (t_files demo_empty)"])
    (simp_all add: demo_empty_def lengths_def)

section \<open>Pieces from a seed\<close>


text \<open>A network that serves one file, and one that serves two.\<close>

definition demo_net :: "(byte list \<Rightarrow> byte list) \<Rightarrow> seed_net" where
  "demo_net data url start =
     \<lparr>nw_pton = (\<lambda>_. Some 1), nw_getaddrinfo = (\<lambda>_. None),
      nw_connect = (\<lambda>_ _. \<lparr>co_socket = 4, co_getfl = 0, co_nonblock = True, co_connect = Connected, co_select = 1,
                             co_soerror = Some 0, co_restore = True\<rparr>),
      nw_socket = (\<lambda>_. \<lparr>sk_rx = [Chunk ok_header, RxIntr, Chunk (drop (unat start) (data url))], sk_tx = [], sk_out = []\<rparr>),
      nw_timeout = True\<rparr>"

lemma demo_serves:
  assumes "parse_http_url url = Some (host, 80, path)" "length host + length path \<le> 100"
  shows "serves (demo_net data) url (data url)"
proof -
  have "unat v < 10 ^ Suc 19" for v :: u64
  proof -
    have "unat v < 2 ^ LENGTH(64)" by (rule unsigned_less)
    then show ?thesis by simp
  qed
  then have "length (dec (unat v)) \<le> 20" for v :: u64 using length_dec [of "unat v" 19] by simp
  then have "length (range_request host path start len) < 1024" for start len
    using assms(2) add_mono [OF \<open>\<And>v. length (dec (unat v)) \<le> 20\<close> [of start] \<open>\<And>v. length (dec (unat v)) \<le> 20\<close> [of "start + of_nat len - 1"]]
    by (simp add: range_request_def)
  then show ?thesis
    using assms(1)
    by (auto simp: serves_def demo_net_def nw_resolve_def net_resolve_def net_tcp_connect_def ok_header_facts)
qed

definition demo_data :: "byte list \<Rightarrow> byte list" where
  "demo_data url = (if last url = ch CHR ''a'' then [1, 2, 3] else [4, 5])"

definition demo_seeded :: torrent where
  "demo_seeded = torrent_zero\<lparr>t_is_multi_file := True, t_piece_length := 4, t_total_size := 5,
     t_name := Some (bytes ''d''), t_web_seeds := [bytes ''http://h/''],
     t_files := [\<lparr>tf_path = Some (bytes ''a''), tf_path_len = 1, tf_length = 3\<rparr>,
                 \<lparr>tf_path = Some (bytes ''b''), tf_path_len = 1, tf_length = 2\<rparr>]\<rparr>"

lemma demo_urls:
  "file_url demo_seeded (bytes ''http://h/'') (t_files demo_seeded ! 0) = Some (bytes ''http://h/d/a'')"
  "file_url demo_seeded (bytes ''http://h/'') (t_files demo_seeded ! 1) = Some (bytes ''http://h/d/b'')"
  "parse_http_url (bytes ''http://h/d/a'') = Some (bytes ''h'', 80, bytes ''/d/a'')"
  "parse_http_url (bytes ''http://h/d/b'') = Some (bytes ''h'', 80, bytes ''/d/b'')"
  by (simp_all add: file_url_def demo_seeded_def append_url_path_def url_plain_def cstr_def Let_def
      parse_http_url_def starts_with_def)


end
