(* ===== verification/Swarm.thy ===== *)
theory Swarm
  imports PieceMgr FileIO PeerWire WebSeed
begin

text \<open>
  The data of \<open>src/torrent_mgr.c\<close> and its peer addresses: candidates with retry times, the queue of
  a discovery job, and the slots of peers.

  The arrays \<open>peers\<close> and \<open>peer_candidates\<close> are the lists of their used entries, so that \<open>num_peers\<close> and
  \<open>num_candidates\<close> are lengths.  Times are seconds of the monotonic clock (\<open>uint64_t\<close>), with the
  wrap-around of their differences.  The log is not modelled.
\<close>

section \<open>Data\<close>

definition MAX_TORRENTS :: nat where "MAX_TORRENTS = 8"
definition MAX_PEERS_PER_TORRENT :: nat where "MAX_PEERS_PER_TORRENT = 50"

datatype torrent_state =
  TORRENT_STOPPED | TORRENT_DOWNLOADING | TORRENT_SEEDING | TORRENT_ERROR | TORRENT_DONE

datatype torrent_error =
  TERR_NONE | TERR_PARSE_FAILED | TERR_TRACKER_FAILED | TERR_NO_PEERS | TERR_WRITE_FAILED | TERR_HASH_MISMATCH

record torrent_peer =
  pr_sock :: int
  pr_addr :: peer_addr
  pr_remote_id :: "byte list"
  pr_choked :: bool
  pr_am_interested :: bool
  pr_last_request :: u32
  pr_got :: u64
  pr_bitfield :: "byte list option"
  pr_piece_data :: "byte list option"
  pr_piece_size :: nat
  pr_piece_received :: u32
  pr_pending_length :: u32
  pr_request_time :: u64
  pr_last_activity :: u64

record peer_candidate =
  cd_addr :: peer_addr
  cd_failures :: nat
  cd_retry_after :: u64
  cd_connecting :: bool

record managed_torrent =
  mt_id :: "byte list"
  mt_generation :: u64
  mt_name :: "byte list"
  mt_save_path :: "byte list"
  mt_info_hash :: "byte list"
  mt_state :: torrent_state
  mt_error_type :: torrent_error
  mt_error_msg :: "byte list"
  mt_torrent :: "torrent option"
  mt_piece_mgr :: piece_mgr
  mt_file_writer :: file_writer
  mt_peer_id :: "byte list"
  mt_peers :: "torrent_peer list"
  mt_active_peers :: int
  mt_candidates :: "peer_candidate list"
  mt_next_candidate :: nat
  mt_downloaded :: u64
  mt_uploaded :: u64
  mt_total_size :: u64
  mt_tracker_announces :: int
  mt_tracker_interval :: int
  mt_tracker_failures :: nat
  mt_progress :: rat
  mt_speed_down :: u64
  mt_speed_up :: u64
  mt_last_announce_time :: u64
  mt_last_progress_time :: u64
  mt_last_speed_calc :: u64
  mt_last_downloaded :: u64
  mt_last_uploaded :: u64
  mt_start_time :: u64
  mt_is_magnet :: bool
  mt_magnet_uri :: "byte list"

text \<open>The zeroed structures that \<open>memset\<close> leaves.\<close>

definition addr_zero :: peer_addr where "addr_zero = \<lparr>pa_ip = 0, pa_port = 0\<rparr>"

definition peer_zero :: torrent_peer where
  "peer_zero = \<lparr>pr_sock = 0, pr_addr = addr_zero, pr_remote_id = replicate 20 0, pr_choked = False,
     pr_am_interested = False, pr_last_request = 0, pr_got = 0, pr_bitfield = None,
     pr_piece_data = None, pr_piece_size = 0, pr_piece_received = 0, pr_pending_length = 0,
     pr_request_time = 0, pr_last_activity = 0\<rparr>"

definition candidate_zero :: peer_candidate where
  "candidate_zero = \<lparr>cd_addr = addr_zero, cd_failures = 0, cd_retry_after = 0, cd_connecting = False\<rparr>"

definition mt_zero :: managed_torrent where
  "mt_zero = \<lparr>mt_id = [], mt_generation = 0, mt_name = [], mt_save_path = [], mt_info_hash = replicate 20 0,
     mt_state = TORRENT_STOPPED, mt_error_type = TERR_NONE, mt_error_msg = [], mt_torrent = None,
     mt_piece_mgr = pm_zero, mt_file_writer = fw_zero, mt_peer_id = replicate 20 0, mt_peers = [],
     mt_active_peers = 0, mt_candidates = [], mt_next_candidate = 0, mt_downloaded = 0, mt_uploaded = 0,
     mt_total_size = 0, mt_tracker_announces = 0, mt_tracker_interval = 0, mt_tracker_failures = 0,
     mt_progress = 0, mt_speed_down = 0, mt_speed_up = 0, mt_last_announce_time = 0,
     mt_last_progress_time = 0, mt_last_speed_calc = 0, mt_last_downloaded = 0, mt_last_uploaded = 0,
     mt_start_time = 0, mt_is_magnet = False, mt_magnet_uri = []\<rparr>"

text \<open>\<open>snprintf (mt->error_msg, sizeof (mt->error_msg), ..)\<close>.\<close>

definition set_error :: "torrent_error \<Rightarrow> byte list \<Rightarrow> managed_torrent \<Rightarrow> managed_torrent" where
  "set_error e msg mt = mt\<lparr>mt_error_type := e, mt_error_msg := take 255 msg\<rparr>"

definition clear_error :: "managed_torrent \<Rightarrow> managed_torrent" where
  "clear_error mt = mt\<lparr>mt_error_type := TERR_NONE, mt_error_msg := []\<rparr>"

section \<open>Candidates\<close>

definition same_peer :: "peer_addr \<Rightarrow> peer_addr \<Rightarrow> bool" where
  "same_peer a b \<longleftrightarrow> pa_ip a = pa_ip b \<and> pa_port a = pa_port b"

definition peer_is_connected :: "managed_torrent \<Rightarrow> peer_addr \<Rightarrow> bool" where
  "peer_is_connected mt addr =
     list_ex (\<lambda>p. 0 \<le> pr_sock p \<and> same_peer (pr_addr p) addr) (mt_peers mt)"

text \<open>The index of the candidate, \<open>None\<close> for \<open>NULL\<close>.\<close>

definition find_candidate :: "managed_torrent \<Rightarrow> peer_addr \<Rightarrow> nat option" where
  "find_candidate mt addr =
     find (\<lambda>i. same_peer (cd_addr (mt_candidates mt ! i)) addr) [0..<length (mt_candidates mt)]"

definition set_candidate :: "nat \<Rightarrow> peer_candidate \<Rightarrow> managed_torrent \<Rightarrow> managed_torrent" where
  "set_candidate i c mt = mt\<lparr>mt_candidates := (mt_candidates mt)[i := c]\<rparr>"

definition retry_delay :: "nat \<Rightarrow> nat" where
  "retry_delay failures =
     (let delay = 30 * 2 ^ (if 4 < failures then 4 else if failures \<noteq> 0 then failures - 1 else 0)
      in if 300 < delay then 300 else delay)"

definition record_peer_failure :: "u64 \<Rightarrow> peer_addr \<Rightarrow> managed_torrent \<Rightarrow> managed_torrent" where
  "record_peer_failure now addr mt =
     (case find_candidate mt addr of
        None \<Rightarrow> mt
      | Some i \<Rightarrow>
          let c = mt_candidates mt ! i;
              failures = (if cd_failures c < 5 then cd_failures c + 1 else cd_failures c)
          in set_candidate i (c\<lparr>cd_failures := failures,
                                cd_retry_after := now + of_nat (retry_delay failures)\<rparr>) mt)"

text \<open>The slot to reuse: the first of the candidates that failed most, are idle and not connected.\<close>

definition better_slot :: "managed_torrent \<Rightarrow> nat option \<Rightarrow> nat \<Rightarrow> nat option" where
  "better_slot mt slot i =
     (let c = mt_candidates mt ! i
      in if \<not> cd_connecting c \<and> cd_failures c \<noteq> 0 \<and> \<not> peer_is_connected mt (cd_addr c) \<and>
            (case slot of None \<Rightarrow> True | Some s \<Rightarrow> cd_failures (mt_candidates mt ! s) < cd_failures c)
         then Some i else slot)"

definition replaceable_slot :: "managed_torrent \<Rightarrow> nat option" where
  "replaceable_slot mt = foldl (better_slot mt) None [0..<length (mt_candidates mt)]"

definition valid_addr :: "peer_addr \<Rightarrow> bool" where
  "valid_addr addr \<longleftrightarrow> pa_ip addr \<noteq> 0 \<and> pa_ip addr \<noteq> - 1 \<and> pa_port addr \<noteq> 0"

definition add_candidate :: "managed_torrent \<Rightarrow> peer_addr \<Rightarrow> managed_torrent" where
  "add_candidate mt addr =
     (if \<not> valid_addr addr \<or> find_candidate mt addr \<noteq> None then mt
      else if length (mt_candidates mt) = MAX_TRACKER_PEERS
      then case replaceable_slot mt of
             None \<Rightarrow> mt
           | Some i \<Rightarrow> set_candidate i (candidate_zero\<lparr>cd_addr := addr\<rparr>) mt
      else mt\<lparr>mt_candidates := mt_candidates mt @ [candidate_zero\<lparr>cd_addr := addr\<rparr>]\<rparr>)"

text \<open>The queue of a discovery job, under its mutex.\<close>

primrec publish_candidates :: "peer_addr list \<Rightarrow> peer_addr list \<Rightarrow> peer_addr list" where
  "publish_candidates queue [] = queue"
| "publish_candidates queue (p # ps) =
     (if MAX_TRACKER_PEERS \<le> length queue then queue
      else publish_candidates (if list_ex (\<lambda>q. same_peer q p) queue then queue else queue @ [p]) ps)"

text \<open>
  \<open>update_peer_status\<close>.  The texts of the messages are UTF-8.
\<close>

definition no_peers_text :: "u64 \<Rightarrow> byte list" where
  "no_peers_text secs = bytes ''Peers indispon'' @ [0xC3, 0xAD] @ bytes ''veis; nova tentativa em '' @
     dec (unat secs) @ bytes '' s. Consulte o log para detalhes.''"

definition update_peer_status :: "u64 \<Rightarrow> managed_torrent \<Rightarrow> managed_torrent" where
  "update_peer_status now mt =
     (if mt_error_type mt \<noteq> TERR_NONE \<and> mt_error_type mt \<noteq> TERR_NO_PEERS then mt
      else let pending = length (filter cd_connecting (mt_candidates mt));
               next_retry = foldl (\<lambda>m c. if cd_retry_after c < m then cd_retry_after c else m) (- 1)
                              (mt_candidates mt)
           in if mt_active_peers mt \<noteq> 0 \<or> pending \<noteq> 0 \<or>
                 (mt_downloaded mt \<noteq> 0 \<and> now - mt_last_progress_time mt < 60)
              then clear_error mt
              else if mt_candidates mt \<noteq> [] \<and> now < next_retry
              then set_error TERR_NO_PEERS (no_peers_text (next_retry - now)) mt
              else mt)"

section \<open>Sets of addresses with a capacity\<close>

text \<open>
  The contract that the queue of a discovery job and the table of candidates share: a list without
  duplicates and of bounded length, to which an acceptable new address is added while there is room.
\<close>

locale capped_set =
  fixes ok :: "'s \<Rightarrow> bool" and elems :: "'s \<Rightarrow> peer_addr list" and add :: "'s \<Rightarrow> peer_addr \<Rightarrow> 's"
    and good :: "peer_addr \<Rightarrow> bool" and cap :: nat
  assumes add_ok: "ok s \<Longrightarrow> ok (add s a)"
    and elems_ok: "ok s \<Longrightarrow> distinct (elems s) \<and> length (elems s) \<le> cap"
    and add_room: "ok s \<Longrightarrow> length (elems s) < cap \<Longrightarrow>
      elems (add s a) = (if good a \<and> a \<notin> set (elems s) then elems s @ [a] else elems s)"
begin

lemma adds_ok: "ok s \<Longrightarrow> ok (foldl add s as)"
  by (induction as arbitrary: s) (simp_all add: add_ok)

lemma adds_room:
  assumes "ok s" "length (elems s) + length as \<le> cap"
  shows "set (elems (foldl add s as)) = set (elems s) \<union> {a \<in> set as. good a} \<and>
    length (elems (foldl add s as)) \<le> length (elems s) + length as"
  using assms
proof (induction as arbitrary: s)
  case (Cons a as)
  have r: "elems (add s a) = (if good a \<and> a \<notin> set (elems s) then elems s @ [a] else elems s)"
    using Cons.prems by (intro add_room) auto
  then have "length (elems (add s a)) \<le> Suc (length (elems s))" by simp
  then show ?case using Cons.IH [of "add s a"] Cons.prems add_ok [OF Cons.prems(1)] r by (auto split: if_splits)
qed simp

end

lemma same_peer_eq: "same_peer a b \<longleftrightarrow> a = b"
  by (cases a; cases b) (auto simp: same_peer_def)

definition publish_one :: "peer_addr list \<Rightarrow> peer_addr \<Rightarrow> peer_addr list" where
  "publish_one q p = publish_candidates q [p]"

definition queue_ok :: "peer_addr list \<Rightarrow> bool" where
  "queue_ok q \<longleftrightarrow> distinct q \<and> length q \<le> MAX_TRACKER_PEERS"

lemma publish_one_eq: "publish_one q p =
    (if MAX_TRACKER_PEERS \<le> length q \<or> p \<in> set q then q else q @ [p])"
  by (auto simp: publish_one_def same_peer_eq list_ex_iff)

lemma publish_full: "MAX_TRACKER_PEERS \<le> length q \<Longrightarrow> foldl publish_one q ps = q"
  by (induction ps) (simp_all add: publish_one_eq)

lemma publish_foldl: "publish_candidates q ps = foldl publish_one q ps"
proof (induction ps arbitrary: q)
  case (Cons p ps)
  then show ?case
    using publish_full [of q ps] by (auto simp: publish_one_eq [of q p] same_peer_eq list_ex_iff)
qed simp

interpretation queue: capped_set queue_ok "\<lambda>q. q" publish_one "\<lambda>_. True" MAX_TRACKER_PEERS
  by unfold_locales (auto simp: queue_ok_def publish_one_eq)

definition cand_addrs :: "managed_torrent \<Rightarrow> peer_addr list" where
  "cand_addrs mt = map cd_addr (mt_candidates mt)"

definition table_distinct :: "managed_torrent \<Rightarrow> bool" where
  "table_distinct mt \<longleftrightarrow> distinct (cand_addrs mt) \<and> length (mt_candidates mt) \<le> MAX_TRACKER_PEERS"

lemma find_candidate_Some:
  "find_candidate mt a = Some i \<Longrightarrow> i < length (mt_candidates mt) \<and> cd_addr (mt_candidates mt ! i) = a"
  by (auto simp: find_candidate_def find_Some_iff same_peer_eq)

lemma find_candidate_None: "find_candidate mt a = None \<longleftrightarrow> a \<notin> set (cand_addrs mt)"
  by (fastforce simp: find_candidate_def find_None_iff same_peer_eq cand_addrs_def in_set_conv_nth)

lemma replaceable_in:
  assumes "replaceable_slot mt = Some i"
  shows "i < length (mt_candidates mt) \<and> cd_failures (mt_candidates mt ! i) \<noteq> 0 \<and>
    \<not> cd_connecting (mt_candidates mt ! i) \<and> \<not> peer_is_connected mt (cd_addr (mt_candidates mt ! i))"
proof -
  have "foldl (better_slot mt) None xs = Some i \<Longrightarrow> i \<in> set xs \<and> cd_failures (mt_candidates mt ! i) \<noteq> 0 \<and>
      \<not> cd_connecting (mt_candidates mt ! i) \<and> \<not> peer_is_connected mt (cd_addr (mt_candidates mt ! i))" for xs
    by (induction xs rule: rev_induct) (auto simp: better_slot_def Let_def split: if_splits)
  from this [of "[0..<length (mt_candidates mt)]"] show ?thesis
    using assms by (simp add: replaceable_slot_def)
qed

lemma add_candidate_addrs:
  "cand_addrs (add_candidate mt a) =
     (if \<not> valid_addr a \<or> a \<in> set (cand_addrs mt) then cand_addrs mt
      else if length (mt_candidates mt) = MAX_TRACKER_PEERS
      then (case replaceable_slot mt of None \<Rightarrow> cand_addrs mt | Some i \<Rightarrow> (cand_addrs mt)[i := a])
      else cand_addrs mt @ [a])"
  using find_candidate_None [of mt a]
  by (auto simp: add_candidate_def cand_addrs_def set_candidate_def candidate_zero_def map_update split: option.split)

lemma distinct_replace: "distinct xs \<Longrightarrow> a \<notin> set xs \<Longrightarrow> distinct (xs[i := a])"
  by (cases "i < length xs") (auto simp: distinct_list_update in_set_conv_nth)

interpretation candidates: capped_set table_distinct cand_addrs add_candidate valid_addr MAX_TRACKER_PEERS
proof
  fix mt :: managed_torrent and a
  assume ok: "table_distinct mt"
  then show "distinct (cand_addrs mt) \<and> length (cand_addrs mt) \<le> MAX_TRACKER_PEERS"
    by (simp add: table_distinct_def cand_addrs_def)
  have "length (mt_candidates (add_candidate mt a)) = length (cand_addrs (add_candidate mt a))"
    by (simp add: cand_addrs_def)
  then show "table_distinct (add_candidate mt a)"
    using ok unfolding table_distinct_def add_candidate_addrs
    by (auto simp: distinct_replace cand_addrs_def split: option.split)
  assume "length (cand_addrs mt) < MAX_TRACKER_PEERS"
  then show "cand_addrs (add_candidate mt a) =
      (if valid_addr a \<and> a \<notin> set (cand_addrs mt) then cand_addrs mt @ [a] else cand_addrs mt)"
    unfolding add_candidate_addrs by (simp add: cand_addrs_def)
qed

section \<open>Properties\<close>

text \<open>
  C26.  From the tracker to the table: all addresses that the trackers of a torrent publish, up to
  the 200 of the table, become candidates once they are collected, apart from those that cannot
  name a peer; the table has no address twice and forgets none that it had.
\<close>

theorem addresses_collected:
  assumes "table_distinct mt" "length (mt_candidates mt) + length ps \<le> MAX_TRACKER_PEERS"
  shows "set (cand_addrs (foldl add_candidate mt (publish_candidates [] ps))) =
      set (cand_addrs mt) \<union> {a \<in> set ps. valid_addr a} \<and>
    distinct (cand_addrs (foldl add_candidate mt (publish_candidates [] ps)))"
proof -
  let ?q = "publish_candidates [] ps"
  have q: "set ?q = set ps \<and> length ?q \<le> length ps"
    using queue.adds_room [of "[]" ps] assms(2) by (simp add: publish_foldl queue_ok_def)
  have "length (cand_addrs mt) + length ?q \<le> MAX_TRACKER_PEERS"
    using q assms(2) by (simp add: cand_addrs_def)
  from candidates.adds_room [OF assms(1) this] candidates.elems_ok [OF candidates.adds_ok [OF assms(1)], of ?q] q
  show ?thesis by auto
qed

definition demo_addr :: "nat \<Rightarrow> peer_addr" where
  "demo_addr n = \<lparr>pa_ip = of_nat n, pa_port = 6881\<rparr>"

theorem addresses_collected_witness:
  "set (cand_addrs (foldl add_candidate mt_zero (publish_candidates [] [demo_addr 7, demo_addr 9, demo_addr 7, demo_addr 0]))) =
     {demo_addr 7, demo_addr 9}"
proof -
  have v: "valid_addr (demo_addr 7)" "valid_addr (demo_addr 9)" "\<not> valid_addr (demo_addr 0)"
    by (simp_all add: valid_addr_def demo_addr_def)
  show ?thesis
    using addresses_collected [of mt_zero "[demo_addr 7, demo_addr 9, demo_addr 7, demo_addr 0]"] v
    by (auto simp: table_distinct_def cand_addrs_def mt_zero_def MAX_TRACKER_PEERS_def)
qed

text \<open>
  C27.  A full table never gives up a candidate that matters: whatever addresses arrive, one that is
  connected, being connected, or has not failed since its last success keeps its entry unchanged, and
  the table never holds more than 200 addresses.
\<close>

theorem good_candidate_kept:
  assumes "table_distinct mt" "c \<in> set (mt_candidates mt)"
    and "cd_connecting c \<or> cd_failures c = 0 \<or> peer_is_connected mt (cd_addr c)"
  shows "c \<in> set (mt_candidates (foldl add_candidate mt as)) \<and>
    length (mt_candidates (foldl add_candidate mt as)) \<le> MAX_TRACKER_PEERS"
proof
  have step: "c \<in> set (mt_candidates (add_candidate mt a)) \<and>
      peer_is_connected (add_candidate mt a) (cd_addr c) = peer_is_connected mt (cd_addr c)"
    if c: "c \<in> set (mt_candidates mt)" "cd_connecting c \<or> cd_failures c = 0 \<or> peer_is_connected mt (cd_addr c)"
    for mt a
  proof -
    obtain k where k: "k < length (mt_candidates mt)" "c = mt_candidates mt ! k" using c by (auto simp: in_set_conv_nth)
    have "replaceable_slot mt \<noteq> Some k" using c k replaceable_in [of mt k] by auto
    then have "c \<in> set ((mt_candidates mt)[i := d])" if "replaceable_slot mt = Some i" for i d
      using k that by (metis length_list_update nth_list_update_neq nth_mem option.inject)
    then show ?thesis
      using c by (auto simp: add_candidate_def set_candidate_def peer_is_connected_def split: option.split)
  qed
  show "c \<in> set (mt_candidates (foldl add_candidate mt as))" using assms(2,3)
    by (induction as arbitrary: mt) (simp_all add: step)
  show "length (mt_candidates (foldl add_candidate mt as)) \<le> MAX_TRACKER_PEERS"
    using candidates.adds_ok [OF assms(1)] by (simp add: table_distinct_def)
qed

theorem good_candidate_kept_witness:
  "candidate_zero\<lparr>cd_addr := demo_addr 7\<rparr> \<in> set (mt_candidates (foldl add_candidate
     (mt_zero\<lparr>mt_candidates := [candidate_zero\<lparr>cd_addr := demo_addr 7\<rparr>]\<rparr>) (map demo_addr [1..<400])))"
  by (rule conjunct1 [OF good_candidate_kept])
    (simp_all add: table_distinct_def cand_addrs_def candidate_zero_def MAX_TRACKER_PEERS_def)

text \<open>
  The back-off of a peer: after any failures in a row at the given times its next attempt waits
  for 30 seconds times a power of two, at most 300 seconds, after the last of them; the count stops
  at five, and no other candidate changes.
\<close>

theorem failures_back_off:
  assumes "find_candidate mt a = Some i" "cd_failures (mt_candidates mt ! i) \<le> 5" "ts \<noteq> []"
  shows "let mt' = foldl (\<lambda>mt now. record_peer_failure now a mt) mt ts;
             n = min 5 (cd_failures (mt_candidates mt ! i) + length ts)
    in mt_candidates mt' = (mt_candidates mt)[i := (mt_candidates mt ! i)
         \<lparr>cd_failures := n, cd_retry_after := last ts + of_nat (min 300 (30 * 2 ^ (n - 1)))\<rparr>]"
proof -
  have delay: "retry_delay (Suc n) = min 300 (30 * 2 ^ n)" if "n < 5" for n
  proof -
    have "n = 0 \<or> n = 1 \<or> n = 2 \<or> n = 3 \<or> n = 4" using that by auto
    then show ?thesis by (auto simp: retry_delay_def)
  qed
  have one: "find_candidate (record_peer_failure now a mt) a = Some i \<and>
      mt_candidates (record_peer_failure now a mt) = (mt_candidates mt)[i := (mt_candidates mt ! i)
        \<lparr>cd_failures := min 5 (cd_failures (mt_candidates mt ! i) + 1),
         cd_retry_after := now + of_nat (min 300 (30 * 2 ^ (min 5 (cd_failures (mt_candidates mt ! i) + 1) - 1)))\<rparr>]"
    if f: "find_candidate mt a = Some i" "cd_failures (mt_candidates mt ! i) \<le> 5" for mt now
  proof
    have c: "mt_candidates (record_peer_failure now a mt) = (mt_candidates mt)[i := (mt_candidates mt ! i)
        \<lparr>cd_failures := min 5 (cd_failures (mt_candidates mt ! i) + 1),
         cd_retry_after := now + of_nat (min 300 (30 * 2 ^ (min 5 (cd_failures (mt_candidates mt ! i) + 1) - 1)))\<rparr>]"
      using f delay [of "cd_failures (mt_candidates mt ! i)"] delay [of 4]
      by (auto simp: record_peer_failure_def set_candidate_def Let_def min_def le_Suc_eq)
    then show "mt_candidates (record_peer_failure now a mt) = \<dots>" .
    have l: "i < length (mt_candidates mt)" using find_candidate_Some [OF f(1)] by simp
    have "map cd_addr (mt_candidates (record_peer_failure now a mt)) = map cd_addr (mt_candidates mt)"
      unfolding c using l by (simp add: map_update list_update_same_conv)
    then have "cd_addr (mt_candidates (record_peer_failure now a mt) ! j) = cd_addr (mt_candidates mt ! j)"
      if "j < length (mt_candidates mt)" for j using that by (metis length_map nth_map)
    moreover have "length (mt_candidates (record_peer_failure now a mt)) = length (mt_candidates mt)" using c by simp
    ultimately show "find_candidate (record_peer_failure now a mt) a = Some i"
      using f(1) by (auto simp: find_candidate_def find_Some_iff)
  qed
  show ?thesis using assms
  proof (induction ts arbitrary: mt)
    case (Cons now ts)
    let ?mt = "record_peer_failure now a mt"
    note o = one [OF Cons.prems(1,2), of now]
    have l: "i < length (mt_candidates mt)" using find_candidate_Some [OF Cons.prems(1)] by simp
    show ?case
    proof (cases "ts = []")
      case True
      then show ?thesis using o by (simp add: Let_def)
    next
      case False
      have "cd_failures (mt_candidates ?mt ! i) \<le> 5" using o l by simp
      from Cons.IH [OF conjunct1 [OF o] this False] show ?thesis
        using o l False by (simp add: Let_def min_def)
    qed
  qed simp
qed

theorem failures_back_off_witness:
  "mt_candidates (foldl (\<lambda>mt now. record_peer_failure now (demo_addr 7) mt)
       (mt_zero\<lparr>mt_candidates := [candidate_zero\<lparr>cd_addr := demo_addr 7\<rparr>]\<rparr>) [100, 140, 210]) =
     [candidate_zero\<lparr>cd_addr := demo_addr 7, cd_failures := 3, cd_retry_after := 330\<rparr>]"
proof -
  have "find_candidate (mt_zero\<lparr>mt_candidates := [candidate_zero\<lparr>cd_addr := demo_addr 7\<rparr>]\<rparr>) (demo_addr 7) = Some 0"
    by (simp add: find_candidate_def same_peer_eq)
  from failures_back_off [OF this, of "[100, 140, 210]"] show ?thesis
    by (simp add: candidate_zero_def)
qed

end
