(* ===== verification/PeerTransfer.thy ===== *)
theory PeerTransfer
  imports Swarm
begin

text \<open>
  The transfer part of \<open>src/torrent_mgr.c\<close>: releasing a piece, dropping a peer, and the events of a peer
  (\<open>process_peer\<close>).

  \<open>process_peer\<close> works on one torrent, one of its peers and the world they share: the counter of
  assembly bytes, the sockets, the files and the descriptors closed so far.  The peer is taken out of
  the array and put back at the end, since nothing in between reads the other peers.  \<open>assembly_bytes\<close>
  is an unbounded integer; that it never leaves \<open>0 .. ASSEMBLY_LIMIT\<close> is a property below.
\<close>

section \<open>The world\<close>

record world =
  wd_assembly :: int
  wd_socks :: "int \<Rightarrow> socket"
  wd_fs :: fsys
  wd_closed :: "int list"

text \<open>
  What the kernel and the C library answer: the clock, the allocator, the file system, whether a frame
  is buffered on a socket, and \<open>errno\<close> after a failed write.
\<close>

record env =
  en_now :: u64
  en_mem :: allocator
  en_os :: kernel
  en_poll :: "socket \<Rightarrow> poll"
  en_ioctl :: bool
  en_errno :: nat

definition ASSEMBLY_LIMIT :: int where "ASSEMBLY_LIMIT = 64 * 1024 * 1024"
definition CHOKED_PEER_TIMEOUT :: u64 where "CHOKED_PEER_TIMEOUT = 45"

section \<open>Peers\<close>

definition release_piece ::
  "managed_torrent \<Rightarrow> torrent_peer \<Rightarrow> world \<Rightarrow> managed_torrent \<times> torrent_peer \<times> world" where
  "release_piece mt p w =
     (let p' = p\<lparr>pr_piece_data := None, pr_piece_size := 0, pr_piece_received := 0, pr_pending_length := 0\<rparr>
      in if pr_piece_data p = None then (mt, p', w)
         else (mt\<lparr>mt_piece_mgr := piece_release (mt_piece_mgr mt) (unat (pr_last_request p))\<rparr>, p',
               w\<lparr>wd_assembly := wd_assembly w - int (pr_piece_size p)\<rparr>))"

definition close_sock :: "int \<Rightarrow> world \<Rightarrow> world" where
  "close_sock fd w = w\<lparr>wd_closed := wd_closed w @ net_close fd\<rparr>"

definition disconnect_peer ::
  "u64 \<Rightarrow> managed_torrent \<Rightarrow> torrent_peer \<Rightarrow> world \<Rightarrow> managed_torrent \<times> torrent_peer \<times> world" where
  "disconnect_peer now mt p w =
     (let (mt, p, w) =
            (if 0 \<le> pr_sock p
             then ((if mt_state mt = TORRENT_DOWNLOADING then record_peer_failure now (pr_addr p) mt else mt)
                     \<lparr>mt_active_peers := mt_active_peers mt - 1\<rparr>,
                   p\<lparr>pr_sock := - 1\<rparr>, close_sock (pr_sock p) w)
             else (mt, p, w));
          (mt, p, w) = release_piece mt p w
      in (mt, p\<lparr>pr_bitfield := None\<rparr>, w))"

section \<open>The events of a peer\<close>

text \<open>A step either goes on with the next event or ends the handler.\<close>

datatype verdict = GoOn | Return

type_synonym peer_state = "managed_torrent \<times> torrent_peer \<times> world"

definition drop_peer :: "env \<Rightarrow> managed_torrent \<Rightarrow> torrent_peer \<Rightarrow> world \<Rightarrow> verdict \<times> peer_state" where
  "drop_peer en mt p w = (Return, disconnect_peer (en_now en) mt p w)"

definition torrent_of :: "managed_torrent \<Rightarrow> torrent" where
  "torrent_of mt = the (mt_torrent mt)"

text \<open>The availability messages: a bitfield of the exact size, or one more piece.\<close>

definition on_availability ::
  "env \<Rightarrow> peer_event \<Rightarrow> managed_torrent \<Rightarrow> torrent_peer \<Rightarrow> world \<Rightarrow> verdict \<times> peer_state" where
  "on_availability en ev mt p w =
     (let n = t_num_pieces (torrent_of mt);
          needed = (n + 7) div 8;
          i = unat (ev_index ev)
      in if (ev_type ev = 5 \<and> unat (ev_length ev) \<noteq> needed) \<or> (ev_type ev = 4 \<and> n \<le> i)
         then drop_peer en mt p w
         else if pr_bitfield p = None \<and> \<not> en_mem en needed
         then drop_peer en mt p w
         else let bf = (case pr_bitfield p of None \<Rightarrow> replicate needed 0 | Some bf \<Rightarrow> bf);
                  bf = (if ev_type ev = 5 then blit 0 (take needed (ev_data ev)) bf
                        else bf[i div 8 := bf ! (i div 8) OR bit_mask i])
              in (GoOn, mt, p\<lparr>pr_bitfield := Some bf\<rparr>, w))"

text \<open>A piece whose last block has arrived: verified, written, counted.\<close>

definition write_failed_text :: "nat \<Rightarrow> byte list" where
  "write_failed_text err = bytes ''Failed to write downloaded piece (errno='' @ dec err @ bytes '')''"

definition finish_piece ::
  "env \<Rightarrow> managed_torrent \<Rightarrow> torrent_peer \<Rightarrow> world \<Rightarrow> verdict \<times> peer_state" where
  "finish_piece en mt p w =
     (let i = unat (pr_last_request p);
          data = the (pr_piece_data p)
      in if sha1_hash data \<noteq> take 20 (drop (i * 20) (the (t_pieces (torrent_of mt))))
         then drop_peer en mt p w
         else case file_writer_write_piece (en_os en) (mt_file_writer mt) data i (wd_fs w) of
           (r, fw, fs) \<Rightarrow>
             let mt = mt\<lparr>mt_file_writer := fw\<rparr>; w = w\<lparr>wd_fs := fs\<rparr>
             in if r < 0
                then drop_peer en (set_error TERR_WRITE_FAILED (write_failed_text (en_errno en))
                                     (mt\<lparr>mt_state := TORRENT_ERROR\<rparr>)) p w
                else
                  let mt = mt\<lparr>mt_piece_mgr := snd (piece_mgr_complete (mt_piece_mgr mt) i data),
                              mt_downloaded := mt_downloaded mt + of_nat (pr_piece_size p)\<rparr>;
                      p = p\<lparr>pr_got := pr_got p + of_nat (pr_piece_size p)\<rparr>;
                      mt = (case find_candidate mt (pr_addr p) of
                              None \<Rightarrow> mt
                            | Some j \<Rightarrow> set_candidate j ((mt_candidates mt ! j)
                                          \<lparr>cd_failures := 0, cd_retry_after := 0\<rparr>) mt)
                  in (GoOn, release_piece mt p w))"

text \<open>A block: only the outstanding one is accepted.\<close>

definition on_block ::
  "env \<Rightarrow> peer_event \<Rightarrow> managed_torrent \<Rightarrow> torrent_peer \<Rightarrow> world \<Rightarrow> verdict \<times> peer_state" where
  "on_block en ev mt p w =
     (case pr_piece_data p of
        None \<Rightarrow> (GoOn, mt, p, w)
      | Some buf \<Rightarrow>
          if pr_pending_length p = 0 then (GoOn, mt, p, w)
          else if ev_index ev \<noteq> pr_last_request p \<or> ev_begin ev \<noteq> pr_piece_received p
          then (GoOn, mt, p, w)
          else if ev_length ev \<noteq> pr_pending_length p \<or>
                  pr_piece_size p - unat (pr_piece_received p) < unat (ev_length ev)
          then drop_peer en mt p w
          else
            let p = p\<lparr>pr_piece_data := Some (blit (unat (ev_begin ev)) (ev_data ev) buf),
                      pr_piece_received := pr_piece_received p + ev_length ev, pr_pending_length := 0\<rparr>;
                mt = mt\<lparr>mt_last_progress_time := en_now en\<rparr>
            in if unat (pr_piece_received p) = pr_piece_size p then finish_piece en mt p w
               else (GoOn, mt, p, w))"

definition on_event ::
  "env \<Rightarrow> peer_event \<Rightarrow> managed_torrent \<Rightarrow> torrent_peer \<Rightarrow> world \<Rightarrow> verdict \<times> peer_state" where
  "on_event en ev mt p w =
     (if ev_type ev = 0 then (GoOn, mt, p\<lparr>pr_choked := True, pr_pending_length := 0\<rparr>, w)
      else if ev_type ev = 1 then (GoOn, mt, p\<lparr>pr_choked := False\<rparr>, w)
      else if ev_type ev = 5 \<or> ev_type ev = 4 then on_availability en ev mt p w
      else if ev_type ev = 7 then on_block en ev mt p w
      else (GoOn, mt, p, w))"

definition blank_event :: peer_event where
  "blank_event = \<lparr>ev_type = 0, ev_index = 0, ev_begin = 0, ev_data = [], ev_length = 0\<rparr>"

text \<open>Up to eight events; the loop ends early when no whole frame is buffered.\<close>

primrec peer_events ::
  "nat \<Rightarrow> env \<Rightarrow> managed_torrent \<Rightarrow> torrent_peer \<Rightarrow> world \<Rightarrow> verdict \<times> peer_state" where
  "peer_events 0 en mt p w = (GoOn, mt, p, w)"
| "peer_events (Suc n) en mt p w =
     (let sk = wd_socks w (pr_sock p)
      in case peer_recv_event (en_mem en) (en_poll en sk) (en_ioctl en) True True 0 blank_event sk of
        (ret, ev, sk) \<Rightarrow>
          let w = w\<lparr>wd_socks := (wd_socks w)(pr_sock p := sk)\<rparr>
          in if ret = 2 then (GoOn, mt, p, w)
             else if ret < 0 then drop_peer en mt p w
             else case on_event en ev mt (p\<lparr>pr_last_activity := en_now en\<rparr>) w of
               (Return, s) \<Rightarrow> (Return, s)
             | (GoOn, mt, p, w) \<Rightarrow> peer_events n en mt p w)"

section \<open>Requests\<close>

text \<open>\<open>size\<close> of the next piece, in 64-bit arithmetic.\<close>

definition next_size :: "torrent \<Rightarrow> nat \<Rightarrow> u64" where
  "next_size t next =
     (let size = t_piece_length t
      in if next = t_num_pieces t - 1 then t_total_size t - of_nat next * size else size)"

text \<open>The next block of the piece in hand.\<close>

definition request_block :: "env \<Rightarrow> managed_torrent \<Rightarrow> torrent_peer \<Rightarrow> world \<Rightarrow> peer_state" where
  "request_block en mt p w =
     (let remaining = pr_piece_size p - unat (pr_piece_received p);
          len = (if PEER_BLOCK_SIZE < remaining then of_nat PEER_BLOCK_SIZE else of_nat remaining) :: u32
      in case peer_send_request (wd_socks w (pr_sock p)) (pr_last_request p) (pr_piece_received p) len of
        (r, sk) \<Rightarrow>
          let w = w\<lparr>wd_socks := (wd_socks w)(pr_sock p := sk)\<rparr>
          in if r < 0 then disconnect_peer (en_now en) mt p w
             else (mt, p\<lparr>pr_pending_length := len, pr_request_time := en_now en\<rparr>, w))"

definition too_big_text :: "byte list" where
  "too_big_text = bytes ''Piece size exceeds the 64 MiB assembly limit''"

definition next_request :: "env \<Rightarrow> managed_torrent \<Rightarrow> torrent_peer \<Rightarrow> world \<Rightarrow> peer_state" where
  "next_request en mt p w =
     (if pr_choked p \<or> pr_pending_length p \<noteq> 0 \<or> pr_bitfield p = None then (mt, p, w)
      else if pr_piece_data p \<noteq> None then request_block en mt p w
      else
        let next = piece_mgr_get_next (mt_piece_mgr mt) (pr_bitfield p)
        in if next < 0 then (mt, p, w)
           else let size = int (unat (next_size (torrent_of mt) (nat next)))
           in if ASSEMBLY_LIMIT < size
              then (set_error TERR_PARSE_FAILED too_big_text (mt\<lparr>mt_state := TORRENT_ERROR\<rparr>), p, w)
              else if ASSEMBLY_LIMIT - wd_assembly w < size then (mt, p, w)
              else if \<not> en_mem en (nat size) then disconnect_peer (en_now en) mt p w
              else request_block en
                     (mt\<lparr>mt_piece_mgr := piece_mgr_request (mt_piece_mgr mt) (nat next)\<rparr>)
                     (p\<lparr>pr_piece_data := Some (replicate (nat size) 0), pr_piece_size := nat size,
                        pr_piece_received := 0, pr_last_request := of_int next\<rparr>)
                     (w\<lparr>wd_assembly := wd_assembly w + size\<rparr>))"

definition peer_expired :: "u64 \<Rightarrow> torrent_peer \<Rightarrow> bool" where
  "peer_expired now p \<longleftrightarrow>
     (pr_choked p \<and> pr_pending_length p = 0 \<and> CHOKED_PEER_TIMEOUT \<le> now - pr_last_activity p) \<or>
     (pr_pending_length p \<noteq> 0 \<and> 60 \<le> now - pr_request_time p) \<or> 180 \<le> now - pr_last_activity p"

definition serve_peer :: "env \<Rightarrow> managed_torrent \<Rightarrow> torrent_peer \<Rightarrow> world \<Rightarrow> peer_state" where
  "serve_peer en mt p w =
     (if pr_sock p < 0 \<or> mt_state mt \<noteq> TORRENT_DOWNLOADING then (mt, p, w)
      else let p = (if pr_last_activity p = 0 then p\<lparr>pr_last_activity := en_now en\<rparr> else p)
      in if peer_expired (en_now en) p then disconnect_peer (en_now en) mt p w
         else case peer_events 8 en mt p w of
           (Return, s) \<Rightarrow> s
         | (GoOn, mt, p, w) \<Rightarrow> next_request en mt p w)"

definition process_peer :: "env \<Rightarrow> nat \<Rightarrow> managed_torrent \<Rightarrow> world \<Rightarrow> managed_torrent \<times> world" where
  "process_peer en i mt w =
     (case serve_peer en mt (mt_peers mt ! i) w of
        (mt', p, w) \<Rightarrow> (mt'\<lparr>mt_peers := (mt_peers mt)[i := p]\<rparr>, w))"

section \<open>Blocks\<close>

text \<open>A received block has exactly the length that the event reports.\<close>

lemma payload_block:
  assumes "peer_payload mem True i len ev sk = (r, ev', sk')" "0 \<le> r" "i = PEER_MSG_PIECE"
  shows "length (ev_data ev') = unat (ev_length ev') \<or> ev_length ev' = 0"
  using assms
  by (auto simp: peer_payload_def peer_msg_defs Let_def word_gt_0 dest!: recv_length
      split: option.splits prod.splits if_splits)

lemma payload_type: "ev_type (fst (snd (peer_payload mem dg i len ev sk))) = ev_type ev"
  by (simp add: peer_payload_def Let_def split: option.split prod.split)

lemma frame_block:
  assumes "peer_frame mem True ev sk = (r, ev', sk')" "0 \<le> r" "ev_type ev' = 7" "ev_type ev \<noteq> 7"
  shows "length (ev_data ev') = unat (ev_length ev') \<or> ev_length ev' = 0"
proof -
  obtain len i ev1 sk1 where p: "peer_payload mem True i len ev1 sk1 = (r, ev', sk')" "ev_type ev1 = int (unat i)"
    using assms by (auto simp: peer_frame_def Let_def split: option.splits prod.splits if_splits)
  have "ev_type ev' = ev_type ev1" using payload_type [of mem True i len ev1 sk1] p(1) by simp
  then have "int (unat i) = int 7" using p(2) assms(3) by (metis of_nat_numeral)
  then have "unat i = 7" by (metis of_nat_eq_iff)
  then have "i = PEER_MSG_PIECE" by (simp add: PEER_MSG_PIECE_def word_unat_eq_iff)
  then show ?thesis using payload_block [OF p(1) assms(2)] by simp
qed

lemma event_block:
  assumes "peer_recv_event mem po io True True 0 ev sk = (r, ev', sk')" "0 \<le> r" "r \<noteq> 2" "ev_type ev' = 7"
  shows "length (ev_data ev') = unat (ev_length ev') \<or> ev_length ev' = 0"
proof -
  have "peer_frame mem True (ev\<lparr>ev_type := PEER_MSG_KEEPALIVE, ev_length := 0\<rparr>) sk = (r, ev', sk')"
    using assms by (auto simp: peer_recv_event_def Let_def PEER_MSG_KEEPALIVE_def split: option.splits)
  then show ?thesis
    by (rule frame_block [OF _ assms(2,4)]) (simp add: PEER_MSG_KEEPALIVE_def)
qed

section \<open>The board\<close>

text \<open>What the calls of the piece manager change at one piece, and what they leave alone.\<close>

definition only_at :: "nat \<Rightarrow> piece_mgr \<Rightarrow> piece_mgr \<Rightarrow> bool" where
  "only_at i pm pm' \<longleftrightarrow> pm_num_pieces pm' = pm_num_pieces pm \<and>
     (\<forall>j < pm_num_pieces pm. pc_hash (piece_at pm' j) = pc_hash (piece_at pm j) \<and>
        (j \<noteq> i \<longrightarrow> state_at pm' j = state_at pm j))"

lemma only_at_refl [simp]: "only_at i pm pm"
  by (simp add: only_at_def)

lemma set_state_at:
  assumes "pm_ok pm" "i < pm_num_pieces pm" "state_at pm i \<noteq> PIECE_COMPLETE" "s \<noteq> PIECE_COMPLETE"
  shows "pm_ok (set_state i s pm) \<and> only_at i pm (set_state i s pm) \<and> state_at (set_state i s pm) i = s \<and>
    done_set (set_state i s pm) = done_set pm"
proof -
  have sh: "pm_shape pm" using assms(1) by (simp add: pm_ok_def)
  have nd: "i \<notin> done_set pm" using assms(3) by (simp add: done_set_def)
  show ?thesis
    using set_state_ok [OF assms(1,2) nd assms(4)] state_set_state [OF sh] assms(2,4) nd
      done_set_state [OF sh assms(2), of s]
    by (simp add: only_at_def)
qed

lemma release_at:
  assumes "pm_ok pm" "i < pm_num_pieces pm" "state_at pm i \<noteq> PIECE_COMPLETE"
  shows "pm_ok (piece_release pm i) \<and> only_at i pm (piece_release pm i) \<and>
    done_set (piece_release pm i) = done_set pm"
proof -
  have "pm_pieces pm \<noteq> None" using assms(1) by (auto simp: pm_ok_def pm_shape_def)
  then show ?thesis using set_state_at [OF assms, of PIECE_FREE] assms(2,3) by (simp add: piece_release_def)
qed

lemma request_at:
  assumes "pm_ok pm" "i < pm_num_pieces pm" "state_at pm i \<noteq> PIECE_COMPLETE"
  shows "pm_ok (piece_mgr_request pm i) \<and> only_at i pm (piece_mgr_request pm i) \<and>
    state_at (piece_mgr_request pm i) i = PIECE_REQUESTED \<and> done_set (piece_mgr_request pm i) = done_set pm"
  using set_state_at [OF assms, of PIECE_REQUESTED] assms(2) by (simp add: piece_mgr_request_def)

lemma complete_at:
  assumes "pm_ok pm" "i < pm_num_pieces pm" "state_at pm i \<noteq> PIECE_COMPLETE"
    and "sha1_hash d = pc_hash (piece_at pm i)"
  shows "pm_ok (snd (piece_mgr_complete pm i d)) \<and> only_at i pm (snd (piece_mgr_complete pm i d)) \<and>
    state_at (snd (piece_mgr_complete pm i d)) i = PIECE_COMPLETE \<and>
    done_set (snd (piece_mgr_complete pm i d)) = insert i (done_set pm)"
proof -
  have nd: "i \<notin> done_set pm" using assms(3) by (simp add: done_set_def)
  show ?thesis
    using complete_match [OF assms(1,2) nd assms(4)] complete_state [OF assms(1,2)] assms(2,4)
    by (simp add: only_at_def)
qed

text \<open>The bytes of a piece within the content.\<close>

definition slice :: "torrent \<Rightarrow> nat \<Rightarrow> byte list \<Rightarrow> byte list" where
  "slice t i c = take (torrent_piece_size t i) (drop (piece_place t i) c)"

lemma piece_room:
  assumes "torrent_wf t" "i < t_num_pieces t"
  shows "piece_place t i + torrent_piece_size t i \<le> nat (sint (t_total_size t))"
    "0 < torrent_piece_size t i"
    "i < j \<Longrightarrow> piece_place t i + torrent_piece_size t i \<le> piece_place t j"
proof -
  obtain T P where w: "sint (t_total_size t) = int T" "sint (t_piece_length t) = int P"
      "unat (t_total_size t) = T" "unat (t_piece_length t) = P" "0 < P"
    by (rule wf_nat [OF assms(1)])
  note sz = piece_size_eq [OF assms(1) w(3,4) assms(2)]
  show "piece_place t i + torrent_piece_size t i \<le> nat (sint (t_total_size t))"
    "0 < torrent_piece_size t i"
    using sz w by (simp_all add: piece_place_def)
  show "piece_place t i + torrent_piece_size t i \<le> piece_place t j" if "i < j"
  proof -
    have "Suc i * P \<le> j * P" using that by (intro mult_right_mono) auto
    then show ?thesis using sz w by (simp add: piece_place_def)
  qed
qed

lemma slice_blit:
  assumes "torrent_wf t" "i < t_num_pieces t" "length xs = torrent_piece_size t i"
    and "length c = nat (sint (t_total_size t))"
  shows "slice t i (blit (piece_place t i) xs c) = xs"
proof -
  have "piece_place t i + length xs \<le> length c" using piece_room(1) [OF assms(1,2)] assms(3,4) by simp
  then have "drop (piece_place t i) (blit (piece_place t i) xs c) = xs @ drop (piece_place t i + length xs) c"
    by (simp add: blit_def)
  then show ?thesis using assms(3) by (simp add: slice_def)
qed

lemma slice_outside:
  assumes "torrent_wf t" "i < t_num_pieces t" "j < t_num_pieces t" "i \<noteq> j"
    and "length xs = torrent_piece_size t i" "same_outside (piece_place t i) (length xs) 0 c c'"
  shows "slice t j c' = slice t j c"
proof (rule nth_equalityI)
  have l: "length c' = length c" using assms(6) by (simp add: same_outside_def)
  then show "length (slice t j c') = length (slice t j c)" by (simp add: slice_def)
  fix k assume "k < length (slice t j c')"
  then have k: "k < torrent_piece_size t j" "piece_place t j + k < length c" using l by (auto simp: slice_def)
  have "piece_place t j + k < piece_place t i \<or> piece_place t i + length xs \<le> piece_place t j + k"
    using piece_room(3) [OF assms(1,2), of j] piece_room(3) [OF assms(1,3), of i] assms(4,5) k(1)
    by (cases i j rule: linorder_cases) auto
  then have "c' ! (piece_place t j + k) = c ! (piece_place t j + k)"
    using assms(6) k(2) by (auto simp: same_outside_def)
  then show "slice t j c' ! k = slice t j c ! k" using k l by (simp add: slice_def)
qed

text \<open>
  The board of a running torrent: the manager was set up with its digests, the writer is open on it,
  and every complete piece is on disk with the digest that the torrent lists.
\<close>

definition on_disk :: "torrent \<Rightarrow> piece_mgr \<Rightarrow> file_writer \<times> fsys \<Rightarrow> bool" where
  "on_disk t pm d \<longleftrightarrow>
     (\<forall>i \<in> done_set pm. sha1_hash (slice t i (writer_view t d)) = piece_digest (the (t_pieces t)) i)"

definition board_ok :: "kernel \<Rightarrow> torrent \<Rightarrow> piece_mgr \<Rightarrow> file_writer \<Rightarrow> fsys \<Rightarrow> bool" where
  "board_ok os t pm fw fs \<longleftrightarrow>
     pm_small pm \<and> pm_num_pieces pm = t_num_pieces t \<and>
     (\<forall>i < t_num_pieces t. pc_hash (piece_at pm i) = piece_digest (the (t_pieces t)) i) \<and>
     writer_ok os t (fw, fs) \<and> on_disk t pm (fw, fs)"

lemma board_step:
  assumes "board_ok os t pm fw fs" "pm_ok pm'" "only_at i pm pm'" "done_set pm' = done_set pm"
  shows "board_ok os t pm' fw fs"
  using assms by (auto simp: board_ok_def pm_small_def only_at_def on_disk_def)

text \<open>A write of a piece that is not complete keeps the board, whether it succeeds or not.\<close>

lemma board_write:
  assumes b: "board_ok os t pm fw fs" and i: "i < t_num_pieces t" "i \<notin> done_set pm"
    and d: "length d = torrent_piece_size t i"
    and w: "file_writer_write_piece os fw d i fs = (r, fw', fs')"
  shows "board_ok os t pm fw' fs'"
    and "r = 0 \<Longrightarrow> slice t i (writer_view t (fw', fs')) = d"
proof -
  have ok: "writer_ok os t (fw, fs)" and wf: "torrent_wf t" using b by (auto simp: board_ok_def writer_ok_def)
  note out = write_piece_outside [OF ok w]
  have sl: "slice t j (writer_view t (fw', fs')) = slice t j (writer_view t (fw, fs))" if "j \<in> done_set pm" for j
    using slice_outside [OF wf i(1) _ _ d conjunct2 [OF out], of j] that b i(2) done_set_below [OF that]
    by (auto simp: board_ok_def)
  then show "board_ok os t pm fw' fs'" using b out by (auto simp: board_ok_def on_disk_def)
  show "slice t i (writer_view t (fw', fs')) = d" if "r = 0"
  proof -
    have put: "writer_put os i d (fw, fs) = Some (fw', fs')" using w that by (simp add: writer_put_def)
    have "writer_view t (fw', fs') = blit (piece_place t i) d (writer_view t (fw, fs))"
      using disk.put_view [OF ok _ put] piece_room(1) [OF wf i(1)] d by simp
    then show ?thesis using slice_blit [OF wf i(1) d] disk.view_size [OF ok] by simp
  qed
qed

lemma board_complete:
  assumes b: "board_ok os t pm fw fs" and i: "i < t_num_pieces t" "i \<notin> done_set pm"
    and d: "sha1_hash d = piece_digest (the (t_pieces t)) i" "slice t i (writer_view t (fw, fs)) = d"
  shows "board_ok os t (snd (piece_mgr_complete pm i d)) fw fs"
proof -
  define pm' where "pm' = snd (piece_mgr_complete pm i d)"
  have "state_at pm i \<noteq> PIECE_COMPLETE" "pm_ok pm" "i < pm_num_pieces pm" "sha1_hash d = pc_hash (piece_at pm i)"
    using b i d(1) by (auto simp: board_ok_def pm_small_def done_set_def)
  then have c: "pm_ok pm'" "only_at i pm pm'" "done_set pm' = insert i (done_set pm)"
    unfolding pm'_def using complete_at [of pm i d] by simp_all
  have "sha1_hash (slice t i (writer_view t (fw, fs))) = piece_digest (the (t_pieces t)) i"
    using d by simp
  then have "on_disk t pm' (fw, fs)" using b c(3) by (simp add: board_ok_def on_disk_def)
  then have "board_ok os t pm' fw fs" using b c by (simp add: board_ok_def pm_small_def only_at_def)
  then show ?thesis by (simp add: pm'_def)
qed

section \<open>One peer\<close>

text \<open>
  A peer with a piece in hand holds a requested piece of the torrent, in a buffer of its size, with
  part of it received and the outstanding block inside the rest.
\<close>

definition peer_ok :: "torrent \<Rightarrow> piece_mgr \<Rightarrow> torrent_peer \<Rightarrow> bool" where
  "peer_ok t pm p \<longleftrightarrow>
     (case pr_piece_data p of
        None \<Rightarrow> pr_piece_size p = 0 \<and> pr_piece_received p = 0 \<and> pr_pending_length p = 0
      | Some d \<Rightarrow> unat (pr_last_request p) < t_num_pieces t \<and>
          state_at pm (unat (pr_last_request p)) = PIECE_REQUESTED \<and>
          pr_piece_size p = torrent_piece_size t (unat (pr_last_request p)) \<and>
          length d = pr_piece_size p \<and> int (pr_piece_size p) \<le> ASSEMBLY_LIMIT \<and>
          unat (pr_piece_received p) \<le> pr_piece_size p \<and>
          unat (pr_pending_length p) \<le> pr_piece_size p - unat (pr_piece_received p)) \<and>
     (case pr_bitfield p of None \<Rightarrow> True | Some bf \<Rightarrow> length bf = (t_num_pieces t + 7) div 8)"

definition held :: "torrent_peer \<Rightarrow> nat set" where
  "held p = (if pr_piece_data p = None then {} else {unat (pr_last_request p)})"

text \<open>
  The invariant of the handler of one peer: \<open>others\<close> are the pieces in the hands of other peers and of
  web seed jobs, \<open>base\<close> the bytes that the other peers assemble.
\<close>

definition one_ok :: "kernel \<Rightarrow> torrent \<Rightarrow> nat set \<Rightarrow> int \<Rightarrow> peer_state \<Rightarrow> bool" where
  "one_ok os t others base s \<longleftrightarrow> (case s of (mt, p, w) \<Rightarrow>
     mt_torrent mt = Some t \<and> board_ok os t (mt_piece_mgr mt) (mt_file_writer mt) (wd_fs w) \<and>
     peer_ok t (mt_piece_mgr mt) p \<and>
     (\<forall>i \<in> others. i < t_num_pieces t \<and> state_at (mt_piece_mgr mt) i = PIECE_REQUESTED) \<and>
     held p \<inter> others = {} \<and>
     wd_assembly w = base + int (pr_piece_size p) \<and> 0 \<le> base \<and> wd_assembly w \<le> ASSEMBLY_LIMIT)"

text \<open>The parts of a torrent that the bookkeeping of candidates and errors leaves alone.\<close>

lemma bookkeeping [simp]:
  "mt_torrent (record_peer_failure now a mt) = mt_torrent mt"
  "mt_piece_mgr (record_peer_failure now a mt) = mt_piece_mgr mt"
  "mt_file_writer (record_peer_failure now a mt) = mt_file_writer mt"
  "mt_peers (record_peer_failure now a mt) = mt_peers mt"
  "mt_torrent (set_candidate j c mt) = mt_torrent mt"
  "mt_piece_mgr (set_candidate j c mt) = mt_piece_mgr mt"
  "mt_file_writer (set_candidate j c mt) = mt_file_writer mt"
  "mt_peers (set_candidate j c mt) = mt_peers mt"
  "mt_torrent (set_error e msg mt) = mt_torrent mt"
  "mt_piece_mgr (set_error e msg mt) = mt_piece_mgr mt"
  "mt_file_writer (set_error e msg mt) = mt_file_writer mt"
  "mt_peers (set_error e msg mt) = mt_peers mt"
  by (simp_all add: record_peer_failure_def set_candidate_def set_error_def Let_def split: option.split)

lemma one_torrent: "one_ok os t others base (mt, p, w) \<Longrightarrow> torrent_of mt = t"
  by (simp add: one_ok_def torrent_of_def)

lemma release_one:
  assumes "one_ok os t others base (mt, p, w)"
  shows "one_ok os t others base (release_piece mt p w)"
proof (cases "pr_piece_data p")
  case None
  then show ?thesis using assms by (simp add: release_piece_def one_ok_def peer_ok_def held_def Let_def)
next
  case (Some d)
  let ?i = "unat (pr_last_request p)" and ?pm = "mt_piece_mgr mt"
  have b: "board_ok os t ?pm (mt_file_writer mt) (wd_fs w)" and pk: "peer_ok t ?pm p"
    using assms by (auto simp: one_ok_def)
  have i: "?i < pm_num_pieces ?pm" "state_at ?pm ?i = PIECE_REQUESTED" "?i \<notin> others"
    using pk b Some assms by (auto simp: peer_ok_def board_ok_def one_ok_def held_def)
  have r: "pm_ok (piece_release ?pm ?i)" "only_at ?i ?pm (piece_release ?pm ?i)"
    "done_set (piece_release ?pm ?i) = done_set ?pm"
    using release_at [of ?pm ?i] b i(1,2) by (simp_all add: board_ok_def pm_small_def)
  have "state_at (piece_release ?pm ?i) j = PIECE_REQUESTED" if "j \<in> others" for j
    using r(2) that i(3) assms b by (auto simp: only_at_def one_ok_def board_ok_def)
  moreover have "peer_ok t (piece_release ?pm ?i)
      (p\<lparr>pr_piece_data := None, pr_piece_size := 0, pr_piece_received := 0, pr_pending_length := 0\<rparr>)"
    using pk by (simp add: peer_ok_def)
  ultimately show ?thesis
    using assms Some board_step [OF b r] by (simp add: release_piece_def one_ok_def held_def Let_def)
qed

lemma one_ok_cong:
  assumes "one_ok os t others base (mt, p, w)"
    and "mt_torrent mt' = mt_torrent mt" "mt_piece_mgr mt' = mt_piece_mgr mt" "mt_file_writer mt' = mt_file_writer mt"
    and "pr_piece_data p' = pr_piece_data p" "pr_piece_size p' = pr_piece_size p"
    and "pr_piece_received p' = pr_piece_received p" "pr_pending_length p' = pr_pending_length p \<or> pr_pending_length p' = 0"
    and "pr_last_request p' = pr_last_request p" "pr_bitfield p' = pr_bitfield p \<or>
      (case pr_bitfield p' of None \<Rightarrow> True | Some bf \<Rightarrow> length bf = (t_num_pieces t + 7) div 8)"
    and "wd_assembly w' = wd_assembly w" "wd_fs w' = wd_fs w"
  shows "one_ok os t others base (mt', p', w')"
  using assms by (auto simp: one_ok_def peer_ok_def held_def split: option.splits)

lemma disconnect_one:
  assumes "one_ok os t others base (mt, p, w)"
  shows "one_ok os t others base (disconnect_peer now mt p w)"
proof -
  let ?mt = "(if mt_state mt = TORRENT_DOWNLOADING then record_peer_failure now (pr_addr p) mt else mt)
     \<lparr>mt_active_peers := mt_active_peers mt - 1\<rparr>"
  let ?s = "if 0 \<le> pr_sock p then (?mt, p\<lparr>pr_sock := - 1\<rparr>, close_sock (pr_sock p) w) else (mt, p, w)"
  have "one_ok os t others base ?s"
    using assms one_ok_cong [OF assms, of ?mt "p\<lparr>pr_sock := - 1\<rparr>" "close_sock (pr_sock p) w"]
    by (auto simp: close_sock_def)
  moreover obtain mt1 p1 w1 where s: "?s = (mt1, p1, w1)" by (metis prod.exhaust)
  ultimately have "one_ok os t others base (release_piece mt1 p1 w1)" by (simp only: release_one)
  moreover obtain mt2 p2 w2 where r: "release_piece mt1 p1 w1 = (mt2, p2, w2)" by (metis prod.exhaust)
  ultimately have "one_ok os t others base (mt2, p2\<lparr>pr_bitfield := None\<rparr>, w2)"
    by (auto intro: one_ok_cong)
  moreover have "disconnect_peer now mt p w = (mt2, p2\<lparr>pr_bitfield := None\<rparr>, w2)"
    unfolding disconnect_peer_def s Let_def using r by simp
  ultimately show ?thesis by simp
qed

lemma drop_one: "one_ok os t others base (mt, p, w) \<Longrightarrow> one_ok os t others base (snd (drop_peer en mt p w))"
  by (simp add: drop_peer_def disconnect_one)

lemma length_update_blit: "length xs \<le> length bf \<Longrightarrow> length (blit 0 xs bf) = length bf"
  by simp

lemma availability_one:
  assumes "one_ok os t others base (mt, p, w)"
  shows "one_ok os t others base (snd (on_availability en ev mt p w))"
proof -
  let ?needed = "(t_num_pieces t + 7) div 8"
  define bf where "bf = (case pr_bitfield p of None \<Rightarrow> replicate ?needed 0 | Some bf \<Rightarrow> bf)"
  have l: "length bf = ?needed"
    using assms by (auto simp: bf_def one_ok_def peer_ok_def split: option.splits)
  have set: "one_ok os t others base (mt, p\<lparr>pr_bitfield := Some bf'\<rparr>, w)" if "length bf' = ?needed" for bf'
    by (rule one_ok_cong [OF assms]) (use that in simp_all)
  have "length (blit 0 (take ?needed (ev_data ev)) bf) = ?needed"
    using l by (subst length_blit) simp_all
  then show ?thesis
    using drop_one [OF assms] set l one_torrent [OF assms]
    by (simp add: on_availability_def Let_def bf_def [symmetric])
qed

lemma finish_one:
  assumes one: "one_ok os t others base (mt, p, w)" and os: "en_os en = os"
    and data: "pr_piece_data p = Some d" "length d = pr_piece_size p"
  shows "one_ok os t others base (snd (finish_piece en mt p w))"
proof -
  let ?i = "unat (pr_last_request p)" and ?pm = "mt_piece_mgr mt"
  have b: "board_ok os t ?pm (mt_file_writer mt) (wd_fs w)" and pk: "peer_ok t ?pm p"
    and mt: "mt_torrent mt = Some t" using one by (auto simp: one_ok_def)
  have i: "?i < t_num_pieces t" "state_at ?pm ?i = PIECE_REQUESTED" "?i \<notin> others"
    "pr_piece_size p = torrent_piece_size t ?i"
    using pk data one by (auto simp: peer_ok_def one_ok_def held_def)
  have nd: "?i \<notin> done_set ?pm" using i(2) by (simp add: done_set_def)
  show ?thesis
  proof (cases "sha1_hash d = piece_digest (the (t_pieces t)) ?i")
    case False
    then show ?thesis
      using drop_one [OF one] data(1) mt by (simp add: finish_piece_def Let_def torrent_of_def piece_digest_def)
  next
    case hash: True
    obtain r fw fs where wr: "file_writer_write_piece os (mt_file_writer mt) d ?i (wd_fs w) = (r, fw, fs)"
      by (metis prod.exhaust)
    have ld: "length d = torrent_piece_size t ?i" using data(2) i(4) by simp
    note bw = board_write [OF b i(1) nd ld wr]
    have one': "one_ok os t others base (mt\<lparr>mt_file_writer := fw\<rparr>, p, w\<lparr>wd_fs := fs\<rparr>)"
      using one bw(1) by (simp add: one_ok_def)
    show ?thesis
    proof (cases "r < 0")
      case True
      have "one_ok os t others base (set_error TERR_WRITE_FAILED (write_failed_text (en_errno en))
          (mt\<lparr>mt_file_writer := fw, mt_state := TORRENT_ERROR\<rparr>), p, w\<lparr>wd_fs := fs\<rparr>)"
        by (rule one_ok_cong [OF one']) simp_all
      from drop_one [OF this] show ?thesis
        using True hash wr data(1) mt os
        by (simp add: finish_piece_def Let_def torrent_of_def piece_digest_def)
    next
      case False
      have r0: "r = 0"
        using wr False by (auto simp: file_writer_write_piece_def Let_def split: option.splits prod.splits if_splits)
      let ?pm' = "snd (piece_mgr_complete ?pm ?i d)"
      have c: "board_ok os t ?pm' fw fs" by (rule board_complete [OF bw(1) i(1) nd hash bw(2) [OF r0]])
      have ca: "only_at ?i ?pm ?pm'"
        using complete_at [of ?pm ?i d] b i(1,2) hash by (simp add: board_ok_def pm_small_def)
      define mt1 where "mt1 = mt\<lparr>mt_file_writer := fw, mt_piece_mgr := ?pm',
        mt_downloaded := mt_downloaded mt + of_nat (pr_piece_size p)\<rparr>"
      define mt2 where "mt2 = (case find_candidate mt1 (pr_addr p) of None \<Rightarrow> mt1
        | Some j \<Rightarrow> set_candidate j ((mt_candidates mt1 ! j)\<lparr>cd_failures := 0, cd_retry_after := 0\<rparr>) mt1)"
      have mt2: "mt_torrent mt2 = Some t" "mt_piece_mgr mt2 = ?pm'" "mt_file_writer mt2 = fw"
        by (simp_all add: mt2_def mt1_def mt split: option.split)
      have fin: "snd (finish_piece en mt p w) =
          release_piece mt2 (p\<lparr>pr_got := pr_got p + of_nat (pr_piece_size p)\<rparr>) (w\<lparr>wd_fs := fs\<rparr>)"
        using False hash wr data(1) mt os
        by (simp add: finish_piece_def Let_def torrent_of_def piece_digest_def mt2_def mt1_def
            split: option.split)
      have rel: "piece_release ?pm' ?i = ?pm'"
        using complete_at [of ?pm ?i d] b i(1,2) hash by (simp add: board_ok_def pm_small_def piece_release_def)
      have "state_at ?pm' j = PIECE_REQUESTED" if "j \<in> others" for j
        using ca that i(3) one b by (auto simp: only_at_def one_ok_def board_ok_def)
      then show ?thesis
        unfolding fin release_piece_def using one c mt2 rel data(1) pk
        by (simp add: one_ok_def Let_def held_def peer_ok_def)
    qed
  qed
qed

text \<open>The outstanding block is accepted into its place in the buffer.\<close>

definition block_exact :: "peer_event \<Rightarrow> bool" where
  "block_exact ev \<longleftrightarrow> (ev_type ev = 7 \<longrightarrow> length (ev_data ev) = unat (ev_length ev) \<or> ev_length ev = 0)"

lemma block_one:
  assumes one: "one_ok os t others base (mt, p, w)" and os: "en_os en = os"
    and ev: "ev_type ev = 7" "block_exact ev"
  shows "one_ok os t others base (snd (on_block en ev mt p w))"
proof (cases "pr_piece_data p = None \<or> pr_pending_length p = 0 \<or> ev_index ev \<noteq> pr_last_request p \<or>
    ev_begin ev \<noteq> pr_piece_received p")
  case True
  then show ?thesis using one by (auto simp: on_block_def split: option.split)
next
  case acc: False
  then obtain buf where buf: "pr_piece_data p = Some buf" by auto
  show ?thesis
  proof (cases "ev_length ev \<noteq> pr_pending_length p \<or> pr_piece_size p - unat (pr_piece_received p) < unat (ev_length ev)")
    case True
    then show ?thesis using drop_one [OF one] acc buf by (simp add: on_block_def)
  next
    case False
    let ?n = "ev_length ev" and ?r = "pr_piece_received p" and ?size = "pr_piece_size p"
    have pk: "length buf = ?size" "int ?size \<le> ASSEMBLY_LIMIT" "unat ?r \<le> ?size"
      using one buf by (auto simp: one_ok_def peer_ok_def)
    have n: "unat ?n \<le> ?size - unat ?r" "length (ev_data ev) = unat ?n"
      using False ev acc by (auto simp: block_exact_def)
    have sum: "unat (?r + ?n) = unat ?r + unat ?n"
      using n(1) pk(2,3) by (intro unat_add_lem [THEN iffD1]) (simp add: ASSEMBLY_LIMIT_def)
    define p' where "p' = p\<lparr>pr_piece_data := Some (blit (unat (ev_begin ev)) (ev_data ev) buf),
        pr_piece_received := ?r + ?n, pr_pending_length := 0\<rparr>"
    define mt' where "mt' = mt\<lparr>mt_last_progress_time := en_now en\<rparr>"
    have len: "length (blit (unat (ev_begin ev)) (ev_data ev) buf) = ?size"
      using n pk acc by (subst length_blit) auto
    then have "one_ok os t others base (mt', p', w)"
      using one buf n(1) pk sum by (simp add: one_ok_def peer_ok_def held_def p'_def mt'_def)
    moreover have "snd (on_block en ev mt p w) =
        (if unat (pr_piece_received p') = pr_piece_size p' then snd (finish_piece en mt' p' w) else (mt', p', w))"
      using acc False buf by (simp add: on_block_def Let_def p'_def mt'_def)
    ultimately show ?thesis
      using finish_one [OF _ os, of t others base mt' p' w] len by (simp add: p'_def)
  qed
qed

lemma event_one:
  assumes "one_ok os t others base (mt, p, w)" "en_os en = os" "block_exact ev"
  shows "one_ok os t others base (snd (on_event en ev mt p w))"
proof -
  have "one_ok os t others base (mt, p\<lparr>pr_choked := True, pr_pending_length := 0\<rparr>, w)"
    "one_ok os t others base (mt, p\<lparr>pr_choked := False\<rparr>, w)"
    by (rule one_ok_cong [OF assms(1)]; simp)+
  then show ?thesis
    using assms availability_one [OF assms(1)] block_one [OF assms(1,2) _ assms(3)]
    by (simp add: on_event_def)
qed

lemma events_one:
  "one_ok os t others base (mt, p, w) \<Longrightarrow> en_os en = os \<Longrightarrow>
   one_ok os t others base (snd (peer_events n en mt p w))"
proof (induction n arbitrary: mt p w)
  case (Suc n)
  let ?sk = "wd_socks w (pr_sock p)"
  obtain ret ev sk where r: "peer_recv_event (en_mem en) (en_poll en ?sk) (en_ioctl en) True True 0
      blank_event ?sk = (ret, ev, sk)" by (metis prod.exhaust)
  let ?w = "w\<lparr>wd_socks := (wd_socks w)(pr_sock p := sk)\<rparr>" and ?p = "p\<lparr>pr_last_activity := en_now en\<rparr>"
  have one: "one_ok os t others base (mt, p, ?w)" "one_ok os t others base (mt, ?p, ?w)"
    by (rule one_ok_cong [OF Suc.prems(1)]; simp)+
  show ?case
  proof (cases "ret = 2 \<or> ret < 0")
    case True
    then show ?thesis using one(1) drop_one [OF one(1)] r by (auto simp: Let_def)
  next
    case False
    then have "block_exact ev" using event_block [OF r] by (simp add: block_exact_def)
    from event_one [OF one(2) Suc.prems(2) this]
    have e: "one_ok os t others base (snd (on_event en ev mt ?p ?w))" .
    obtain v mt1 p1 w1 where v: "on_event en ev mt ?p ?w = (v, mt1, p1, w1)" by (metis prod.exhaust)
    show ?thesis
      using False r v e Suc.IH [OF _ Suc.prems(2), of mt1 p1 w1] by (cases v) (simp_all add: Let_def)
  qed
qed simp

lemma request_one:
  assumes one: "one_ok os t others base (mt, p, w)" and d: "pr_piece_data p \<noteq> None"
  shows "one_ok os t others base (request_block en mt p w)"
proof -
  let ?rem = "pr_piece_size p - unat (pr_piece_received p)"
  define len where "len = (if PEER_BLOCK_SIZE < ?rem then of_nat PEER_BLOCK_SIZE else of_nat ?rem :: u32)"
  have "int (pr_piece_size p) \<le> ASSEMBLY_LIMIT" using one d by (auto simp: one_ok_def peer_ok_def)
  then have "unat (of_nat ?rem :: u32) = ?rem" by (intro unat_of_nat32) (simp add: ASSEMBLY_LIMIT_def)
  moreover have "unat (of_nat PEER_BLOCK_SIZE :: u32) = PEER_BLOCK_SIZE"
    by (intro unat_of_nat32) (simp add: PEER_BLOCK_SIZE_def)
  ultimately have len: "unat len \<le> ?rem" by (simp add: len_def)
  obtain r sk where s: "peer_send_request (wd_socks w (pr_sock p)) (pr_last_request p) (pr_piece_received p) len
      = (r, sk)" by (metis prod.exhaust)
  let ?w = "w\<lparr>wd_socks := (wd_socks w)(pr_sock p := sk)\<rparr>"
  have one': "one_ok os t others base (mt, p, ?w)" by (rule one_ok_cong [OF one]) simp_all
  then have "one_ok os t others base (mt, p\<lparr>pr_pending_length := len, pr_request_time := en_now en\<rparr>, ?w)"
    using len d by (auto simp: one_ok_def peer_ok_def held_def)
  then show ?thesis
    using s disconnect_one [OF one'] by (simp add: request_block_def len_def [symmetric] Let_def)
qed

text \<open>What \<open>piece_mgr_get_next\<close> names is a free piece.\<close>

lemma next_free:
  assumes "pm_small pm" "\<not> piece_mgr_get_next pm bf < 0"
  shows "nat (piece_mgr_get_next pm bf) < pm_num_pieces pm"
    "state_at pm (nat (piece_mgr_get_next pm bf)) = PIECE_FREE"
    "of_int (piece_mgr_get_next pm bf) = (of_nat (nat (piece_mgr_get_next pm bf)) :: u32)"
proof -
  have ne: "Collect (wanted pm bf) \<noteq> {}" using board.nxt_none [OF assms(1), of bf] assms(2) by auto
  have "Min (Collect (wanted pm bf)) \<in> Collect (wanted pm bf)"
    using Min_in [OF board.finite_free [OF assms(1)] ne] .
  then show "nat (piece_mgr_get_next pm bf) < pm_num_pieces pm"
    "state_at pm (nat (piece_mgr_get_next pm bf)) = PIECE_FREE"
    using board.nxt_least [OF assms(1) ne] by (simp_all add: wanted_def)
  show "of_int (piece_mgr_get_next pm bf) = (of_nat (nat (piece_mgr_get_next pm bf)) :: u32)"
    using assms(2) by simp
qed

lemma next_size_eq: "i < t_num_pieces t \<Longrightarrow> unat (next_size t i) = torrent_piece_size t i"
  by (simp add: next_size_def torrent_piece_size_def Let_def)

lemma claim_one:
  assumes one: "one_ok os t others base (mt, p, w)" and free: "pr_piece_data p = None"
    and i: "i < t_num_pieces t" "state_at (mt_piece_mgr mt) i = PIECE_FREE" "t_num_pieces t \<le> 2 ^ 31"
    and size: "wd_assembly w + int (torrent_piece_size t i) \<le> ASSEMBLY_LIMIT"
    and bf: "pr_pending_length p = 0"
  shows "one_ok os t others base
    (mt\<lparr>mt_piece_mgr := piece_mgr_request (mt_piece_mgr mt) i\<rparr>,
     p\<lparr>pr_piece_data := Some (replicate (torrent_piece_size t i) 0), pr_piece_size := torrent_piece_size t i,
       pr_piece_received := 0, pr_last_request := of_nat i\<rparr>,
     w\<lparr>wd_assembly := wd_assembly w + int (torrent_piece_size t i)\<rparr>)"
proof -
  let ?pm = "mt_piece_mgr mt"
  have b: "board_ok os t ?pm (mt_file_writer mt) (wd_fs w)" using one by (simp add: one_ok_def)
  have r: "pm_ok (piece_mgr_request ?pm i)" "only_at i ?pm (piece_mgr_request ?pm i)"
    "state_at (piece_mgr_request ?pm i) i = PIECE_REQUESTED" "done_set (piece_mgr_request ?pm i) = done_set ?pm"
    using request_at [of ?pm i] b i by (simp_all add: board_ok_def pm_small_def)
  have u: "unat (of_nat i :: u32) = i" using i(1,3) by (intro unat_of_nat32) simp
  have no: "i \<notin> others" using one i(2) by (auto simp: one_ok_def)
  have "state_at (piece_mgr_request ?pm i) j = PIECE_REQUESTED" if "j \<in> others" for j
    using r(2) that no one b by (auto simp: only_at_def one_ok_def board_ok_def)
  then show ?thesis
    using one free i(1) size bf no u r(3) board_step [OF b r(1,2,4)]
    by (simp add: one_ok_def peer_ok_def held_def)
qed

lemma next_one:
  assumes one: "one_ok os t others base (mt, p, w)"
  shows "one_ok os t others base (next_request en mt p w)"
proof (cases "pr_choked p \<or> pr_pending_length p \<noteq> 0 \<or> pr_bitfield p = None")
  case True
  then show ?thesis using one by (auto simp: next_request_def)
next
  case go: False
  show ?thesis
  proof (cases "pr_piece_data p")
    case (Some d)
    then show ?thesis using go request_one [OF one] by (auto simp: next_request_def)
  next
    case None
    let ?n = "piece_mgr_get_next (mt_piece_mgr mt) (pr_bitfield p)"
    have sm: "pm_small (mt_piece_mgr mt)" "pm_num_pieces (mt_piece_mgr mt) = t_num_pieces t"
      using one by (auto simp: one_ok_def board_ok_def)
    have t: "torrent_of mt = t" by (rule one_torrent [OF one])
    show ?thesis
    proof (cases "?n < 0")
      case True
      then show ?thesis using go None one by (simp add: next_request_def)
    next
      case False
      note nf = next_free [OF sm(1) False]
      let ?size = "torrent_piece_size t (nat ?n)"
      have sz: "unat (next_size t (nat ?n)) = ?size" using nf(1) sm(2) by (simp add: next_size_eq)
      have err: "one_ok os t others base
          (set_error TERR_PARSE_FAILED too_big_text (mt\<lparr>mt_state := TORRENT_ERROR\<rparr>), p, w)"
        by (rule one_ok_cong [OF one]) simp_all
      have claim: "one_ok os t others base (request_block en
          (mt\<lparr>mt_piece_mgr := piece_mgr_request (mt_piece_mgr mt) (nat ?n)\<rparr>)
          (p\<lparr>pr_piece_data := Some (replicate ?size 0), pr_piece_size := ?size,
             pr_piece_received := 0, pr_last_request := of_int ?n\<rparr>)
          (w\<lparr>wd_assembly := wd_assembly w + int ?size\<rparr>))" if "\<not> ASSEMBLY_LIMIT - wd_assembly w < int ?size"
        unfolding nf(3)
        by (intro request_one claim_one [OF one None])
          (use nf(1,2) sm that go in \<open>simp_all add: pm_small_def\<close>)
      show ?thesis
        using go None False one err claim disconnect_one [OF one, of "en_now en"]
        by (simp add: next_request_def t sz Let_def)
    qed
  qed
qed

lemma serve_one:
  assumes one: "one_ok os t others base (mt, p, w)" and os: "en_os en = os"
  shows "one_ok os t others base (serve_peer en mt p w)"
proof (cases "pr_sock p < 0 \<or> mt_state mt \<noteq> TORRENT_DOWNLOADING")
  case True
  then show ?thesis using one by (auto simp: serve_peer_def)
next
  case False
  let ?p = "if pr_last_activity p = 0 then p\<lparr>pr_last_activity := en_now en\<rparr> else p"
  have one': "one_ok os t others base (mt, ?p, w)" by (rule one_ok_cong [OF one]) simp_all
  obtain v mt1 p1 w1 where v: "peer_events 8 en mt ?p w = (v, mt1, p1, w1)" by (metis prod.exhaust)
  have "one_ok os t others base (mt1, p1, w1)" using events_one [OF one' os, of 8] v by simp
  then have "one_ok os t others base (case v of Return \<Rightarrow> (mt1, p1, w1) | GoOn \<Rightarrow> next_request en mt1 p1 w1)"
    using next_one by (cases v) simp_all
  moreover have "serve_peer en mt p w = (if peer_expired (en_now en) ?p then disconnect_peer (en_now en) mt ?p w
      else case v of Return \<Rightarrow> (mt1, p1, w1) | GoOn \<Rightarrow> next_request en mt1 p1 w1)"
    using False v by (cases v) (simp_all only: serve_peer_def Let_def if_False prod.case verdict.case)
  ultimately show ?thesis using disconnect_one [OF one'] by simp
qed

section \<open>The peers of a torrent\<close>

definition held_list :: "torrent_peer list \<Rightarrow> nat list" where
  "held_list ps = concat (map (\<lambda>p. if pr_piece_data p = None then [] else [unat (pr_last_request p)]) ps)"

definition assembling :: "torrent_peer list \<Rightarrow> int" where
  "assembling ps = (\<Sum>p\<leftarrow>ps. int (pr_piece_size p))"

text \<open>
  The invariant of a running torrent: the board, every peer, and no piece in two hands.  \<open>jobs\<close> are
  the pieces of its web seed jobs, \<open>base\<close> the assembly bytes of the other torrents.
\<close>

definition swarm_ok :: "kernel \<Rightarrow> torrent \<Rightarrow> nat list \<Rightarrow> int \<Rightarrow> managed_torrent \<Rightarrow> world \<Rightarrow> bool" where
  "swarm_ok os t jobs base mt w \<longleftrightarrow>
     mt_torrent mt = Some t \<and> board_ok os t (mt_piece_mgr mt) (mt_file_writer mt) (wd_fs w) \<and>
     (\<forall>p \<in> set (mt_peers mt). peer_ok t (mt_piece_mgr mt) p) \<and>
     distinct (held_list (mt_peers mt) @ jobs) \<and>
     (\<forall>i \<in> set jobs. i < t_num_pieces t \<and> state_at (mt_piece_mgr mt) i = PIECE_REQUESTED) \<and>
     wd_assembly w = base + assembling (mt_peers mt) \<and> 0 \<le> base \<and> wd_assembly w \<le> ASSEMBLY_LIMIT"

definition held1 :: "torrent_peer \<Rightarrow> nat list" where
  "held1 p = (if pr_piece_data p = None then [] else [unat (pr_last_request p)])"

lemma held_list_simps [simp]:
  "held_list [] = []" "held_list (p # ps) = held1 p @ held_list ps" "held_list (ps @ qs) = held_list ps @ held_list qs"
  by (simp_all add: held_list_def held1_def)

lemma held_held1: "held p = set (held1 p)"
  by (simp add: held_def held1_def)

lemma assembling_simps [simp]:
  "assembling [] = 0" "assembling (p # ps) = int (pr_piece_size p) + assembling ps"
  "assembling (ps @ qs) = assembling ps + assembling qs"
  by (simp_all add: assembling_def)

lemma assembling_nonneg: "0 \<le> assembling ps"
  by (induction ps) simp_all

lemma peer_ok_board:
  assumes "peer_ok t pm p" "\<forall>i \<in> held p. state_at pm' i = PIECE_REQUESTED"
  shows "peer_ok t pm' p"
  using assms by (auto simp: peer_ok_def held_def split: option.splits)

lemma peer_ok_held: "peer_ok t pm p \<Longrightarrow> i \<in> held p \<Longrightarrow> i < t_num_pieces t \<and> state_at pm i = PIECE_REQUESTED"
  by (auto simp: peer_ok_def held_def split: option.splits if_splits)

lemma held_list_iff: "i \<in> set (held_list ps) \<longleftrightarrow> (\<exists>p \<in> set ps. i \<in> held p)"
  by (auto simp: held_list_def held_def split: if_splits)

lemma swarm_split:
  assumes "swarm_ok os t jobs base mt w" "mt_peers mt = xs @ p # ys"
  shows "one_ok os t (set (held_list (xs @ ys) @ jobs)) (base + assembling (xs @ ys)) (mt, p, w)"
proof -
  have "i < t_num_pieces t \<and> state_at (mt_piece_mgr mt) i = PIECE_REQUESTED"
    if i: "i \<in> set (held_list (xs @ ys) @ jobs)" for i
  proof (cases "i \<in> set jobs")
    case False
    then obtain q where "q \<in> set (xs @ ys)" "i \<in> held q" using i held_list_iff [of i xs] held_list_iff [of i ys] by auto
    then show ?thesis using assms peer_ok_held [of t "mt_piece_mgr mt" q i] by (auto simp: swarm_ok_def)
  qed (use assms in \<open>auto simp: swarm_ok_def\<close>)
  moreover have "held p \<inter> set (held_list (xs @ ys) @ jobs) = {}"
    using assms by (auto simp: swarm_ok_def held_held1)
  ultimately show ?thesis
    using assms assembling_nonneg [of xs] assembling_nonneg [of ys]
    by (simp add: one_ok_def swarm_ok_def)
qed

lemma swarm_join:
  assumes one: "one_ok os t (set (held_list (xs @ ys) @ jobs)) (base + assembling (xs @ ys)) (mt', p', w')"
    and old: "swarm_ok os t jobs base mt w" "mt_peers mt = xs @ p # ys"
  shows "swarm_ok os t jobs base (mt'\<lparr>mt_peers := xs @ p' # ys\<rparr>) w'"
proof -
  have st: "state_at (mt_piece_mgr mt') i = PIECE_REQUESTED" if "i \<in> set (held_list (xs @ ys) @ jobs)" for i
    using one that by (simp add: one_ok_def)
  have "peer_ok t (mt_piece_mgr mt') q" if "q \<in> set (xs @ ys)" for q
  proof (rule peer_ok_board)
    show "peer_ok t (mt_piece_mgr mt) q" using old that by (auto simp: swarm_ok_def)
    have "i \<in> set (held_list (xs @ ys) @ jobs)" if "i \<in> held q" for i
      using that \<open>q \<in> set (xs @ ys)\<close> held_list_iff [of i "xs @ ys"] unfolding set_append Un_iff by blast
    then show "\<forall>i \<in> held q. state_at (mt_piece_mgr mt') i = PIECE_REQUESTED" using st by blast
  qed
  moreover have "distinct (held1 p')" by (simp add: held1_def)
  then have "distinct (held_list (xs @ p' # ys) @ jobs)"
    using old one by (auto simp: swarm_ok_def one_ok_def held_held1)
  moreover have "i < t_num_pieces t \<and> state_at (mt_piece_mgr mt') i = PIECE_REQUESTED" if "i \<in> set jobs" for i
    using one that by (simp add: one_ok_def)
  ultimately show ?thesis using one old by (auto simp: swarm_ok_def one_ok_def)
qed

lemma process_swarm:
  assumes "swarm_ok (en_os en) t jobs base mt w" "i < length (mt_peers mt)"
    and "process_peer en i mt w = (mt', w')"
  shows "swarm_ok (en_os en) t jobs base mt' w'"
proof -
  let ?xs = "take i (mt_peers mt)" and ?ys = "drop (Suc i) (mt_peers mt)" and ?p = "mt_peers mt ! i"
  have sp: "mt_peers mt = ?xs @ ?p # ?ys" using assms(2) by (simp add: id_take_nth_drop)
  obtain mt1 p1 w1 where s: "serve_peer en mt ?p w = (mt1, p1, w1)" by (metis prod.exhaust)
  have "one_ok (en_os en) t (set (held_list (?xs @ ?ys) @ jobs)) (base + assembling (?xs @ ?ys)) (mt1, p1, w1)"
    using serve_one [OF swarm_split [OF assms(1) sp] refl] unfolding s .
  then have "swarm_ok (en_os en) t jobs base (mt1\<lparr>mt_peers := ?xs @ p1 # ?ys\<rparr>) w1"
    by (rule swarm_join [OF _ assms(1) sp])
  moreover have "(mt_peers mt)[i := p1] = ?xs @ p1 # ?ys" using assms(2) by (simp add: upd_conv_take_nth_drop)
  ultimately show ?thesis using assms(3) s by (auto simp: process_peer_def)
qed

section \<open>What the handler of a peer leaves alone\<close>

text \<open>
  The generation of the torrent and its state up to an error; a peer keeps its socket or has nothing
  in hand any more.
\<close>

definition frame :: "managed_torrent \<Rightarrow> torrent_peer \<Rightarrow> peer_state \<Rightarrow> bool" where
  "frame mt p s \<longleftrightarrow> (case s of (mt', p', w') \<Rightarrow>
     mt_generation mt' = mt_generation mt \<and> mt_save_path mt' = mt_save_path mt \<and>
     (mt_state mt' = mt_state mt \<or> mt_state mt' = TORRENT_ERROR) \<and>
     (pr_sock p' = pr_sock p \<or> pr_piece_data p' = None))"

lemma record_failure_fields [simp]:
  "mt_generation (record_peer_failure now a mt) = mt_generation mt"
  "mt_save_path (record_peer_failure now a mt) = mt_save_path mt"
  "mt_state (record_peer_failure now a mt) = mt_state mt"
  "mt_peers (record_peer_failure now a mt) = mt_peers mt"
  "mt_active_peers (record_peer_failure now a mt) = mt_active_peers mt"
  by (simp_all add: record_peer_failure_def set_candidate_def Let_def split: option.split)

lemma frame_disconnect: "frame mt p (disconnect_peer now mt p w)"
  by (simp add: frame_def disconnect_peer_def release_piece_def Let_def)

lemma frame_disconnect_in:
  "mt_generation mt' = mt_generation mt \<Longrightarrow> mt_save_path mt' = mt_save_path mt \<Longrightarrow>
   mt_state mt' = mt_state mt \<or> mt_state mt' = TORRENT_ERROR \<Longrightarrow>
   frame mt p (disconnect_peer now mt' p' w)"
  by (auto simp: frame_def disconnect_peer_def release_piece_def Let_def)

lemma frame_availability: "frame mt p (snd (on_availability en ev mt p w))"
  using frame_disconnect [of mt p "en_now en" w]
  by (simp add: on_availability_def drop_peer_def Let_def) (simp add: frame_def)

lemma frame_finish: "frame mt p (snd (finish_piece en mt p w))"
  using frame_disconnect [of mt p "en_now en" w] frame_disconnect_in
  by (simp add: finish_piece_def drop_peer_def set_error_def Let_def split: prod.split)
    (simp add: frame_def release_piece_def set_candidate_def Let_def split: option.split)

lemma frame_on_block: "frame mt p (snd (on_block en ev mt p w))"
proof -
  have mono: "frame mt p s" if "frame (mt\<lparr>mt_last_progress_time := en_now en\<rparr>) (p\<lparr>pr_piece_data := Some d,
      pr_piece_received := r, pr_pending_length := 0\<rparr>) s" for d r s
    using that by (auto simp: frame_def)
  show ?thesis
    using frame_disconnect [of mt p "en_now en" w] frame_finish [THEN mono]
    by (simp add: on_block_def drop_peer_def Let_def split: option.split) (simp add: frame_def)
qed

lemma frame_event: "frame mt p (snd (on_event en ev mt p w))"
  using frame_availability frame_on_block by (simp add: on_event_def) (simp add: frame_def)

lemma frame_trans: "frame mt p (mt1, p1, w1) \<Longrightarrow> frame mt1 p1 s \<Longrightarrow> pr_sock p1 = pr_sock p \<Longrightarrow> frame mt p s"
  by (auto simp: frame_def)

text \<open>A peer that goes on to the next event has kept its socket.\<close>

lemma event_goes_on:
  "on_event en ev mt p w = (GoOn, mt', p', w') \<Longrightarrow> pr_sock p' = pr_sock p"
  by (auto simp: on_event_def on_availability_def on_block_def finish_piece_def drop_peer_def release_piece_def Let_def
      split: if_splits option.splits prod.splits)

lemma frame_events:
  "frame mt p (snd (peer_events n en mt p w)) \<and>
   (fst (peer_events n en mt p w) = GoOn \<longrightarrow> pr_sock (fst (snd (snd (peer_events n en mt p w)))) = pr_sock p)"
proof (induction n arbitrary: mt p w)
  case (Suc n)
  let ?sk = "wd_socks w (pr_sock p)"
  obtain ret ev sk where r: "peer_recv_event (en_mem en) (en_poll en ?sk) (en_ioctl en) True True 0
      blank_event ?sk = (ret, ev, sk)" by (metis prod.exhaust)
  let ?w = "w\<lparr>wd_socks := (wd_socks w)(pr_sock p := sk)\<rparr>" and ?p = "p\<lparr>pr_last_activity := en_now en\<rparr>"
  obtain v mt1 p1 w1 where v: "on_event en ev mt ?p ?w = (v, mt1, p1, w1)" by (metis prod.exhaust)
  have f: "frame mt p (mt1, p1, w1)" using frame_event [of mt ?p en ev ?w] v by (simp add: frame_def)
  show ?case
  proof (cases v)
    case GoOn
    then have "pr_sock p1 = pr_sock p" using event_goes_on [of en ev mt ?p ?w] v by simp
    then show ?thesis
      using r v GoOn Suc.IH [of mt1 p1 w1] frame_trans [OF f] frame_disconnect [of mt p "en_now en" ?w]
      by (simp add: Let_def drop_peer_def) (simp add: frame_def)
  next
    case Return
    then show ?thesis
      using r v f frame_disconnect [of mt p "en_now en" ?w]
      by (simp add: Let_def drop_peer_def) (simp add: frame_def)
  qed
qed (simp add: frame_def)

lemma frame_block_request: "frame mt p (request_block en mt p w)"
  using frame_disconnect
  by (simp add: request_block_def Let_def split: prod.split) (simp add: frame_def)

lemma frame_next: "frame mt p (next_request en mt p w)"
proof -
  have mono: "frame mt p s" if "frame (mt\<lparr>mt_piece_mgr := pm\<rparr>) (p\<lparr>pr_piece_data := d, pr_piece_size := n,
      pr_piece_received := r, pr_last_request := i\<rparr>) s" for pm d n r i s
    using that by (auto simp: frame_def)
  show ?thesis
    using frame_disconnect [of mt p "en_now en" w] frame_block_request [of mt p en w] frame_block_request [THEN mono]
    by (simp add: next_request_def Let_def) (simp add: frame_def set_error_def)
qed

lemma frame_serve: "frame mt p (serve_peer en mt p w)"
proof -
  define q where "q = (if pr_last_activity p = 0 then p\<lparr>pr_last_activity := en_now en\<rparr> else p)"
  have mono: "frame mt q s \<Longrightarrow> frame mt p s" for s by (auto simp: frame_def q_def)
  obtain v mt1 p1 w1 where v: "peer_events 8 en mt q w = (v, mt1, p1, w1)" by (metis prod.exhaust)
  have f: "frame mt q (mt1, p1, w1)" "v = GoOn \<Longrightarrow> pr_sock p1 = pr_sock q"
    using frame_events [where n = 8 and en = en and mt = mt and p = q and w = w] v by simp_all
  have "frame mt q (case v of Return \<Rightarrow> (mt1, p1, w1) | GoOn \<Rightarrow> next_request en mt1 p1 w1)"
    using f frame_trans [OF f(1) frame_next] by (cases v) simp_all
  moreover have "serve_peer en mt p w = (if pr_sock p < 0 \<or> mt_state mt \<noteq> TORRENT_DOWNLOADING then (mt, p, w)
      else if peer_expired (en_now en) q then disconnect_peer (en_now en) mt q w
      else case v of Return \<Rightarrow> (mt1, p1, w1) | GoOn \<Rightarrow> next_request en mt1 p1 w1)"
    using v by (cases v) (simp_all only: serve_peer_def Let_def q_def [symmetric] prod.case verdict.case)
  moreover have "frame mt p (mt, p, w)" by (simp add: frame_def)
  ultimately show ?thesis using mono frame_disconnect [of mt q "en_now en" w] by (simp split del: if_split) simp
qed

end
