(* ===== verification/WebJobs.thy ===== *)
theory WebJobs
  imports PeerTransfer "HOL-Library.Multiset"
begin

text \<open>
  The web seed jobs of \<open>src/torrent_mgr.c\<close>: the copy of a torrent that a worker owns, the choice of a
  batch, the worker, and the collection of a finished batch.
\<close>

definition WEB_SEED_PARALLEL_PER_TORRENT :: nat where "WEB_SEED_PARALLEL_PER_TORRENT = 4"
definition WEB_SEED_BATCH_PIECES :: nat where "WEB_SEED_BATCH_PIECES = 4"
definition WEB_SEED_MAX_JOBS :: nat where
  "WEB_SEED_MAX_JOBS = MAX_TORRENTS * WEB_SEED_PARALLEL_PER_TORRENT"

section \<open>The copy for a worker\<close>

text \<open>\<open>strdup\<close> of a string, of one that may be \<open>NULL\<close>, and of an array of strings.\<close>

definition strdup :: "allocator \<Rightarrow> byte list \<Rightarrow> byte list option" where
  "strdup mem s = dup_str mem (cstr s)"

definition strdup_opt :: "allocator \<Rightarrow> byte list option \<Rightarrow> byte list option option" where
  "strdup_opt mem s = (case s of None \<Rightarrow> Some None | Some s \<Rightarrow> map_option Some (strdup mem s))"

primrec strdup_all :: "allocator \<Rightarrow> byte list list \<Rightarrow> byte list list option" where
  "strdup_all mem [] = Some []"
| "strdup_all mem (s # ss) =
     (case strdup mem s of None \<Rightarrow> None
      | Some c \<Rightarrow> map_option (\<lambda>cs. c # cs) (strdup_all mem ss))"

definition sizeof_ptr :: nat where "sizeof_ptr = 8"

definition clone_strings :: "allocator \<Rightarrow> byte list list \<Rightarrow> byte list list option" where
  "clone_strings mem ss =
     (if ss = [] then Some [] else if \<not> mem (length ss * sizeof_ptr) then None else strdup_all mem ss)"

primrec clone_files :: "allocator \<Rightarrow> torrent_file list \<Rightarrow> torrent_file list option" where
  "clone_files mem [] = Some []"
| "clone_files mem (f # fs) =
     (case strdup_opt mem (tf_path f) of None \<Rightarrow> None
      | Some p \<Rightarrow> map_option (\<lambda>gs. f\<lparr>tf_path := p\<rparr> # gs) (clone_files mem fs))"

definition torrent_clone_for_worker :: "allocator \<Rightarrow> torrent \<Rightarrow> torrent option" where
  "torrent_clone_for_worker mem src =
     (if \<not> mem sizeof_torrent then None
      else do {
        announce \<leftarrow> strdup_opt mem (t_announce src);
        announce_list \<leftarrow> clone_strings mem (t_announce_list src);
        web_seeds \<leftarrow> clone_strings mem (t_web_seeds src);
        name \<leftarrow> strdup_opt mem (t_name src);
        file_name \<leftarrow> strdup_opt mem (t_file_name src);
        pieces \<leftarrow> (if t_pieces_len src = 0 then Some None
                   else if mem (t_pieces_len src)
                   then Some (Some (take (t_pieces_len src) (the (t_pieces src)))) else None);
        files \<leftarrow> (if t_files src = [] then Some []
                  else if mem (length (t_files src) * sizeof_file) then clone_files mem (t_files src)
                  else None);
        Some (torrent_zero\<lparr>t_info_hash := t_info_hash src, t_piece_length := t_piece_length src,
          t_pieces_len := t_pieces_len src, t_num_pieces := t_num_pieces src,
          t_is_multi_file := t_is_multi_file src, t_total_size := t_total_size src,
          t_length := t_length src, t_announce := announce, t_announce_len := t_announce_len src,
          t_announce_list := announce_list, t_web_seeds := web_seeds, t_name := name,
          t_name_len := t_name_len src, t_file_name := file_name, t_pieces := pieces, t_files := files\<rparr>)
      })"

section \<open>Jobs\<close>

record web_seed_job =
  wj_generation :: u64
  wj_first_piece :: nat
  wj_piece_sizes :: "nat list"
  wj_total_size :: nat
  wj_data :: "byte list"
  wj_torrent :: torrent
  wj_ok :: bool
  wj_done :: bool

definition sizeof_web_seed_job :: nat where "sizeof_web_seed_job = 96"

text \<open>The pieces of the batch.\<close>

definition job_pieces :: "web_seed_job \<Rightarrow> nat list" where
  "job_pieces job = [wj_first_piece job..<wj_first_piece job + length (wj_piece_sizes job)]"

text \<open>The worker.\<close>

definition fetch_web_seed_piece :: "seed_net \<Rightarrow> web_seed_job \<Rightarrow> web_seed_job" where
  "fetch_web_seed_piece net job =
     (case web_seed_fetch_pieces net (wj_torrent job) (wj_first_piece job) (wj_piece_sizes job) of
        None \<Rightarrow> job\<lparr>wj_ok := False, wj_done := True\<rparr>
      | Some data \<Rightarrow> job\<lparr>wj_data := data, wj_ok := True, wj_done := True\<rparr>)"

section \<open>Collecting a batch\<close>

text \<open>
  The loop over the pieces of a delivered batch: each one that is not complete is verified, written
  and completed.  The result has the number of pieces saved and whether one failed.
\<close>

primrec save_pieces ::
  "env \<Rightarrow> nat list \<Rightarrow> nat \<Rightarrow> byte list \<Rightarrow> managed_torrent \<Rightarrow> world \<Rightarrow> nat \<Rightarrow>
   managed_torrent \<times> world \<times> nat \<times> bool" where
  "save_pieces en [] index data mt w saved = (mt, w, saved, False)"
| "save_pieces en (n # ns) index data mt w saved =
     (let pm = mt_piece_mgr mt; d = take n data
      in if pm_num_pieces pm \<le> index \<or> state_at pm index = PIECE_COMPLETE
         then save_pieces en ns (Suc index) (drop n data) mt w saved
         else if sha1_hash d \<noteq> take 20 (drop (index * 20) (the (t_pieces (torrent_of mt))))
         then (mt\<lparr>mt_piece_mgr := set_state index PIECE_FREE pm\<rparr>, w, saved, True)
         else case file_writer_write_piece (en_os en) (mt_file_writer mt) d index (wd_fs w) of
           (r, fw, fs) \<Rightarrow>
             let mt = mt\<lparr>mt_file_writer := fw\<rparr>; w = w\<lparr>wd_fs := fs\<rparr>
             in if r \<noteq> 0 then (mt\<lparr>mt_piece_mgr := set_state index PIECE_FREE pm\<rparr>, w, saved, True)
                else case piece_mgr_complete pm index d of
                  (c, pm) \<Rightarrow>
                    if c \<noteq> 0 then (mt\<lparr>mt_piece_mgr := set_state index PIECE_FREE pm\<rparr>, w, saved, True)
                    else save_pieces en ns (Suc index) (drop n data)
                           (mt\<lparr>mt_piece_mgr := pm, mt_downloaded := mt_downloaded mt + of_nat n\<rparr>)
                           w (Suc saved))"

text \<open>The pieces that are handed back: those from the \<open>k\<close>-th of the batch on that are not complete.\<close>

definition release_from :: "nat \<Rightarrow> web_seed_job \<Rightarrow> managed_torrent \<Rightarrow> managed_torrent" where
  "release_from k job mt =
     mt\<lparr>mt_piece_mgr := foldl piece_release (mt_piece_mgr mt) (drop k (job_pieces job))\<rparr>"

definition collect_batch :: "env \<Rightarrow> web_seed_job \<Rightarrow> managed_torrent \<Rightarrow> world \<Rightarrow> managed_torrent \<times> world" where
  "collect_batch en job mt w =
     (if pm_num_pieces (mt_piece_mgr mt) \<le> wj_first_piece job then (mt, w)
      else if wj_ok job
      then case save_pieces en (wj_piece_sizes job) (wj_first_piece job) (wj_data job) mt w 0 of
             (mt, w, saved, failed) \<Rightarrow>
               let mt = (if saved \<noteq> 0 then mt\<lparr>mt_last_progress_time := en_now en\<rparr> else mt)
               in (if failed then release_from saved job mt else mt, w)
      else (release_from 0 job mt, w))"

section \<open>Scheduling a batch\<close>

definition web_seed_active_count :: "web_seed_job option list \<Rightarrow> u64 \<Rightarrow> nat" where
  "web_seed_active_count jobs gen =
     length (filter (\<lambda>j. case j of None \<Rightarrow> False | Some j \<Rightarrow> wj_generation j = gen) jobs)"

text \<open>The sizes of consecutive free pieces, at most \<open>n\<close> of them.\<close>

primrec batch_sizes :: "nat \<Rightarrow> torrent \<Rightarrow> piece_mgr \<Rightarrow> nat \<Rightarrow> nat \<Rightarrow> nat list" where
  "batch_sizes 0 t pm index acc = []"
| "batch_sizes (Suc n) t pm index acc =
     (if t_num_pieces t \<le> index \<or> state_at pm index \<noteq> PIECE_FREE then []
      else let size = torrent_piece_size t index
           in if size = 0 \<or> ASSEMBLY_LIMIT < int (acc + size) then []
              else size # batch_sizes n t pm (Suc index) (acc + size))"

definition first_slot :: "'a option list \<Rightarrow> nat option" where
  "first_slot jobs = find (\<lambda>i. jobs ! i = None) [0..<length jobs]"

text \<open>The job as it is handed to its worker.\<close>

definition new_web_job :: "u64 \<Rightarrow> nat \<Rightarrow> nat list \<Rightarrow> torrent \<Rightarrow> web_seed_job" where
  "new_web_job gen first sizes copy =
     \<lparr>wj_generation = gen, wj_first_piece = first, wj_piece_sizes = sizes, wj_total_size = sum_list sizes,
      wj_data = [], wj_torrent = copy, wj_ok = False, wj_done = False\<rparr>"

text \<open>One batch; the flag says whether one was started.  \<open>spawn\<close> is the answer of the thread library.\<close>

definition schedule_web_seed_one ::
  "env \<Rightarrow> bool \<Rightarrow> managed_torrent \<Rightarrow> web_seed_job option list \<Rightarrow>
   bool \<times> managed_torrent \<times> web_seed_job option list" where
  "schedule_web_seed_one en spawn mt jobs =
     (case mt_torrent mt of
        None \<Rightarrow> (False, mt, jobs)
      | Some t \<Rightarrow>
        if t_web_seeds t = [] \<or> WEB_SEED_PARALLEL_PER_TORRENT \<le> web_seed_active_count jobs (mt_generation mt)
        then (False, mt, jobs)
        else case first_slot jobs of
          None \<Rightarrow> (False, mt, jobs)
        | Some slot \<Rightarrow>
          let next = piece_mgr_get_next (mt_piece_mgr mt) None
          in if next < 0 then (False, mt, jobs)
             else let first = nat next;
                      sizes = batch_sizes WEB_SEED_BATCH_PIECES t (mt_piece_mgr mt) first 0;
                      total = sum_list sizes
             in if sizes = [] \<or> total = 0 then (False, mt, jobs)
                else if \<not> en_mem en sizeof_web_seed_job \<or> \<not> en_mem en total then (False, mt, jobs)
                else case torrent_clone_for_worker (en_mem en) t of
                  None \<Rightarrow> (False, mt, jobs)
                | Some copy \<Rightarrow>
                  let job = new_web_job (mt_generation mt) first sizes copy;
                      pm = foldl piece_mgr_request (mt_piece_mgr mt) (job_pieces job)
                  in if \<not> spawn
                     then (False, mt\<lparr>mt_piece_mgr :=
                             foldl (\<lambda>pm i. set_state i PIECE_FREE pm) pm (job_pieces job)\<rparr>, jobs)
                     else (True, mt\<lparr>mt_piece_mgr := pm\<rparr>, jobs[slot := Some job]))"

text \<open>
  \<open>while (schedule_web_seed_one (mt)) {}\<close>, with one unit of fuel per round.  \<open>spawn n\<close> is the answer of
  the thread library when \<open>n\<close> units are left.
\<close>

primrec schedule_web_seed ::
  "nat \<Rightarrow> env \<Rightarrow> (nat \<Rightarrow> bool) \<Rightarrow> managed_torrent \<Rightarrow> web_seed_job option list \<Rightarrow>
   (managed_torrent \<times> web_seed_job option list) option" where
  "schedule_web_seed 0 en spawn mt jobs = None"
| "schedule_web_seed (Suc n) en spawn mt jobs =
     (case schedule_web_seed_one en (spawn n) mt jobs of
        (started, mt, jobs) \<Rightarrow>
          if started then schedule_web_seed n en spawn mt jobs else Some (mt, jobs))"

section \<open>The swarm with its jobs\<close>

text \<open>A job of a torrent: the sizes of its pieces, and data of that length once it is delivered.\<close>

definition job_ok :: "torrent \<Rightarrow> web_seed_job \<Rightarrow> bool" where
  "job_ok t job \<longleftrightarrow> wj_piece_sizes job = map (torrent_piece_size t) (job_pieces job) \<and>
     (wj_ok job \<longrightarrow> length (wj_data job) = sum_list (wj_piece_sizes job))"

lemma set_state_fields [simp]: "pm_num_pieces (foldl piece_release pm is) = pm_num_pieces pm"
  by (induction "is" arbitrary: pm) (simp_all add: piece_release_def)

lemma swarm_drop_jobs: "swarm_ok os t (xs @ jobs) base mt w \<Longrightarrow> swarm_ok os t jobs base mt w"
  by (auto simp: swarm_ok_def)

text \<open>A change of the board at a piece of a job, which is then no longer the job's.\<close>

lemma swarm_settle:
  assumes s: "swarm_ok os t (i # jobs) base mt w"
    and b: "board_ok os t pm' fw' fs'" and at: "only_at i (mt_piece_mgr mt) pm'"
    and mt': "mt_torrent mt' = mt_torrent mt" "mt_peers mt' = mt_peers mt" "mt_piece_mgr mt' = pm'"
      "mt_file_writer mt' = fw'" "wd_fs w' = fs'" "wd_assembly w' = wd_assembly w"
  shows "swarm_ok os t jobs base mt' w'"
proof -
  have n: "pm_num_pieces (mt_piece_mgr mt) = t_num_pieces t" using s by (auto simp: swarm_ok_def board_ok_def)
  have st: "state_at pm' j = state_at (mt_piece_mgr mt) j" if "j < t_num_pieces t" "j \<noteq> i" for j
    using at that n by (simp add: only_at_def)
  have "peer_ok t pm' p" if p: "p \<in> set (mt_peers mt)" for p
  proof (rule peer_ok_board)
    show ok: "peer_ok t (mt_piece_mgr mt) p" using s p by (simp add: swarm_ok_def)
    have "j < t_num_pieces t" "state_at (mt_piece_mgr mt) j = PIECE_REQUESTED" "j \<noteq> i" if j: "j \<in> held p" for j
    proof -
      show "j < t_num_pieces t" "state_at (mt_piece_mgr mt) j = PIECE_REQUESTED"
        using peer_ok_held [OF ok j] by blast+
      have "j \<in> set (held_list (mt_peers mt))" using p j by (auto simp: held_list_iff)
      then show "j \<noteq> i" using s by (auto simp: swarm_ok_def)
    qed
    then show "\<forall>j \<in> held p. state_at pm' j = PIECE_REQUESTED" using st by simp
  qed
  moreover have "i \<notin> set jobs" using s by (simp add: swarm_ok_def)
  then have "\<forall>j \<in> set jobs. j < t_num_pieces t \<and> state_at pm' j = PIECE_REQUESTED"
    using s st by (metis (no_types, lifting) list.set_intros(2) swarm_ok_def)
  ultimately show ?thesis using s b mt' by (simp add: swarm_ok_def)
qed

lemma swarm_job_state:
  "swarm_ok os t (i # jobs) base mt w \<Longrightarrow> i < t_num_pieces t \<and> i < pm_num_pieces (mt_piece_mgr mt) \<and>
     state_at (mt_piece_mgr mt) i = PIECE_REQUESTED \<and> pm_ok (mt_piece_mgr mt) \<and> i \<notin> done_set (mt_piece_mgr mt)"
  by (auto simp: swarm_ok_def board_ok_def pm_small_def done_set_def)

lemma swarm_free:
  assumes "swarm_ok os t (i # jobs) base mt w"
    and "board_ok os t (mt_piece_mgr mt) fw fs" "mt_torrent mt' = mt_torrent mt" "mt_peers mt' = mt_peers mt"
      "mt_piece_mgr mt' = set_state i PIECE_FREE (mt_piece_mgr mt)" "mt_file_writer mt' = fw"
      "wd_fs w' = fs" "wd_assembly w' = wd_assembly w"
  shows "swarm_ok os t jobs base mt' w'"
proof -
  have "pm_ok (set_state i PIECE_FREE (mt_piece_mgr mt)) \<and>
      only_at i (mt_piece_mgr mt) (set_state i PIECE_FREE (mt_piece_mgr mt)) \<and>
      done_set (set_state i PIECE_FREE (mt_piece_mgr mt)) = done_set (mt_piece_mgr mt)"
    using set_state_at [of "mt_piece_mgr mt" i PIECE_FREE] swarm_job_state [OF assms(1)] by simp
  then show ?thesis
    using swarm_settle [OF assms(1) board_step [OF assms(2)]] assms(3-8) by blast
qed

text \<open>Handing back the pieces of a batch.\<close>

lemma free_batch:
  assumes f: "\<And>pm i. pm_ok pm \<Longrightarrow> i < pm_num_pieces pm \<Longrightarrow> state_at pm i = PIECE_REQUESTED \<Longrightarrow>
      f pm i = set_state i PIECE_FREE pm"
  shows "swarm_ok os t (is @ jobs) base mt w \<Longrightarrow>
    swarm_ok os t jobs base (mt\<lparr>mt_piece_mgr := foldl f (mt_piece_mgr mt) is\<rparr>) w"
proof (induction "is" arbitrary: mt)
  case (Cons i "is")
  note st = swarm_job_state [OF Cons.prems [unfolded append_Cons]]
  have eq: "f (mt_piece_mgr mt) i = set_state i PIECE_FREE (mt_piece_mgr mt)" using st f by blast
  have "swarm_ok os t (is @ jobs) base (mt\<lparr>mt_piece_mgr := f (mt_piece_mgr mt) i\<rparr>) w"
    by (rule swarm_free [OF Cons.prems [unfolded append_Cons], of "mt_file_writer mt" "wd_fs w"])
      (use Cons.prems eq in \<open>auto simp: swarm_ok_def\<close>)
  from Cons.IH [OF this] show ?case by simp
qed simp

lemma release_batch:
  "swarm_ok os t (is @ jobs) base mt w \<Longrightarrow>
   swarm_ok os t jobs base (mt\<lparr>mt_piece_mgr := foldl piece_release (mt_piece_mgr mt) is\<rparr>) w"
  by (rule free_batch) (auto simp: piece_release_def pm_ok_def pm_shape_def)

text \<open>Claiming a free piece, and a batch of them.\<close>

lemma swarm_claim:
  assumes s: "swarm_ok os t jobs base mt w" and i: "i < t_num_pieces t" "state_at (mt_piece_mgr mt) i = PIECE_FREE"
  shows "swarm_ok os t (i # jobs) base (mt\<lparr>mt_piece_mgr := piece_mgr_request (mt_piece_mgr mt) i\<rparr>) w"
proof -
  let ?pm = "mt_piece_mgr mt" and ?pm' = "piece_mgr_request (mt_piece_mgr mt) i"
  have b: "board_ok os t ?pm (mt_file_writer mt) (wd_fs w)" using s by (simp add: swarm_ok_def)
  then have n: "pm_num_pieces ?pm = t_num_pieces t" "pm_ok ?pm" by (auto simp: board_ok_def pm_small_def)
  have r: "pm_ok ?pm'" "only_at i ?pm ?pm'" "state_at ?pm' i = PIECE_REQUESTED" "done_set ?pm' = done_set ?pm"
    using request_at [of ?pm i] n i by simp_all
  have st: "state_at ?pm' j = PIECE_REQUESTED" if "j < t_num_pieces t" "state_at ?pm j = PIECE_REQUESTED" for j
    using r(2,3) that n by (cases "j = i") (auto simp: only_at_def)
  have held: "j < t_num_pieces t \<and> state_at ?pm j = PIECE_REQUESTED" if "p \<in> set (mt_peers mt)" "j \<in> held p" for p j
    using s that peer_ok_held by (auto simp: swarm_ok_def)
  have "\<forall>p \<in> set (mt_peers mt). peer_ok t ?pm' p"
    using s held st by (auto simp: swarm_ok_def intro: peer_ok_board)
  moreover have "i \<notin> set (held_list (mt_peers mt) @ jobs)"
    using held i s by (fastforce simp: swarm_ok_def held_list_iff)
  ultimately show ?thesis using s board_step [OF b r(1,2,4)] st r(3) i(1) by (auto simp: swarm_ok_def)
qed

lemma swarm_perm: "mset js = mset ks \<Longrightarrow> swarm_ok os t js base mt w = swarm_ok os t ks base mt w"
proof -
  assume p: "mset js = mset ks"
  then have "set js = set ks" by (metis set_mset_mset)
  moreover have "distinct js = distinct ks" using p by (metis mset_eq_imp_distinct_iff)
  ultimately show ?thesis by (simp add: swarm_ok_def)
qed

lemma claim_batch:
  assumes "swarm_ok os t jobs base mt w" "distinct is"
    and "\<forall>i \<in> set is. i < t_num_pieces t \<and> state_at (mt_piece_mgr mt) i = PIECE_FREE"
  shows "swarm_ok os t (is @ jobs) base (mt\<lparr>mt_piece_mgr := foldl piece_mgr_request (mt_piece_mgr mt) is\<rparr>) w"
  using assms
proof (induction "is" arbitrary: mt jobs)
  case (Cons i "is")
  let ?mt = "mt\<lparr>mt_piece_mgr := piece_mgr_request (mt_piece_mgr mt) i\<rparr>"
  have c: "swarm_ok os t (i # jobs) base ?mt w" using Cons.prems by (intro swarm_claim) auto
  have "pm_num_pieces (mt_piece_mgr mt) = t_num_pieces t" "pm_ok (mt_piece_mgr mt)"
    using Cons.prems(1) by (auto simp: swarm_ok_def board_ok_def pm_small_def)
  then have "only_at i (mt_piece_mgr mt) (mt_piece_mgr ?mt)"
    using request_at [of "mt_piece_mgr mt" i] Cons.prems(3) by simp
  then have "\<forall>j \<in> set is. j < t_num_pieces t \<and> state_at (mt_piece_mgr ?mt) j = PIECE_FREE"
    using Cons.prems \<open>pm_num_pieces _ = _\<close> by (auto simp: only_at_def)
  from Cons.IH [OF c _ this] Cons.prems(2)
  have "swarm_ok os t (is @ i # jobs) base
      (mt\<lparr>mt_piece_mgr := foldl piece_mgr_request (mt_piece_mgr mt) (i # is)\<rparr>) w" by simp
  then show ?case by (subst swarm_perm [of _ "is @ i # jobs"]) simp_all
qed simp

lemma release_freed:
  assumes "pm_ok pm" "i < pm_num_pieces pm"
  shows "piece_release (set_state i PIECE_FREE pm) i = set_state i PIECE_FREE pm"
  using assms by (auto simp: piece_release_def set_state_def pm_ok_def pm_shape_def)

text \<open>One piece of a batch: either it is settled, or the loop stops with the piece handed back.\<close>

lemma save_one:
  assumes s: "swarm_ok os t (i # jobs) base mt w" and os: "en_os en = os"
    and d: "length data = torrent_piece_size t i + m"
    and run: "save_pieces en (torrent_piece_size t i # ns) i data mt w saved = (mt', w', saved', failed)"
  shows "(failed \<and> saved' = saved \<and> swarm_ok os t jobs base mt' w' \<and>
      piece_release (mt_piece_mgr mt') i = mt_piece_mgr mt') \<or>
    (\<exists>mt1 w1. swarm_ok os t jobs base mt1 w1 \<and>
      save_pieces en ns (Suc i) (drop (torrent_piece_size t i) data) mt1 w1 (Suc saved) = (mt', w', saved', failed))"
proof -
  define pm where "pm = mt_piece_mgr mt"
  define n where "n = torrent_piece_size t i"
  define d where "d = take n data"
  have dl: "length d = torrent_piece_size t i" using assms(3) by (simp add: d_def n_def)
  have st: "i < t_num_pieces t" "i < pm_num_pieces pm" "state_at pm i = PIECE_REQUESTED" "pm_ok pm" "i \<notin> done_set pm"
    using swarm_job_state [OF s] by (simp_all add: pm_def)
  have b: "board_ok os t pm (mt_file_writer mt) (wd_fs w)" and t: "torrent_of mt = t"
    using s by (simp_all add: swarm_ok_def pm_def torrent_of_def)
  note R = run [folded n_def, simplified save_pieces.simps Let_def, folded pm_def d_def]
  have free: "swarm_ok os t jobs base mt2 w2 \<and> piece_release (mt_piece_mgr mt2) i = mt_piece_mgr mt2"
    if "board_ok os t pm fw2 fs2" "mt2 = (mt\<lparr>mt_file_writer := fw2\<rparr>)\<lparr>mt_piece_mgr := set_state i PIECE_FREE pm\<rparr>"
      "w2 = w\<lparr>wd_fs := fs2\<rparr>" for mt2 w2 fw2 fs2
    using swarm_free [OF s, folded pm_def, OF that(1), of mt2 w2] release_freed [OF st(4,2)] that by simp
  show ?thesis
  proof (cases "sha1_hash d = take 20 (drop (i * 20) (the (t_pieces t)))")
    case False
    then show ?thesis using R st t free [OF b] by simp
  next
    case True
    then have dig: "sha1_hash d = piece_digest (the (t_pieces t)) i" by (simp add: piece_digest_def mult.commute)
    obtain r fw fs where w: "file_writer_write_piece os (mt_file_writer mt) d i (wd_fs w) = (r, fw, fs)"
      by (metis prod.exhaust)
    note bw = board_write [OF b st(1,5) dl w]
    show ?thesis
    proof (cases "r = 0")
      case False
      then show ?thesis using R st t True w os free [OF bw(1) refl refl] by simp
    next
      case r: True
      define pm' where "pm' = snd (piece_mgr_complete pm i d)"
      have h: "sha1_hash d = pc_hash (piece_at pm i)" using b dig st(1) by (simp add: board_ok_def)
      have c: "piece_mgr_complete pm i d = (0, pm')"
        using h st(2) by (simp add: pm'_def piece_mgr_complete_def Let_def)
      have "board_ok os t pm' fw fs"
        unfolding pm'_def by (rule board_complete [OF bw(1) st(1,5) dig bw(2) [OF r]])
      moreover have "only_at i pm pm'"
        unfolding pm'_def using complete_at [OF st(4,2) _ h] st(3) by simp
      ultimately have "swarm_ok os t jobs base
          ((mt\<lparr>mt_file_writer := fw\<rparr>)\<lparr>mt_piece_mgr := pm', mt_downloaded := mt_downloaded mt + of_nat n\<rparr>)
          (w\<lparr>wd_fs := fs\<rparr>)"
        by (intro swarm_settle [OF s, folded pm_def]) simp_all
      then show ?thesis using R st t True w os r c by (auto simp: n_def [symmetric])
    qed
  qed
qed

lemma save_swarm:
  assumes "swarm_ok (en_os en) t ([i..<i + k] @ jobs) base mt w"
    and "ns = map (torrent_piece_size t) [i..<i + k]" "length data = sum_list ns"
    and "save_pieces en ns i data mt w saved = (mt', w', saved', failed)"
  shows "if failed
    then \<exists>j < k. saved' = saved + j \<and> swarm_ok (en_os en) t ([Suc (i + j)..<i + k] @ jobs) base mt' w' \<and>
           piece_release (mt_piece_mgr mt') (i + j) = mt_piece_mgr mt'
    else saved' = saved + k \<and> swarm_ok (en_os en) t jobs base mt' w'"
  using assms
proof (induction k arbitrary: i ns data mt w saved)
  case (Suc k)
  have up: "[i..<i + Suc k] = i # [Suc i..<Suc i + k]" by (simp add: upt_conv_Cons)
  let ?ns = "map (torrent_piece_size t) [Suc i..<Suc i + k]"
  have ns: "ns = torrent_piece_size t i # ?ns" unfolding Suc.prems(2) up by (simp only: list.map)
  have s: "swarm_ok (en_os en) t (i # ([Suc i..<Suc i + k] @ jobs)) base mt w"
    using Suc.prems(1) unfolding up append_Cons .
  have len: "length data = torrent_piece_size t i + sum_list ?ns" unfolding Suc.prems(3) ns by (simp only: sum_list.Cons)
  from save_one [OF s refl len Suc.prems(4) [unfolded ns]]
  consider (stop) "failed" "saved' = saved" "swarm_ok (en_os en) t ([Suc i..<Suc i + k] @ jobs) base mt' w'"
      "piece_release (mt_piece_mgr mt') i = mt_piece_mgr mt'"
    | (go) mt1 w1 where "swarm_ok (en_os en) t ([Suc i..<Suc i + k] @ jobs) base mt1 w1"
      "save_pieces en ?ns (Suc i) (drop (torrent_piece_size t i) data) mt1 w1 (Suc saved) = (mt', w', saved', failed)"
    by auto
  then show ?case
  proof cases
    case stop
    then show ?thesis by (intro iffD2 [OF if_P] exI [of _ 0]) auto
  next
    case go
    have "length (drop (torrent_piece_size t i) data) = sum_list ?ns" using len by (simp only: length_drop)
    from Suc.IH [OF go(1) refl this go(2)] show ?thesis
      by (cases failed) (auto intro: exI [of _ "Suc _"])
  qed
qed simp

lemma release_from_eq: "release_from k job mt = mt\<lparr>mt_piece_mgr := foldl piece_release (mt_piece_mgr mt)
    [wj_first_piece job + k..<wj_first_piece job + length (wj_piece_sizes job)]\<rparr>"
  by (simp add: release_from_def job_pieces_def drop_upt)

text \<open>A collected batch leaves the board in order, and its pieces are in nobody's hands any more.\<close>

lemma collect_swarm:
  assumes s: "swarm_ok (en_os en) t (job_pieces job @ jobs) base mt w" and j: "job_ok t job"
    and run: "collect_batch en job mt w = (mt', w')"
  shows "swarm_ok (en_os en) t jobs base mt' w'"
proof -
  let ?i = "wj_first_piece job" and ?k = "length (wj_piece_sizes job)"
  have jp: "job_pieces job = [?i..<?i + ?k]" by (simp add: job_pieces_def)
  show ?thesis
  proof (cases "wj_ok job \<and> \<not> pm_num_pieces (mt_piece_mgr mt) \<le> ?i")
    case False
    then show ?thesis
      using run release_batch [OF s] swarm_drop_jobs [OF s]
      by (auto simp: collect_batch_def release_from_eq jp split: if_splits)
  next
    case True
    obtain mt1 w1 saved failed where sv: "save_pieces en (wj_piece_sizes job) ?i (wj_data job) mt w 0 = (mt1, w1, saved, failed)"
      by (metis prod.exhaust)
    let ?mt = "if saved \<noteq> 0 then mt1\<lparr>mt_last_progress_time := en_now en\<rparr> else mt1"
    have keep: "swarm_ok (en_os en) t js base ?mt w1 = swarm_ok (en_os en) t js base mt1 w1" for js
      by (simp add: swarm_ok_def)
    note sw = save_swarm [OF s [unfolded jp] _ _ sv]
    have sw: "if failed then \<exists>j < ?k. saved = j \<and> swarm_ok (en_os en) t ([Suc (?i + j)..<?i + ?k] @ jobs) base mt1 w1 \<and>
        piece_release (mt_piece_mgr mt1) (?i + j) = mt_piece_mgr mt1
      else swarm_ok (en_os en) t jobs base mt1 w1"
      using sw j True by (simp add: job_ok_def jp split: if_splits)
    show ?thesis
    proof (cases failed)
      case False
      then show ?thesis using run True sv sw keep by (simp add: collect_batch_def)
    next
      case f: True
      then have p: "saved < ?k" "swarm_ok (en_os en) t ([Suc (?i + saved)..<?i + ?k] @ jobs) base ?mt w1"
        "piece_release (mt_piece_mgr ?mt) (?i + saved) = mt_piece_mgr ?mt"
        using sw keep by auto
      have "[?i + saved..<?i + ?k] = (?i + saved) # [Suc (?i + saved)..<?i + ?k]"
        using p(1) by (simp add: upt_conv_Cons)
      then have "release_from saved job ?mt =
          ?mt\<lparr>mt_piece_mgr := foldl piece_release (mt_piece_mgr ?mt) [Suc (?i + saved)..<?i + ?k]\<rparr>"
        using p(3) by (simp add: release_from_eq)
      then show ?thesis
        using run True sv f release_batch [OF p(2)] by (simp add: collect_batch_def Let_def)
    qed
  qed
qed

section \<open>Scheduled batches\<close>

text \<open>The worker delivers exactly the bytes of its batch.\<close>

lemma fetched_job: "job_ok t job \<Longrightarrow> job_ok t (fetch_web_seed_piece net job) \<and>
    job_pieces (fetch_web_seed_piece net job) = job_pieces job \<and>
    wj_generation (fetch_web_seed_piece net job) = wj_generation job"
  by (auto simp: fetch_web_seed_piece_def job_ok_def job_pieces_def dest: fetch_pieces_length split: option.split)

lemma batch_sizes_free:
  "k < length (batch_sizes n t pm i acc) \<Longrightarrow>
   i + k < t_num_pieces t \<and> state_at pm (i + k) = PIECE_FREE \<and>
   batch_sizes n t pm i acc ! k = torrent_piece_size t (i + k)"
proof (induction n arbitrary: i acc k)
  case (Suc n)
  show ?case
  proof (cases k)
    case 0
    then show ?thesis using Suc.prems by (auto simp: Let_def split: if_splits)
  next
    case (Suc j)
    then show ?thesis
      using Suc.prems Suc.IH [of j "Suc i" "acc + torrent_piece_size t i"]
      by (auto simp: Let_def split: if_splits)
  qed
qed simp

lemma first_slot_Some: "first_slot jobs = Some i \<Longrightarrow> i < length jobs \<and> jobs ! i = None"
  by (auto simp: first_slot_def find_Some_iff)

text \<open>The pieces that the jobs of a generation have in hand.\<close>

definition jobs_of :: "u64 \<Rightarrow> web_seed_job option list \<Rightarrow> web_seed_job list" where
  "jobs_of gen js = [j. Some j \<leftarrow> js, wj_generation j = gen]"

lemma active_count_eq: "web_seed_active_count js gen = length (jobs_of gen js)"
  by (induction js) (auto simp: web_seed_active_count_def jobs_of_def split: option.split)

lemma jobs_of_insert:
  assumes "i < length js" "js ! i = None" "wj_generation job = gen"
  shows "mset (jobs_of gen (js[i := Some job])) = add_mset job (mset (jobs_of gen js))"
proof -
  have a: "js = take i js @ None # drop (Suc i) js" using assms by (metis id_take_nth_drop)
  have b: "js[i := Some job] = take i js @ Some job # drop (Suc i) js"
    using assms(1) by (simp add: upd_conv_take_nth_drop)
  show ?thesis unfolding b by (subst (3) a) (simp add: jobs_of_def assms(3))
qed

text \<open>The invariant over the table of jobs: the jobs of the torrent fit it and hold their pieces alone.\<close>

definition job_list :: "u64 \<Rightarrow> web_seed_job option list \<Rightarrow> nat list" where
  "job_list gen js = concat (map job_pieces (jobs_of gen js))"

definition table_ok :: "kernel \<Rightarrow> torrent \<Rightarrow> web_seed_job option list \<Rightarrow> int \<Rightarrow> managed_torrent \<Rightarrow> world \<Rightarrow> bool" where
  "table_ok os t js base mt w \<longleftrightarrow> swarm_ok os t (job_list (mt_generation mt) js) base mt w \<and>
     (\<forall>job \<in> set (jobs_of (mt_generation mt) js). job_ok t job)"

lemma mset_job_list: "mset (job_list gen js) = (\<Sum>job \<in># mset (jobs_of gen js). mset (job_pieces job))"
  by (simp add: job_list_def mset_concat comp_def flip: sum_mset_sum_list)

lemma job_list_insert:
  assumes "i < length js" "js ! i = None" "wj_generation job = gen"
  shows "mset (job_list gen (js[i := Some job])) = mset (job_pieces job @ job_list gen js)"
    "set (jobs_of gen (js[i := Some job])) = insert job (set (jobs_of gen js))"
  using jobs_of_insert [OF assms]
  by (simp_all add: mset_job_list) (metis set_mset_add_mset_insert set_mset_mset)

lemma schedule_one_table:
  assumes ok: "table_ok os t js base mt w" and run: "schedule_web_seed_one en spawn mt js = (started, mt', js')"
  shows "table_ok os t js' base mt' w" "mt_generation mt' = mt_generation mt"
    "started \<Longrightarrow> web_seed_active_count js' (mt_generation mt) = Suc (web_seed_active_count js (mt_generation mt))"
proof -
  let ?gen = "mt_generation mt" and ?pm = "mt_piece_mgr mt"
  let ?first = "nat (piece_mgr_get_next ?pm None)"
  let ?sizes = "batch_sizes WEB_SEED_BATCH_PIECES t ?pm ?first 0"
  have s: "swarm_ok os t (job_list ?gen js) base mt w" and t: "mt_torrent mt = Some t"
    using ok by (auto simp: table_ok_def swarm_ok_def)
  consider (same) "started = False" "mt' = mt" "js' = js"
    | (job) slot copy job where "first_slot js = Some slot"
        "job = new_web_job ?gen ?first ?sizes copy"
        "(started, mt', js') = (let pm = foldl piece_mgr_request ?pm (job_pieces job) in
          if \<not> spawn then (False, mt\<lparr>mt_piece_mgr := foldl (\<lambda>pm i. set_state i PIECE_FREE pm) pm (job_pieces job)\<rparr>, js)
          else (True, mt\<lparr>mt_piece_mgr := pm\<rparr>, js[slot := Some job]))"
  proof (cases "started = False \<and> mt' = mt \<and> js' = js")
    case False
    obtain slot where slot: "first_slot js = Some slot"
      using False run by (cases "first_slot js") (simp_all add: schedule_web_seed_one_def t split: if_splits)
    obtain copy where copy: "torrent_clone_for_worker (en_mem en) t = Some copy"
      using False run slot
      by (cases "torrent_clone_for_worker (en_mem en) t") (simp_all add: schedule_web_seed_one_def t Let_def split: if_splits)
    show ?thesis
      by (rule job [OF slot refl, of copy])
        (use False run slot copy in \<open>simp add: schedule_web_seed_one_def t Let_def split: if_splits\<close>)
  qed simp
  then have "table_ok os t js' base mt' w \<and> mt_generation mt' = ?gen \<and>
    (started \<longrightarrow> web_seed_active_count js' ?gen = Suc (web_seed_active_count js ?gen))"
  proof cases
    case same
    then show ?thesis using ok by simp
  next
    case job
    have jp: "job_pieces job = [?first..<?first + length ?sizes]"
      and g: "wj_generation job = ?gen" and sz: "wj_piece_sizes job = ?sizes" by (simp_all add: job(2) job_pieces_def new_web_job_def)
    have free: "\<forall>i \<in> set (job_pieces job). i < t_num_pieces t \<and> state_at ?pm i = PIECE_FREE"
    proof
      fix i assume "i \<in> set (job_pieces job)"
      then obtain k where "i = ?first + k" "k < length ?sizes" by (auto simp: jp nat_le_iff_add)
      then show "i < t_num_pieces t \<and> state_at ?pm i = PIECE_FREE" using batch_sizes_free by blast
    qed
    let ?mt = "mt\<lparr>mt_piece_mgr := foldl piece_mgr_request ?pm (job_pieces job)\<rparr>"
    have claim: "swarm_ok os t (job_pieces job @ job_list ?gen js) base ?mt w"
      by (rule claim_batch [OF s _ free]) (simp add: jp)
    have "wj_piece_sizes job = map (torrent_piece_size t) (job_pieces job)"
      by (rule nth_equalityI) (use batch_sizes_free in \<open>auto simp: jp sz\<close>)
    then have jok: "job_ok t job" by (simp add: job_ok_def job(2) new_web_job_def)
    show ?thesis
    proof (cases spawn)
      case True
      note ins = job_list_insert [OF conjunct1 [OF first_slot_Some] conjunct2 [OF first_slot_Some] g, OF job(1) job(1)]
      have "length (jobs_of ?gen (js[slot := Some job])) = Suc (length (jobs_of ?gen js))"
        using jobs_of_insert [OF conjunct1 [OF first_slot_Some] conjunct2 [OF first_slot_Some] g, OF job(1) job(1)]
        by (metis size_add_mset size_mset)
      then show ?thesis
        using True job(3) claim ok jok ins swarm_perm [OF ins(1)]
        by (simp add: table_ok_def active_count_eq Let_def)
    next
      case False
      have "swarm_ok os t (job_list ?gen js) base
          (?mt\<lparr>mt_piece_mgr := foldl (\<lambda>pm i. set_state i PIECE_FREE pm) (mt_piece_mgr ?mt) (job_pieces job)\<rparr>) w"
        by (rule free_batch [OF refl claim])
      then show ?thesis using False job(3) ok by (simp add: table_ok_def Let_def)
    qed
  qed
  then show "table_ok os t js' base mt' w" "mt_generation mt' = ?gen"
    "started \<Longrightarrow> web_seed_active_count js' ?gen = Suc (web_seed_active_count js ?gen)" by auto
qed

text \<open>A round that starts a batch puts one more job of the torrent into the table.\<close>

lemma started_job:
  assumes "schedule_web_seed_one en spawn mt js = (True, mt', js')"
  shows "web_seed_active_count js (mt_generation mt) < WEB_SEED_PARALLEL_PER_TORRENT \<and>
    mt_generation mt' = mt_generation mt \<and>
    web_seed_active_count js' (mt_generation mt) = Suc (web_seed_active_count js (mt_generation mt))"
proof -
  obtain slot job where j: "first_slot js = Some slot" "js' = js[slot := Some job]" "wj_generation job = mt_generation mt"
      "mt_generation mt' = mt_generation mt"
      "web_seed_active_count js (mt_generation mt) < WEB_SEED_PARALLEL_PER_TORRENT"
    using assms
    by (auto simp: schedule_web_seed_one_def Let_def not_le new_web_job_def split: if_splits option.splits)
  have "mset (jobs_of (mt_generation mt) js') = add_mset job (mset (jobs_of (mt_generation mt) js))"
    unfolding j(2) using first_slot_Some [OF j(1)] by (intro jobs_of_insert j(3)) auto
  then have "length (jobs_of (mt_generation mt) js') = Suc (length (jobs_of (mt_generation mt) js))"
    by (metis size_add_mset size_mset)
  then show ?thesis using j by (simp add: active_count_eq)
qed

lemma schedule_enough:
  "WEB_SEED_PARALLEL_PER_TORRENT \<le> web_seed_active_count js (mt_generation mt) + n \<Longrightarrow>
   \<exists>r. schedule_web_seed (Suc n) en spawn mt js = Some r"
proof (induction n arbitrary: mt js)
  case 0
  obtain started mt' js' where r: "schedule_web_seed_one en (spawn 0) mt js = (started, mt', js')"
    by (metis prod.exhaust)
  then have "\<not> started" using started_job [of en "spawn 0" mt js mt' js'] 0 by auto
  then show ?case using r by simp
next
  case (Suc n)
  obtain started mt' js' where r: "schedule_web_seed_one en (spawn (Suc n)) mt js = (started, mt', js')"
    by (metis prod.exhaust)
  show ?case
  proof (cases started)
    case True
    then have "WEB_SEED_PARALLEL_PER_TORRENT \<le> web_seed_active_count js' (mt_generation mt') + n"
      using Suc.prems started_job [of en "spawn (Suc n)" mt js mt' js'] r by simp
    from Suc.IH [OF this] show ?thesis using True r by simp
  qed (simp add: r)
qed

lemma schedule_table:
  assumes "table_ok os t js base mt w" "schedule_web_seed n en spawn mt js = Some (mt', js')"
  shows "table_ok os t js' base mt' w \<and> mt_generation mt' = mt_generation mt"
  using assms
proof (induction n arbitrary: mt js)
  case (Suc n)
  obtain started mt1 js1 where r: "schedule_web_seed_one en (spawn n) mt js = (started, mt1, js1)"
    by (metis prod.exhaust)
  show ?case
    using Suc.IH [of js1 mt1] Suc.prems schedule_one_table [OF Suc.prems(1) r] r
    by (cases started) auto
qed simp

text \<open>Scheduling changes nothing of the torrent but its board.\<close>

lemma schedule_one_board:
  "schedule_web_seed_one en spawn mt js = (started, mt', js') \<Longrightarrow> \<exists>pm. mt' = mt\<lparr>mt_piece_mgr := pm\<rparr>"
  by (auto simp: schedule_web_seed_one_def Let_def split: if_splits option.splits intro: exI [of _ "mt_piece_mgr mt"])

lemma schedule_board:
  "schedule_web_seed n en spawn mt js = Some (mt', js') \<Longrightarrow> \<exists>pm. mt' = mt\<lparr>mt_piece_mgr := pm\<rparr>"
proof (induction n arbitrary: mt js)
  case (Suc n)
  obtain started mt1 js1 where r: "schedule_web_seed_one en (spawn n) mt js = (started, mt1, js1)"
    by (metis prod.exhaust)
  obtain pm where "mt1 = mt\<lparr>mt_piece_mgr := pm\<rparr>" using schedule_one_board [OF r] by blast
  then show ?case using Suc r by (cases started) fastforce+
qed simp

end
