(* ===== verification/Discovery.thy ===== *)
theory Discovery
  imports WebJobs
begin

text \<open>
  The background jobs of \<open>src/torrent_mgr.c\<close> that find and connect peers: the announce to all
  trackers of a torrent, the discovery job and its collection, the connection jobs, their scheduling
  and their collection.

  A job is a value in a table of slots.  The worker of a job is a function on it; a job of which the
  worker has not finished has its flag \<open>done\<close> unset and a queue that holds what was published so far.
  Clock, allocator and thread library are parameters.  The log is not modelled.
\<close>

section \<open>Announcing\<close>

type_synonym announcer = "byte list \<Rightarrow> tracker_params \<Rightarrow> tracker_response option"

definition announce_params :: "managed_torrent \<Rightarrow> tracker_params" where
  "announce_params mt =
     \<lparr>tp_info_hash = t_info_hash (torrent_of mt), tp_peer_id = mt_peer_id mt, tp_port = 6881,
      tp_uploaded = mt_uploaded mt, tp_downloaded = mt_downloaded mt,
      tp_left = mt_total_size mt - mt_downloaded mt, tp_compact = True\<rparr>"

text \<open>The primary URL and the list; the flag says that a URL comes from the list.\<close>

definition announce_urls :: "torrent \<Rightarrow> (bool \<times> byte list) list" where
  "announce_urls t =
     (case t_announce t of None \<Rightarrow> [] | Some a \<Rightarrow> [(False, cstr a)]) @
     map (\<lambda>u. (True, cstr u)) (t_announce_list t)"

text \<open>The counters of one announce, and the queue that it publishes to.\<close>

record announce_state =
  as_interval :: int
  as_contacted :: nat
  as_compatible :: nat
  as_https_skipped :: nat
  as_peers_reported :: int
  as_queue :: "peer_addr list"

definition announce_url ::
  "announcer \<Rightarrow> torrent \<Rightarrow> tracker_params \<Rightarrow> bool \<times> byte list \<Rightarrow> announce_state \<Rightarrow> announce_state" where
  "announce_url ann t params u st =
     (case u of (listed, url) \<Rightarrow>
        if \<not> starts_with url (bytes ''http://'') \<and> \<not> starts_with url (bytes ''udp://'')
        then (if starts_with url (bytes ''https://'')
              then st\<lparr>as_https_skipped := as_https_skipped st + 1\<rparr> else st)
        else if listed \<and> map_option cstr (t_announce t) = Some url then st
        else let st = st\<lparr>as_compatible := as_compatible st + 1\<rparr>
        in case ann url params of
             None \<Rightarrow> st
           | Some tr \<Rightarrow>
             if tr_failure_reason tr \<noteq> None then st
             else let st = st\<lparr>as_contacted := as_contacted st + 1,
                      as_interval := (if as_interval st < tr_interval tr then tr_interval tr else as_interval st),
                      as_peers_reported := as_peers_reported st + tr_num_peers tr\<rparr>
             in case tr_peers tr of
                  None \<Rightarrow> st
                | Some ps \<Rightarrow>
                  if 0 < tr_num_peers tr
                  then st\<lparr>as_queue := publish_candidates (as_queue st) (take (nat (tr_num_peers tr)) ps)\<rparr>
                  else st)"

text \<open>The texts of the errors; the others in UTF-8.\<close>

definition u_acute :: "byte list" where "u_acute = [0xC3, 0xA1]"

definition trackers_failed_text :: "byte list" where
  "trackers_failed_text = bytes ''Falha ao consultar os trackers. Nova tentativa autom'' @ u_acute @
     bytes ''tica; consulte o log para detalhes.''"

definition only_https_text :: "byte list" where
  "only_https_text = bytes ''Este torrent s'' @ [0xC3, 0xB3] @ bytes '' tem trackers HTTPS ou incompat'' @
     [0xC3, 0xAD] @ bytes ''veis; HTTPS ainda n'' @ [0xC3, 0xA3] @ bytes ''o '' @ [0xC3, 0xA9] @ bytes '' suportado.''"

definition no_trackers_text :: "byte list" where
  "no_trackers_text = bytes ''Este torrent n'' @ [0xC3, 0xA3] @ bytes ''o tem trackers HTTP/UDP compat'' @
     [0xC3, 0xAD] @ bytes ''veis.''"

definition trackers_empty_text :: "byte list" where
  "trackers_empty_text = bytes ''Trackers responderam, mas n'' @ [0xC3, 0xA3] @ bytes ''o h'' @ u_acute @
     bytes '' peers dispon'' @ [0xC3, 0xAD] @ bytes ''veis; nova tentativa autom'' @ u_acute @ bytes ''tica''"

definition announce_to_tracker ::
  "announcer \<Rightarrow> managed_torrent \<Rightarrow> peer_addr list \<Rightarrow> int \<times> managed_torrent \<times> peer_addr list" where
  "announce_to_tracker ann mt queue =
     (let t = torrent_of mt
      in if t_announce t = None \<and> t_announce_list t = [] then (- 1, mt, queue)
         else let st = fold (announce_url ann t (announce_params mt)) (announce_urls t)
                    \<lparr>as_interval = 30, as_contacted = 0, as_compatible = 0, as_https_skipped = 0,
                     as_peers_reported = 0, as_queue = queue\<rparr>;
                  mt = mt\<lparr>mt_tracker_announces := mt_tracker_announces mt + 1,
                          mt_tracker_interval := as_interval st\<rparr>
              in if 0 < as_peers_reported st then (0, clear_error mt, as_queue st)
                 else let msg = (if as_contacted st = 0
                                 then (if as_compatible st \<noteq> 0 then trackers_failed_text
                                       else if as_https_skipped st \<noteq> 0 then only_https_text
                                       else no_trackers_text)
                                 else trackers_empty_text)
                      in (- 1, set_error TERR_NO_PEERS msg mt, as_queue st))"

section \<open>Discovery jobs\<close>

record discovery_job =
  dj_result :: managed_torrent
  dj_queue :: "peer_addr list"
  dj_done :: bool

text \<open>The worker.\<close>

definition discover_peers :: "announcer \<Rightarrow> discovery_job \<Rightarrow> discovery_job" where
  "discover_peers ann job =
     (case announce_to_tracker ann (dj_result job) (dj_queue job) of
        (_, mt, queue) \<Rightarrow> job\<lparr>dj_result := mt, dj_queue := queue, dj_done := True\<rparr>)"

text \<open>The torrent that a job is for: the last that runs with its generation.\<close>

definition live_index :: "u64 \<Rightarrow> managed_torrent list \<Rightarrow> nat option" where
  "live_index gen ts =
     foldl (\<lambda>r i. if mt_generation (ts ! i) = gen \<and> mt_state (ts ! i) = TORRENT_DOWNLOADING then Some i else r)
       None [0..<length ts]"

text \<open>What a finished discovery leaves in its torrent.\<close>

definition finish_discovery :: "u64 \<Rightarrow> managed_torrent \<Rightarrow> managed_torrent \<Rightarrow> managed_torrent" where
  "finish_discovery now res live =
     (let live = live\<lparr>mt_tracker_announces := mt_tracker_announces res,
                      mt_tracker_interval := mt_tracker_interval res, mt_last_announce_time := now\<rparr>;
          live = (if mt_error_type res \<noteq> TERR_NONE
                  then let failures = (if mt_tracker_failures live < 5 then mt_tracker_failures live + 1
                                       else mt_tracker_failures live);
                           delay = int (retry_delay failures)
                       in live\<lparr>mt_tracker_failures := failures,
                               mt_tracker_interval := (if mt_tracker_interval live < delay then delay
                                                       else mt_tracker_interval live)\<rparr>
                  else live\<lparr>mt_tracker_failures := 0\<rparr>)
      in if mt_active_peers live = 0 \<and> mt_candidates live = [] \<and>
            (mt_error_type live = TERR_NONE \<or> mt_error_type live = TERR_NO_PEERS)
         then set_error (mt_error_type res) (mt_error_msg res) live
         else live)"

text \<open>One slot: its queue goes to the live torrent; a finished job leaves the table.\<close>

definition collect_discovery_job ::
  "u64 \<Rightarrow> discovery_job \<Rightarrow> managed_torrent list \<Rightarrow> discovery_job option \<times> managed_torrent list" where
  "collect_discovery_job now job ts =
     (case live_index (mt_generation (dj_result job)) ts of
        None \<Rightarrow> (if dj_done job then None else Some (job\<lparr>dj_queue := []\<rparr>), ts)
      | Some i \<Rightarrow>
          let live = foldl add_candidate (ts ! i) (dj_queue job)
          in if dj_done job then (None, ts[i := finish_discovery now (dj_result job) live])
             else (Some (job\<lparr>dj_queue := []\<rparr>), ts[i := live]))"

primrec collect_discovery ::
  "u64 \<Rightarrow> discovery_job option list \<Rightarrow> managed_torrent list \<Rightarrow>
   discovery_job option list \<times> managed_torrent list" where
  "collect_discovery now [] ts = ([], ts)"
| "collect_discovery now (slot # slots) ts =
     (case (case slot of None \<Rightarrow> (None, ts) | Some job \<Rightarrow> collect_discovery_job now job ts) of (slot, ts) \<Rightarrow>
      case collect_discovery now slots ts of (slots, ts) \<Rightarrow> (slot # slots, ts))"

text \<open>The last free slot.\<close>

definition last_slot :: "'a option list \<Rightarrow> nat option" where
  "last_slot jobs = foldl (\<lambda>r i. if jobs ! i = None then Some i else r) None [0..<length jobs]"

text \<open>
  A new job, unless one of the torrent is running or no slot is free.  \<open>alloc\<close> says whether the job
  and its mutex can be made, \<open>spawn\<close> whether the thread library starts the worker.
\<close>

definition schedule_discovery ::
  "env \<Rightarrow> bool \<Rightarrow> bool \<Rightarrow> managed_torrent \<Rightarrow> discovery_job option list \<Rightarrow>
   managed_torrent \<times> discovery_job option list" where
  "schedule_discovery en alloc spawn mt jobs =
     (let t = torrent_of mt
      in if t_announce t = None \<and> t_announce_list t = [] then (mt, jobs)
         else if list_ex (\<lambda>j. case j of None \<Rightarrow> False
                   | Some j \<Rightarrow> mt_generation (dj_result j) = mt_generation mt) jobs then (mt, jobs)
         else case last_slot jobs of
           None \<Rightarrow> (mt, jobs)
         | Some slot \<Rightarrow>
           if \<not> alloc then (mt, jobs)
           else case torrent_clone_for_worker (en_mem en) t of
             None \<Rightarrow> (mt, jobs)
           | Some copy \<Rightarrow>
             if \<not> spawn then (mt, jobs)
             else (mt\<lparr>mt_last_announce_time := en_now en,
                      mt_tracker_interval := (if mt_tracker_interval mt \<le> 0 then 30 else mt_tracker_interval mt)\<rparr>,
                   jobs[slot := Some \<lparr>dj_result = mt\<lparr>mt_peers := [], mt_active_peers := 0, mt_torrent := Some copy\<rparr>,
                                      dj_queue = [], dj_done = False\<rparr>]))"

section \<open>Connection jobs\<close>

definition PEER_CONNECT_PARALLEL :: nat where "PEER_CONNECT_PARALLEL = 4"
definition PEER_CONNECT_MAX_JOBS :: nat where
  "PEER_CONNECT_MAX_JOBS = MAX_TORRENTS * PEER_CONNECT_PARALLEL"

record peer_connect_job =
  pj_generation :: u64
  pj_addr :: peer_addr
  pj_info_hash :: "byte list"
  pj_peer_id :: "byte list"
  pj_remote_id :: "byte list"
  pj_sock :: int
  pj_error :: nat
  pj_stage :: "byte list"
  pj_done :: bool

definition sizeof_peer_connect_job :: nat where "sizeof_peer_connect_job = 104"

text \<open>
  The worker.  \<open>os\<close> answers the calls of \<open>net_tcp_connect\<close>, \<open>timeout\<close> and \<open>nonblock\<close> say whether the
  socket options can be set, \<open>err\<close> is \<open>errno\<close> after a failure.
\<close>

definition connect_failed :: "nat \<Rightarrow> byte list \<Rightarrow> int \<Rightarrow> peer_connect_job \<Rightarrow> world \<Rightarrow> peer_connect_job \<times> world" where
  "connect_failed err stage sock job w =
     (job\<lparr>pj_stage := stage, pj_error := err, pj_sock := - 1, pj_done := True\<rparr>,
      if 0 \<le> sock then close_sock sock w else w)"

definition connect_candidate ::
  "(peer_addr \<Rightarrow> connect_os) \<Rightarrow> bool \<Rightarrow> bool \<Rightarrow> nat \<Rightarrow> peer_connect_job \<Rightarrow> world \<Rightarrow> peer_connect_job \<times> world" where
  "connect_candidate os timeout nonblock err job w =
     (case net_tcp_connect (os (pj_addr job)) of
        (sock, shut) \<Rightarrow>
          let w = w\<lparr>wd_closed := wd_closed w @ shut\<rparr>
          in if sock < 0 then connect_failed err (bytes ''TCP connect'') sock job w
             else if \<not> timeout then connect_failed err (bytes ''handshake timeout setup'') sock job w
             else case peer_handshake (wd_socks w sock) (pj_info_hash job) (pj_peer_id job) of
               (r, remote, sk) \<Rightarrow>
                 let w = w\<lparr>wd_socks := (wd_socks w)(sock := sk)\<rparr>
                 in if r < 0 then connect_failed err (bytes ''BitTorrent handshake'') sock job w
                    else case peer_send_interested sk of
                      (r, sk) \<Rightarrow>
                        let w = w\<lparr>wd_socks := (wd_socks w)(sock := sk)\<rparr>
                        in if r < 0 then connect_failed err (bytes ''interested message'') sock job w
                           else if \<not> nonblock
                           then connect_failed err (bytes ''nonblocking setup'') sock job w
                           else (job\<lparr>pj_stage := bytes ''nonblocking setup'', pj_sock := sock,
                                     pj_remote_id := remote, pj_done := True\<rparr>, w))"

text \<open>The slot of a new peer: the first that is unused, else one more.\<close>

definition peer_slot :: "torrent_peer list \<Rightarrow> nat option" where
  "peer_slot ps =
     (case find (\<lambda>i. pr_sock (ps ! i) < 0) [0..<length ps] of
        Some i \<Rightarrow> Some i
      | None \<Rightarrow> if length ps < MAX_PEERS_PER_TORRENT then Some (length ps) else None)"

definition new_peer :: "u64 \<Rightarrow> peer_connect_job \<Rightarrow> torrent_peer" where
  "new_peer now job =
     peer_zero\<lparr>pr_sock := pj_sock job, pr_addr := pj_addr job, pr_remote_id := take 20 (pj_remote_id job),
               pr_choked := True, pr_am_interested := True, pr_last_activity := now\<rparr>"

definition add_peer :: "u64 \<Rightarrow> peer_connect_job \<Rightarrow> managed_torrent \<Rightarrow> bool \<times> managed_torrent" where
  "add_peer now job mt =
     (case peer_slot (mt_peers mt) of
        None \<Rightarrow> (False, mt)
      | Some i \<Rightarrow>
          (True, mt\<lparr>mt_peers := (if i < length (mt_peers mt) then (mt_peers mt)[i := new_peer now job]
                                 else mt_peers mt @ [new_peer now job]),
                    mt_active_peers := mt_active_peers mt + 1\<rparr>))"

text \<open>A finished job and the torrent that runs with its generation; the flag says who owns the socket.\<close>

definition collect_connection ::
  "u64 \<Rightarrow> peer_connect_job \<Rightarrow> managed_torrent \<Rightarrow> bool \<times> managed_torrent" where
  "collect_connection now job live =
     (let live = (case find_candidate live (pj_addr job) of
                    None \<Rightarrow> live
                  | Some j \<Rightarrow> set_candidate j ((mt_candidates live ! j)\<lparr>cd_connecting := False\<rparr>) live)
      in if pj_sock job < 0 then (False, record_peer_failure now (pj_addr job) live)
         else if peer_is_connected live (pj_addr job) then (False, live)
         else add_peer now job live)"

definition collect_connect_job ::
  "u64 \<Rightarrow> peer_connect_job \<Rightarrow> managed_torrent list \<Rightarrow> world \<Rightarrow> managed_torrent list \<times> world" where
  "collect_connect_job now job ts w =
     (let (taken, ts) = (case live_index (pj_generation job) ts of
            None \<Rightarrow> (False, ts)
          | Some i \<Rightarrow> (case collect_connection now job (ts ! i) of (taken, live) \<Rightarrow> (taken, ts[i := live])))
      in (ts, if \<not> taken \<and> 0 \<le> pj_sock job then close_sock (pj_sock job) w else w))"

definition collect_connect_slot ::
  "u64 \<Rightarrow> peer_connect_job option \<Rightarrow> managed_torrent list \<Rightarrow> world \<Rightarrow>
   peer_connect_job option \<times> managed_torrent list \<times> world" where
  "collect_connect_slot now slot ts w =
     (case slot of
        None \<Rightarrow> (slot, ts, w)
      | Some job \<Rightarrow> if pj_done job then (None, collect_connect_job now job ts w) else (slot, ts, w))"

primrec collect_peer_connections ::
  "u64 \<Rightarrow> peer_connect_job option list \<Rightarrow> managed_torrent list \<Rightarrow> world \<Rightarrow>
   peer_connect_job option list \<times> managed_torrent list \<times> world" where
  "collect_peer_connections now [] ts w = ([], ts, w)"
| "collect_peer_connections now (slot # slots) ts w =
     (case collect_connect_slot now slot ts w of (slot, ts, w) \<Rightarrow>
      case collect_peer_connections now slots ts w of (slots, ts, w) \<Rightarrow> (slot # slots, ts, w))"

definition connect_pending :: "peer_connect_job option list \<Rightarrow> u64 \<Rightarrow> nat" where
  "connect_pending jobs gen =
     length (filter (\<lambda>j. case j of None \<Rightarrow> False | Some j \<Rightarrow> pj_generation j = gen) jobs)"

text \<open>
  The round over the candidates, from the one after the last tried.  \<open>spawn n\<close> is the answer of the
  thread library when \<open>n\<close> candidates are left to check.
\<close>

primrec connect_round ::
  "nat \<Rightarrow> env \<Rightarrow> (nat \<Rightarrow> bool) \<Rightarrow> nat \<Rightarrow> managed_torrent \<Rightarrow> peer_connect_job option list \<Rightarrow>
   managed_torrent \<times> peer_connect_job option list" where
  "connect_round 0 en spawn pending mt jobs = (mt, jobs)"
| "connect_round (Suc n) en spawn pending mt jobs =
     (if PEER_CONNECT_PARALLEL \<le> pending \<or>
         int MAX_PEERS_PER_TORRENT \<le> mt_active_peers mt + int pending then (mt, jobs)
      else let count = length (mt_candidates mt);
               index = mt_next_candidate mt mod count;
               mt = mt\<lparr>mt_next_candidate := Suc (mt_next_candidate mt) mod count\<rparr>;
               c = mt_candidates mt ! index
      in if cd_connecting c \<or> en_now en < cd_retry_after c \<or> peer_is_connected mt (cd_addr c)
         then connect_round n en spawn pending mt jobs
         else case first_slot jobs of
           None \<Rightarrow> (mt, jobs)
         | Some slot \<Rightarrow>
           if \<not> en_mem en sizeof_peer_connect_job then (mt, jobs)
           else if \<not> spawn n then (set_candidate index (c\<lparr>cd_retry_after := en_now en + 5\<rparr>) mt, jobs)
           else connect_round n en spawn (Suc pending)
                  (set_candidate index (c\<lparr>cd_connecting := True\<rparr>) mt)
                  (jobs[slot := Some \<lparr>pj_generation = mt_generation mt, pj_addr = cd_addr c,
                     pj_info_hash = mt_info_hash mt, pj_peer_id = mt_peer_id mt,
                     pj_remote_id = replicate 20 0, pj_sock = - 1, pj_error = 0, pj_stage = [],
                     pj_done = False\<rparr>]))"

definition schedule_peer_connections ::
  "env \<Rightarrow> (nat \<Rightarrow> bool) \<Rightarrow> managed_torrent \<Rightarrow> peer_connect_job option list \<Rightarrow>
   managed_torrent \<times> peer_connect_job option list" where
  "schedule_peer_connections en spawn mt jobs =
     connect_round (length (mt_candidates mt)) en spawn (connect_pending jobs (mt_generation mt)) mt jobs"

end
