(* ===== verification/TorrentMgr.thy ===== *)
theory TorrentMgr
  imports Discovery
begin

text \<open>
  \<open>src/torrent_mgr.c\<close>: the table of torrents, its operations (add, start, stop, remove) and one tick of
  the download engine.  The static variables of the file are the fields of one record, the static seed
  of the peer ids included; the array of torrents is the list of its used entries.
\<close>

section \<open>State\<close>

record manager =
  mg_torrents :: "managed_torrent list"
  mg_generation :: u64
  mg_seed :: u32
  mg_world :: world
  mg_discovery :: "discovery_job option list"
  mg_connects :: "peer_connect_job option list"
  mg_web :: "web_seed_job option list"

text \<open>The state before \<open>main\<close>, with a given file system and given sockets.\<close>

definition mgr_start :: "(int \<Rightarrow> socket) \<Rightarrow> fsys \<Rightarrow> manager" where
  "mgr_start socks fs =
     \<lparr>mg_torrents = [], mg_generation = 1, mg_seed = first_seed,
      mg_world = \<lparr>wd_assembly = 0, wd_socks = socks, wd_fs = fs, wd_closed = []\<rparr>,
      mg_discovery = replicate MAX_TORRENTS None, mg_connects = replicate PEER_CONNECT_MAX_JOBS None,
      mg_web = replicate WEB_SEED_MAX_JOBS None\<rparr>"

definition torrent_mgr_init :: "manager \<Rightarrow> manager" where
  "torrent_mgr_init mg = mg\<lparr>mg_torrents := []\<rparr>"

definition torrent_mgr_count :: "manager \<Rightarrow> nat" where
  "torrent_mgr_count mg = length (mg_torrents mg)"

definition torrent_mgr_capacity :: nat where
  "torrent_mgr_capacity = MAX_TORRENTS"

text \<open>An index is an \<open>int\<close> of the caller.\<close>

definition bad_index :: "int \<Rightarrow> manager \<Rightarrow> bool" where
  "bad_index i mg \<longleftrightarrow> i < 0 \<or> int (length (mg_torrents mg)) \<le> i"

definition torrent_mgr_get :: "int \<Rightarrow> manager \<Rightarrow> managed_torrent option" where
  "torrent_mgr_get i mg = (if bad_index i mg then None else Some (mg_torrents mg ! nat i))"

definition torrent_mgr_find :: "byte list \<Rightarrow> manager \<Rightarrow> int" where
  "torrent_mgr_find info_hash mg =
     (case find (\<lambda>i. take 20 (mt_info_hash (mg_torrents mg ! i)) = take 20 info_hash)
             [0..<length (mg_torrents mg)] of
        None \<Rightarrow> - 1 | Some i \<Rightarrow> int i)"

definition torrent_mgr_error_str :: "torrent_error \<Rightarrow> byte list" where
  "torrent_mgr_error_str e =
     (case e of
        TERR_NONE \<Rightarrow> bytes ''No error'' | TERR_PARSE_FAILED \<Rightarrow> bytes ''Parse failed''
      | TERR_TRACKER_FAILED \<Rightarrow> bytes ''Tracker failed'' | TERR_NO_PEERS \<Rightarrow> bytes ''No peers found''
      | TERR_WRITE_FAILED \<Rightarrow> bytes ''Write failed'' | TERR_HASH_MISMATCH \<Rightarrow> bytes ''Hash mismatch'')"

section \<open>Adding\<close>

definition torrent_mgr_add ::
  "torrent \<Rightarrow> byte list \<Rightarrow> bool \<Rightarrow> byte list option \<Rightarrow> manager \<Rightarrow> int \<times> manager" where
  "torrent_mgr_add t save_path is_magnet magnet_uri mg =
     (if MAX_TORRENTS \<le> length (mg_torrents mg) then (- 1, mg)
      else let hash_hex = torrent_info_hash_str t;
               (peer_id, seed) = tracker_generate_peer_id (mg_seed mg);
               mt = mt_zero\<lparr>mt_generation := mg_generation mg, mt_id := strncpy0 64 hash_hex,
                 mt_name := (case t_name t of Some n \<Rightarrow> strncpy0 256 (cstr n)
                             | None \<Rightarrow> take 255 (bytes ''Torrent_'' @ hash_hex)),
                 mt_save_path := strncpy0 512 (cstr save_path), mt_info_hash := t_info_hash t,
                 mt_torrent := Some t, mt_file_writer := fw_zero\<lparr>fw_fd := - 1\<rparr>,
                 mt_total_size := t_total_size t, mt_is_magnet := is_magnet,
                 mt_magnet_uri := (case magnet_uri of None \<Rightarrow> [] | Some u \<Rightarrow> strncpy0 1024 (cstr u)),
                 mt_peer_id := peer_id, mt_state := TORRENT_STOPPED\<rparr>
           in (int (length (mg_torrents mg)),
               mg\<lparr>mg_torrents := mg_torrents mg @ [mt], mg_generation := mg_generation mg + 1, mg_seed := seed\<rparr>))"

definition torrent_mgr_add_raw :: "allocator \<Rightarrow> byte list \<Rightarrow> byte list \<Rightarrow> manager \<Rightarrow> int \<times> manager" where
  "torrent_mgr_add_raw mem data save_path mg =
     (case torrent_parse mem data of
        None \<Rightarrow> (- 1, mg)
      | Some t \<Rightarrow> torrent_mgr_add t save_path False None mg)"

text \<open>
  The digits of a magnet link: at most 40 characters up to \<open>&\<close> or \<open>?\<close>, written over the
  uninitialised array \<open>hash_str\<close>, whose bytes are \<open>junk\<close>.
\<close>

definition magnet_hash_str :: "byte list \<Rightarrow> byte list \<Rightarrow> byte list" where
  "magnet_hash_str junk xt =
     (let hash = take 40 (takeWhile (\<lambda>c. c \<noteq> ch CHR ''&'' \<and> c \<noteq> ch CHR ''?'') xt)
      in blit 0 (hash @ [0]) junk)"

definition magnet_info_hash :: "byte list \<Rightarrow> byte list" where
  "magnet_info_hash hash_str =
     map (\<lambda>i. word_of_int (strtol16_pair (hash_str ! (i * 2)) (hash_str ! (i * 2 + 1)))) [0..<20]"

definition magnet_name :: "byte list \<Rightarrow> byte list" where
  "magnet_name uri =
     (case strstr uri (bytes ''dn='') of
        None \<Rightarrow> []
      | Some i \<Rightarrow> http_url_decode (take 255 (takeWhile (\<lambda>c. c \<noteq> ch CHR ''&'') (drop (i + 3) uri))))"

text \<open>The decoded tracker URLs; one whose copy is refused is left out.\<close>

function magnet_trackers :: "allocator \<Rightarrow> byte list \<Rightarrow> nat \<Rightarrow> byte list list" where
  "magnet_trackers mem p cnt =
     (case strstr p (bytes ''tr='') of
        None \<Rightarrow> []
      | Some i \<Rightarrow>
        if 8 \<le> cnt then []
        else let q = drop (i + 3) p;
                 raw = takeWhile (\<lambda>c. c \<noteq> ch CHR ''&'') q;
                 after = dropWhile (\<lambda>c. c \<noteq> ch CHR ''&'') q;
                 urls = (if mem (length raw + 1) then [http_url_decode raw] else [])
             in urls @ (if after = [] then [] else magnet_trackers mem after (cnt + length urls)))"
  by pat_completeness auto
termination
proof (relation "measure (\<lambda>(mem, p, cnt). length p)", goal_cases)
  case (2 mem p cnt i q raw after urls)
  have "length after \<le> length q" unfolding 2(5) by (rule length_dropWhile_le)
  moreover have "p \<noteq> []" using 2(1) by (auto simp: strstr_def find_bytes_def bytes_def split: if_splits)
  ultimately show ?case using 2(3) by (cases p) auto
qed simp

declare magnet_trackers.simps [simp del]

text \<open>
  The torrent that a magnet link describes.  \<open>None\<close> stands for the undefined behaviour of storing a
  tracker through the array of URLs when it could not be allocated.
\<close>

definition magnet_torrent :: "allocator \<Rightarrow> byte list \<Rightarrow> byte list \<Rightarrow> byte list \<Rightarrow> torrent option" where
  "magnet_torrent mem uri hash_str info_hash =
     (let dn = magnet_name uri;
          name = dup_str mem (if dn \<noteq> [] then dn else cstr hash_str);
          urls = magnet_trackers mem uri 0;
          announce = (case urls of [] \<Rightarrow> None | u # _ \<Rightarrow> dup_str mem u)
      in if \<not> mem (8 * sizeof_ptr) \<and> urls \<noteq> [] then None
         else Some (torrent_zero\<lparr>t_info_hash := info_hash, t_name := name,
           t_name_len := (if name = None then 0 else if dn \<noteq> [] then length dn else 40),
           t_announce_list := urls, t_announce := announce,
           t_announce_len := (case announce of None \<Rightarrow> 0 | Some a \<Rightarrow> length a)\<rparr>))"

definition torrent_mgr_add_magnet ::
  "allocator \<Rightarrow> byte list \<Rightarrow> byte list \<Rightarrow> byte list \<Rightarrow> manager \<Rightarrow> (int \<times> manager) option" where
  "torrent_mgr_add_magnet mem junk magnet_uri save_path mg =
     (let uri = cstr magnet_uri
      in if \<not> starts_with uri (bytes ''magnet:'') then Some (- 1, mg)
         else case strstr uri (bytes ''xt=urn:btih:'') of
           None \<Rightarrow> Some (- 1, mg)
         | Some i \<Rightarrow>
           let hash_str = magnet_hash_str junk (drop (i + 12) uri)
           in if \<not> mem sizeof_torrent then Some (- 1, mg)
              else map_option (\<lambda>t. torrent_mgr_add t save_path True (Some uri) mg)
                     (magnet_torrent mem uri hash_str (magnet_info_hash hash_str)))"

section \<open>Stopping and removing\<close>

text \<open>\<open>disconnect_peer\<close> for every peer of a torrent, in their order.\<close>

definition disconnect_at :: "u64 \<Rightarrow> nat \<Rightarrow> managed_torrent \<Rightarrow> world \<Rightarrow> managed_torrent \<times> world" where
  "disconnect_at now i mt w =
     (case disconnect_peer now mt (mt_peers mt ! i) w of
        (mt', p, w) \<Rightarrow> (mt'\<lparr>mt_peers := (mt_peers mt)[i := p]\<rparr>, w))"

definition disconnect_all :: "u64 \<Rightarrow> managed_torrent \<Rightarrow> world \<Rightarrow> managed_torrent \<times> world" where
  "disconnect_all now mt w =
     foldl (\<lambda>(mt, w) i. disconnect_at now i mt w) (mt, w) [0..<length (mt_peers mt)]"

definition finish_writer :: "managed_torrent \<Rightarrow> world \<Rightarrow> managed_torrent \<times> world" where
  "finish_writer mt w =
     (case file_writer_finish (mt_file_writer mt) of
        (fw, fds) \<Rightarrow> (mt\<lparr>mt_file_writer := fw\<rparr>, w\<lparr>wd_closed := wd_closed w @ fds\<rparr>))"

definition destroy_writer :: "managed_torrent \<Rightarrow> world \<Rightarrow> managed_torrent \<times> world" where
  "destroy_writer mt w =
     (case file_writer_destroy (mt_file_writer mt) of
        (fw, fds) \<Rightarrow> (mt\<lparr>mt_file_writer := fw\<rparr>, w\<lparr>wd_closed := wd_closed w @ fds\<rparr>))"

definition stop_torrent :: "u64 \<Rightarrow> u64 \<Rightarrow> managed_torrent \<Rightarrow> world \<Rightarrow> managed_torrent \<times> world" where
  "stop_torrent now gen mt w =
     (case disconnect_all now (mt\<lparr>mt_state := TORRENT_STOPPED, mt_generation := gen\<rparr>) w of
        (mt, w) \<Rightarrow>
          finish_writer (mt\<lparr>mt_peers := [], mt_active_peers := 0, mt_candidates := [], mt_next_candidate := 0,
            mt_tracker_failures := 0, mt_speed_down := 0, mt_speed_up := 0\<rparr>) w)"

text \<open>Replaces a torrent and the world.\<close>

definition put_torrent :: "int \<Rightarrow> managed_torrent \<times> world \<Rightarrow> manager \<Rightarrow> manager" where
  "put_torrent i s mg =
     mg\<lparr>mg_torrents := (mg_torrents mg)[nat i := fst s], mg_world := snd s\<rparr>"

definition torrent_mgr_stop :: "u64 \<Rightarrow> int \<Rightarrow> manager \<Rightarrow> manager" where
  "torrent_mgr_stop now i mg =
     (if bad_index i mg then mg
      else (put_torrent i (stop_torrent now (mg_generation mg) (mg_torrents mg ! nat i) (mg_world mg)) mg)
             \<lparr>mg_generation := mg_generation mg + 1\<rparr>)"

definition torrent_mgr_remove :: "u64 \<Rightarrow> int \<Rightarrow> manager \<Rightarrow> manager" where
  "torrent_mgr_remove now i mg =
     (if bad_index i mg then mg
      else let mg = torrent_mgr_stop now i mg;
               (mt, w) = destroy_writer (mg_torrents mg ! nat i) (mg_world mg)
           in mg\<lparr>mg_torrents := take (nat i) (mg_torrents mg) @ drop (Suc (nat i)) (mg_torrents mg),
                 mg_world := w\<rparr>)"

text \<open>\<open>torrent_mgr_shutdown\<close> removes them from the last to the first.\<close>

definition torrent_mgr_shutdown :: "u64 \<Rightarrow> manager \<Rightarrow> manager" where
  "torrent_mgr_shutdown now mg =
     (foldl (\<lambda>mg i. torrent_mgr_remove now (int i) mg) mg (rev [0..<length (mg_torrents mg)]))
       \<lparr>mg_torrents := []\<rparr>"

section \<open>Starting\<close>

definition EINVAL :: nat where "EINVAL = 22"
definition ENOTDIR :: nat where "ENOTDIR = 20"
definition ENAMETOOLONG :: nat where "ENAMETOOLONG = 63"
definition EACCES :: nat where "EACCES = 13"
definition EPERM :: nat where "EPERM = 1"

text \<open>
  \<open>stat\<close> of the kernel: \<open>None\<close> where it fails, else whether the path is a directory.  The result is the
  \<open>errno\<close> of the failure, \<open>None\<close> for success.
\<close>

primrec make_tree :: "env \<Rightarrow> (byte list \<Rightarrow> bool option) \<Rightarrow> byte list list \<Rightarrow> fsys \<Rightarrow> nat option \<times> fsys" where
  "make_tree en stat [] fs = (None, fs)"
| "make_tree en stat (p # ps) fs =
     (if \<not> os_mkdir (en_os en) p then (Some (en_errno en), fs)
      else case stat p of
        None \<Rightarrow> (Some (en_errno en), fs)
      | Some is_dir \<Rightarrow>
        if \<not> is_dir then (Some ENOTDIR, fs)
        else make_tree en stat ps (fs\<lparr>fs_dirs := insert (key_of p) (fs_dirs fs)\<rparr>))"

text \<open>Final slashes are dropped, the first one excepted; then every prefix before a slash or the end.\<close>

definition trim_slashes :: "byte list \<Rightarrow> byte list" where
  "trim_slashes path = take 1 path @ rev (dropWhile (\<lambda>c. c = slash) (rev (drop 1 path)))"

definition tree_prefixes :: "byte list \<Rightarrow> byte list list" where
  "tree_prefixes path =
     map (\<lambda>k. take k path) (filter (\<lambda>k. k = length path \<or> path ! k = slash) [1..<Suc (length path)])"

definition ensure_directory_tree ::
  "env \<Rightarrow> (byte list \<Rightarrow> bool option) \<Rightarrow> byte list \<Rightarrow> fsys \<Rightarrow> nat option \<times> fsys" where
  "ensure_directory_tree en stat path fs =
     (if path = [] \<or> hd path \<noteq> slash then (Some EINVAL, fs)
      else if 512 \<le> length path then (Some ENAMETOOLONG, fs)
      else make_tree en stat (tree_prefixes (trim_slashes path)) fs)"

definition na_tilde_o :: "byte list" where "na_tilde_o = bytes ''N'' @ [0xC3, 0xA3] @ bytes ''o''"

definition directory_error_text :: "(nat \<Rightarrow> byte list) \<Rightarrow> nat \<Rightarrow> byte list \<Rightarrow> byte list" where
  "directory_error_text strerror err path =
     (if err = EACCES \<or> err = EPERM
      then bytes ''Sem permiss'' @ [0xC3, 0xA3] @ bytes ''o para criar '' @ path
      else na_tilde_o @ bytes '' foi poss'' @ [0xC3, 0xAD] @ bytes ''vel criar '' @ path @ bytes '': '' @ strerror err)"

definition file_error_text :: "(nat \<Rightarrow> byte list) \<Rightarrow> nat \<Rightarrow> byte list \<Rightarrow> byte list" where
  "file_error_text strerror err path =
     na_tilde_o @ bytes '' foi poss'' @ [0xC3, 0xAD] @ bytes ''vel criar o arquivo em '' @ path @ bytes '': '' @ strerror err"

definition magnet_error_text :: "byte list" where
  "magnet_error_text = bytes ''Magnet links require metadata download (BEP-9) - use a .torrent file instead''"

definition start_error :: "torrent_error \<Rightarrow> byte list \<Rightarrow> managed_torrent \<Rightarrow> managed_torrent" where
  "start_error e msg mt = set_error e msg (mt\<lparr>mt_state := TORRENT_ERROR\<rparr>)"

text \<open>The part of \<open>torrent_mgr_start\<close> from the creation of the directory on.\<close>

definition launch ::
  "env \<Rightarrow> (byte list \<Rightarrow> bool option) \<Rightarrow> (nat \<Rightarrow> byte list) \<Rightarrow> torrent \<Rightarrow> managed_torrent \<Rightarrow> world \<Rightarrow>
   int \<times> managed_torrent \<times> world" where
  "launch en stat strerror t mt w =
     (case ensure_directory_tree en stat (mt_save_path mt) (wd_fs w) of
        (Some err, fs) \<Rightarrow>
          (- 1, start_error TERR_WRITE_FAILED (directory_error_text strerror err (mt_save_path mt)) mt, w\<lparr>wd_fs := fs\<rparr>)
      | (None, fs) \<Rightarrow>
        let w = w\<lparr>wd_fs := fs\<rparr>
        in if mt_is_magnet mt \<and> t_num_pieces t = 0
           then (- 1, start_error TERR_PARSE_FAILED magnet_error_text mt, w)
           else
             let mt = mt\<lparr>mt_piece_mgr := piece_mgr_init (en_mem en) (t_num_pieces t) (t_piece_length t)
                                           (t_total_size t) (t_pieces t)\<rparr>
             in if pm_pieces (mt_piece_mgr mt) = None \<or> pm_bitfield (mt_piece_mgr mt) = None
                then (- 1, start_error TERR_PARSE_FAILED (bytes ''Not enough memory for torrent pieces'') mt, w)
                else case file_writer_init (en_os en) (en_mem en) t (mt_save_path mt) (wd_fs w) of
                  (r, fw, fs) \<Rightarrow>
                    let mt = mt\<lparr>mt_file_writer := fw\<rparr>; w = w\<lparr>wd_fs := fs\<rparr>
                    in if r < 0
                       then (- 1, start_error TERR_WRITE_FAILED
                               (file_error_text strerror (en_errno en) (mt_save_path mt)) mt, w)
                       else (0, mt\<lparr>mt_state := TORRENT_DOWNLOADING, mt_start_time := en_now en,
                               mt_last_announce_time := 0, mt_last_progress_time := en_now en,
                               mt_last_speed_calc := en_now en, mt_last_downloaded := mt_downloaded mt,
                               mt_last_uploaded := mt_uploaded mt\<rparr>, w))"

definition torrent_mgr_start ::
  "env \<Rightarrow> (byte list \<Rightarrow> bool option) \<Rightarrow> (nat \<Rightarrow> byte list) \<Rightarrow> int \<Rightarrow> manager \<Rightarrow> int \<times> manager" where
  "torrent_mgr_start en stat strerror i mg =
     (if bad_index i mg then (- 1, mg)
      else let mt = mg_torrents mg ! nat i
      in if mt_state mt = TORRENT_DOWNLOADING \<or> mt_state mt = TORRENT_SEEDING \<or> mt_state mt = TORRENT_DONE
         then (0, put_torrent i (clear_error mt, mg_world mg) mg)
         else case mt_torrent mt of
           None \<Rightarrow> (- 1, mg)
         | Some t \<Rightarrow>
           let mg = (if pm_pieces (mt_piece_mgr mt) \<noteq> None \<or> fw_base_path (mt_file_writer mt) \<noteq> None
                     then let mg = torrent_mgr_stop (en_now en) i mg;
                              (mt, w) = destroy_writer (mg_torrents mg ! nat i) (mg_world mg)
                          in put_torrent i (mt\<lparr>mt_piece_mgr := piece_mgr_destroy (mt_piece_mgr mt)\<rparr>, w) mg
                     else mg);
               mt = clear_error ((mg_torrents mg ! nat i)\<lparr>mt_downloaded := 0\<rparr>)
           in case launch en stat strerror t mt (mg_world mg) of
                (r, s) \<Rightarrow> (r, put_torrent i s mg))"

section \<open>One tick\<close>

text \<open>What the thread library and the allocator answer to the schedulers of one torrent.\<close>

record tick_env =
  te_env :: env
  te_alloc :: bool
  te_spawn_discovery :: bool
  te_spawn_connect :: "nat \<Rightarrow> bool"
  te_spawn_web :: "nat \<Rightarrow> bool"

text \<open>The collection of the finished web seed batches, slot by slot.\<close>

definition collect_web_slot ::
  "env \<Rightarrow> web_seed_job option \<Rightarrow> managed_torrent list \<Rightarrow> world \<Rightarrow>
   web_seed_job option \<times> managed_torrent list \<times> world" where
  "collect_web_slot en slot ts w =
     (case slot of
        None \<Rightarrow> (slot, ts, w)
      | Some job \<Rightarrow>
          if \<not> wj_done job then (slot, ts, w)
          else (case live_index (wj_generation job) ts of
                  None \<Rightarrow> (None, ts, w)
                | Some i \<Rightarrow> (case collect_batch en job (ts ! i) w of (mt, w) \<Rightarrow> (None, ts[i := mt], w))))"

primrec collect_web_seed ::
  "env \<Rightarrow> web_seed_job option list \<Rightarrow> managed_torrent list \<Rightarrow> world \<Rightarrow>
   web_seed_job option list \<times> managed_torrent list \<times> world" where
  "collect_web_seed en [] ts w = ([], ts, w)"
| "collect_web_seed en (slot # slots) ts w =
     (case collect_web_slot en slot ts w of (slot, ts, w) \<Rightarrow>
      case collect_web_seed en slots ts w of (slots, ts, w) \<Rightarrow> (slot # slots, ts, w))"

definition update_speed :: "u64 \<Rightarrow> managed_torrent \<Rightarrow> managed_torrent" where
  "update_speed now mt =
     (if mt_last_speed_calc mt < now
      then let elapsed = now - mt_last_speed_calc mt
           in if 2 \<le> elapsed
              then mt\<lparr>mt_speed_down := (mt_downloaded mt - mt_last_downloaded mt) div elapsed,
                      mt_speed_up := (mt_uploaded mt - mt_last_uploaded mt) div elapsed,
                      mt_last_speed_calc := now, mt_last_downloaded := mt_downloaded mt,
                      mt_last_uploaded := mt_uploaded mt\<rparr>
              else mt
      else mt)"

definition announce_due :: "u64 \<Rightarrow> managed_torrent \<Rightarrow> bool" where
  "announce_due now mt \<longleftrightarrow> mt_last_announce_time mt = 0 \<or>
     (0 < mt_tracker_interval mt \<and> word_of_int (mt_tracker_interval mt) \<le> now - mt_last_announce_time mt)"

definition process_peers :: "env \<Rightarrow> managed_torrent \<Rightarrow> world \<Rightarrow> managed_torrent \<times> world" where
  "process_peers en mt w =
     foldl (\<lambda>(mt, w) i. process_peer en i mt w) (mt, w) [0..<length (mt_peers mt)]"

text \<open>A torrent whose pieces are all complete.\<close>

definition complete_torrent :: "u64 \<Rightarrow> managed_torrent \<Rightarrow> world \<Rightarrow> managed_torrent \<times> world" where
  "complete_torrent now mt w =
     (case disconnect_all now mt w of
        (mt, w) \<Rightarrow> (case finish_writer mt w of
          (mt, w) \<Rightarrow> (mt\<lparr>mt_state := TORRENT_DONE, mt_progress := 1, mt_speed_down := 0, mt_speed_up := 0\<rparr>, w)))"

type_synonym tick_state =
  "managed_torrent \<times> world \<times> discovery_job option list \<times> peer_connect_job option list \<times> web_seed_job option list"

text \<open>
  The body of the loop over the torrents.  The loop over web seed batches gets the fuel that
  \<open>schedule_enough\<close> shows to suffice.
\<close>

definition tick_torrent :: "tick_env \<Rightarrow> tick_state \<Rightarrow> tick_state" where
  "tick_torrent te s =
     (case s of (mt, w, dj, cj, wj) \<Rightarrow>
        let en = te_env te; now = en_now en
        in if mt_state mt \<noteq> TORRENT_DOWNLOADING then s
           else if piece_mgr_is_done (mt_piece_mgr mt)
           then (case complete_torrent now mt w of (mt, w) \<Rightarrow> (mt, w, dj, cj, wj))
           else
             let mt = update_speed now (mt\<lparr>mt_progress := piece_mgr_progress (mt_piece_mgr mt)\<rparr>);
                 (mt, dj) = (if announce_due now mt
                             then schedule_discovery en (te_alloc te) (te_spawn_discovery te) mt dj else (mt, dj));
                 (mt, w) = process_peers en mt w;
                 (mt, cj) = schedule_peer_connections en (te_spawn_connect te) mt cj;
                 (mt, wj) = the (schedule_web_seed (Suc WEB_SEED_PARALLEL_PER_TORRENT) en (te_spawn_web te) mt wj)
             in (update_peer_status now mt, w, dj, cj, wj))"

primrec tick_torrents ::
  "(nat \<Rightarrow> tick_env) \<Rightarrow> nat list \<Rightarrow> manager \<Rightarrow> manager" where
  "tick_torrents te [] mg = mg"
| "tick_torrents te (i # is) mg =
     (case tick_torrent (te i) (mg_torrents mg ! i, mg_world mg, mg_discovery mg, mg_connects mg, mg_web mg) of
        (mt, w, dj, cj, wj) \<Rightarrow>
          tick_torrents te is (mg\<lparr>mg_torrents := (mg_torrents mg)[i := mt], mg_world := w, mg_discovery := dj,
                                  mg_connects := cj, mg_web := wj\<rparr>))"

text \<open>The collections at the start of a tick.\<close>

definition collect_jobs :: "env \<Rightarrow> manager \<Rightarrow> manager" where
  "collect_jobs en mg =
     (let (wj, ts, w) = collect_web_seed en (mg_web mg) (mg_torrents mg) (mg_world mg);
          (dj, ts) = collect_discovery (en_now en) (mg_discovery mg) ts;
          (cj, ts, w) = collect_peer_connections (en_now en) (mg_connects mg) ts w
      in mg\<lparr>mg_torrents := ts, mg_world := w, mg_discovery := dj, mg_connects := cj, mg_web := wj\<rparr>)"

text \<open>The number of torrents that were running, and the state after the tick.\<close>

definition torrent_mgr_tick :: "(nat \<Rightarrow> tick_env) \<Rightarrow> manager \<Rightarrow> nat \<times> manager" where
  "torrent_mgr_tick te mg =
     (let mg = collect_jobs (te_env (te 0)) mg
      in (length (filter (\<lambda>mt. mt_state mt = TORRENT_DOWNLOADING) (mg_torrents mg)),
          tick_torrents te [0..<length (mg_torrents mg)] mg))"

end
