(* ===== verification/FilePlaces.thy ===== *)
theory FilePlaces
  imports FileIO
begin

text \<open>
  Where a torrent writes: the places of its files below its directory.  A writer that is at home writes only
  there, so that torrents with different places do not disturb each other.
\<close>

section \<open>The places of a torrent\<close>

text \<open>The file of a torrent with a single one, or the files that hold bytes.\<close>

definition places :: "torrent \<Rightarrow> byte list \<Rightarrow> path_key set" where
  "places t base =
     (if t_is_multi_file t then file_key base ` {f \<in> set (t_files t). 0 < sint (tf_length f)}
      else {key_of (cstr base @ slash # cstr (the (if t_file_name t \<noteq> None then t_file_name t else t_name t)))})"

definition at_home :: "torrent \<Rightarrow> byte list \<Rightarrow> file_writer \<Rightarrow> bool" where
  "at_home t base fw \<longleftrightarrow> fw_torrent fw = Some t \<and> fw_multi_file fw = t_is_multi_file t \<and>
     (if t_is_multi_file t then fw_base_path fw = Some base else fw_key fw \<in> places t base)"

text \<open>Files outside of a set keep their bytes.\<close>

definition file_frame :: "path_key set \<Rightarrow> fsys \<Rightarrow> fsys \<Rightarrow> bool" where
  "file_frame K fs fs' \<longleftrightarrow> (\<forall>k. k \<notin> K \<longrightarrow> contents fs' k = contents fs k)"

named_theorems frames \<open>steps that write only to the places of their torrent\<close>

lemma frame_refl [simp, frames]: "file_frame K fs fs"
  by (simp add: file_frame_def)

lemma frame_steps: "file_frame K fs fs1 \<Longrightarrow> file_frame K fs1 fs2 \<Longrightarrow> file_frame K fs fs2"
  by (simp add: file_frame_def)

lemma frame_mono: "file_frame K fs fs' \<Longrightarrow> K \<subseteq> L \<Longrightarrow> file_frame L fs fs'"
  by (auto simp: file_frame_def)

lemma frame_files: "fs_files fs' = fs_files fs \<Longrightarrow> file_frame K fs fs'"
  by (simp add: file_frame_def contents_def)

lemma frame_set: "k \<in> K \<Longrightarrow> file_frame K fs (set_file k bs fs)"
  by (simp add: file_frame_def)

section \<open>Writing a piece\<close>

lemma part_frame:
  assumes "write_part os base f ws xs fs = (ok, fs')"
  shows "file_frame {file_key base f} fs fs'"
  unfolding file_frame_def contents_def using write_part_frame [OF assms] by (metis singletonI)

lemma files_frame:
  "write_files os base files ps pe data fo d fs = (ok, fs', w) \<Longrightarrow>
   file_frame (file_key base ` {f \<in> set files. 0 < sint (tf_length f)}) fs fs'"
proof (induction files arbitrary: fo d fs ok fs' w)
  case (Cons f files)
  let ?K = "file_key base ` {g \<in> set (f # files). 0 < sint (tf_length g)}"
  let ?begun = "if fo < ps then ps - fo else 0"
  let ?stop = "if pe < fo + sint (tf_length f) then pe - fo else sint (tf_length f)"
  have tail: "file_frame ?K fs1 fs2" if "write_files os base files ps pe data fo' d' fs1 = (ok', fs2, w')" for fo' d' fs1 ok' fs2 w'
    using Cons.IH [OF that] by (rule frame_mono) auto
  let ?len = "nat (?stop - ?begun)" and ?fe = "fo + sint (tf_length f)"
  consider "length data \<le> d" | "\<not> length data \<le> d" "\<not> (ps < ?fe \<and> fo < pe) \<or> ?len = 0"
    | "\<not> length data \<le> d" "ps < ?fe" "fo < pe" "0 < ?len" by (metis neq0_conv)
  then show ?case
  proof cases
    case 1
    then show ?thesis using Cons.prems by simp
  next
    case 2
    then have "write_files os base files ps pe data ?fe d fs = (ok, fs', w)"
      using Cons.prems by (auto simp: Let_def split: if_splits)
    then show ?thesis by (rule tail)
  next
    case 3
    obtain ok1 fs1 where p: "write_part os base f ?begun (take ?len (drop d data)) fs = (ok1, fs1)"
      by (metis prod.exhaust)
    have "0 < sint (tf_length f)" using 3 by (auto split: if_splits)
    then have f1: "file_frame ?K fs fs1" by (intro frame_mono [OF part_frame [OF p]]) auto
    obtain ok2 fs2 w2 where r: "write_files os base files ps pe data ?fe (d + ?len) fs1 = (ok2, fs2, w2)"
      by (metis prod.exhaust)
    have "fs' = fs1 \<or> fs' = fs2"
      using Cons.prems 3 p r by (cases ok1) (simp_all add: Let_def not_le)
    then show ?thesis using f1 tail [OF r] frame_steps by blast
  qed
qed simp

lemma write_home:
  assumes home: "at_home t base fw" and run: "file_writer_write_piece os fw data i fs = (r, fw', fs')"
  shows "at_home t base fw'" "file_frame (places t base) fs fs'"
proof -
  show "at_home t base fw'" using home write_piece_keeps [OF run] by (simp add: at_home_def)
  show "file_frame (places t base) fs fs'"
  proof (cases "t_is_multi_file t")
    case True
    then show ?thesis
      using home run
      by (auto simp: at_home_def file_writer_write_piece_def places_def Let_def dest!: files_frame split: prod.splits if_splits)
  next
    case False
    then have k: "fw_key fw \<in> places t base" using home by (simp add: at_home_def)
    have "file_frame (places t base) fs (snd (sys_write os (fw_key fw) off xs fs))" for off xs
      using frame_set [OF k] by (simp add: sys_write_def Let_def)
    moreover have "fs' = fs \<or> fs' = snd (sys_write os (fw_key fw) (piece_offset t i) data fs)"
      using home run False
      by (cases "sys_write os (fw_key fw) (piece_offset t i) data fs")
        (auto simp: at_home_def file_writer_write_piece_def Let_def split: if_splits)
    ultimately show ?thesis by auto
  qed
qed

section \<open>Opening and finishing\<close>

lemma make_dirs_frame: "file_frame K fs (snd (create_parent_directories os p fs))"
  by (rule frame_files) (simp add: create_parent_directories_def make_dirs_files)

lemma init_home:
  assumes "file_writer_init os mem t base fs = (r, fw, fs')"
  shows "file_frame (places t base) fs fs'" "\<not> r < 0 \<Longrightarrow> at_home t base fw" "r < 0 \<Longrightarrow> fs' = fs"
  using assms
  by (auto simp: file_writer_init_def Let_def fw_zero_def at_home_def places_def full_path_def
      split: if_splits option.splits intro!: frame_set)

lemma finish_home: "file_writer_finish fw = (fw', fds) \<Longrightarrow> at_home t base fw \<Longrightarrow> at_home t base fw'"
  by (auto simp: file_writer_finish_def at_home_def split: if_splits)

section \<open>What a torrent sees\<close>

text \<open>The content of a torrent at home depends on its own places only.\<close>

lemma home_view:
  assumes "at_home t base fw" "file_frame K fs fs'" "K \<inter> places t base = {}"
  shows "writer_view t (fw, fs') = writer_view t (fw, fs)"
proof -
  have same: "contents fs' k = contents fs k" if "k \<in> places t base" for k
    using assms(2,3) that by (auto simp: file_frame_def)
  show ?thesis
  proof (cases "t_is_multi_file t")
    case True
    have "file_view base fs' f = file_view base fs f" if "f \<in> set (t_files t)" for f
    proof (cases "0 < sint (tf_length f)")
      case pos: True
      have "file_key base f \<in> places t base" using True that pos by (auto simp: places_def)
      then show ?thesis using same by (simp add: file_view_def)
    qed (simp add: view_empty)
    then show ?thesis using assms(1) True by (simp add: writer_view_def at_home_def flat_content_def cong: map_cong)
  next
    case False
    then show ?thesis using assms(1) same by (simp add: writer_view_def at_home_def)
  qed
qed

end
