(* ===== verification/Homes.thy ===== *)
theory Homes
  imports FilePlaces TorrentMgr
begin

text \<open>
  What a torrent does to the file system: the steps of its peers, of its web seed batches and of its writer touch its own
  places only, and its writer stays at home there.
\<close>

section \<open>Staying at home\<close>

definition stays :: "managed_torrent \<Rightarrow> world \<Rightarrow> managed_torrent \<Rightarrow> world \<Rightarrow> bool" where
  "stays mt w mt' w' \<longleftrightarrow> mt_save_path mt' = mt_save_path mt \<and>
     (\<forall>t. at_home t (mt_save_path mt) (mt_file_writer mt) \<longrightarrow>
        at_home t (mt_save_path mt) (mt_file_writer mt') \<and>
        file_frame (places t (mt_save_path mt)) (wd_fs w) (wd_fs w'))"

definition at_rest :: "managed_torrent \<Rightarrow> world \<Rightarrow> peer_state \<Rightarrow> bool" where
  "at_rest mt w s \<longleftrightarrow> (case s of (mt', p, w') \<Rightarrow> stays mt w mt' w')"

lemma at_rest_simp [simp]: "at_rest mt w (mt', p, w') \<longleftrightarrow> stays mt w mt' w'"
  by (simp add: at_rest_def)

lemma stays_same:
  "mt_save_path mt' = mt_save_path mt \<Longrightarrow> mt_file_writer mt' = mt_file_writer mt \<Longrightarrow> wd_fs w' = wd_fs w \<Longrightarrow> stays mt w mt' w'"
  by (simp add: stays_def)

lemma stays_refl [simp]: "stays mt w mt w"
  by (rule stays_same) simp_all

lemma stays_trans: "stays mt w mt1 w1 \<Longrightarrow> stays mt1 w1 mt2 w2 \<Longrightarrow> stays mt w mt2 w2"
  by (auto simp: stays_def intro: frame_steps)

lemma at_rest_trans: "stays mt w mt1 w1 \<Longrightarrow> at_rest mt1 w1 s \<Longrightarrow> at_rest mt w s"
  by (auto simp: at_rest_def intro: stays_trans)

lemma stays_write:
  assumes "file_writer_write_piece os (mt_file_writer mt) d i (wd_fs w) = (r, fw, fs)"
    "mt_save_path mt' = mt_save_path mt" "mt_file_writer mt' = fw" "wd_fs w' = fs"
  shows "stays mt w mt' w'"
  using write_home [OF _ assms(1)] assms(2-4) by (auto simp: stays_def)

section \<open>Peers\<close>

lemma rest_disconnect: "stays mt w mt' w' \<Longrightarrow> at_rest mt w (disconnect_peer now mt' p w')"
  by (erule at_rest_trans) (simp add: at_rest_def stays_def disconnect_peer_def release_piece_def close_sock_def Let_def)

lemma rest_drop: "stays mt w mt' w' \<Longrightarrow> at_rest mt w (snd (drop_peer en mt' p w'))"
  by (simp add: drop_peer_def rest_disconnect)

lemma rest_availability: "at_rest mt w (snd (on_availability en ev mt p w))"
  by (auto simp: on_availability_def Let_def intro!: rest_drop)

lemma rest_finish: "at_rest mt w (snd (finish_piece en mt p w))"
proof -
  obtain r fw fs where f: "file_writer_write_piece (en_os en) (mt_file_writer mt) (the (pr_piece_data p))
      (unat (pr_last_request p)) (wd_fs w) = (r, fw, fs)" by (metis prod.exhaust)
  show ?thesis
    using stays_write [OF f]
    by (auto simp: finish_piece_def f release_piece_def set_candidate_def set_error_def Let_def intro!: rest_drop split: option.split)
qed

lemma rest_on_block: "at_rest mt w (snd (on_block en ev mt p w))"
  by (auto simp: on_block_def Let_def intro!: rest_drop at_rest_trans [OF stays_same rest_finish] stays_same split: option.split)

lemma rest_event: "at_rest mt w (snd (on_event en ev mt p w))"
  using rest_availability rest_on_block by (simp add: on_event_def)

lemma rest_events: "at_rest mt w (snd (peer_events n en mt p w))"
proof (induction n arbitrary: mt p w)
  case (Suc n)
  let ?sk = "wd_socks w (pr_sock p)"
  obtain ret ev sk where r: "peer_recv_event (en_mem en) (en_poll en ?sk) (en_ioctl en) True True 0
      blank_event ?sk = (ret, ev, sk)" by (metis prod.exhaust)
  let ?w = "w\<lparr>wd_socks := (wd_socks w)(pr_sock p := sk)\<rparr>" and ?p = "p\<lparr>pr_last_activity := en_now en\<rparr>"
  obtain v mt1 p1 w1 where v: "on_event en ev mt ?p ?w = (v, mt1, p1, w1)" by (metis prod.exhaust)
  have w: "stays mt w mt ?w" by (rule stays_same) simp_all
  have "stays mt ?w mt1 w1" using rest_event [of mt ?w en ev ?p] v by simp
  then have s: "stays mt w mt1 w1" by (rule stays_trans [OF w])
  show ?case
    using r v s w Suc.IH [of mt1 w1 p1] rest_drop [OF w, of en p] at_rest_trans [OF s]
    by (cases v) (simp_all add: Let_def)
qed simp

lemma rest_block_request: "at_rest mt w (request_block en mt p w)"
  by (auto simp: request_block_def Let_def intro!: rest_disconnect stays_same split: prod.split)

lemma rest_next: "at_rest mt w (next_request en mt p w)"
  by (auto simp: next_request_def Let_def set_error_def
      intro!: rest_disconnect stays_same at_rest_trans [OF stays_same rest_block_request] rest_block_request)

lemma rest_serve: "at_rest mt w (serve_peer en mt p w)"
proof -
  define q where "q = (if pr_last_activity p = 0 then p\<lparr>pr_last_activity := en_now en\<rparr> else p)"
  obtain v mt1 p1 w1 where v: "peer_events 8 en mt q w = (v, mt1, p1, w1)" by (metis prod.exhaust)
  have s: "stays mt w mt1 w1" using rest_events [of mt w 8 en q] v by simp
  have "serve_peer en mt p w = (if pr_sock p < 0 \<or> mt_state mt \<noteq> TORRENT_DOWNLOADING then (mt, p, w)
      else if peer_expired (en_now en) q then disconnect_peer (en_now en) mt q w
      else case v of Return \<Rightarrow> (mt1, p1, w1) | GoOn \<Rightarrow> next_request en mt1 p1 w1)"
    using v by (cases v) (simp_all only: serve_peer_def Let_def q_def [symmetric] prod.case verdict.case)
  then show ?thesis
    using s at_rest_trans [OF s rest_next] rest_disconnect [OF stays_refl] by (cases v) simp_all
qed

lemma stays_process: "process_peer en i mt w = (mt', w') \<Longrightarrow> stays mt w mt' w'"
proof -
  assume run: "process_peer en i mt w = (mt', w')"
  obtain mt1 p1 where s: "serve_peer en mt (mt_peers mt ! i) w = (mt1, p1, w')"
    "mt' = mt1\<lparr>mt_peers := (mt_peers mt)[i := p1]\<rparr>"
    using run by (auto simp: process_peer_def split: prod.splits)
  have "stays mt w mt1 w'" using rest_serve [of mt w en "mt_peers mt ! i"] s by simp
  then show "stays mt w mt' w'" by (rule stays_trans) (simp add: s stays_same)
qed

lemma stays_fold:
  assumes "\<And>mt w i mt' w'. f i mt w = (mt', w') \<Longrightarrow> stays mt w mt' w'"
  shows "foldl (\<lambda>(mt, w) i. f i mt w) (mt, w) is = (mt', w') \<Longrightarrow> stays mt w mt' w'"
proof (induction "is" arbitrary: mt' w' rule: rev_induct)
  case (snoc i "is")
  obtain m v where l: "foldl (\<lambda>(mt, w) i. f i mt w) (mt, w) is = (m, v)" by (metis prod.exhaust)
  then show ?case using snoc assms [of i m v mt' w'] stays_trans by simp
qed simp

lemma stays_process_peers: "process_peers en mt w = (mt', w') \<Longrightarrow> stays mt w mt' w'"
  unfolding process_peers_def by (rule stays_fold [OF stays_process])

lemma stays_disconnect_at: "disconnect_at now i mt w = (mt', w') \<Longrightarrow> stays mt w mt' w'"
proof -
  assume run: "disconnect_at now i mt w = (mt', w')"
  obtain mt1 p1 where s: "disconnect_peer now mt (mt_peers mt ! i) w = (mt1, p1, w')"
    "mt' = mt1\<lparr>mt_peers := (mt_peers mt)[i := p1]\<rparr>"
    using run by (auto simp: disconnect_at_def split: prod.splits)
  have "stays mt w mt1 w'" using rest_disconnect [OF stays_refl, of mt w now "mt_peers mt ! i"] s by simp
  then show "stays mt w mt' w'" by (rule stays_trans) (simp add: s stays_same)
qed

lemma stays_disconnect: "disconnect_all now mt w = (mt', w') \<Longrightarrow> stays mt w mt' w'"
  unfolding disconnect_all_def by (rule stays_fold [OF stays_disconnect_at])

lemma stays_finish: "finish_writer mt w = (mt', w') \<Longrightarrow> stays mt w mt' w'"
  using finish_home by (auto simp: finish_writer_def stays_def split: prod.splits)

lemma stays_complete: "complete_torrent now mt w = (mt', w') \<Longrightarrow> stays mt w mt' w'"
proof -
  assume run: "complete_torrent now mt w = (mt', w')"
  obtain mt1 w1 where d: "disconnect_all now mt w = (mt1, w1)" by (metis prod.exhaust)
  obtain mt2 where f: "finish_writer mt1 w1 = (mt2, w')" "mt_save_path mt' = mt_save_path mt2" "mt_file_writer mt' = mt_file_writer mt2"
    using run d by (auto simp: complete_torrent_def split: prod.splits)
  have "stays mt w mt2 w'" using stays_disconnect [OF d] stays_finish [OF f(1)] by (rule stays_trans)
  then show "stays mt w mt' w'" by (rule stays_trans) (simp add: f stays_same)
qed

section \<open>Web seed batches\<close>

lemma stays_save: "save_pieces en ns i data mt w saved = (mt', w', saved', failed) \<Longrightarrow> stays mt w mt' w'"
proof (induction ns arbitrary: i data mt w saved)
  case (Cons n ns)
  obtain r fw fs where f: "file_writer_write_piece (en_os en) (mt_file_writer mt) (take n data) i (wd_fs w) = (r, fw, fs)"
    by (metis prod.exhaust)
  have same: "stays mt w m w" if "mt_save_path m = mt_save_path mt" "mt_file_writer m = mt_file_writer mt" for m
    using that by (simp add: stays_same)
  have wrote: "stays mt w m (w\<lparr>wd_fs := fs\<rparr>)" if "mt_save_path m = mt_save_path mt" "mt_file_writer m = fw" for m
    using stays_write [OF f] that by simp
  define pm where "pm = mt_piece_mgr mt"
  obtain c pm1 where c: "piece_mgr_complete pm i (take n data) = (c, pm1)" by (metis prod.exhaust)
  let ?ok = "sha1_hash (take n data) = take 20 (drop (i * 20) (the (t_pieces (torrent_of mt))))"
  consider "pm_num_pieces pm \<le> i \<or> state_at pm i = PIECE_COMPLETE"
    | "\<not> (pm_num_pieces pm \<le> i \<or> state_at pm i = PIECE_COMPLETE)" "\<not> ?ok"
    | "\<not> (pm_num_pieces pm \<le> i \<or> state_at pm i = PIECE_COMPLETE)" ?ok "r \<noteq> 0 \<or> c \<noteq> 0"
    | "\<not> (pm_num_pieces pm \<le> i \<or> state_at pm i = PIECE_COMPLETE)" ?ok "r = 0" "c = 0" by blast
  then show ?case
  proof cases
    case 1
    then show ?thesis using Cons.prems Cons.IH [of "Suc i" "drop n data" mt w saved] by (simp add: Let_def pm_def)
  next
    case 2
    then show ?thesis using Cons.prems same by (auto simp: Let_def pm_def)
  next
    case 3
    then show ?thesis using Cons.prems wrote c by (auto simp: Let_def f pm_def split: if_splits)
  next
    case 4
    let ?m = "mt\<lparr>mt_file_writer := fw, mt_piece_mgr := pm1, mt_downloaded := mt_downloaded mt + of_nat n\<rparr>"
    have "save_pieces en ns (Suc i) (drop n data) ?m (w\<lparr>wd_fs := fs\<rparr>) (Suc saved) = (mt', w', saved', failed)"
      using Cons.prems 4 c by (simp add: Let_def f pm_def)
    from stays_trans [OF wrote Cons.IH [OF this]] show ?thesis by simp
  qed
qed simp

lemma stays_collect: "collect_batch en job mt w = (mt', w') \<Longrightarrow> stays mt w mt' w'"
proof -
  assume run: "collect_batch en job mt w = (mt', w')"
  obtain mt1 w1 saved failed where s: "save_pieces en (wj_piece_sizes job) (wj_first_piece job) (wj_data job) mt w 0 = (mt1, w1, saved, failed)"
    by (metis prod.exhaust)
  have same: "stays mt1 w1 mt2 w1" if "mt_save_path mt2 = mt_save_path mt1" "mt_file_writer mt2 = mt_file_writer mt1" for mt2
    using that by (simp add: stays_same)
  have rel: "mt_save_path (release_from k job m) = mt_save_path m" "mt_file_writer (release_from k job m) = mt_file_writer m" for k m
    by (simp_all add: release_from_def)
  show "stays mt w mt' w'"
  proof (cases "\<not> pm_num_pieces (mt_piece_mgr mt) \<le> wj_first_piece job \<and> wj_ok job")
    case True
    then have "w' = w1" "mt_save_path mt' = mt_save_path mt1" "mt_file_writer mt' = mt_file_writer mt1"
      using run by (auto simp: collect_batch_def s rel Let_def split: if_splits)
    then show ?thesis using stays_trans [OF stays_save [OF s] same] by simp
  next
    case False
    then have "w' = w" "mt_save_path mt' = mt_save_path mt" "mt_file_writer mt' = mt_file_writer mt"
      using run by (auto simp: collect_batch_def rel split: if_splits)
    then show ?thesis by (simp add: stays_same)
  qed
qed

section \<open>A start\<close>

lemma tree_files: "ensure_directory_tree en stat path fs = (r, fs') \<Longrightarrow> fs_files fs' = fs_files fs"
proof -
  have "make_tree en stat ps fs = (r, fs') \<Longrightarrow> fs_files fs' = fs_files fs" for ps fs
    by (induction ps arbitrary: fs) (auto split: if_splits option.splits)
  then show "ensure_directory_tree en stat path fs = (r, fs') \<Longrightarrow> fs_files fs' = fs_files fs"
    by (auto simp: ensure_directory_tree_def split: if_splits)
qed

lemma launch_home:
  assumes "launch en stat strerror t mt w = (r, mt', w')"
  shows "mt_save_path mt' = mt_save_path mt" "file_frame (places t (mt_save_path mt)) (wd_fs w) (wd_fs w')"
    "r = 0 \<Longrightarrow> at_home t (mt_save_path mt) (mt_file_writer mt')" "r \<noteq> 0 \<Longrightarrow> file_frame K (wd_fs w) (wd_fs w')"
proof -
  obtain r1 fs1 where d: "ensure_directory_tree en stat (mt_save_path mt) (wd_fs w) = (r1, fs1)" by (metis prod.exhaust)
  have f1: "file_frame K (wd_fs w) fs1" for K using frame_files [OF tree_files [OF d]] .
  obtain r2 fw fs2 where i: "file_writer_init (en_os en) (en_mem en) t (mt_save_path mt) fs1 = (r2, fw, fs2)" by (metis prod.exhaust)
  note h = init_home [OF i]
  show "mt_save_path mt' = mt_save_path mt"
    using assms by (auto simp: launch_def d i Let_def start_error_def set_error_def split: option.splits if_splits)
  show "file_frame (places t (mt_save_path mt)) (wd_fs w) (wd_fs w')"
    using assms f1 frame_steps [OF f1 h(1)]
    by (auto simp: launch_def d i Let_def start_error_def set_error_def split: option.splits if_splits)
  show "at_home t (mt_save_path mt) (mt_file_writer mt')" if "r = 0"
    using assms that h(2) by (auto simp: launch_def d i Let_def start_error_def split: option.splits if_splits)
  show "file_frame K (wd_fs w) (wd_fs w')" if "r \<noteq> 0"
    using assms that f1 h(3) by (auto simp: launch_def d i Let_def start_error_def set_error_def split: option.splits if_splits)
qed

end
