(* ===== verification/Engine.thy ===== *)
theory Engine
  imports Homes
begin

text \<open>
  The download engine as a whole: the tick and the workers of a running torrent keep the invariant of
  its board, its peers and its web seed jobs; a torrent that is reported as done has all of its pieces
  on disk with the digests that its metainfo lists.
\<close>

section \<open>The invariant of a running torrent\<close>

text \<open>A peer slot that is not connected has nothing in hand; \<open>b\<close> are the assembly bytes of the other torrents.\<close>

definition tidy :: "torrent_peer \<Rightarrow> bool" where
  "tidy p \<longleftrightarrow> 0 \<le> pr_sock p \<or> pr_piece_data p = None"

definition engine_ok :: "kernel \<Rightarrow> torrent \<Rightarrow> web_seed_job option list \<Rightarrow> int \<Rightarrow> managed_torrent \<Rightarrow> world \<Rightarrow> bool" where
  "engine_ok os t js b mt w \<longleftrightarrow> table_ok os t js b mt w \<and> (\<forall>p \<in> set (mt_peers mt). tidy p) \<and>
     at_home t (mt_save_path mt) (mt_file_writer mt)"

text \<open>What the invariant looks at.\<close>

definition same_core :: "managed_torrent \<Rightarrow> managed_torrent \<Rightarrow> bool" where
  "same_core mt mt' \<longleftrightarrow> mt_torrent mt' = mt_torrent mt \<and> mt_piece_mgr mt' = mt_piece_mgr mt \<and>
     mt_file_writer mt' = mt_file_writer mt \<and> mt_peers mt' = mt_peers mt \<and> mt_generation mt' = mt_generation mt \<and>
     mt_save_path mt' = mt_save_path mt \<and> mt_is_magnet mt' = mt_is_magnet mt \<and> mt_state mt' = mt_state mt"

lemma same_core_refl [simp]: "same_core mt mt"
  by (simp add: same_core_def)

lemma same_core_trans: "same_core a b \<Longrightarrow> same_core b c \<Longrightarrow> same_core a c"
  by (simp add: same_core_def)

lemma engine_core:
  assumes "engine_ok os t js b mt w" "same_core mt mt'" "wd_assembly w' = wd_assembly w" "wd_fs w' = wd_fs w"
  shows "engine_ok os t js b mt' w'"
  using assms by (simp add: engine_ok_def table_ok_def swarm_ok_def same_core_def)

named_theorems core \<open>steps that leave the core of a torrent alone\<close>

lemma core_error [core]: "same_core mt (set_error e msg mt)" "same_core mt (clear_error mt)"
  by (simp_all add: same_core_def set_error_def clear_error_def)

lemma core_candidate [core]:
  "same_core mt (set_candidate i c mt)" "same_core mt (record_peer_failure now a mt)" "same_core mt (add_candidate mt a)"
  by (simp_all add: same_core_def set_candidate_def record_peer_failure_def add_candidate_def Let_def split: option.split)

lemma core_adds [core]: "same_core mt (foldl add_candidate mt as)"
proof (induction as arbitrary: mt)
  case (Cons a as)
  then show ?case using same_core_trans [OF core_candidate(3) [of mt a] Cons [of "add_candidate mt a"]] by simp
qed simp

lemma core_status [core]: "same_core mt (update_peer_status now mt)" "same_core mt (update_speed now mt)"
  by (simp_all add: update_peer_status_def update_speed_def same_core_def set_error_def clear_error_def Let_def)

lemma core_discovery [core]: "same_core mt (fst (schedule_discovery en al sp mt dj))"
  by (simp add: schedule_discovery_def same_core_def Let_def split: option.split)

lemma core_finish_discovery [core]: "same_core mt (finish_discovery now res mt)"
  by (simp add: finish_discovery_def same_core_def set_error_def Let_def)

lemma core_round [core]: "same_core mt (fst (connect_round n en sp pending mt cj))"
proof (induction n arbitrary: pending mt cj)
  case (Suc n)
  let ?i = "mt_next_candidate mt mod length (mt_candidates mt)"
  define mt1 where "mt1 = mt\<lparr>mt_next_candidate := Suc (mt_next_candidate mt) mod length (mt_candidates mt)\<rparr>"
  have c1: "same_core mt mt1" by (simp add: mt1_def same_core_def)
  have c2: "same_core mt (set_candidate ?i c mt1)" for c by (rule same_core_trans [OF c1 core_candidate(1)])
  show ?case
    using c1 c2 same_core_trans [OF c1 Suc] same_core_trans [OF c2 Suc]
    by (simp add: mt1_def [symmetric] Let_def split: option.split)
qed simp

lemma core_connections [core]: "same_core mt (fst (schedule_peer_connections en sp mt cj))"
  unfolding schedule_peer_connections_def by (rule core_round)

section \<open>Peers\<close>

lemma process_engine:
  assumes ok: "engine_ok (en_os en) t js b mt w" and i: "i < length (mt_peers mt)"
    and run: "process_peer en i mt w = (mt', w')"
  shows "engine_ok (en_os en) t js b mt' w'" "length (mt_peers mt') = length (mt_peers mt)"
    "mt_state mt' = mt_state mt \<or> mt_state mt' = TORRENT_ERROR"
proof -
  obtain mt1 p1 where s: "serve_peer en mt (mt_peers mt ! i) w = (mt1, p1, w')"
    "mt' = mt1\<lparr>mt_peers := (mt_peers mt)[i := p1]\<rparr>"
    using run by (auto simp: process_peer_def split: prod.splits)
  have f: "frame mt (mt_peers mt ! i) (mt1, p1, w')" using frame_serve [of mt "mt_peers mt ! i" en w] s by simp
  have "tidy (mt_peers mt ! i)" using ok i by (simp add: engine_ok_def)
  moreover have "p1 = mt_peers mt ! i" if "pr_sock (mt_peers mt ! i) < 0" using that s(1)
    by (auto simp: serve_peer_def)
  ultimately have "tidy p1" using f by (cases "pr_sock (mt_peers mt ! i) < 0") (auto simp: frame_def tidy_def)
  then have tidy: "\<forall>p \<in> set (mt_peers mt'). tidy p"
    using ok s(2) by (auto simp: engine_ok_def dest: set_update_subset_insert [THEN subsetD])
  have gen: "mt_generation mt' = mt_generation mt" using f s(2) by (simp add: frame_def)
  have "swarm_ok (en_os en) t (job_list (mt_generation mt) js) b mt' w'"
    by (rule process_swarm [OF _ i run]) (use ok in \<open>simp add: engine_ok_def table_ok_def\<close>)
  then show "engine_ok (en_os en) t js b mt' w'"
    using ok tidy gen stays_process [OF run] by (simp add: engine_ok_def table_ok_def stays_def)
  show "length (mt_peers mt') = length (mt_peers mt)" using s(2) by simp
  show "mt_state mt' = mt_state mt \<or> mt_state mt' = TORRENT_ERROR" using f s(2) by (simp add: frame_def)
qed

text \<open>A loop over the indexes of the peers.\<close>

lemma peers_loop:
  assumes step: "\<And>mt w i mt' w'. P mt w \<Longrightarrow> i < length (mt_peers mt) \<Longrightarrow> f i mt w = (mt', w') \<Longrightarrow>
      P mt' w' \<and> length (mt_peers mt') = length (mt_peers mt)"
    and "P mt w" "foldl (\<lambda>(mt, w) i. f i mt w) (mt, w) [0..<length (mt_peers mt)] = (mt', w')"
  shows "P mt' w'"
proof -
  have "P (fst r) (snd r) \<and> length (mt_peers (fst r)) = length (mt_peers mt)"
    if "\<forall>i \<in> set is. i < length (mt_peers mt)" "r = foldl (\<lambda>(mt, w) i. f i mt w) (mt, w) is" for "is" r
    using that
  proof (induction "is" arbitrary: r rule: rev_induct)
    case (snoc i "is")
    define q where "q = foldl (\<lambda>(mt, w) i. f i mt w) (mt, w) is"
    have "P (fst q) (snd q) \<and> length (mt_peers (fst q)) = length (mt_peers mt)" using snoc q_def by simp
    moreover have "r = f i (fst q) (snd q)" using snoc.prems(2) by (simp add: q_def [symmetric] split: prod.split)
    ultimately show ?case using step [of "fst q" "snd q" i "fst r" "snd r"] snoc.prems(1) by simp
  qed (use assms(2) in simp)
  from this [of "[0..<length (mt_peers mt)]" "(mt', w')"] show ?thesis using assms(3) by simp
qed

lemma process_peers_engine:
  assumes ok: "engine_ok (en_os en) t js b mt w" and run: "process_peers en mt w = (mt', w')"
  shows "engine_ok (en_os en) t js b mt' w' \<and> (mt_state mt' = mt_state mt \<or> mt_state mt' = TORRENT_ERROR)"
proof -
  let ?P = "\<lambda>m w. engine_ok (en_os en) t js b m w \<and> (mt_state m = mt_state mt \<or> mt_state m = TORRENT_ERROR)"
  show ?thesis
  proof (rule peers_loop [where P = ?P and f = "process_peer en"])
    fix m v i m' v'
    assume a: "?P m v" "i < length (mt_peers m)" "process_peer en i m v = (m', v')"
    note p = process_engine [OF conjunct1 [OF a(1)] a(2,3)]
    show "?P m' v' \<and> length (mt_peers m') = length (mt_peers m)" using p a(1) by auto
  next
    show "?P mt w" using ok by simp
    show "foldl (\<lambda>(mt, w) i. process_peer en i mt w) (mt, w) [0..<length (mt_peers mt)] = (mt', w')"
      using run by (simp add: process_peers_def)
  qed
qed

text \<open>Disconnecting every peer.\<close>

lemma disconnect_engine:
  assumes ok: "engine_ok os t js b mt w" and i: "i < length (mt_peers mt)"
    and run: "disconnect_at now i mt w = (mt', w')"
  shows "engine_ok os t js b mt' w'" "length (mt_peers mt') = length (mt_peers mt)" "mt_state mt' = mt_state mt"
proof -
  let ?xs = "take i (mt_peers mt)" and ?ys = "drop (Suc i) (mt_peers mt)" and ?p = "mt_peers mt ! i"
  have sp: "mt_peers mt = ?xs @ ?p # ?ys" using i by (simp add: id_take_nth_drop)
  obtain mt1 p1 where d: "disconnect_peer now mt ?p w = (mt1, p1, w')" "mt' = mt1\<lparr>mt_peers := (mt_peers mt)[i := p1]\<rparr>"
    using run by (auto simp: disconnect_at_def split: prod.splits)
  have s: "swarm_ok os t (job_list (mt_generation mt) js) b mt w" using ok by (simp add: engine_ok_def table_ok_def)
  have "swarm_ok os t (job_list (mt_generation mt) js) b (mt1\<lparr>mt_peers := ?xs @ p1 # ?ys\<rparr>) w'"
    by (rule swarm_join [OF _ s sp]) (use disconnect_one [OF swarm_split [OF s sp], of now] d in simp)
  moreover have "(mt_peers mt)[i := p1] = ?xs @ p1 # ?ys" using i by (simp add: upd_conv_take_nth_drop)
  ultimately have sw: "swarm_ok os t (job_list (mt_generation mt) js) b mt' w'" using d(2) by simp
  have f: "mt_generation mt1 = mt_generation mt" "mt_state mt1 = mt_state mt" "pr_piece_data p1 = None"
    using d(1) by (auto simp: disconnect_peer_def release_piece_def Let_def split: if_splits)
  then have "tidy p1" by (simp add: tidy_def)
  then have "\<forall>p \<in> set (mt_peers mt'). tidy p"
    using ok d(2) by (auto simp: engine_ok_def dest: set_update_subset_insert [THEN subsetD])
  then show "engine_ok os t js b mt' w'"
    using ok sw f(1) d(2) stays_disconnect_at [OF run] by (simp add: engine_ok_def table_ok_def stays_def)
  show "length (mt_peers mt') = length (mt_peers mt)" "mt_state mt' = mt_state mt" using d(2) f(2) by simp_all
qed

lemma disconnect_all_engine:
  assumes ok: "engine_ok os t js b mt w" and run: "disconnect_all now mt w = (mt', w')"
  shows "engine_ok os t js b mt' w'"
proof (rule peers_loop [where P = "engine_ok os t js b" and f = "disconnect_at now"])
  fix m v i m' v'
  assume a: "engine_ok os t js b m v" "i < length (mt_peers m)" "disconnect_at now i m v = (m', v')"
  show "engine_ok os t js b m' v' \<and> length (mt_peers m') = length (mt_peers m)"
    using disconnect_engine [OF a] by simp
next
  show "engine_ok os t js b mt w" by (rule ok)
  show "foldl (\<lambda>(mt, w) i. disconnect_at now i mt w) (mt, w) [0..<length (mt_peers mt)] = (mt', w')"
    using run by (simp add: disconnect_all_def)
qed

section \<open>A finished torrent\<close>

text \<open>Every piece of the torrent is on disk with the digest that its metainfo lists.\<close>

definition all_verified :: "torrent \<Rightarrow> managed_torrent \<Rightarrow> world \<Rightarrow> bool" where
  "all_verified t mt w \<longleftrightarrow> (\<forall>i < t_num_pieces t.
     sha1_hash (slice t i (writer_view t (mt_file_writer mt, wd_fs w))) = piece_digest (the (t_pieces t)) i)"

lemma done_all:
  assumes "pm_ok pm" "piece_mgr_is_done pm"
  shows "done_set pm = {..<pm_num_pieces pm}"
proof (rule card_subset_eq)
  show "done_set pm \<subseteq> {..<pm_num_pieces pm}" using done_set_below by auto
  then have "card (done_set pm) \<le> card {..<pm_num_pieces pm}" by (intro card_mono) auto
  then show "card (done_set pm) = card {..<pm_num_pieces pm}"
    using assms by (simp add: pm_ok_def piece_mgr_is_done_def)
qed simp

lemma board_verified:
  assumes "board_ok os t (mt_piece_mgr mt) (mt_file_writer mt) (wd_fs w)" "piece_mgr_is_done (mt_piece_mgr mt)"
  shows "all_verified t mt w"
  using assms done_all [of "mt_piece_mgr mt"]
  by (simp add: board_ok_def on_disk_def all_verified_def pm_small_def)

text \<open>The counter of assembly bytes holds those of the other torrents only.\<close>

definition calm :: "int \<Rightarrow> world \<Rightarrow> bool" where
  "calm b w \<longleftrightarrow> wd_assembly w = b \<and> 0 \<le> b \<and> b \<le> ASSEMBLY_LIMIT"

text \<open>A torrent without a connection or a piece in hand.\<close>

definition idle :: "int \<Rightarrow> managed_torrent \<Rightarrow> world \<Rightarrow> bool" where
  "idle b mt w \<longleftrightarrow> calm b w \<and> (\<forall>p \<in> set (mt_peers mt). pr_sock p < 0 \<and> pr_piece_data p = None \<and> pr_piece_size p = 0)"

text \<open>A torrent that was not started since its last stop.\<close>

definition bare :: "web_seed_job option list \<Rightarrow> int \<Rightarrow> managed_torrent \<Rightarrow> world \<Rightarrow> bool" where
  "bare js b mt w \<longleftrightarrow> calm b w \<and> mt_peers mt = [] \<and> jobs_of (mt_generation mt) js = []"

text \<open>
  What the states of a torrent promise: a finished one is on disk, a running one has its invariant, and
  a stopped or failed one has the invariant or is bare.
\<close>

definition torrent_ok :: "kernel \<Rightarrow> torrent \<Rightarrow> web_seed_job option list \<Rightarrow> int \<Rightarrow> managed_torrent \<Rightarrow> world \<Rightarrow> bool" where
  "torrent_ok os t js b mt w \<longleftrightarrow> mt_torrent mt = Some t \<and>
     (if mt_state mt = TORRENT_DONE
      then all_verified t mt w \<and> idle b mt w \<and> at_home t (mt_save_path mt) (mt_file_writer mt)
      else engine_ok os t js b mt w \<or> mt_state mt \<noteq> TORRENT_DOWNLOADING \<and> bare js b mt w)"

lemma torrent_running: "mt_state mt = TORRENT_DOWNLOADING \<Longrightarrow> torrent_ok os t js b mt w \<longleftrightarrow> engine_ok os t js b mt w"
  by (auto simp: torrent_ok_def engine_ok_def table_ok_def swarm_ok_def)

lemma torrent_not_done: "mt_state mt \<noteq> TORRENT_DONE \<Longrightarrow> engine_ok os t js b mt w \<Longrightarrow> torrent_ok os t js b mt w"
  by (auto simp: torrent_ok_def engine_ok_def table_ok_def swarm_ok_def)

lemma engine_board: "engine_ok os t js b mt w \<Longrightarrow>
    board_ok os t (mt_piece_mgr mt) (mt_file_writer mt) (wd_fs w) \<and> mt_torrent mt = Some t"
  by (simp add: engine_ok_def table_ok_def swarm_ok_def)

lemma disconnect_all_done:
  "disconnect_all now mt w = (mt', w') \<Longrightarrow> pm_num_complete (mt_piece_mgr mt') = pm_num_complete (mt_piece_mgr mt) \<and>
     pm_num_pieces (mt_piece_mgr mt') = pm_num_pieces (mt_piece_mgr mt)"
proof -
  assume "disconnect_all now mt w = (mt', w')"
  then have run: "foldl (\<lambda>(mt, w) i. disconnect_at now i mt w) (mt, w) [0..<length (mt_peers mt)] = (mt', w')"
    by (simp add: disconnect_all_def)
  let ?P = "\<lambda>m (w :: world). pm_num_complete (mt_piece_mgr m) = pm_num_complete (mt_piece_mgr mt) \<and>
     pm_num_pieces (mt_piece_mgr m) = pm_num_pieces (mt_piece_mgr mt)"
  show ?thesis
    by (rule peers_loop [where P = ?P, OF _ _ run])
      (auto simp: disconnect_at_def disconnect_peer_def release_piece_def piece_release_def
        record_peer_failure_def set_candidate_def Let_def split: if_splits prod.splits option.splits)
qed

text \<open>What disconnecting does to the peers, one after the other.\<close>

lemma disconnect_at_idle:
  assumes "disconnect_at now i mt w = (mt', w')"
  shows "\<exists>p. mt_peers mt' = (mt_peers mt)[i := p] \<and> pr_sock p < 0 \<and> pr_piece_data p = None \<and> pr_piece_size p = 0"
    "mt_torrent mt' = mt_torrent mt" "mt_state mt' = mt_state mt" "mt_generation mt' = mt_generation mt"
    "mt_is_magnet mt' = mt_is_magnet mt" "wd_fs w' = wd_fs w"
    "pr_piece_data (mt_peers mt ! i) = None \<Longrightarrow> wd_assembly w' = wd_assembly w"
  using assms
  by (auto simp: disconnect_at_def disconnect_peer_def release_piece_def close_sock_def record_peer_failure_def set_candidate_def
      Let_def split: if_splits prod.splits option.splits)

lemma disconnect_loop:
  assumes "k \<le> length (mt_peers mt)" "foldl (\<lambda>(mt, w) i. disconnect_at now i mt w) (mt, w) [0..<k] = (mt', w')"
  shows "length (mt_peers mt') = length (mt_peers mt) \<and>
    (\<forall>i < k. pr_sock (mt_peers mt' ! i) < 0 \<and> pr_piece_data (mt_peers mt' ! i) = None \<and> pr_piece_size (mt_peers mt' ! i) = 0) \<and>
    (\<forall>i \<ge> k. mt_peers mt' ! i = mt_peers mt ! i) \<and> mt_torrent mt' = mt_torrent mt \<and> mt_state mt' = mt_state mt \<and>
    mt_generation mt' = mt_generation mt \<and> mt_is_magnet mt' = mt_is_magnet mt \<and> wd_fs w' = wd_fs w \<and>
    ((\<forall>p \<in> set (mt_peers mt). pr_piece_data p = None) \<longrightarrow> wd_assembly w' = wd_assembly w)"
  using assms
proof (induction k arbitrary: mt' w')
  case (Suc k)
  obtain mt1 w1 where l: "foldl (\<lambda>(mt, w) i. disconnect_at now i mt w) (mt, w) [0..<k] = (mt1, w1)" by (metis prod.exhaust)
  have d: "disconnect_at now k mt1 w1 = (mt', w')" using Suc.prems(2) l by simp
  note h = Suc.IH [OF _ l] and o = disconnect_at_idle [OF d]
  obtain p where p: "mt_peers mt' = (mt_peers mt1)[k := p]" "pr_sock p < 0" "pr_piece_data p = None" "pr_piece_size p = 0"
    using o(1) by blast
  have len: "k < length (mt_peers mt1)" using h Suc.prems(1) by simp
  have "pr_sock (mt_peers mt' ! i) < 0 \<and> pr_piece_data (mt_peers mt' ! i) = None \<and> pr_piece_size (mt_peers mt' ! i) = 0" if "i < Suc k" for i
    using p len h Suc.prems(1) that by (cases "i = k") auto
  moreover have "mt_peers mt' ! i = mt_peers mt ! i" if "Suc k \<le> i" for i using p h Suc.prems(1) that by auto
  moreover have "wd_assembly w' = wd_assembly w" if "\<forall>p \<in> set (mt_peers mt). pr_piece_data p = None"
    using o(7) h that Suc.prems(1) by auto
  ultimately show ?case using h o(2-6) p Suc.prems(1) by auto
qed simp

lemma disconnect_all_idle:
  assumes "disconnect_all now mt w = (mt', w')"
  shows "\<forall>p \<in> set (mt_peers mt'). pr_sock p < 0 \<and> pr_piece_data p = None \<and> pr_piece_size p = 0"
    "mt_torrent mt' = mt_torrent mt" "mt_state mt' = mt_state mt" "mt_generation mt' = mt_generation mt"
    "mt_is_magnet mt' = mt_is_magnet mt" "wd_fs w' = wd_fs w" "idle b mt w \<Longrightarrow> idle b mt' w'"
proof -
  note l = disconnect_loop [OF order_refl assms [unfolded disconnect_all_def]]
  then show c: "\<forall>p \<in> set (mt_peers mt'). pr_sock p < 0 \<and> pr_piece_data p = None \<and> pr_piece_size p = 0"
    "mt_torrent mt' = mt_torrent mt" "mt_state mt' = mt_state mt" "mt_generation mt' = mt_generation mt"
    "mt_is_magnet mt' = mt_is_magnet mt" "wd_fs w' = wd_fs w"
    by (auto simp: in_set_conv_nth)
  show "idle b mt' w'" if "idle b mt w" using l c that by (auto simp: idle_def calm_def)
qed

lemma empty_hands:
  assumes "engine_ok os t js b mt w" "\<forall>p \<in> set (mt_peers mt). pr_sock p < 0 \<and> pr_piece_data p = None"
  shows "idle b mt w"
proof -
  have p: "\<forall>p \<in> set (mt_peers mt). peer_ok t (mt_piece_mgr mt) p" and a: "wd_assembly w = b + assembling (mt_peers mt)"
    and c: "0 \<le> b" "wd_assembly w \<le> ASSEMBLY_LIMIT"
    using assms(1) by (auto simp: engine_ok_def table_ok_def swarm_ok_def)
  have z: "pr_piece_size q = 0" if "q \<in> set (mt_peers mt)" for q
    using that p assms(2) by (fastforce simp: peer_ok_def)
  moreover have "assembling ps = 0" if "\<forall>q \<in> set ps. pr_piece_size q = 0" for ps
    using that by (induction ps) simp_all
  ultimately have "assembling (mt_peers mt) = 0" by blast
  then show ?thesis using a c z assms(2) by (simp add: idle_def calm_def)
qed

lemma disconnect_all_settles:
  assumes "engine_ok os t js b mt w \<or> idle b mt w" "disconnect_all now mt w = (mt', w')"
  shows "idle b mt' w'"
  using assms disconnect_all_idle [OF assms(2)] disconnect_all_engine [OF _ assms(2)] empty_hands by blast

lemma complete_verified:
  assumes ok: "engine_ok os t js b mt w" and dn: "piece_mgr_is_done (mt_piece_mgr mt)"
    and run: "complete_torrent now mt w = (mt', w')"
  shows "all_verified t mt' w' \<and> mt_state mt' = TORRENT_DONE \<and> idle b mt' w' \<and> mt_torrent mt' = Some t \<and>
    at_home t (mt_save_path mt') (mt_file_writer mt')"
proof -
  obtain mt1 w1 where d: "disconnect_all now mt w = (mt1, w1)" by (metis prod.exhaust)
  have b: "board_ok os t (mt_piece_mgr mt1) (mt_file_writer mt1) (wd_fs w1)"
    using engine_board [OF disconnect_all_engine [OF ok d]] by simp
  have "all_verified t mt1 w1"
    by (rule board_verified [OF b]) (use dn disconnect_all_done [OF d] in \<open>simp add: piece_mgr_is_done_def\<close>)
  moreover have "idle b mt1 w1" by (rule disconnect_all_settles [OF disjI1 [OF ok] d])
  moreover have "mt_torrent mt1 = Some t" using disconnect_all_idle(2) [OF d] engine_board [OF ok] by simp
  moreover have "at_home t (mt_save_path mt') (mt_file_writer mt')"
    using ok stays_complete [OF run] by (simp add: engine_ok_def stays_def)
  ultimately show ?thesis
    using run d
    by (auto simp: complete_torrent_def finish_writer_def file_writer_finish_def all_verified_def writer_view_def idle_def calm_def
        split: if_splits)
qed

section \<open>The tick\<close>

text \<open>The parts of a tick of a running torrent: only the peers and the web seed batches touch its core.\<close>

lemma tick_parts:
  assumes run: "tick_torrent te (mt, w, dj, cj, wj) = (mt', w', dj', cj', wj')"
    and st: "mt_state mt = TORRENT_DOWNLOADING" "\<not> piece_mgr_is_done (mt_piece_mgr mt)"
  obtains m1 m2 m3 m4 where "same_core mt m1" "process_peers (te_env te) m1 w = (m2, w')" "same_core m2 m3"
    "schedule_web_seed (Suc WEB_SEED_PARALLEL_PER_TORRENT) (te_env te) (te_spawn_web te) m3 wj = Some (m4, wj')"
    "same_core m4 mt'"
proof -
  let ?en = "te_env te"
  define m0 where "m0 = update_speed (en_now ?en) (mt\<lparr>mt_progress := piece_mgr_progress (mt_piece_mgr mt)\<rparr>)"
  have c0: "same_core mt m0"
    unfolding m0_def by (rule same_core_trans [OF _ core_status(2)]) (simp add: same_core_def)
  obtain m1 dj1 where d: "(if announce_due (en_now ?en) m0
      then schedule_discovery ?en (te_alloc te) (te_spawn_discovery te) m0 dj else (m0, dj)) = (m1, dj1)"
    by (metis prod.exhaust)
  have c1: "same_core mt m1"
    using same_core_trans [OF c0 core_discovery] c0 d by (metis fst_conv)
  obtain m2 w2 where p: "process_peers ?en m1 w = (m2, w2)" by (metis prod.exhaust)
  obtain m3 cj3 where s: "schedule_peer_connections ?en (te_spawn_connect te) m2 cj = (m3, cj3)" by (metis prod.exhaust)
  have c3: "same_core m2 m3" using core_connections [of m2 ?en "te_spawn_connect te" cj] s by simp
  obtain m4 wj4 where j: "schedule_web_seed (Suc WEB_SEED_PARALLEL_PER_TORRENT) ?en (te_spawn_web te) m3 wj = Some (m4, wj4)"
    using schedule_enough [of wj m3 WEB_SEED_PARALLEL_PER_TORRENT ?en "te_spawn_web te"] by auto
  have "(mt', w', dj', cj', wj') = (update_peer_status (en_now ?en) m4, w2, dj1, cj3, wj4)"
    using run st by (simp add: tick_torrent_def Let_def m0_def [symmetric] d p s j del: schedule_web_seed.simps)
  then show thesis using that [OF c1 _ c3] p j core_status(1) by blast
qed

lemma tick_keeps:
  assumes ok: "torrent_ok (en_os (te_env te)) t wj b mt w"
    and run: "tick_torrent te (mt, w, dj, cj, wj) = (mt', w', dj', cj', wj')"
  shows "torrent_ok (en_os (te_env te)) t wj' b mt' w'"
proof (cases "mt_state mt = TORRENT_DOWNLOADING")
  case False
  then show ?thesis using ok run by (simp add: tick_torrent_def Let_def)
next
  case st: True
  let ?en = "te_env te"
  have e: "engine_ok (en_os ?en) t wj b mt w" using ok st torrent_running by blast
  show ?thesis
  proof (cases "piece_mgr_is_done (mt_piece_mgr mt)")
    case True
    obtain mt1 w1 where c: "complete_torrent (en_now ?en) mt w = (mt1, w1)" by (metis prod.exhaust)
    show ?thesis
      using complete_verified [OF e True c] run st True c by (auto simp: tick_torrent_def Let_def torrent_ok_def)
  next
    case False
    from run st False show ?thesis
    proof (rule tick_parts)
      fix m1 m2 m3 m4
      assume c: "same_core mt m1" "process_peers ?en m1 w = (m2, w')" "same_core m2 m3"
        and j: "schedule_web_seed (Suc WEB_SEED_PARALLEL_PER_TORRENT) ?en (te_spawn_web te) m3 wj = Some (m4, wj')"
        and c4: "same_core m4 mt'"
      have e2: "engine_ok (en_os ?en) t wj b m2 w'" "mt_state m2 = TORRENT_DOWNLOADING \<or> mt_state m2 = TORRENT_ERROR"
        using process_peers_engine [OF engine_core [OF e c(1) refl refl] c(2)] c(1) st by (auto simp: same_core_def)
      have e3: "engine_ok (en_os ?en) t wj b m3 w'" by (rule engine_core [OF e2(1) c(3) refl refl])
      have e4: "table_ok (en_os ?en) t wj' b m4 w' \<and> mt_generation m4 = mt_generation m3"
        using schedule_table [OF _ j, of "en_os ?en" t b w'] e3 by (simp add: engine_ok_def)
      obtain pm where m4: "m4 = m3\<lparr>mt_piece_mgr := pm\<rparr>" using schedule_board [OF j] by blast
      have "engine_ok (en_os ?en) t wj' b m4 w'" using e4 e3 m4 by (simp add: engine_ok_def)
      then have "engine_ok (en_os ?en) t wj' b mt' w'" by (rule engine_core [OF _ c4 refl refl])
      moreover have "mt_state mt' \<noteq> TORRENT_DONE" using e2(2) c(3) c4 m4 by (auto simp: same_core_def)
      ultimately show ?thesis using torrent_not_done by simp
    qed
  qed
qed

lemma core_stays: "same_core mt mt' \<Longrightarrow> stays mt w mt' w"
  by (simp add: same_core_def stays_same)

lemma stays_tick:
  assumes run: "tick_torrent te (mt, w, dj, cj, wj) = (mt', w', dj', cj', wj')"
  shows "stays mt w mt' w'"
proof (cases "mt_state mt = TORRENT_DOWNLOADING \<and> \<not> piece_mgr_is_done (mt_piece_mgr mt)")
  case False
  then show ?thesis using run by (auto simp: tick_torrent_def Let_def dest!: stays_complete split: if_splits prod.splits)
next
  case True
  from run conjunct1 [OF True] conjunct2 [OF True] show ?thesis
  proof (rule tick_parts)
    fix m1 m2 m3 m4
    assume c: "same_core mt m1" "process_peers (te_env te) m1 w = (m2, w')" "same_core m2 m3"
      and j: "schedule_web_seed (Suc WEB_SEED_PARALLEL_PER_TORRENT) (te_env te) (te_spawn_web te) m3 wj = Some (m4, wj')"
      and c4: "same_core m4 mt'"
    obtain pm where m4: "m4 = m3\<lparr>mt_piece_mgr := pm\<rparr>" using schedule_board [OF j] by blast
    have "stays m3 w' m4 w'" using m4 by (simp add: stays_same)
    then show ?thesis
      using core_stays [OF c(1)] stays_process_peers [OF c(2)] core_stays [OF c(3)] core_stays [OF c4] stays_trans by metis
  qed
qed

section \<open>Collecting the workers' results\<close>

text \<open>
  The whole table is looked at slot by slot; \<open>pre\<close> are the slots already passed.
\<close>

lemma job_list_split: "job_list gen (pre @ slot # post) =
    job_list gen pre @ (case slot of Some j \<Rightarrow> if wj_generation j = gen then job_pieces j else [] | None \<Rightarrow> []) @
    job_list gen post"
  by (auto simp: job_list_def jobs_of_def split: option.split)

lemma jobs_of_split: "set (jobs_of gen (pre @ slot # post)) =
    set (jobs_of gen pre) \<union> (case slot of Some j \<Rightarrow> if wj_generation j = gen then {j} else {} | None \<Rightarrow> {}) \<union>
    set (jobs_of gen post)"
  by (auto simp: jobs_of_def split: option.split)

lemma save_pieces_frame:
  "save_pieces en ns i data mt w saved = (mt', w', saved', failed) \<Longrightarrow>
   mt_generation mt' = mt_generation mt \<and> mt_save_path mt' = mt_save_path mt \<and> mt_state mt' = mt_state mt \<and>
   mt_peers mt' = mt_peers mt"
proof (induction ns arbitrary: i data mt w saved)
  case (Cons n ns)
  show ?case using Cons.prems Cons.IH by (auto simp: Let_def split: if_splits prod.splits)
qed simp

lemma collect_frame:
  "collect_batch en job mt w = (mt', w') \<Longrightarrow>
   mt_generation mt' = mt_generation mt \<and> mt_save_path mt' = mt_save_path mt \<and> mt_state mt' = mt_state mt \<and>
   mt_peers mt' = mt_peers mt"
  by (auto simp: collect_batch_def release_from_def Let_def dest!: save_pieces_frame split: if_splits prod.splits)

lemma collect_batch_engine:
  assumes ok: "engine_ok (en_os en) t (pre @ Some job # post) b mt w" and g: "wj_generation job = mt_generation mt"
    and run: "collect_batch en job mt w = (mt', w')"
  shows "engine_ok (en_os en) t (pre @ None # post) b mt' w'"
proof -
  let ?gen = "mt_generation mt"
  note f = collect_frame [OF run]
  have "swarm_ok (en_os en) t (job_list ?gen (pre @ Some job # post)) b mt w" and j: "job_ok t job"
    using ok g by (auto simp: engine_ok_def table_ok_def jobs_of_split)
  then have "swarm_ok (en_os en) t (job_pieces job @ job_list ?gen (pre @ None # post)) b mt w"
    by (subst swarm_perm [of _ "job_list ?gen (pre @ Some job # post)"]) (simp_all add: job_list_split g)
  from collect_swarm [OF this j run] show ?thesis
    using ok f stays_collect [OF run] by (auto simp: engine_ok_def table_ok_def jobs_of_split stays_def)
qed

lemma drop_job_engine:
  assumes "engine_ok os t (pre @ Some job # post) b mt w"
  shows "engine_ok os t (pre @ None # post) b mt w"
proof -
  let ?gen = "mt_generation mt"
  have "swarm_ok os t (job_list ?gen (pre @ Some job # post)) b mt w"
    using assms by (simp add: engine_ok_def table_ok_def)
  then have "swarm_ok os t ((if wj_generation job = ?gen then job_pieces job else []) @ job_list ?gen (pre @ None # post)) b mt w"
    by (subst swarm_perm [of _ "job_list ?gen (pre @ Some job # post)"]) (simp_all add: job_list_split)
  from swarm_drop_jobs [OF this] show ?thesis
    using assms by (auto simp: engine_ok_def table_ok_def jobs_of_split split: if_splits)
qed

lemma drop_job_ok:
  assumes "torrent_ok os t (pre @ Some job # post) b mt w"
  shows "torrent_ok os t (pre @ None # post) b mt w"
proof -
  have "bare (pre @ Some job # post) b mt w \<Longrightarrow> bare (pre @ None # post) b mt w" by (auto simp: bare_def jobs_of_def)
  then show ?thesis using assms drop_job_engine by (auto simp: torrent_ok_def split: if_splits)
qed

text \<open>A new peer takes an unused slot or a new one; it has nothing in hand.\<close>

lemma swarm_replace_idle:
  assumes s: "swarm_ok os t jobs base mt w" and peers: "mt_peers mt = xs @ old @ ys" "mt_peers mt' = xs @ q # ys"
    and old: "\<forall>p \<in> set old. pr_piece_data p = None" and q: "q = new_peer now job"
    and rest: "mt_torrent mt' = mt_torrent mt" "mt_piece_mgr mt' = mt_piece_mgr mt" "mt_file_writer mt' = mt_file_writer mt"
  shows "swarm_ok os t jobs base mt' w"
proof -
  have idle: "held1 p = []" "pr_piece_size p = 0" if "p \<in> set old" for p
  proof -
    have "peer_ok t (mt_piece_mgr mt) p" using s peers(1) that by (simp add: swarm_ok_def)
    then show "held1 p = []" "pr_piece_size p = 0" using old that by (simp_all add: held1_def peer_ok_def)
  qed
  have "held_list old = []" "assembling old = 0"
    using idle by (induction old) simp_all
  moreover have "held1 q = []" "pr_piece_size q = 0" "peer_ok t (mt_piece_mgr mt) q"
    by (simp_all add: q held1_def new_peer_def peer_zero_def peer_ok_def)
  ultimately show ?thesis using s peers rest by (auto simp: swarm_ok_def)
qed

lemma add_peer_engine:
  assumes ok: "engine_ok os t js b mt w" and sock: "0 \<le> pj_sock job" and run: "add_peer now job mt = (taken, mt')"
  shows "engine_ok os t js b mt' w \<and> mt_state mt' = mt_state mt"
proof (cases "peer_slot (mt_peers mt)")
  case None
  then show ?thesis using ok run by (simp add: add_peer_def)
next
  case (Some i)
  let ?q = "new_peer now job"
  have mt': "mt' = mt\<lparr>mt_peers := (if i < length (mt_peers mt) then (mt_peers mt)[i := ?q] else mt_peers mt @ [?q]),
      mt_active_peers := mt_active_peers mt + 1\<rparr>" using run Some by (simp add: add_peer_def)
  have idle: "i < length (mt_peers mt) \<and> pr_sock (mt_peers mt ! i) < 0 \<or> i = length (mt_peers mt)"
    using Some by (auto simp: peer_slot_def find_Some_iff split: option.splits if_splits)
  define xs ys old where "xs = take i (mt_peers mt)" and "ys = drop (Suc i) (mt_peers mt)"
    and "old = (if i < length (mt_peers mt) then [mt_peers mt ! i] else [])"
  have peers: "mt_peers mt = xs @ old @ ys" "mt_peers mt' = xs @ ?q # ys"
    using idle by (auto simp: xs_def old_def ys_def mt' id_take_nth_drop upd_conv_take_nth_drop)
  have none: "\<forall>p \<in> set old. pr_piece_data p = None"
  proof (cases "i < length (mt_peers mt)")
    case True
    then have "tidy (mt_peers mt ! i)" "pr_sock (mt_peers mt ! i) < 0" using ok idle by (auto simp: engine_ok_def)
    then show ?thesis by (simp add: old_def tidy_def)
  qed (simp add: old_def)
  have s: "swarm_ok os t (job_list (mt_generation mt) js) b mt w" using ok by (simp add: engine_ok_def table_ok_def)
  have "swarm_ok os t (job_list (mt_generation mt) js) b mt' w"
    by (rule swarm_replace_idle [OF s peers none refl]) (simp_all add: mt')
  moreover have "\<forall>p \<in> set (mt_peers mt'). tidy p"
    using ok sock peers by (auto simp: engine_ok_def tidy_def new_peer_def peer_zero_def)
  ultimately show ?thesis using ok by (simp add: engine_ok_def table_ok_def mt')
qed

lemma collect_connection_engine:
  assumes ok: "engine_ok os t js b mt w" and run: "collect_connection now job mt = (taken, mt')"
  shows "engine_ok os t js b mt' w \<and> mt_state mt' = mt_state mt"
proof -
  define live where "live = (case find_candidate mt (pj_addr job) of None \<Rightarrow> mt
      | Some j \<Rightarrow> set_candidate j ((mt_candidates mt ! j)\<lparr>cd_connecting := False\<rparr>) mt)"
  have c: "same_core mt live" by (simp add: live_def core split: option.split)
  have e: "engine_ok os t js b live w" by (rule engine_core [OF ok c refl refl])
  have r: "engine_ok os t js b (record_peer_failure now (pj_addr job) live) w"
    by (rule engine_core [OF e core_candidate(2) refl refl])
  show ?thesis
  proof (cases "pj_sock job < 0 \<or> peer_is_connected live (pj_addr job)")
    case True
    then show ?thesis
      using run e r c by (auto simp: collect_connection_def live_def [symmetric] Let_def same_core_def split: if_splits)
  next
    case False
    then have a: "add_peer now job live = (taken, mt')"
      using run by (simp add: collect_connection_def live_def [symmetric] Let_def)
    have "0 \<le> pj_sock job" using False by simp
    from add_peer_engine [OF e this a] show ?thesis using c by (simp add: same_core_def)
  qed
qed

lemma torrent_ok_world:
  assumes "torrent_ok os t js b mt w" "wd_assembly w' = wd_assembly w" "wd_fs w' = wd_fs w"
  shows "torrent_ok os t js b mt w'"
  using assms engine_core [OF _ same_core_refl assms(2,3)]
  by (auto simp: torrent_ok_def all_verified_def idle_def bare_def calm_def split: if_splits)

section \<open>Runs of the manager\<close>

text \<open>The contract of every step relation of the development: a property that each step keeps, a run keeps.\<close>

locale kept_invariant =
  fixes step :: "'s \<Rightarrow> 's \<Rightarrow> bool" and inv :: "'s \<Rightarrow> bool"
  assumes step_inv: "step s s' \<Longrightarrow> inv s \<Longrightarrow> inv s'"
begin

lemma run_inv: "step\<^sup>*\<^sup>* s s' \<Longrightarrow> inv s \<Longrightarrow> inv s'"
  by (induction rule: rtranclp_induct) (auto dest: step_inv)

end

text \<open>
  The steps of a manager after a start: a tick, and the workers, which run at any time.  Each worker
  works on its own job; a connection worker also on the socket that it opens.
\<close>

inductive engine_step :: "kernel \<Rightarrow> manager \<Rightarrow> manager \<Rightarrow> bool" for os where
  tick: "\<forall>i. en_os (te_env (te i)) = os \<Longrightarrow> engine_step os mg (snd (torrent_mgr_tick te mg))"
| web_worker: "i < length (mg_web mg) \<Longrightarrow> mg_web mg ! i = Some job \<Longrightarrow>
    engine_step os mg (mg\<lparr>mg_web := (mg_web mg)[i := Some (fetch_web_seed_piece net job)]\<rparr>)"
| discovery_worker: "i < length (mg_discovery mg) \<Longrightarrow> mg_discovery mg ! i = Some dj \<Longrightarrow>
    engine_step os mg (mg\<lparr>mg_discovery := (mg_discovery mg)[i := Some (discover_peers ann dj)]\<rparr>)"
| connect_worker: "i < length (mg_connects mg) \<Longrightarrow> mg_connects mg ! i = Some cj \<Longrightarrow>
    connect_candidate kc timeout nonblock err cj (mg_world mg) = (cj', w) \<Longrightarrow>
    engine_step os mg (mg\<lparr>mg_connects := (mg_connects mg)[i := Some cj'], mg_world := w\<rparr>)"

lemma fetch_engine:
  assumes "engine_ok os t js b mt w" "i < length js" "js ! i = Some job"
  shows "engine_ok os t (js[i := Some (fetch_web_seed_piece net job)]) b mt w"
proof -
  define pre post where "pre = take i js" and "post = drop (Suc i) js"
  have sp: "js = pre @ Some job # post" using assms(2,3) by (metis id_take_nth_drop pre_def post_def)
  have up: "js[i := Some (fetch_web_seed_piece net job)] = pre @ Some (fetch_web_seed_piece net job) # post"
    using assms(2) by (simp add: upd_conv_take_nth_drop pre_def post_def)
  have same: "wj_generation (fetch_web_seed_piece net job) = wj_generation job"
    "job_pieces (fetch_web_seed_piece net job) = job_pieces job"
    by (simp_all add: fetch_web_seed_piece_def job_pieces_def split: option.split)
  have "wj_generation job = mt_generation mt \<Longrightarrow> job_ok t job"
    using assms(1) sp by (auto simp: engine_ok_def table_ok_def jobs_of_split)
  then show ?thesis
    unfolding up using assms(1) [unfolded sp] fetched_job [of t job net]
    by (auto simp: engine_ok_def table_ok_def jobs_of_split job_list_split same split: if_splits)
qed

lemma fetch_ok:
  assumes "torrent_ok os t js b mt w" "i < length js" "js ! i = Some job"
  shows "torrent_ok os t (js[i := Some (fetch_web_seed_piece net job)]) b mt w"
proof -
  have same: "wj_generation (fetch_web_seed_piece net job) = wj_generation job"
    by (simp add: fetch_web_seed_piece_def split: option.split)
  have "jobs_of g js = [] \<Longrightarrow> jobs_of g (js[i := Some (fetch_web_seed_piece net job)]) = []" for g
    using assms(2,3) by (subst (asm) id_take_nth_drop [OF assms(2)]) (auto simp: jobs_of_def upd_conv_take_nth_drop same split: if_splits)
  then have "bare js b mt w \<Longrightarrow> bare (js[i := Some (fetch_web_seed_piece net job)]) b mt w" by (simp add: bare_def)
  then show ?thesis using assms(1) fetch_engine [OF _ assms(2,3)] by (auto simp: torrent_ok_def split: if_splits)
qed

lemma connect_world:
  "connect_candidate kc timeout nonblock err cj w = (cj', w') \<Longrightarrow> wd_assembly w' = wd_assembly w \<and> wd_fs w' = wd_fs w"
  by (auto simp: connect_candidate_def connect_failed_def close_sock_def Let_def split: prod.splits if_splits)

section \<open>After a start\<close>

text \<open>The two forms of a writer that \<open>file_writer_init\<close> opens.\<close>

lemma opened_writer:
  assumes "file_writer_init os mem t base fs = (r, fw, fs')" "\<not> r < 0" "torrent_wf t" "posix_write os"
    and "t_is_multi_file t \<Longrightarrow> distinct_files base (t_files t)"
  shows "writer_ok os t (fw, fs')"
  using assms
  by (auto simp: file_writer_init_def writer_ok_def Let_def split: if_splits option.splits)

lemma fresh_board:
  assumes wf: "torrent_wf t" and n: "t_num_pieces t \<le> 2 ^ 31" and w: "writer_ok os t (fw, fs)"
    and pm: "pm = piece_mgr_init mem (t_num_pieces t) (t_piece_length t) (t_total_size t) (t_pieces t)"
    and some: "pm_pieces pm \<noteq> None"
  shows "board_ok os t pm fw fs"
proof -
  obtain ps where ps: "t_pieces t = Some ps" using wf by (auto simp: torrent_wf_def)
  have m: "mem (t_num_pieces t * piece_size_of)" "mem ((t_num_pieces t + 7) div 8)"
    using some by (auto simp: pm piece_mgr_init_def pm_zero_def Let_def split: if_splits)
  have ok: "pm_ok pm" using init_ok [OF m] by (simp add: pm)
  have f: "pm_num_pieces pm = t_num_pieces t" "\<forall>i < t_num_pieces t. piece_at pm i = init_piece (Some ps) i"
    using m by (simp_all add: pm piece_mgr_init_def pm_zero_def Let_def piece_at_def ps)
  then have "done_set pm = {}" by (auto simp: done_set_def state_at_def init_piece_def)
  then show ?thesis
    using ok f n w ps
    by (simp add: board_ok_def pm_small_def on_disk_def init_piece_def piece_digest_def)
qed

text \<open>The conditions under which the download of a torrent into a directory is understood.\<close>

definition sound_target :: "kernel \<Rightarrow> torrent \<Rightarrow> byte list \<Rightarrow> bool" where
  "sound_target os t base \<longleftrightarrow> posix_write os \<and> t_num_pieces t \<le> 2 ^ 31 \<and>
     (t_is_multi_file t \<longrightarrow> distinct_files base (t_files t))"

lemma launch_engine:
  assumes run: "launch en stat strerror t mt w = (0, mt', w')" and wf: "torrent_wf t"
    and tgt: "sound_target (en_os en) t (mt_save_path mt)"
    and mt: "mt_torrent mt = Some t" "mt_peers mt = []" and a: "calm b w"
    and js: "jobs_of (mt_generation mt) js = []"
  shows "engine_ok (en_os en) t js b mt' w' \<and> mt_state mt' = TORRENT_DOWNLOADING"
proof -
  obtain fs1 where d: "ensure_directory_tree en stat (mt_save_path mt) (wd_fs w) = (None, fs1)"
    using run by (auto simp: launch_def Let_def split: prod.splits option.splits)
  define pm where "pm = piece_mgr_init (en_mem en) (t_num_pieces t) (t_piece_length t) (t_total_size t) (t_pieces t)"
  obtain r fw fs2 where f: "file_writer_init (en_os en) (en_mem en) t (mt_save_path mt) fs1 = (r, fw, fs2)"
    by (metis prod.exhaust)
  have p: "pm_pieces pm \<noteq> None" "\<not> r < 0"
    and out: "mt' = (mt\<lparr>mt_piece_mgr := pm, mt_file_writer := fw\<rparr>)\<lparr>mt_state := TORRENT_DOWNLOADING, mt_start_time := en_now en,
        mt_last_announce_time := 0, mt_last_progress_time := en_now en, mt_last_speed_calc := en_now en,
        mt_last_downloaded := mt_downloaded mt, mt_last_uploaded := mt_uploaded mt\<rparr>"
      "w' = w\<lparr>wd_fs := fs2\<rparr>"
    using run f by (auto simp: launch_def d Let_def pm_def [symmetric] start_error_def split: if_splits)
  have "writer_ok (en_os en) t (fw, fs2)"
    by (rule opened_writer [OF f p(2) wf]) (use tgt in \<open>auto simp: sound_target_def\<close>)
  then have "board_ok (en_os en) t pm fw fs2"
    using fresh_board [OF wf _ _ pm_def p(1)] tgt by (simp add: sound_target_def)
  then show ?thesis
    using mt a js launch_home(3) [OF run]
    by (simp add: out engine_ok_def table_ok_def swarm_ok_def job_list_def calm_def)
qed

end
