(* ===== verification/Example.thy ===== *)
theory Example
  imports Engine
begin

text \<open>
  One small download, evaluated: a torrent of one file of four bytes with a web seed is added, started,
  ticked, fetched by its worker and ticked again; then it is done.  The digest of its only piece stays
  symbolic.
\<close>

section \<open>The torrent\<close>

definition demo_piece :: "byte list" where "demo_piece = [1, 2, 3, 4]"
definition demo_digest :: "byte list" where "demo_digest = sha1_hash demo_piece"

definition info_with :: "byte list \<Rightarrow> bcode_node" where
  "info_with d = BCODE_DICT
     [(bytes ''length'', BCODE_INT 4), (bytes ''name'', BCODE_STR (bytes ''a'')),
      (bytes ''piece length'', BCODE_INT 4), (bytes ''pieces'', BCODE_STR d)]"

lemma encode_with:
  "bcode_encode demo_mem (info_with [d0, d1, d2, d3, d4, d5, d6, d7, d8, d9, e0, e1, e2, e3, e4, e5, e6, e7, e8, e9]) =
   Some (benc (info_with [d0, d1, d2, d3, d4, d5, d6, d7, d8, d9, e0, e1, e2, e3, e4, e5, e6, e7, e8, e9]))"
  "length (benc (info_with [d0, d1, d2, d3, d4, d5, d6, d7, d8, d9, e0, e1, e2, e3, e4, e5, e6, e7, e8, e9])) = 71"
  by code_simp+

definition demo_seed_info :: bcode_node where
  "demo_seed_info = info_with demo_digest"

definition demo_seed_root :: bcode_node where
  "demo_seed_root = BCODE_DICT [(bytes ''info'', demo_seed_info), (bytes ''url-list'', BCODE_STR (bytes ''http://h/d/''))]"

definition demo_seed_torrent :: torrent where
  "demo_seed_torrent =
     torrent_zero\<lparr>t_web_seeds := [bytes ''http://h/d/''],
       t_info_dict_raw := benc demo_seed_info, t_info_hash := sha1_hash (benc demo_seed_info),
       t_name := Some (bytes ''a''), t_name_len := 1, t_piece_length := 4,
       t_pieces := Some demo_digest, t_pieces_len := 20, t_num_pieces := 1,
       t_total_size := 4, t_length := 4, t_file_name := Some (bytes ''a'')\<rparr>"

lemma demo_digest_length: "length demo_digest = 20" by (simp add: demo_digest_def)

lemma demo_seed_encode:
  "bcode_encode demo_mem demo_seed_info = Some (benc demo_seed_info)" "length (benc demo_seed_info) = 71"
proof -
  obtain d0 d1 d2 d3 d4 d5 d6 d7 d8 d9 e0 e1 e2 e3 e4 e5 e6 e7 e8 e9 where
    d: "demo_digest = [d0, d1, d2, d3, d4, d5, d6, d7, d8, d9, e0, e1, e2, e3, e4, e5, e6, e7, e8, e9]"
    using demo_digest_length by (auto simp: numeral_eq_Suc length_Suc_conv)
  show "bcode_encode demo_mem demo_seed_info = Some (benc demo_seed_info)" "length (benc demo_seed_info) = 71"
    unfolding demo_seed_info_def d by (rule encode_with)+
qed

lemma demo_seed_length: "length (benc demo_seed_root) < 150"
proof -
  have "length (bstr (bytes ''info'')) = 6" "length (bstr (bytes ''url-list'')) = 10" "length (bstr (bytes ''http://h/d/'')) = 14"
    by code_simp+
  then show ?thesis using demo_seed_encode(2) by (simp add: demo_seed_root_def del: bytes_Cons)
qed

lemma demo_seed_keys:
  "is_dict demo_seed_root" "is_dict demo_seed_info"
  "bcode_dict_get (Some demo_seed_root) (bytes ''announce'') = None"
  "bcode_dict_get (Some demo_seed_root) (bytes ''announce-list'') = None"
  "bcode_dict_get (Some demo_seed_root) (bytes ''url-list'') = Some (BCODE_STR (bytes ''http://h/d/''))"
  "bcode_dict_get (Some demo_seed_root) (bytes ''info'') = Some demo_seed_info"
  "bcode_dict_get (Some demo_seed_info) (bytes ''name'') = Some (BCODE_STR (bytes ''a''))"
  "bcode_dict_get (Some demo_seed_info) (bytes ''piece length'') = Some (BCODE_INT 4)"
  "bcode_dict_get (Some demo_seed_info) (bytes ''pieces'') = Some (BCODE_STR demo_digest)"
  "bcode_dict_get (Some demo_seed_info) (bytes ''files'') = None"
  "bcode_dict_get (Some demo_seed_info) (bytes ''length'') = Some (BCODE_INT 4)"
  by (simp_all add: demo_seed_root_def demo_seed_info_def info_with_def is_dict_def)

lemma demo_seed_parse: "torrent_parse demo_mem (benc demo_seed_root) = Some demo_seed_torrent"
proof -
  have "bcode_parse demo_mem (benc demo_seed_root) = Some demo_seed_root"
    using bcode_parse_benc [of demo_mem "benc demo_seed_root" demo_seed_root "[]"] demo_mem_for [of "benc demo_seed_root"] demo_seed_length
    by simp
  moreover have "demo_mem ptr_size" by (simp add: demo_mem_def ptr_size_def)
  moreover have "benc demo_seed_root \<noteq> []" by (simp add: demo_seed_root_def)
  ultimately show ?thesis
    using demo_seed_encode(1) demo_digest_length
    by (simp add: torrent_parse_def demo_seed_keys demo_room parse_announce_def parse_announce_list_def
          parse_web_seeds_def parse_info_hash_def parse_name_def parse_piece_length_def
          parse_pieces_def parse_layout_def dup_str_def demo_seed_torrent_def torrent_zero_def
          torrent_valid_def SHA1_DIGEST_SIZE_def Let_def word_sle_eq del: bytes_Cons)
qed

section \<open>The run\<close>

definition demo_env :: env where
  "demo_env = \<lparr>en_now = 100, en_mem = demo_mem, en_os = demo_kernel, en_poll = (\<lambda>_. PollAgain), en_ioctl = True, en_errno = 0\<rparr>"

definition demo_tick :: "nat \<Rightarrow> tick_env" where
  "demo_tick i = \<lparr>te_env = demo_env, te_alloc = True, te_spawn_discovery = True, te_spawn_connect = (\<lambda>_. True),
     te_spawn_web = (\<lambda>_. True)\<rparr>"

definition demo_socks :: "int \<Rightarrow> socket" where
  "demo_socks = (\<lambda>_. \<lparr>sk_rx = [], sk_tx = [], sk_out = []\<rparr>)"

definition demo_seed_net :: seed_net where
  "demo_seed_net = demo_net (\<lambda>_. demo_piece)"

definition demo_added :: manager where
  "demo_added = snd (torrent_mgr_add_raw demo_mem (benc demo_seed_root) (bytes ''/d'') (mgr_start demo_socks demo_disk))"

definition demo_started :: manager where
  "demo_started = snd (torrent_mgr_start demo_env (\<lambda>_. Some True) (\<lambda>_. []) 0 demo_added)"

definition demo_waiting :: manager where
  "demo_waiting = snd (torrent_mgr_tick demo_tick demo_started)"

definition demo_fetched :: manager where
  "demo_fetched = demo_waiting\<lparr>mg_web := (mg_web demo_waiting)
     [0 := Some (fetch_web_seed_piece demo_seed_net (the (mg_web demo_waiting ! 0)))]\<rparr>"

definition demo_finished :: manager where
  "demo_finished = snd (torrent_mgr_tick demo_tick demo_fetched)"

text \<open>The entry of the torrent, and its piece manager with the piece in a given state.\<close>

definition demo_entry :: managed_torrent where
  "demo_entry = mg_torrents demo_added ! 0"

definition demo_board :: "piece_state \<Rightarrow> piece_mgr" where
  "demo_board s = pm_zero\<lparr>pm_num_pieces := 1, pm_piece_length := 4, pm_total_size := 4,
     pm_expected_hashes := Some demo_digest, pm_bitfield_len := 1,
     pm_pieces := Some [\<lparr>pc_index = 0, pc_state = s, pc_hash = demo_digest, pc_num_blocks = 0, pc_blocks_done = 0\<rparr>],
     pm_bitfield := Some [0]\<rparr>"

definition demo_file :: file_writer where
  "demo_file = fw_zero\<lparr>fw_base_path := Some (bytes ''/d''), fw_torrent := Some demo_seed_torrent,
     fw_fd := 3, fw_key := key_of (bytes ''/d/a'')\<rparr>"

lemma add_accepted:
  "length (mg_torrents mg) < MAX_TORRENTS \<Longrightarrow>
   torrent_mgr_add t path m u mg = (int (length (mg_torrents mg)), snd (torrent_mgr_add t path m u mg))"
  by (simp add: torrent_mgr_add_def Let_def split: prod.split)

lemma demo_add:
  "torrent_mgr_add_raw demo_mem (benc demo_seed_root) (bytes ''/d'') (mgr_start demo_socks demo_disk) = (0, demo_added)"
  unfolding demo_added_def torrent_mgr_add_raw_def demo_seed_parse option.case
  by (subst add_accepted) (simp_all add: mgr_start_def MAX_TORRENTS_def)

lemma demo_added:
  "mg_torrents demo_added = [demo_entry]" "mt_torrent demo_entry = Some demo_seed_torrent" "mt_peers demo_entry = []"
  "mt_save_path demo_entry = bytes ''/d''" "mt_state demo_entry = TORRENT_STOPPED" "mt_candidates demo_entry = []"
  "pm_pieces (mt_piece_mgr demo_entry) = None" "fw_base_path (mt_file_writer demo_entry) = None"
  "mt_active_peers demo_entry = 0" "mt_progress demo_entry = 0" "mt_is_magnet demo_entry = False" "mt_generation demo_entry = 1"
  "mg_world demo_added = \<lparr>wd_assembly = 0, wd_socks = demo_socks, wd_fs = demo_disk, wd_closed = []\<rparr>"
  "mg_discovery demo_added = replicate MAX_TORRENTS None"
  "mg_connects demo_added = replicate PEER_CONNECT_MAX_JOBS None"
  "mg_web demo_added = replicate WEB_SEED_MAX_JOBS None"
  by (simp_all add: demo_entry_def demo_added_def torrent_mgr_add_raw_def demo_seed_parse torrent_mgr_add_def
      mgr_start_def MAX_TORRENTS_def Let_def mt_zero_def pm_zero_def fw_zero_def strncpy0_def cstr_def split: prod.split)

text \<open>The started torrent; the clock shows 100.\<close>

definition demo_running :: "piece_state \<Rightarrow> managed_torrent" where
  "demo_running s = (clear_error (demo_entry\<lparr>mt_downloaded := 0\<rparr>))\<lparr>mt_piece_mgr := demo_board s, mt_file_writer := demo_file,
     mt_state := TORRENT_DOWNLOADING, mt_start_time := 100, mt_last_announce_time := 0, mt_last_progress_time := 100,
     mt_last_speed_calc := 100, mt_last_downloaded := 0, mt_last_uploaded := mt_uploaded demo_entry\<rparr>"

definition demo_root_dirs :: "fsys \<Rightarrow> fsys" where
  "demo_root_dirs fs = fs\<lparr>fs_dirs := insert (key_of (bytes ''/d'')) (fs_dirs fs)\<rparr>"

lemma demo_tree: "ensure_directory_tree demo_env (\<lambda>_. Some True) (bytes ''/d'') fs = (None, demo_root_dirs fs)"
  by (simp add: ensure_directory_tree_def tree_prefixes_def trim_slashes_def demo_env_def demo_kernel_def
      demo_root_dirs_def upt_conv_Cons)

lemma demo_init: "piece_mgr_init demo_mem 1 4 4 (Some demo_digest) = demo_board PIECE_FREE"
  using demo_digest_length
  by (simp add: piece_mgr_init_def demo_board_def demo_mem_def piece_size_of_def init_piece_def Let_def)

lemma demo_file_init:
  "file_writer_init demo_kernel demo_mem demo_seed_torrent (bytes ''/d'') fs =
   (0, demo_file, set_file (key_of (bytes ''/d/a'')) [] fs)"
  by (simp add: file_writer_init_def demo_seed_torrent_def torrent_zero_def demo_mem_def safe_relative_path_def
      full_path_def demo_file_def demo_kernel_def fw_zero_def Let_def cstr_def ends_segment_def)

lemma demo_launch:
  "launch demo_env (\<lambda>_. Some True) err demo_seed_torrent (clear_error (demo_entry\<lparr>mt_downloaded := 0\<rparr>)) w =
   (0, demo_running PIECE_FREE, w\<lparr>wd_fs := set_file (key_of (bytes ''/d/a'')) [] (demo_root_dirs (wd_fs w))\<rparr>)"
proof -
  have t: "t_num_pieces demo_seed_torrent = 1" "t_piece_length demo_seed_torrent = 4" "t_total_size demo_seed_torrent = 4"
    "t_pieces demo_seed_torrent = Some demo_digest" by (simp_all add: demo_seed_torrent_def)
  have b: "pm_pieces (demo_board s) \<noteq> None" "pm_bitfield (demo_board s) \<noteq> None" for s by (simp_all add: demo_board_def)
  have e: "en_mem demo_env = demo_mem" "en_os demo_env = demo_kernel" "en_now demo_env = 100" by (simp_all add: demo_env_def)
  show ?thesis
    unfolding launch_def
    by (simp add: demo_tree demo_added t b e demo_init [simplified] demo_file_init Let_def clear_error_def demo_running_def del: bytes_Cons)
qed

definition demo_fs :: fsys where
  "demo_fs = set_file (key_of (bytes ''/d/a'')) [] (demo_root_dirs demo_disk)"

lemma demo_start:
  "torrent_mgr_start demo_env (\<lambda>_. Some True) (\<lambda>_. []) 0 demo_added = (0, demo_started)"
  "demo_started = demo_added\<lparr>mg_torrents := [demo_running PIECE_FREE], mg_world := (mg_world demo_added)\<lparr>wd_fs := demo_fs\<rparr>\<rparr>"
  by (simp_all add: demo_started_def torrent_mgr_start_def bad_index_def demo_added Let_def demo_launch put_torrent_def demo_fs_def
     del: bytes_Cons)

text \<open>Empty tables of jobs.\<close>

lemma idle_tables:
  "collect_web_seed en (replicate n None) ts w = (replicate n None, ts, w)"
  "collect_discovery now (replicate n None) ts = (replicate n None, ts)"
  "collect_peer_connections now (replicate n None) ts w = (replicate n None, ts, w)"
  by (induction n) (simp_all add: collect_web_slot_def collect_connect_slot_def)

text \<open>The first tick starts the batch.\<close>

definition demo_job :: web_seed_job where
  "demo_job = new_web_job 1 0 [4] (demo_seed_torrent\<lparr>t_info_dict_raw := []\<rparr>)"

lemma demo_copy: "torrent_clone_for_worker demo_mem demo_seed_torrent = Some (demo_seed_torrent\<lparr>t_info_dict_raw := []\<rparr>)"
  using demo_digest_length demo_room(2)
  by (simp add: torrent_clone_for_worker_def demo_seed_torrent_def torrent_zero_def strdup_opt_def strdup_def
      clone_strings_def dup_str_def cstr_def sizeof_ptr_def demo_room)

lemma demo_next: "piece_mgr_get_next (demo_board PIECE_FREE) b = (if peer_lacks b 0 then -1 else 0)"
    "piece_mgr_get_next (demo_board PIECE_REQUESTED) b = - 1"
  by (simp_all add: piece_mgr_get_next_def piece_mgr_is_done_def demo_board_def pm_zero_def state_at_def piece_at_def)

lemma demo_sizes: "batch_sizes WEB_SEED_BATCH_PIECES demo_seed_torrent (demo_board PIECE_FREE) 0 0 = [4]"
proof -
  have t: "t_num_pieces demo_seed_torrent = 1" "torrent_piece_size demo_seed_torrent 0 = 4"
    by (simp_all add: demo_seed_torrent_def torrent_zero_def torrent_piece_size_def)
  have f: "state_at (demo_board PIECE_FREE) 0 = PIECE_FREE" by (simp add: state_at_def piece_at_def demo_board_def)
  have "batch_sizes n demo_seed_torrent pm (Suc 0) acc = []" for n pm acc by (cases n) (simp_all add: t)
  then have "batch_sizes (Suc n) demo_seed_torrent (demo_board PIECE_FREE) 0 0 = [4]" for n
    by (simp add: t f ASSEMBLY_LIMIT_def)
  from this [of 3] show ?thesis by (simp add: WEB_SEED_BATCH_PIECES_def)
qed

lemma demo_request: "piece_mgr_request (demo_board PIECE_FREE) 0 = demo_board PIECE_REQUESTED"
  by (simp add: piece_mgr_request_def demo_board_def set_state_def pm_zero_def)

lemma demo_slot: "first_slot (replicate (Suc n) None) = Some 0"
  by (simp add: first_slot_def upt_conv_Cons del: upt_Suc)

lemma demo_one:
  "schedule_web_seed_one demo_env True (demo_running PIECE_FREE) (replicate (Suc n) None) =
   (True, demo_running PIECE_REQUESTED, (replicate (Suc n) None)[0 := Some demo_job])"
  "schedule_web_seed_one demo_env sp (demo_running PIECE_REQUESTED) jobs = (False, demo_running PIECE_REQUESTED, jobs)"
proof -
  have r: "mt_torrent (demo_running s) = Some demo_seed_torrent" "mt_piece_mgr (demo_running s) = demo_board s"
    "mt_generation (demo_running s) = 1" "(demo_running s)\<lparr>mt_piece_mgr := demo_board s'\<rparr> = demo_running s'" for s s'
    by (simp_all add: demo_running_def demo_added clear_error_def)
  have w: "t_web_seeds demo_seed_torrent \<noteq> []" by (simp add: demo_seed_torrent_def)
  have e: "en_mem demo_env = demo_mem" by (simp add: demo_env_def)
  have a: "web_seed_active_count (replicate n None) g = 0" for n g by (simp add: web_seed_active_count_def)
  have p: "job_pieces demo_job = [0]" by (simp add: job_pieces_def demo_job_def new_web_job_def)
  show "schedule_web_seed_one demo_env True (demo_running PIECE_FREE) (replicate (Suc n) None) =
   (True, demo_running PIECE_REQUESTED, (replicate (Suc n) None)[0 := Some demo_job])"
    unfolding schedule_web_seed_one_def r(1) option.case a demo_slot
    by (simp add: r w demo_next demo_sizes peer_lacks_def e demo_copy demo_job_def [symmetric] p demo_request
        demo_room sizeof_web_seed_job_def WEB_SEED_PARALLEL_PER_TORRENT_def Let_def del: replicate.simps)
  show "schedule_web_seed_one demo_env sp (demo_running PIECE_REQUESTED) jobs = (False, demo_running PIECE_REQUESTED, jobs)"
    by (simp add: schedule_web_seed_one_def r demo_next split: option.split)
qed

lemma demo_schedule:
  "schedule_web_seed (Suc (Suc k)) demo_env (\<lambda>_. True) (demo_running PIECE_FREE) (replicate (Suc n) None) =
    Some (demo_running PIECE_REQUESTED, (replicate (Suc n) None)[0 := Some demo_job])"
  by (simp add: demo_one del: replicate.simps)

lemma demo_running:
  "mt_state (demo_running s) = TORRENT_DOWNLOADING" "mt_generation (demo_running s) = 1"
  "mt_piece_mgr (demo_running s) = demo_board s" "mt_peers (demo_running s) = []" "mt_file_writer (demo_running s) = demo_file"
  "mt_torrent (demo_running s) = Some demo_seed_torrent" "mt_candidates (demo_running s) = []"
  "(demo_running s)\<lparr>mt_progress := 0\<rparr> = demo_running s" "update_speed 100 (demo_running s) = demo_running s"
  "update_peer_status 100 (demo_running s) = demo_running s"
proof -
  have id: "mt\<lparr>mt_progress := 0\<rparr> = mt" if "mt_progress mt = 0" for mt :: managed_torrent
    using that by (cases mt) simp
  show "(demo_running s)\<lparr>mt_progress := 0\<rparr> = demo_running s"
    by (rule id) (simp add: demo_running_def clear_error_def demo_added)
qed (simp_all add: demo_running_def clear_error_def demo_added update_speed_def update_peer_status_def)

lemma demo_tick_torrent:
  "tick_torrent (demo_tick i) (demo_running PIECE_FREE, w, dj, cj, replicate (Suc n) None) =
   (demo_running PIECE_REQUESTED, w, dj, cj, (replicate (Suc n) None)[0 := Some demo_job])"
proof -
  have b: "\<not> piece_mgr_is_done (demo_board s)" "piece_mgr_progress (demo_board s) = 0" for s
    by (simp_all add: piece_mgr_is_done_def piece_mgr_progress_def demo_board_def pm_zero_def)
  have d: "schedule_discovery en al sp (demo_running s) dj = (demo_running s, dj)" for en al sp s dj
    by (simp add: schedule_discovery_def demo_running demo_seed_torrent_def torrent_zero_def torrent_of_def)
  have te: "te_env (demo_tick i) = demo_env" "te_spawn_web (demo_tick i) = (\<lambda>_. True)" "en_now demo_env = 100"
    by (simp_all add: demo_tick_def demo_env_def)
  have k: "schedule_web_seed (Suc WEB_SEED_PARALLEL_PER_TORRENT) demo_env (\<lambda>_. True) (demo_running PIECE_FREE) (replicate (Suc n) None) =
    Some (demo_running PIECE_REQUESTED, (replicate (Suc n) None)[0 := Some demo_job])"
    using demo_schedule [of 3] by (simp add: WEB_SEED_PARALLEL_PER_TORRENT_def del: schedule_web_seed.simps replicate.simps)
  show ?thesis
    by (simp add: tick_torrent_def demo_running b te d k process_peers_def schedule_peer_connections_def Let_def
       del: schedule_web_seed.simps replicate.simps)
qed

definition demo_slots :: "web_seed_job \<Rightarrow> web_seed_job option list" where
  "demo_slots job = (replicate WEB_SEED_MAX_JOBS None)[0 := Some job]"

lemma slots_pos: "WEB_SEED_MAX_JOBS = Suc (WEB_SEED_MAX_JOBS - 1)"
  by (simp add: WEB_SEED_MAX_JOBS_def MAX_TORRENTS_def WEB_SEED_PARALLEL_PER_TORRENT_def)

lemma demo_waiting:
  "demo_waiting = demo_started\<lparr>mg_torrents := [demo_running PIECE_REQUESTED], mg_web := demo_slots demo_job\<rparr>"
proof -
  have "collect_jobs en demo_started = demo_started" for en
    by (simp add: collect_jobs_def demo_start(2) demo_added idle_tables)
  moreover have "tick_torrent (demo_tick i) (demo_running PIECE_FREE, w, dj, cj, replicate WEB_SEED_MAX_JOBS None) =
   (demo_running PIECE_REQUESTED, w, dj, cj, demo_slots demo_job)" for i w dj cj
    unfolding demo_slots_def by (subst (1 2) slots_pos) (rule demo_tick_torrent)
  ultimately show ?thesis
    by (simp add: demo_waiting_def torrent_mgr_tick_def demo_start(2) demo_added)
qed

text \<open>The worker of the batch.\<close>

lemma demo_serving: "serves demo_seed_net (bytes ''http://h/d/a'') demo_piece"
  unfolding demo_seed_net_def by (rule demo_serves [OF demo_urls(3)]) simp

lemma demo_fetch:
  "fetch_web_seed_piece demo_seed_net demo_job = demo_job\<lparr>wj_data := demo_piece, wj_ok := True, wj_done := True\<rparr>"
proof -
  let ?t = "demo_seed_torrent\<lparr>t_info_dict_raw := []\<rparr>"
  have u: "single_url ?t (cstr (bytes ''http://h/d/'')) = Some (bytes ''http://h/d/a'')"
    by (simp add: single_url_def demo_seed_torrent_def append_url_path_def url_plain_def cstr_def Let_def)
  have "fetch demo_seed_net (bytes ''http://h/d/a'') 0 4 = Some demo_piece"
    using fetch_served [OF demo_serving, of 4 0] by (simp add: demo_piece_def)
  then have "fetch_single_file_span demo_seed_net ?t (cstr (bytes ''http://h/d/'')) 0 4 = Some demo_piece"
    unfolding fetch_single_file_span_def u by simp
  moreover have "t_web_seeds ?t = [bytes ''http://h/d/'']" "\<not> t_is_multi_file ?t"
    by (simp_all add: demo_seed_torrent_def torrent_zero_def)
  moreover have "usable_seed (cstr (bytes ''http://h/d/''))" by (simp add: usable_seed_def starts_with_def cstr_def)
  ultimately have "web_seed_fetch_pieces demo_seed_net ?t 0 [4] = Some demo_piece"
    by (simp add: web_seed_fetch_pieces_def del: bytes_Cons)
  then show ?thesis by (simp add: fetch_web_seed_piece_def demo_job_def new_web_job_def)
qed

text \<open>The second tick collects the batch and finds the torrent complete.\<close>

lemma demo_write: "\<exists>fw fs'. file_writer_write_piece demo_kernel demo_file demo_piece 0 fs = (0, fw, fs')"
  by (auto simp: file_writer_write_piece_def demo_file_def fw_zero_def demo_seed_torrent_def torrent_zero_def
      demo_kernel_def sys_write_def demo_piece_def Let_def split: prod.split)

lemma demo_complete:
  "fst (piece_mgr_complete (demo_board PIECE_REQUESTED) 0 demo_piece) = 0"
  "piece_mgr_is_done (snd (piece_mgr_complete (demo_board PIECE_REQUESTED) 0 demo_piece))"
  by (simp_all add: piece_mgr_complete_def demo_board_def pm_zero_def piece_at_def demo_digest_def
      piece_mgr_is_done_def set_state_def set_have_def Let_def)

lemma demo_collect:
  "\<exists>mt v. collect_batch demo_env (demo_job\<lparr>wj_data := demo_piece, wj_ok := True, wj_done := True\<rparr>)
     (demo_running PIECE_REQUESTED) w = (mt, v) \<and> mt_state mt = TORRENT_DOWNLOADING \<and> mt_peers mt = [] \<and>
     piece_mgr_is_done (mt_piece_mgr mt)"
proof -
  obtain fw fs' where f: "file_writer_write_piece demo_kernel demo_file demo_piece 0 (wd_fs w) = (0, fw, fs')"
    using demo_write by blast
  obtain pm where c: "piece_mgr_complete (demo_board PIECE_REQUESTED) 0 demo_piece = (0, pm)" "piece_mgr_is_done pm"
    using demo_complete by (metis prod.collapse)
  have d: "take 4 demo_piece = demo_piece" "sha1_hash demo_piece = demo_digest" "take 20 demo_digest = demo_digest"
    using demo_digest_length by (simp_all add: demo_piece_def demo_digest_def)
  have b: "state_at (demo_board PIECE_REQUESTED) 0 = PIECE_REQUESTED" "pm_num_pieces (demo_board PIECE_REQUESTED) = 1"
    by (simp_all add: state_at_def piece_at_def demo_board_def)
  have t: "torrent_of (demo_running s) = demo_seed_torrent" "t_pieces demo_seed_torrent = Some demo_digest" for s
    by (simp_all add: torrent_of_def demo_running) (simp add: demo_seed_torrent_def)
  have e: "en_os demo_env = demo_kernel" by (simp add: demo_env_def)
  show ?thesis
    by (simp add: collect_batch_def demo_job_def new_web_job_def demo_running b d t e f c Let_def)
qed

lemma demo_done: "\<exists>mt. mg_torrents demo_finished = [mt] \<and> mt_state mt = TORRENT_DONE"
proof -
  let ?job = "demo_job\<lparr>wj_data := demo_piece, wj_ok := True, wj_done := True\<rparr>"
  obtain n where n: "WEB_SEED_MAX_JOBS = Suc n" using slots_pos by blast
  have f: "demo_fetched = demo_waiting\<lparr>mg_web := Some ?job # replicate n None\<rparr>"
    by (simp add: demo_fetched_def demo_waiting demo_slots_def n demo_fetch)
  obtain mt v where c: "collect_batch demo_env ?job (demo_running PIECE_REQUESTED) (mg_world demo_started) = (mt, v)"
    "mt_state mt = TORRENT_DOWNLOADING" "mt_peers mt = []" "piece_mgr_is_done (mt_piece_mgr mt)"
    using demo_collect by blast
  have te: "te_env (demo_tick i) = demo_env" for i by (simp add: demo_tick_def)
  have live: "live_index 1 [demo_running s] = Some 0" for s by (simp add: live_index_def demo_running)
  have w: "mg_torrents demo_fetched = [demo_running PIECE_REQUESTED]" "mg_world demo_fetched = mg_world demo_started"
    "mg_web demo_fetched = Some ?job # replicate n None" "mg_discovery demo_fetched = replicate MAX_TORRENTS None"
    "mg_connects demo_fetched = replicate PEER_CONNECT_MAX_JOBS None"
    by (simp_all add: f demo_waiting demo_start(2) demo_added)
  have "wj_generation ?job = 1" "wj_done ?job" by (simp_all add: demo_job_def new_web_job_def)
  then have "collect_web_slot demo_env (Some ?job) [demo_running PIECE_REQUESTED] (mg_world demo_started) = (None, [mt], v)"
    unfolding collect_web_slot_def by (simp only: option.case live c(1) prod.case if_True if_False simp_thms list_update_code nth_Cons_0)
  then have "mg_torrents (collect_jobs demo_env demo_fetched) = [mt]"
    unfolding collect_jobs_def w by (simp add: idle_tables)
  then show ?thesis
    using c(2-4)
    by (simp add: demo_finished_def torrent_mgr_tick_def te tick_torrent_def complete_torrent_def disconnect_all_def
        finish_writer_def Let_def split: prod.split)
qed

lemma demo_run: "(engine_step (en_os demo_env))\<^sup>*\<^sup>* demo_started demo_finished"
proof -
  have os: "\<forall>i. en_os (te_env (demo_tick i)) = en_os demo_env" by (simp add: demo_tick_def)
  have s: "0 < length (mg_web demo_waiting)" "mg_web demo_waiting ! 0 = Some (the (mg_web demo_waiting ! 0))"
    using slots_pos by (simp_all add: demo_waiting demo_slots_def)
  have "engine_step (en_os demo_env) demo_started demo_waiting"
    unfolding demo_waiting_def by (rule engine_step.tick [OF os])
  moreover have "engine_step (en_os demo_env) demo_waiting demo_fetched"
    unfolding demo_fetched_def by (rule engine_step.web_worker [OF s])
  moreover have "engine_step (en_os demo_env) demo_fetched demo_finished"
    unfolding demo_finished_def by (rule engine_step.tick [OF os])
  ultimately show ?thesis by (meson rtranclp.rtrancl_refl rtranclp.rtrancl_into_rtrancl)
qed

lemma demo_target: "sound_target (en_os demo_env) demo_seed_torrent (take 511 (cstr (bytes ''/d'')))"
  using demo_good
  by (simp add: sound_target_def demo_env_def demo_seed_torrent_def torrent_zero_def good_kernel_def posix_write_def demo_kernel_def)

end
