(* ===== verification/StatusJson.thy ===== *)
theory StatusJson
  imports TorrentMgr
begin

text \<open>
  The status report of \<open>src/torrent_mgr.c\<close>: the writer that never leaves its buffer, the escapes of a
  string, and the report on all torrents.  \<open>vsnprintf\<close> is modelled by the text that the format
  produces; the text of \<open>%.3f\<close> for the progress is a parameter.
\<close>

section \<open>The writer\<close>

text \<open>The buffer with its size; \<open>jw_pos\<close> is the end of the text.\<close>

record json_writer =
  jw_buf :: "byte list"
  jw_size :: nat
  jw_pos :: nat

text \<open>\<open>vsnprintf\<close> stores what fits before a final NUL.\<close>

definition json_writef :: "byte list \<Rightarrow> json_writer \<Rightarrow> json_writer" where
  "json_writef text wr =
     (if jw_size wr \<le> jw_pos wr then wr
      else let room = jw_size wr - jw_pos wr;
               wr = wr\<lparr>jw_buf := blit (jw_pos wr) (take (room - 1) text @ [0]) (jw_buf wr)\<rparr>
           in if room \<le> length text
              then wr\<lparr>jw_pos := jw_size wr - 1, jw_buf := (jw_buf wr)[jw_size wr - 1 := 0]\<rparr>
              else wr\<lparr>jw_pos := jw_pos wr + length text\<rparr>)"

text \<open>The text of one character of a string.\<close>

definition json_escape :: "byte \<Rightarrow> byte list" where
  "json_escape c =
     (if c = ch CHR 0x22 \<or> c = ch CHR 0x5C then [ch CHR 0x5C, c]
      else if c = 8 then ch CHR 0x5C # bytes ''b''
      else if c = 12 then ch CHR 0x5C # bytes ''f''
      else if c = 10 then ch CHR 0x5C # bytes ''n''
      else if c = 13 then ch CHR 0x5C # bytes ''r''
      else if c = 9 then ch CHR 0x5C # bytes ''t''
      else if c < 0x20 then ch CHR 0x5C # bytes ''u00'' @ [hex_hi hex_lower c, hex_lo hex_lower c]
      else [c])"

primrec json_chars :: "byte list \<Rightarrow> json_writer \<Rightarrow> json_writer" where
  "json_chars [] wr = wr"
| "json_chars (c # cs) wr =
     (if jw_pos wr + 7 < jw_size wr then json_chars cs (json_writef (json_escape c) wr) else wr)"

definition quote :: "byte list" where "quote = [ch CHR 0x22]"

definition json_write_string :: "byte list \<Rightarrow> json_writer \<Rightarrow> json_writer" where
  "json_write_string value wr = json_writef quote (json_chars (cstr value) (json_writef quote wr))"

section \<open>The report\<close>

definition state_str :: "torrent_state \<Rightarrow> byte list" where
  "state_str s =
     (case s of
        TORRENT_STOPPED \<Rightarrow> bytes ''stopped'' | TORRENT_DOWNLOADING \<Rightarrow> bytes ''downloading''
      | TORRENT_SEEDING \<Rightarrow> bytes ''seeding'' | TORRENT_ERROR \<Rightarrow> bytes ''error'' | TORRENT_DONE \<Rightarrow> bytes ''done'')"

text \<open>A name in quotes and a colon, after a comma.\<close>

definition key :: "string \<Rightarrow> byte list" where
  "key s = bytes '','' @ quote @ bytes s @ quote @ bytes '':''"

definition remaining_bytes :: "'a managed_torrent_scheme \<Rightarrow> u64" where
  "remaining_bytes mt =
     (if mt_downloaded mt < mt_total_size mt then mt_total_size mt - mt_downloaded mt else 0)"

definition elapsed_time :: "u64 \<Rightarrow> 'a managed_torrent_scheme \<Rightarrow> u64" where
  "elapsed_time now mt =
     (if 0 < mt_start_time mt \<and> mt_start_time mt \<le> now then now - mt_start_time mt else 0)"

definition pieces_total :: "managed_torrent \<Rightarrow> nat" where
  "pieces_total mt = (case mt_torrent mt of None \<Rightarrow> 0 | Some t \<Rightarrow> t_num_pieces t)"

definition pieces_done :: "managed_torrent \<Rightarrow> nat" where
  "pieces_done mt = (if pieces_total mt \<noteq> 0 then pm_num_complete (mt_piece_mgr mt) else 0)"

text \<open>The call with all the numbers.\<close>

definition numbers :: "(rat \<Rightarrow> byte list) \<Rightarrow> u64 \<Rightarrow> managed_torrent \<Rightarrow> byte list" where
  "numbers fmt now mt =
     key ''state'' @ quote @ state_str (mt_state mt) @ quote @
     key ''progress'' @ fmt (mt_progress mt) @
     key ''size'' @ dec (unat (mt_total_size mt)) @
     key ''downloaded'' @ dec (unat (mt_downloaded mt)) @
     key ''uploaded'' @ dec (unat (mt_uploaded mt)) @
     key ''remaining'' @ dec (unat (remaining_bytes mt)) @
     key ''speed_down'' @ dec (unat (mt_speed_down mt)) @
     key ''speed_up'' @ dec (unat (mt_speed_up mt)) @
     key ''peers'' @ dec (length (mt_peers mt)) @
     key ''active_peers'' @ dec_int (mt_active_peers mt) @
     key ''pieces_done'' @ dec (pieces_done mt) @
     key ''pieces_total'' @ dec (pieces_total mt) @
     key ''elapsed'' @ dec (unat (elapsed_time now mt)) @
     key ''tracker_announces'' @ dec_int (mt_tracker_announces mt) @
     key ''is_magnet'' @ (if mt_is_magnet mt then bytes ''true'' else bytes ''false'') @
     key ''save_path''"

definition json_torrent :: "(rat \<Rightarrow> byte list) \<Rightarrow> u64 \<Rightarrow> nat \<Rightarrow> managed_torrent \<Rightarrow> json_writer \<Rightarrow> json_writer" where
  "json_torrent fmt now i mt wr =
     (let wr = (if 0 < i then json_writef (bytes '','') wr else wr);
          wr = json_writef (bytes ''{'' @ quote @ bytes ''id'' @ quote @ bytes '':'' @ dec i @ key ''name'') wr;
          wr = json_write_string (mt_name mt) wr;
          wr = json_writef (key ''hash'') wr;
          wr = json_write_string (mt_id mt) wr;
          wr = json_writef (numbers fmt now mt) wr;
          wr = json_write_string (mt_save_path mt) wr;
          wr = json_writef (key ''error'') wr;
          wr = json_write_string (mt_error_msg mt) wr
      in json_writef (bytes ''}'') wr)"

primrec json_torrents ::
  "(rat \<Rightarrow> byte list) \<Rightarrow> u64 \<Rightarrow> nat \<Rightarrow> managed_torrent list \<Rightarrow> json_writer \<Rightarrow> json_writer" where
  "json_torrents fmt now i [] wr = wr"
| "json_torrents fmt now i (mt # ts) wr = json_torrents fmt now (Suc i) ts (json_torrent fmt now i mt wr)"

text \<open>The buffer after the call.\<close>

definition torrent_mgr_status_json :: "(rat \<Rightarrow> byte list) \<Rightarrow> u64 \<Rightarrow> manager \<Rightarrow> byte list \<Rightarrow> byte list" where
  "torrent_mgr_status_json fmt now mg buf =
     (if length buf < 64 then buf
      else let wr = json_writef (bytes ''{'' @ quote @ bytes ''torrents'' @ quote @ bytes '':['')
                      \<lparr>jw_buf = buf, jw_size = length buf, jw_pos = 0\<rparr>
           in jw_buf (json_writef (bytes '']}'') (json_torrents fmt now 0 (mg_torrents mg) wr)))"

section \<open>The text of a report\<close>

definition json_string :: "byte list \<Rightarrow> byte list" where
  "json_string s = quote @ concat (map json_escape (cstr s)) @ quote"

definition torrent_text :: "(rat \<Rightarrow> byte list) \<Rightarrow> u64 \<Rightarrow> nat \<Rightarrow> managed_torrent \<Rightarrow> byte list" where
  "torrent_text fmt now i mt =
     (if 0 < i then bytes '','' else []) @
     bytes ''{'' @ quote @ bytes ''id'' @ quote @ bytes '':'' @ dec i @ key ''name'' @ json_string (mt_name mt) @
     key ''hash'' @ json_string (mt_id mt) @ numbers fmt now mt @ json_string (mt_save_path mt) @
     key ''error'' @ json_string (mt_error_msg mt) @ bytes ''}''"

primrec torrents_text :: "(rat \<Rightarrow> byte list) \<Rightarrow> u64 \<Rightarrow> nat \<Rightarrow> managed_torrent list \<Rightarrow> byte list" where
  "torrents_text fmt now i [] = []"
| "torrents_text fmt now i (mt # ts) = torrent_text fmt now i mt @ torrents_text fmt now (Suc i) ts"

definition report_text :: "(rat \<Rightarrow> byte list) \<Rightarrow> u64 \<Rightarrow> manager \<Rightarrow> byte list" where
  "report_text fmt now mg =
     bytes ''{'' @ quote @ bytes ''torrents'' @ quote @ bytes '':['' @
     torrents_text fmt now 0 (mg_torrents mg) @ bytes '']}''"

section \<open>Steps of the writer\<close>

text \<open>The writer stays in its buffer; after a step its text ends with NUL.\<close>

definition inside :: "json_writer \<Rightarrow> bool" where
  "inside wr \<longleftrightarrow> length (jw_buf wr) = jw_size wr \<and> jw_pos wr < jw_size wr"

definition ended :: "json_writer \<Rightarrow> bool" where
  "ended wr \<longleftrightarrow> inside wr \<and> jw_buf wr ! jw_pos wr = 0"

definition written :: "json_writer \<Rightarrow> byte list" where
  "written wr = take (jw_pos wr) (jw_buf wr)"

text \<open>A step that is safe, and one that appends a text where it fits with seven bytes to spare.\<close>

definition keeps_inside :: "(json_writer \<Rightarrow> json_writer) \<Rightarrow> bool" where
  "keeps_inside f \<longleftrightarrow> (\<forall>wr. inside wr \<longrightarrow> inside (f wr) \<and> jw_size (f wr) = jw_size wr \<and> (ended wr \<longrightarrow> ended (f wr)))"

definition emits :: "(json_writer \<Rightarrow> json_writer) \<Rightarrow> byte list \<Rightarrow> bool" where
  "emits f text \<longleftrightarrow> (\<forall>wr. inside wr \<and> jw_pos wr + length text + 7 < jw_size wr \<longrightarrow>
     written (f wr) = written wr @ text \<and> inside (f wr) \<and> jw_size (f wr) = jw_size wr \<and>
     jw_pos (f wr) = jw_pos wr + length text \<and> (ended wr \<longrightarrow> ended (f wr)))"

named_theorems writer \<open>steps of the writer\<close>

lemma writef_ended: "inside wr \<Longrightarrow> ended (json_writef text wr) \<and> jw_size (json_writef text wr) = jw_size wr"
  by (auto simp: json_writef_def inside_def ended_def Let_def nth_blit nth_append)

lemma writef_inside [writer]: "keeps_inside (json_writef text)"
  using writef_ended by (auto simp: keeps_inside_def ended_def)

lemma writef_emits [writer]: "emits (json_writef s) s"
  unfolding emits_def
proof (intro allI impI)
  fix wr assume a: "inside wr \<and> jw_pos wr + length s + 7 < jw_size wr"
  have t: "take (jw_pos wr + length s) (blit (jw_pos wr) (s @ [0]) (jw_buf wr)) = take (jw_pos wr) (jw_buf wr) @ s"
    using a by (simp add: blit_def inside_def)
  have e: "ended (json_writef s wr)" "jw_size (json_writef s wr) = jw_size wr" using a writef_ended [of wr s] by simp_all
  then have "inside (json_writef s wr)" by (simp add: ended_def)
  moreover have "json_writef s wr = wr\<lparr>jw_buf := blit (jw_pos wr) (s @ [0]) (jw_buf wr), jw_pos := jw_pos wr + length s\<rparr>"
    using a by (auto simp: json_writef_def Let_def)
  ultimately show "written (json_writef s wr) = written wr @ s \<and> inside (json_writef s wr) \<and>
      jw_size (json_writef s wr) = jw_size wr \<and> jw_pos (json_writef s wr) = jw_pos wr + length s \<and>
      (ended wr \<longrightarrow> ended (json_writef s wr))"
    using e t by (simp add: written_def)
qed

text \<open>Steps in sequence.\<close>

definition steps :: "(json_writer \<Rightarrow> json_writer) list \<Rightarrow> json_writer \<Rightarrow> json_writer" where
  "steps fs wr = foldl (\<lambda>wr f. f wr) wr fs"

lemma steps_inside: "\<forall>f \<in> set fs. keeps_inside f \<Longrightarrow> keeps_inside (steps fs)"
  by (induction fs) (simp_all add: keeps_inside_def steps_def)

lemma steps_emit: "list_all2 emits fs ts \<Longrightarrow> emits (steps fs) (concat ts)"
  by (induction rule: list_all2_induct) (simp_all add: emits_def steps_def)

lemma chars_inside [writer]: "keeps_inside (json_chars s)"
proof (induction s)
  case (Cons c s)
  then show ?case using writef_inside [of "json_escape c"] by (simp add: keeps_inside_def)
qed (simp add: keeps_inside_def)

lemma chars_emits [writer]: "emits (json_chars s) (concat (map json_escape s))"
proof (induction s)
  case (Cons c s)
  then show ?case using writef_emits [of "json_escape c"] by (simp add: emits_def)
qed (simp add: emits_def)

lemma string_steps: "json_write_string s = steps [json_writef quote, json_chars (cstr s), json_writef quote]"
  by (simp add: fun_eq_iff json_write_string_def steps_def)

lemma string_inside [writer]: "keeps_inside (json_write_string s)"
  unfolding string_steps by (rule steps_inside) (simp add: writer)

lemma string_emits [writer]: "emits (json_write_string s) (json_string s)"
  using steps_emit [of "[json_writef quote, json_chars (cstr s), json_writef quote]" "[quote, concat (map json_escape (cstr s)), quote]"]
  by (simp add: string_steps json_string_def writer)

lemma comma [writer]: "keeps_inside (if b then json_writef t else (\<lambda>wr. wr))"
    "emits (if b then json_writef t else (\<lambda>wr. wr)) (if b then t else [])"
  by (simp_all add: writer) (simp_all add: keeps_inside_def emits_def)

text \<open>The steps of one torrent, and their texts.\<close>

definition torrent_steps :: "(rat \<Rightarrow> byte list) \<Rightarrow> u64 \<Rightarrow> nat \<Rightarrow> managed_torrent \<Rightarrow> (json_writer \<Rightarrow> json_writer) list" where
  "torrent_steps fmt now i mt =
     [if 0 < i then json_writef (bytes '','') else (\<lambda>wr. wr),
      json_writef (bytes ''{'' @ quote @ bytes ''id'' @ quote @ bytes '':'' @ dec i @ key ''name''),
      json_write_string (mt_name mt), json_writef (key ''hash''), json_write_string (mt_id mt),
      json_writef (numbers fmt now mt), json_write_string (mt_save_path mt), json_writef (key ''error''),
      json_write_string (mt_error_msg mt), json_writef (bytes ''}'')]"

lemma torrent_steps: "json_torrent fmt now i mt = steps (torrent_steps fmt now i mt)"
  by (simp add: fun_eq_iff json_torrent_def torrent_steps_def steps_def Let_def del: bytes_Cons)

lemma torrent_inside [writer]: "keeps_inside (json_torrent fmt now i mt)"
  unfolding torrent_steps by (rule steps_inside) (simp add: torrent_steps_def writer del: bytes_Cons)

lemma torrent_emits [writer]: "emits (json_torrent fmt now i mt) (torrent_text fmt now i mt)"
proof -
  let ?ts = "[if 0 < i then bytes '','' else [], bytes ''{'' @ quote @ bytes ''id'' @ quote @ bytes '':'' @ dec i @ key ''name'',
    json_string (mt_name mt), key ''hash'', json_string (mt_id mt), numbers fmt now mt, json_string (mt_save_path mt),
    key ''error'', json_string (mt_error_msg mt), bytes ''}'']"
  have "list_all2 emits (torrent_steps fmt now i mt) ?ts"
    by (simp only: torrent_steps_def list.rel_inject list_all2_Nil list_all2_Cons writer simp_thms)
  from steps_emit [OF this] show ?thesis
    by (simp only: torrent_steps torrent_text_def concat.simps append.assoc append_Nil2)
qed

lemma torrents_inside [writer]: "keeps_inside (json_torrents fmt now i ts)"
proof (induction ts arbitrary: i)
  case (Cons mt ts)
  then show ?case using torrent_inside [of fmt now i mt] by (simp add: keeps_inside_def)
qed (simp add: keeps_inside_def)

lemma torrents_emits [writer]: "emits (json_torrents fmt now i ts) (torrents_text fmt now i ts)"
proof (induction ts arbitrary: i)
  case (Cons mt ts)
  then show ?case using torrent_emits [of fmt now i mt] by (simp add: emits_def)
qed (simp add: emits_def)

section \<open>Reading a string back\<close>

text \<open>A reader of the strings of JSON, for the escapes of ASCII characters.\<close>

definition unescape :: "byte \<Rightarrow> byte option" where
  "unescape e =
     (if e = ch CHR 0x22 \<or> e = ch CHR 0x5C \<or> e = ch CHR ''/'' then Some e
      else if e = ch CHR ''b'' then Some 8 else if e = ch CHR ''f'' then Some 12
      else if e = ch CHR ''n'' then Some 10 else if e = ch CHR ''r'' then Some 13
      else if e = ch CHR ''t'' then Some 9 else None)"

fun json_read :: "byte list \<Rightarrow> (byte list \<times> byte list) option" where
  "json_read [] = None"
| "json_read (c # cs) =
     (if c = ch CHR 0x22 then Some ([], cs)
      else if c \<noteq> ch CHR 0x5C then (if c < 0x20 then None else map_option (\<lambda>(s, r). (c # s, r)) (json_read cs))
      else case cs of
        [] \<Rightarrow> None
      | e # ds \<Rightarrow>
        if e = ch CHR ''u''
        then (if length ds < 4 \<or> take 2 ds \<noteq> bytes ''00'' then None
              else map_option (\<lambda>(s, r). (word_of_int (strtol16_pair (ds ! 2) (ds ! 3)) # s, r)) (json_read (drop 4 ds)))
        else (case unescape e of None \<Rightarrow> None
              | Some x \<Rightarrow> map_option (\<lambda>(s, r). (x # s, r)) (json_read ds)))"

lemma read_escape: "json_read (json_escape c @ rest) = map_option (\<lambda>(s, r). (c # s, r)) (json_read rest)"
proof -
  consider "c = ch CHR 0x22 \<or> c = ch CHR 0x5C \<or> c = 8 \<or> c = 12 \<or> c = 10 \<or> c = 13 \<or> c = 9"
    | "\<not> (c = ch CHR 0x22 \<or> c = ch CHR 0x5C \<or> c = 8 \<or> c = 12 \<or> c = 10 \<or> c = 13 \<or> c = 9)" "c < 0x20"
    | "\<not> (c = ch CHR 0x22 \<or> c = ch CHR 0x5C \<or> c = 8 \<or> c = 12 \<or> c = 10 \<or> c = 13 \<or> c = 9)" "\<not> c < 0x20"
    by blast
  then show ?thesis
  proof cases
    case 1
    then show ?thesis by (elim disjE) (simp_all add: json_escape_def unescape_def)
  next
    case 2
    then have "json_escape c = ch CHR 0x5C # bytes ''u00'' @ [hex_hi hex_lower c, hex_lo hex_lower c]"
      by (simp add: json_escape_def)
    then show ?thesis by (simp add: hex_pair)
  next
    case 3
    then have "json_escape c = [c]" by (simp add: json_escape_def)
    then show ?thesis using 3 by simp
  qed
qed

lemma read_string: "json_read (concat (map json_escape s) @ ch CHR 0x22 # rest) = Some (s, rest)"
proof (induction s)
  case (Cons c s)
  then show ?case by (simp only: list.map concat.simps append.assoc read_escape) simp
qed simp

section \<open>Properties\<close>

text \<open>
  C29.  The report never leaves its buffer and always terminates it: for every state of the manager and
  every buffer of at least 64 bytes the result has the size of the buffer and holds a NUL; a smaller
  buffer is left alone.
\<close>

theorem status_in_buffer:
  "length (torrent_mgr_status_json fmt now mg buf) = length buf \<and>
   (if length buf < 64 then torrent_mgr_status_json fmt now mg buf = buf
    else 0 \<in> set (torrent_mgr_status_json fmt now mg buf))"
proof (cases "length buf < 64")
  case False
  let ?wr = "\<lparr>jw_buf = buf, jw_size = length buf, jw_pos = 0\<rparr>"
  define fs where "fs = [json_writef (bytes ''{'' @ quote @ bytes ''torrents'' @ quote @ bytes '':[''),
    json_torrents fmt now 0 (mg_torrents mg)]"
  have "inside ?wr" using False by (auto simp: inside_def)
  moreover have "keeps_inside (steps fs)" by (rule steps_inside) (simp add: fs_def writer)
  ultimately have i: "inside (steps fs ?wr)" "jw_size (steps fs ?wr) = length buf" by (simp_all add: keeps_inside_def)
  define out where "out = json_writef (bytes '']}'') (steps fs ?wr)"
  have o: "ended out" "jw_size out = length buf" using writef_ended [OF i(1), of "bytes '']}''"] i(2) by (simp_all add: out_def)
  have "torrent_mgr_status_json fmt now mg buf = jw_buf out"
    using False by (simp add: torrent_mgr_status_json_def out_def fs_def steps_def Let_def del: bytes_Cons)
  moreover have "0 \<in> set (jw_buf out)" using o(1) unfolding ended_def inside_def by (metis nth_mem)
  ultimately show ?thesis using False o by (simp add: ended_def inside_def)
qed (simp add: torrent_mgr_status_json_def)


text \<open>
  The strings of the report can be read back: where it fits, the writer appends an opening quote
  and a text from which a reader of JSON strings returns exactly the string that was written, up to its
  NUL, and whatever follows, for all quotes, backslashes and control characters in the name of a torrent.
\<close>

theorem status_strings_roundtrip:
  assumes "inside wr" "jw_pos wr + length (json_string s) + 7 < jw_size wr"
  shows "\<exists>body. written (json_write_string s wr) = written wr @ quote @ body \<and>
    (\<forall>rest. json_read (body @ rest) = Some (cstr s, rest))"
  using string_emits [of s, unfolded emits_def, rule_format, of wr] assms read_string [of "cstr s"]
  by (intro exI [of _ "concat (map json_escape (cstr s)) @ quote"]) (simp add: json_string_def quote_def)

definition demo_writer_json :: json_writer where
  "demo_writer_json = \<lparr>jw_buf = replicate 64 7, jw_size = 64, jw_pos = 0\<rparr>"

theorem status_strings_roundtrip_witness:
  "\<exists>body. written (json_write_string (bytes ''a'' @ [34, 10, 1, 0, 99]) demo_writer_json) = quote @ body \<and>
     json_read (body @ bytes '',1'') = Some (bytes ''a'' @ [34, 10, 1], bytes '',1'')"
  using status_strings_roundtrip [of demo_writer_json "bytes ''a'' @ [34, 10, 1, 0, 99]"]
  by (auto simp: demo_writer_json_def inside_def written_def json_string_def json_escape_def quote_def cstr_def
      hex_lower_def hex_hi_def hex_lo_def)

definition demo_report :: manager where
  "demo_report = (mgr_start (\<lambda>_. \<lparr>sk_rx = [], sk_tx = [], sk_out = []\<rparr>) demo_disk)
     \<lparr>mg_torrents := [mt_zero\<lparr>mt_name := bytes ''a'' @ [34]\<rparr>, mt_zero\<lparr>mt_total_size := 7\<rparr>]\<rparr>"

lemma demo_digits: "dec 0 = bytes ''0''" "dec (Suc 0) = bytes ''1''" "dec 7 = bytes ''7''"
  by (simp_all add: dec.simps)


end
