(* ===== verification/TileState.thy ===== *)
theory TileState
  imports Prelude "HOL-Library.Sublist"
begin

text \<open>
  \<open>src/tile_state.c\<close>: whether the tile of the application is installed, and in which version.  The
  version of a package is found by a streaming search in files of any size.  \<open>stat\<close> and the contents of
  the files are parameters; \<open>segment\<close> cuts a file into the pieces that \<open>fread\<close> delivers.
\<close>

section \<open>Operations\<close>

text \<open>\<open>snprintf (path, sizeof (path), "%s/%s", ..)\<close>; \<open>None\<close> where the path does not fit.\<close>

definition joined_path :: "byte list \<Rightarrow> byte list \<Rightarrow> byte list option" where
  "joined_path directory name =
     (let p = directory @ ch CHR ''/'' # name in if length p < 1024 then Some p else None)"

text \<open>\<open>stat\<close> answers with the kind of the file and its size.\<close>

definition has_file :: "(byte list \<Rightarrow> (bool \<times> int) option) \<Rightarrow> byte list \<Rightarrow> byte list \<Rightarrow> bool" where
  "has_file stat directory name =
     (case joined_path directory name of
        None \<Rightarrow> False
      | Some p \<Rightarrow> (case stat p of None \<Rightarrow> False | Some (regular, len) \<Rightarrow> regular \<and> 0 < len))"

definition tile_state_present :: "(byte list \<Rightarrow> (bool \<times> int) option) \<Rightarrow> byte list \<Rightarrow> bool" where
  "tile_state_present stat app_dir =
     (has_file stat app_dir (bytes ''app.pkg'') \<or> has_file stat app_dir (bytes ''sce_sys/param.json''))"

text \<open>The inner loop: a comparison at every offset of the buffer.\<close>

definition buffer_match :: "byte list \<Rightarrow> byte list \<Rightarrow> bool" where
  "buffer_match version buf =
     list_ex (\<lambda>i. i + length version \<le> length buf \<and> take (length version) (drop i buf) = version) [0..<Suc (length buf)]"

text \<open>The outer loop; \<open>carry\<close> is what is kept of the buffer.\<close>

function search_stream :: "byte list \<Rightarrow> byte list \<Rightarrow> byte list list \<Rightarrow> bool" where
  "search_stream version carry [] = False"
| "search_stream version carry (d # ds) =
     (let n = take (8192 - length carry) d; rest = drop (8192 - length carry) d
      in if n = [] then False
         else let buf = carry @ n
         in if buffer_match version buf then True
            else let k = (if length buf < length version - 1 then length buf else length version - 1)
                 in search_stream version (drop (length buf - k) buf) (if rest = [] then ds else rest # ds))"
  by pat_completeness auto
termination
  by (relation "measure (\<lambda>(v, c, ds). length ds + sum_list (map length ds))") auto

declare search_stream.simps [simp del]

definition contains_version ::
  "(byte list \<Rightarrow> byte list list) \<Rightarrow> (byte list \<Rightarrow> byte list option) \<Rightarrow> byte list \<Rightarrow> byte list \<Rightarrow> bool" where
  "contains_version segment files path version =
     (if version = [] \<or> 8192 \<le> length version then False
      else case files path of None \<Rightarrow> False | Some data \<Rightarrow> search_stream version [] (segment data))"

text \<open>The places that are searched, in this order, before the marker.\<close>

definition version_places :: "byte list \<Rightarrow> byte list \<Rightarrow> (byte list \<times> byte list) list" where
  "version_places app_dir appmeta_dir =
     [(app_dir, bytes ''sce_sys/param.json''), (app_dir, bytes ''sce_sys/param.sfo''),
      (appmeta_dir, bytes ''param.json''), (appmeta_dir, bytes ''param.sfo''), (app_dir, bytes ''app.pkg'')]"

definition tile_state_version ::
  "(byte list \<Rightarrow> (bool \<times> int) option) \<Rightarrow> (byte list \<Rightarrow> byte list list) \<Rightarrow> (byte list \<Rightarrow> byte list option) \<Rightarrow>
   byte list \<Rightarrow> byte list \<Rightarrow> byte list \<Rightarrow> byte list \<Rightarrow> bool" where
  "tile_state_version stat segment files app_dir appmeta_dir marker version =
     (if \<not> tile_state_present stat app_dir then False
      else if list_ex (\<lambda>(d, n). case joined_path d n of None \<Rightarrow> False
                | Some p \<Rightarrow> contains_version segment files p version) (version_places app_dir appmeta_dir)
      then True
      else contains_version segment files marker version)"

text \<open>
  \<open>tile_state_write_marker\<close>: whether \<open>fopen\<close> and \<open>fclose\<close> succeed and how many bytes \<open>fwrite\<close> takes
  are parameters.
\<close>

definition tile_state_write_marker ::
  "bool \<Rightarrow> nat \<Rightarrow> bool \<Rightarrow> byte list \<Rightarrow> byte list \<Rightarrow> (byte list \<Rightarrow> byte list option) \<Rightarrow>
   int \<times> (byte list \<Rightarrow> byte list option)" where
  "tile_state_write_marker opened taken shut path version files =
     (if \<not> opened then (- 1, files)
      else (if shut \<and> taken = length version then 0 else - 1, files(path \<mapsto> take taken version)))"

section \<open>The search\<close>

lemma buffer_match_sublist: "buffer_match v buf \<longleftrightarrow> sublist v buf"
proof
  assume "buffer_match v buf"
  then obtain i where "take (length v) (drop i buf) = v" by (auto simp: buffer_match_def list_ex_iff)
  then show "sublist v buf" by (metis append_take_drop_id sublist_appendI)
next
  assume "sublist v buf"
  then obtain ps ss where "buf = ps @ v @ ss" by (auto simp: sublist_def)
  then have "length ps + length v \<le> length buf \<and> take (length v) (drop (length ps) buf) = v" by simp
  then show "buffer_match v buf" unfolding buffer_match_def list_ex_iff by fastforce
qed

text \<open>What the next round needs of a buffer without a match: less than the length of the version.\<close>

lemma carry_enough:
  assumes "\<not> sublist v buf" "v \<noteq> []" "k = min (length buf) (length v - 1)"
  shows "sublist v (buf @ rest) \<longleftrightarrow> sublist v (drop (length buf - k) buf @ rest)"
proof
  assume "sublist v (buf @ rest)"
  then consider "sublist v rest" | xs ys where "v = xs @ ys" "suffix xs buf" "prefix ys rest"
    using assms(1) by (auto simp: sublist_append)
  then show "sublist v (drop (length buf - k) buf @ rest)"
  proof cases
    case 2
    then have "ys \<noteq> []" using assms(1) by (metis append_Nil2 suffix_imp_sublist)
    then have "length xs \<le> k" using 2 assms(3) suffix_length_le [of xs buf] by (cases ys) auto
    moreover have "suffix (drop (length buf - k) buf) buf" by (rule suffix_drop)
    moreover have "length (drop (length buf - k) buf) = k" using assms(3) by simp
    ultimately have "suffix xs (drop (length buf - k) buf)" using 2(2) by (metis suffix_length_suffix)
    then show ?thesis using 2 by (auto simp: sublist_append)
  qed (simp add: sublist_append)
next
  assume "sublist v (drop (length buf - k) buf @ rest)"
  then have "sublist v (take (length buf - k) buf @ drop (length buf - k) buf @ rest)"
    unfolding sublist_append [of v "take (length buf - k) buf"] by blast
  then show "sublist v (buf @ rest)" by (simp flip: append_assoc)
qed

lemma search_sublist:
  "v \<noteq> [] \<Longrightarrow> length v < 8192 \<Longrightarrow> length carry < length v \<Longrightarrow> [] \<notin> set ds \<Longrightarrow>
   search_stream v carry ds \<longleftrightarrow> sublist v (carry @ concat ds)"
proof (induction v carry ds rule: search_stream.induct)
  case (1 v carry)
  then have "\<not> sublist v carry" using sublist_length_le [of v carry] by auto
  then show ?case by (simp add: search_stream.simps)
next
  case (2 v carry d ds)
  define n rest where "n = take (8192 - length carry) d" and "rest = drop (8192 - length carry) d"
  define buf where "buf = carry @ n"
  define k where "k = (if length buf < length v - 1 then length buf else length v - 1)"
  define ds' where "ds' = (if rest = [] then ds else rest # ds)"
  have d: "d = n @ rest" "n \<noteq> []" using 2(2-5) by (auto simp: n_def rest_def)
  have all: "carry @ concat (d # ds) = buf @ concat ds'" by (simp add: buf_def ds'_def d(1))
  have step: "search_stream v carry (d # ds) = (buffer_match v buf \<or> search_stream v (drop (length buf - k) buf) ds')"
    using d(2) by (simp only: search_stream.simps n_def [symmetric] rest_def [symmetric] buf_def [symmetric]
        k_def [symmetric] ds'_def [symmetric] Let_def if_False) simp
  show ?case
  proof (cases "buffer_match v buf")
    case True
    then have "sublist v (buf @ concat ds')" by (simp add: buffer_match_sublist sublist_append)
    then show ?thesis using True by (simp only: step all simp_thms)
  next
    case False
    have k: "k = min (length buf) (length v - 1)" by (simp add: k_def)
    have "length (drop (length buf - k) buf) < length v" using 2(2) k by (cases v) auto
    moreover have "[] \<notin> set ds'" using 2(5) by (auto simp: ds'_def)
    ultimately have "search_stream v (drop (length buf - k) buf) ds' = sublist v (drop (length buf - k) buf @ concat ds')"
      using 2(1) [OF n_def rest_def d(2) buf_def False k_def 2(2,3)] by (simp only: ds'_def simp_thms)
    then show ?thesis
      using carry_enough [OF False [unfolded buffer_match_sublist] 2(2) k, of "concat ds'"] False step all by simp
  qed
qed

section \<open>Properties\<close>

text \<open>How \<open>fread\<close> cuts a file: into parts of any size, none of them empty.\<close>

definition cuts :: "(byte list \<Rightarrow> byte list list) \<Rightarrow> bool" where
  "cuts segment \<longleftrightarrow> (\<forall>data. concat (segment data) = data \<and> [] \<notin> set (segment data))"

lemma contains_sublist:
  assumes "cuts segment" "version \<noteq> []" "length version < 8192" "files path = Some data"
  shows "contains_version segment files path version \<longleftrightarrow> sublist version data"
  using search_sublist [of version "[]" "segment data"] assms
  by (simp add: contains_version_def cuts_def)

text \<open>
  C34.  The streaming search is substring search: whatever the size of a file and however it is
  delivered, a version of 1 to 8191 bytes is found in it exactly if its bytes occur consecutively
  somewhere, also across the borders of the buffer; a file that cannot be opened contains nothing.
\<close>

theorem version_search_is_substring:
  assumes "cuts segment" "version \<noteq> []" "length version < 8192"
  shows "contains_version segment files path version \<longleftrightarrow> (\<exists>data. files path = Some data \<and> sublist version data)"
proof (cases "files path")
  case None
  then show ?thesis by (simp add: contains_version_def)
next
  case (Some data)
  then show ?thesis using contains_sublist [OF assms, of files path data] Some by simp
qed

lemma cuts_bytes: "cuts (map (\<lambda>b. [b]))"
  by (auto simp: cuts_def)

theorem version_search_is_substring_witness:
  "contains_version (map (\<lambda>b. [b])) [bytes ''/m'' \<mapsto> [0, 50, 46, 48, 0]] (bytes ''/m'') (bytes ''2.0'')"
  using version_search_is_substring [OF cuts_bytes, of "bytes ''2.0''" "[bytes ''/m'' \<mapsto> [0, 50, 46, 48, 0]]" "bytes ''/m''"]
    sublist_appendI [of "[50, 46, 48 :: byte]" "[0]" "[0]"]
  by simp

text \<open>
  The marker of an installed tile is recognised: after a marker was written without an error, an
  installed tile counts as having that version, whatever its other files contain.
\<close>

theorem marker_roundtrip:
  assumes "cuts segment" "version \<noteq> []" "length version < 8192" "tile_state_present stat app_dir"
    and "tile_state_write_marker opened taken shut marker version files = (0, files')"
  shows "tile_state_version stat segment files' app_dir appmeta_dir marker version"
proof -
  have "files' marker = Some version" using assms(5) by (auto simp: tile_state_write_marker_def split: if_splits)
  then have "contains_version segment files' marker version" using contains_sublist [OF assms(1-3)] by simp
  then show ?thesis using assms(4) by (simp add: tile_state_version_def)
qed

theorem marker_roundtrip_witness:
  "tile_state_version (\<lambda>_. Some (True, 7)) (map (\<lambda>b. [b])) (snd (tile_state_write_marker True 5 True (bytes ''/m'') (bytes ''2.0.4'') Map.empty))
     (bytes ''/app'') (bytes ''/meta'') (bytes ''/m'') (bytes ''2.0.4'')"
  by (rule marker_roundtrip [OF cuts_bytes, of _ _ _ True 5 True _ Map.empty])
    (simp_all add: tile_state_write_marker_def tile_state_present_def has_file_def joined_path_def)

end
