(* ===== verification/AppLog.thy ===== *)
theory AppLog
  imports Prelude
begin

text \<open>
  \<open>src/app_log.c\<close>: the log in memory, the log file with its rotation, and the text that the web
  interface shows.  The static variables are the fields of one record that also holds the files.  The
  answers of the C library in one call are the fields of \<open>log_env\<close>; \<open>stat\<close> fails exactly for a missing
  file and \<open>fread\<close> delivers what a file holds.  The lock is held during every call, so that calls are steps.
\<close>

definition LOG_LIMIT :: nat where "LOG_LIMIT = 1024 * 1024"
definition LOG_TAIL :: nat where "LOG_TAIL = 64 * 1024"

section \<open>State\<close>

record log_state =
  lg_open :: bool
  lg_path :: "byte list"
  lg_previous :: "byte list"
  lg_recent :: "byte list"
  lg_file_length :: nat
  lg_error :: nat
  lg_files :: "byte list \<Rightarrow> byte list option"

text \<open>
  \<open>le_mkdir\<close> is true also where the directory exists, \<open>le_rename\<close> where the old name is missing;
  \<open>le_taken\<close> is the count that \<open>fwrite\<close> returns.
\<close>

record log_env =
  le_mkdir :: bool
  le_rename :: bool
  le_fopen :: bool
  le_reopen :: bool
  le_taken :: "nat \<Rightarrow> nat"
  le_flush :: bool
  le_seek :: bool
  le_errno :: nat
  le_date :: "byte list"

section \<open>Operations\<close>

definition remember :: "byte list \<Rightarrow> byte list \<Rightarrow> byte list" where
  "remember line recent =
     (let line = (if LOG_TAIL < length line then drop (length line - LOG_TAIL) line else line);
          recent = (if LOG_TAIL < length recent + length line
                    then drop (length recent + length line - LOG_TAIL) recent else recent)
      in recent @ line)"

text \<open>\<open>fopen (.., "ab")\<close> creates a missing file.\<close>

definition open_append :: "log_state \<Rightarrow> log_state" where
  "open_append st =
     st\<lparr>lg_open := True,
        lg_files := (if lg_files st (lg_path st) = None then (lg_files st)(lg_path st \<mapsto> []) else lg_files st)\<rparr>"

definition rename_log :: "log_state \<Rightarrow> log_state" where
  "rename_log st =
     (case lg_files st (lg_path st) of
        None \<Rightarrow> st
      | Some d \<Rightarrow> st\<lparr>lg_files := (lg_files st)(lg_previous st \<mapsto> d, lg_path st := None)\<rparr>)"

definition rotate_log :: "log_env \<Rightarrow> log_state \<Rightarrow> int \<times> log_state" where
  "rotate_log le st =
     (let st = st\<lparr>lg_open := False\<rparr>
      in if \<not> le_rename le then (- 1, st)
         else let st = (rename_log st)\<lparr>lg_file_length := 0\<rparr>
              in if le_reopen le then (0, open_append st) else (- 1, st))"

definition EIO :: nat where "EIO = 5"

text \<open>\<open>fwrite\<close> and \<open>fflush\<close>; a short write leaves a part of the line.\<close>

definition append_line :: "log_env \<Rightarrow> byte list \<Rightarrow> log_state \<Rightarrow> log_state" where
  "append_line le line st =
     (let n = min (le_taken le (length line)) (length line);
          st = st\<lparr>lg_files := (lg_files st)(lg_path st \<mapsto> the (lg_files st (lg_path st)) @ take n line)\<rparr>
      in if n \<noteq> length line \<or> \<not> le_flush le
         then st\<lparr>lg_error := (if le_errno le \<noteq> 0 then le_errno le else EIO), lg_open := False\<rparr>
         else st\<lparr>lg_file_length := lg_file_length st + length line\<rparr>)"

definition persist :: "log_env \<Rightarrow> byte list \<Rightarrow> log_state \<Rightarrow> log_state" where
  "persist le line st =
     (if \<not> lg_open st then st
      else if LOG_LIMIT < lg_file_length st + length line
      then (case rotate_log le st of
              (r, st) \<Rightarrow> if r \<noteq> 0 then st\<lparr>lg_error := le_errno le\<rparr> else append_line le line st)
      else append_line le line st)"

definition EINVAL_LOG :: nat where "EINVAL_LOG = 22"

definition app_log_open :: "log_env \<Rightarrow> byte list option \<Rightarrow> log_state \<Rightarrow> int \<times> log_state" where
  "app_log_open le directory st =
     (if lg_open st then (0, st)
      else case directory of
        None \<Rightarrow> (- 1, st\<lparr>lg_error := EINVAL_LOG\<rparr>)
      | Some d \<Rightarrow>
        if d = [] \<or> hd d \<noteq> ch CHR ''/'' \<or> 1024 - 32 < length d then (- 1, st\<lparr>lg_error := EINVAL_LOG\<rparr>)
        else let st = st\<lparr>lg_path := d @ bytes ''/PS5Torrent.log'', lg_previous := d @ bytes ''/PS5Torrent.previous.log''\<rparr>
        in if \<not> le_mkdir le then (- 1, st\<lparr>lg_error := le_errno le\<rparr>)
           else let st = st\<lparr>lg_file_length := (case lg_files st (lg_path st) of None \<Rightarrow> 0 | Some c \<Rightarrow> length c)\<rparr>
           in if \<not> le_fopen le then (- 1, st\<lparr>lg_error := le_errno le\<rparr>)
              else let st = persist le (lg_recent st) ((open_append st)\<lparr>lg_error := 0\<rparr>)
                   in (if lg_open st then 0 else - 1, st))"

text \<open>The line of an event: one line, whatever the message contains.\<close>

definition log_line :: "byte list \<Rightarrow> byte list \<Rightarrow> byte list \<Rightarrow> byte list" where
  "log_line date level message =
     (let text1 = bytes ''['' @ date @ bytes ''] ['' @ level @ bytes ''] '' @ message;
          len = (if 2048 - 1 \<le> length text1 then 2048 - 2 else length text1)
      in map (\<lambda>c. if c < 32 then ch CHR '' '' else c) (take len text1) @ [10])"

definition app_log_write :: "log_env \<Rightarrow> byte list \<Rightarrow> byte list option \<Rightarrow> log_state \<Rightarrow> log_state" where
  "app_log_write le level message st =
     (let line = log_line (le_date le) level (case message of None \<Rightarrow> [] | Some m \<Rightarrow> m)
      in persist le line (st\<lparr>lg_recent := remember line (lg_recent st)\<rparr>))"

definition unavailable_text :: "nat \<Rightarrow> byte list" where
  "unavailable_text err = bytes ''Persistent log unavailable (error '' @ dec err @
     bytes ''). Showing in-memory events.'' @ [10]"

text \<open>The tail of the file, from the first whole line on.\<close>

definition file_tail :: "byte list \<Rightarrow> byte list" where
  "file_tail d =
     (let start = (if LOG_TAIL < length d then length d - LOG_TAIL else 0);
          rest = drop start d;
          rest = (if start \<noteq> 0 then drop 1 (dropWhile (\<lambda>c. c \<noteq> 10) rest) else rest)
      in take LOG_TAIL rest)"

definition app_log_read :: "allocator \<Rightarrow> log_env \<Rightarrow> log_state \<Rightarrow> byte list option" where
  "app_log_read mem le st =
     (if \<not> mem (LOG_TAIL + 256) then None
      else let found = lg_open st \<and> le_fopen le \<and> lg_files st (lg_path st) \<noteq> None;
               used = (if found then (if le_seek le then file_tail (the (lg_files st (lg_path st))) else [])
                       else unavailable_text (lg_error st))
           in Some (if \<not> found \<or> used = [] then used @ lg_recent st else used))"

definition app_log_close :: "log_state \<Rightarrow> log_state" where
  "app_log_close st = st\<lparr>lg_open := False\<rparr>"

section \<open>The log in memory\<close>

text \<open>The abstract log: the last bytes of everything that was logged.\<close>

definition last_bytes :: "nat \<Rightarrow> 'a list \<Rightarrow> 'a list" where
  "last_bytes n xs = drop (length xs - n) xs"

lemma length_last [simp]: "length (last_bytes n xs) = min n (length xs)"
  by (simp add: last_bytes_def)

lemma last_append: "last_bytes n (last_bytes n xs @ ys) = last_bytes n (xs @ ys)"
  by (cases "length xs \<le> n") (simp_all add: last_bytes_def add.commute)

lemma remember_last: "length recent \<le> LOG_TAIL \<Longrightarrow> remember line recent = last_bytes LOG_TAIL (recent @ line)"
  by (auto simp: remember_def last_bytes_def Let_def)

lemma rotate_recent: "lg_recent (snd (rotate_log le st)) = lg_recent st"
  by (simp add: rotate_log_def rename_log_def open_append_def Let_def split: option.split)

lemma persist_recent [simp]: "lg_recent (persist le line st) = lg_recent st"
  using rotate_recent [of le st]
  by (auto simp: persist_def append_line_def Let_def split: prod.splits)

section \<open>The log file\<close>

text \<open>
  While the log is open, its file exists, has the length that the code counts, and is not longer than
  the limit; the memory never holds more than the tail.
\<close>

definition log_ok :: "log_state \<Rightarrow> bool" where
  "log_ok st \<longleftrightarrow> length (lg_recent st) \<le> LOG_TAIL \<and>
     (lg_open st \<longrightarrow> (\<exists>d. lg_files st (lg_path st) = Some d \<and> length d = lg_file_length st \<and> lg_file_length st \<le> LOG_LIMIT))"

text \<open>The same without the limit.\<close>

definition log_counted :: "log_state \<Rightarrow> bool" where
  "log_counted st \<longleftrightarrow> length (lg_recent st) \<le> LOG_TAIL \<and>
     (lg_open st \<longrightarrow> (\<exists>d. lg_files st (lg_path st) = Some d \<and> length d = lg_file_length st))"

lemma append_ok:
  assumes "log_counted st" "lg_open st" "lg_file_length st + length line \<le> LOG_LIMIT"
  shows "log_ok (append_line le line st)"
  using assms by (auto simp: log_counted_def log_ok_def append_line_def Let_def)

lemma rotate_counted:
  assumes "log_counted st" "rotate_log le st = (r, st')"
  shows "log_counted st'" "r = 0 \<Longrightarrow> lg_open st' \<and> lg_file_length st' = 0" "r \<noteq> 0 \<Longrightarrow> \<not> lg_open st'"
  using assms by (auto simp: rotate_log_def rename_log_def open_append_def log_counted_def Let_def split: if_splits option.splits)

lemma persist_ok:
  assumes "log_counted st" "length line \<le> LOG_LIMIT"
  shows "log_ok (persist le line st)"
proof (cases "lg_open st \<and> LOG_LIMIT < lg_file_length st + length line")
  case True
  obtain r st' where r: "rotate_log le st = (r, st')" by fastforce
  note f = rotate_counted [OF assms(1) r]
  show ?thesis
  proof (cases "r = 0")
    case z: True
    then have "log_ok (append_line le line st')" using append_ok [of st' line le] f assms(2) by simp
    then show ?thesis using True r z by (simp add: persist_def)
  next
    case False
    then show ?thesis using True r f by (simp add: persist_def log_ok_def log_counted_def)
  qed
next
  case False
  then show ?thesis using append_ok [OF assms(1)] assms(1) by (auto simp: persist_def log_ok_def log_counted_def)
qed

lemma log_ok_counted: "log_ok st \<Longrightarrow> log_counted st"
  by (auto simp: log_ok_def log_counted_def)

lemma line_length: "length (log_line date level message) \<le> 2047"
  by (simp add: log_line_def Let_def)

lemma write_ok: "log_ok st \<Longrightarrow> log_ok (app_log_write le level message st)"
  unfolding app_log_write_def Let_def
proof (rule persist_ok)
  let ?l = "log_line (le_date le) level (case message of None \<Rightarrow> [] | Some m \<Rightarrow> m)"
  assume ok: "log_ok st"
  then have "length (remember ?l (lg_recent st)) \<le> LOG_TAIL"
    using remember_last [of "lg_recent st" ?l] by (simp add: log_ok_def)
  then show "log_counted (st\<lparr>lg_recent := remember ?l (lg_recent st)\<rparr>)"
    using log_ok_counted [OF ok] by (simp add: log_counted_def)
  show "length ?l \<le> LOG_LIMIT" using line_length [of "le_date le" level] by (rule order_trans) (simp add: LOG_LIMIT_def)
qed

lemma open_ok:
  assumes "log_ok st"
  shows "log_ok (snd (app_log_open le directory st))"
proof -
  have r: "length (lg_recent st) \<le> LOG_LIMIT" using assms by (simp add: log_ok_def LOG_LIMIT_def LOG_TAIL_def)
  have "log_counted (open_append (st\<lparr>lg_path := p, lg_previous := q,
      lg_file_length := (case lg_files st p of None \<Rightarrow> 0 | Some c \<Rightarrow> length c)\<rparr>)\<lparr>lg_error := 0\<rparr>)" for p q
    using assms by (auto simp: log_counted_def open_append_def log_ok_def split: option.split)
  from persist_ok [OF this r] show ?thesis
    using assms by (auto simp: app_log_open_def Let_def log_ok_def split: option.split)
qed

section \<open>Properties\<close>

text \<open>The calls that other components make.\<close>

datatype log_call =
    LogOpen log_env "byte list option"
  | LogWrite log_env "byte list" "byte list option"
  | LogClose

definition log_step :: "log_call \<Rightarrow> log_state \<Rightarrow> log_state" where
  "log_step c st =
     (case c of
        LogOpen le d \<Rightarrow> snd (app_log_open le d st)
      | LogWrite le level message \<Rightarrow> app_log_write le level message st
      | LogClose \<Rightarrow> app_log_close st)"

definition call_line :: "log_call \<Rightarrow> byte list" where
  "call_line c =
     (case c of LogWrite le level message \<Rightarrow> log_line (le_date le) level (case message of None \<Rightarrow> [] | Some m \<Rightarrow> m)
      | _ \<Rightarrow> [])"

definition log_start :: "(byte list \<Rightarrow> byte list option) \<Rightarrow> log_state" where
  "log_start files = \<lparr>lg_open = False, lg_path = [], lg_previous = [], lg_recent = [], lg_file_length = 0,
     lg_error = 0, lg_files = files\<rparr>"

lemma step_ok: "log_ok st \<Longrightarrow> log_ok (log_step c st)"
  using write_ok open_ok by (cases c) (auto simp: log_step_def app_log_close_def log_ok_def)

lemma start_ok: "log_ok (log_start files)"
  by (simp add: log_ok_def log_start_def)

lemma steps_ok: "log_ok st \<Longrightarrow> log_ok (fold log_step cs st)"
  by (induction cs arbitrary: st) (simp_all add: step_ok)

text \<open>
  C35.  The file of the log is bounded: after any calls, in any order and with any failures of the
  library, an open log has a file of at most 1 MiB, as long as the code counts.
\<close>

theorem log_file_bounded:
  assumes "st = fold log_step cs (log_start files)" "lg_open st"
  shows "\<exists>d. lg_files st (lg_path st) = Some d \<and> length d = lg_file_length st \<and> length d \<le> LOG_LIMIT"
  using steps_ok [OF start_ok, of cs files] assms by (auto simp: log_ok_def)

definition demo_log_env :: log_env where
  "demo_log_env = \<lparr>le_mkdir = True, le_rename = True, le_fopen = True, le_reopen = True, le_taken = (\<lambda>n. n),
     le_flush = True, le_seek = True, le_errno = 0, le_date = bytes ''D''\<rparr>"

definition demo_calls :: "log_call list" where
  "demo_calls = [LogWrite demo_log_env (bytes ''I'') (Some (bytes ''a'')), LogOpen demo_log_env (Some (bytes ''/d'')),
     LogWrite demo_log_env (bytes ''I'') (Some [98, 10])]"

lemma demo_log_open: "lg_open (fold log_step demo_calls (log_start Map.empty))"
  by (simp add: demo_calls_def demo_log_env_def log_step_def app_log_write_def app_log_open_def persist_def append_line_def
      open_append_def log_start_def remember_def log_line_def LOG_LIMIT_def LOG_TAIL_def Let_def)

theorem log_file_bounded_witness:
  "\<exists>st d. st = fold log_step demo_calls (log_start Map.empty) \<and> lg_files st (lg_path st) = Some d \<and> length d \<le> LOG_LIMIT"
  using log_file_bounded [OF refl demo_log_open] by blast

lemma step_recent:
  assumes "log_ok st"
  shows "lg_recent (log_step c st) = last_bytes LOG_TAIL (lg_recent st @ call_line c)"
proof (cases c)
  case (LogWrite le level message)
  then show ?thesis
    using assms remember_last [of "lg_recent st"] by (simp add: log_step_def call_line_def app_log_write_def Let_def log_ok_def)
qed (use assms in \<open>auto simp: log_step_def call_line_def app_log_open_def app_log_close_def open_append_def last_bytes_def
      log_ok_def Let_def split: option.split\<close>)

lemma steps_recent: "log_ok st \<Longrightarrow>
    lg_recent (fold log_step cs st) = last_bytes LOG_TAIL (lg_recent st @ concat (map call_line cs))"
proof (induction cs arbitrary: st)
  case Nil
  then show ?case by (simp add: last_bytes_def log_ok_def)
next
  case (Cons c cs)
  then show ?case using step_ok [OF Cons.prems] step_recent [OF Cons.prems] by (simp add: last_append)
qed

text \<open>
  The log in memory is the tail of all events: after any calls it holds exactly the last 64 KiB
  of the lines of all events so far, whether or not the file could be written.
\<close>

theorem log_memory_is_tail:
  "lg_recent (fold log_step cs (log_start files)) = last_bytes LOG_TAIL (concat (map call_line cs))"
  using steps_recent [OF start_ok] by (simp add: log_start_def)

text \<open>
  An event is one line: whatever a message or the name of a torrent contains, its line ends with
  the only line feed, has no other control character and at most 2047 bytes.
\<close>

theorem log_event_is_one_line:
  "\<exists>s. log_line date level message = s @ [10] \<and> (\<forall>c \<in> set s. 32 \<le> c) \<and> length s \<le> 2046"
  by (auto simp: log_line_def Let_def not_less)

end
