(* ===== verification/ConsoleFiles.thy ===== *)
theory ConsoleFiles
  imports HttpServer
begin

text \<open>
  \<open>src/console_files.c\<close> and \<open>src/storage_paths.c\<close>: the directories of the console, the creation of a
  folder, the reading of a torrent file and the table of storage paths.  The answers of the operating
  system are the fields of \<open>console\<close>.  Arrays that \<open>snprintf\<close> fills one after the other are modelled by
  their text; \<open>None\<close> stands for a text that leaves its array.
\<close>

section \<open>Names\<close>

definition lower :: "byte \<Rightarrow> byte" where
  "lower c = (if 65 \<le> c \<and> c \<le> 90 then c + 32 else c)"

definition torrent_name :: "byte list \<Rightarrow> bool" where
  "torrent_name s \<longleftrightarrow> 8 < length s \<and> map lower (drop (length s - 8) s) = bytes ''.torrent''"

definition escape_char :: "byte \<Rightarrow> byte list" where
  "escape_char c =
     (if c = 34 \<or> c = 92 then [92, c]
      else if c < 32 then [92] @ bytes ''u00'' @ [hex_hi hex_lower c, hex_lo hex_lower c]
      else [c])"

text \<open>\<open>escape\<close> writes into an array of 24577 bytes.\<close>

definition escape_text :: "byte list \<Rightarrow> byte list option" where
  "escape_text s =
     (let t = concat (map escape_char (cstr s)) in if length t < 24577 then Some t else None)"

section \<open>The console\<close>

datatype file_kind = Directory | Regular | OtherFile

record console =
  cn_realpath :: "byte list \<Rightarrow> byte list option"
  cn_opendir :: "byte list \<Rightarrow> bool"
  cn_entries :: "byte list \<Rightarrow> byte list list"
  cn_stat :: "byte list \<Rightarrow> file_kind option"
  cn_access :: "byte list \<Rightarrow> bool"
  cn_access_search :: "byte list \<Rightarrow> bool"
  cn_mkdirat :: "byte list \<Rightarrow> byte list \<Rightarrow> nat option"

text \<open>The system keeps its limits: resolved paths fit their array and names of entries have at most 255 bytes.\<close>

definition console_limits :: "console \<Rightarrow> bool" where
  "console_limits cn \<longleftrightarrow> (\<forall>p r. cn_realpath cn p = Some r \<longrightarrow> length r < 4096) \<and>
     (\<forall>d. \<forall>n \<in> set (cn_entries cn d). length n \<le> 255)"

section \<open>Listing a directory\<close>

text \<open>\<open>strtol (.., NULL, 10)\<close> on a 64-bit \<open>long\<close>.\<close>

definition strtol10 :: "byte list \<Rightarrow> int" where
  "strtol10 s =
     (let t = dropWhile is_space s;
          neg = (t \<noteq> [] \<and> hd t = ch CHR ''-'');
          t = (if t \<noteq> [] \<and> (hd t = ch CHR ''-'' \<or> hd t = ch CHR ''+'') then drop 1 t else t);
          v = foldl (\<lambda>a d. a * 10 + int (unat (d - ch CHR ''0''))) 0 (takeWhile is_digit t)
      in max (- (2 ^ 63)) (min (2 ^ 63 - 1) (if neg then - v else v)))"

text \<open>The entries that are listed: directories and torrent files that \<open>stat\<close> knows.\<close>

definition listed :: "console \<Rightarrow> byte list \<Rightarrow> bool \<Rightarrow> byte list \<Rightarrow> bool option" where
  "listed cn resolved directories_only name =
     (if name = bytes ''.'' \<or> name = bytes ''..'' then None
      else let child = resolved @ ch CHR ''/'' # name
      in if 4096 \<le> length child then None
         else case cn_stat cn child of
           None \<Rightarrow> None
         | Some k \<Rightarrow>
             if directories_only \<and> k \<noteq> Directory then None
             else if k \<noteq> Directory \<and> \<not> (k = Regular \<and> torrent_name name) then None
             else Some (k = Directory))"

definition bool_text :: "bool \<Rightarrow> byte list" where
  "bool_text b = (if b then bytes ''true'' else bytes ''false'')"

text \<open>
  The loop over the entries, with the entries seen, those written and the text so far; the flag of the
  result says that there are more.
\<close>

primrec list_entries ::
  "console \<Rightarrow> byte list \<Rightarrow> bool \<Rightarrow> int \<Rightarrow> byte list list \<Rightarrow> int \<Rightarrow> nat \<Rightarrow> byte list \<Rightarrow> (bool \<times> nat \<times> byte list) option" where
  "list_entries cn resolved dirs offset [] seen cnt json = Some (False, cnt, json)"
| "list_entries cn resolved dirs offset (name # names) seen cnt json =
     (case listed cn resolved dirs name of
        None \<Rightarrow> list_entries cn resolved dirs offset names seen cnt json
      | Some directory \<Rightarrow>
        if seen < offset then list_entries cn resolved dirs offset names (seen + 1) cnt json
        else if cnt = 128 then Some (True, cnt, json)
        else case escape_text name of
          None \<Rightarrow> None
        | Some escaped \<Rightarrow>
            let json = json @ (if cnt \<noteq> 0 then bytes '','' else []) @ bytes ''{'' @ [34] @ bytes ''name'' @ [34, 58, 34] @
                  escaped @ [34] @ bytes '','' @ [34] @ bytes ''directory'' @ [34, 58] @ bool_text directory @ bytes ''}''
            in if 262144 \<le> length json then None
               else list_entries cn resolved dirs offset names (seen + 1) (Suc cnt) json)"

definition json_type :: "byte list option" where "json_type = Some (bytes ''application/json'')"

text \<open>The directory of a request, where it can be read, and the offset into it.\<close>

definition asked_offset :: "http_request \<Rightarrow> int" where
  "asked_offset req =
     (let offset = strtol10 (case http_get_param (rq_query req) (bytes ''offset'') 24 of None \<Rightarrow> bytes ''0'' | Some o' \<Rightarrow> o')
      in if offset < 0 then 0 else offset)"

definition asked_directory :: "console \<Rightarrow> http_request \<Rightarrow> byte list option" where
  "asked_directory cn req =
     (let path = (case http_get_param (rq_query req) (bytes ''path'') 1024 of None \<Rightarrow> bytes ''/'' | Some p \<Rightarrow> p)
      in if path \<noteq> [] \<and> hd path = ch CHR ''/''
         then (case cn_realpath cn path of None \<Rightarrow> None | Some r \<Rightarrow> if cn_opendir cn r then Some r else None) else None)"

definition folders_only :: "http_request \<Rightarrow> bool" where
  "folders_only req \<longleftrightarrow> http_get_param (rq_query req) (bytes ''directories'') 8 = Some (bytes ''1'')"

definition listing_head :: "console \<Rightarrow> byte list \<Rightarrow> byte list \<Rightarrow> byte list" where
  "listing_head cn resolved escaped =
     bytes ''{'' @ [34] @ bytes ''path'' @ [34, 58, 34] @ escaped @ [34] @ bytes '','' @ [34] @
     bytes ''writable'' @ [34, 58] @ bool_text (cn_access cn resolved) @ bytes '','' @ [34] @
     bytes ''entries'' @ [34] @ bytes '':[''"

definition listing_end :: "int \<Rightarrow> byte list" where
  "listing_end next = bytes ''],'' @ [34] @ bytes ''next'' @ [34] @ bytes '':'' @ dec_int next @ bytes ''}''"

text \<open>The result is \<open>None\<close> where a text leaves its array, else the response.\<close>

definition console_files_list :: "allocator \<Rightarrow> console \<Rightarrow> http_request \<Rightarrow> http_response option option" where
  "console_files_list mem cn req =
     (case asked_directory cn req of
        None \<Rightarrow> Some (http_response_new mem 403 json_type (bytes ''{'' @ [34] @ bytes ''error'' @ [34, 58, 34] @
                  bytes ''Cannot read this directory'' @ [34] @ bytes ''}''))
      | Some resolved \<Rightarrow>
        if \<not> mem 262144 then Some (http_response_new mem 500 json_type (bytes ''{}''))
        else case escape_text resolved of
          None \<Rightarrow> None
        | Some escaped \<Rightarrow>
          let json = listing_head cn resolved escaped
          in if 262144 \<le> length json then None
             else case list_entries cn resolved (folders_only req) (asked_offset req) (cn_entries cn resolved) 0 0 json of
               None \<Rightarrow> None
             | Some (further, cnt, json) \<Rightarrow>
                 let json = json @ listing_end (if further then asked_offset req + int cnt else - 1)
                 in if 262144 \<le> length json then None else Some (http_response_new mem 200 json_type json))"

section \<open>Creating a folder\<close>

definition folder_error :: "allocator \<Rightarrow> nat \<Rightarrow> byte list \<Rightarrow> http_response option" where
  "folder_error mem status message =
     http_response_new mem status json_type (bytes ''{'' @ [34] @ bytes ''error'' @ [34, 58, 34] @ message @ [34] @ bytes ''}'')"

definition bad_name_text :: "byte list" where
  "bad_name_text = bytes ''Nome de pasta inv'' @ [0xC3, 0xA1] @ bytes ''lido.''"

definition cannot_open_text :: "byte list" where
  "cannot_open_text = bytes ''N'' @ [0xC3, 0xA3] @ bytes ''o foi poss'' @ [0xC3, 0xAD] @ bytes ''vel abrir esta pasta.''"

definition cannot_create_text :: "byte list" where
  "cannot_create_text = bytes ''N'' @ [0xC3, 0xA3] @ bytes ''o foi poss'' @ [0xC3, 0xAD] @ bytes ''vel criar a pasta.''"

definition exists_text :: "byte list" where
  "exists_text = bytes ''J'' @ [0xC3, 0xA1] @ bytes '' existe um item com esse nome.''"

text \<open>The names that are accepted.\<close>

definition folder_name_ok :: "byte list \<Rightarrow> bool" where
  "folder_name_ok name \<longleftrightarrow> name \<noteq> [] \<and> length name \<le> 255 \<and> name \<noteq> bytes ''.'' \<and> name \<noteq> bytes ''..'' \<and>
     list_all (\<lambda>c. \<not> (c = ch CHR ''/'' \<or> c = 92 \<or> c < 32 \<or> c = 127)) name"

definition EEXIST :: nat where "EEXIST = 17"

text \<open>The response, and the calls of \<open>mkdirat\<close> that were made.\<close>

definition console_files_mkdir ::
  "allocator \<Rightarrow> console \<Rightarrow> http_request \<Rightarrow> http_response option \<times> (byte list \<times> byte list) list" where
  "console_files_mkdir mem cn req =
     (case rq_body req of
        None \<Rightarrow> (folder_error mem 405 (bytes ''POST required''), [])
      | Some body \<Rightarrow>
        if rq_method req \<noteq> HTTP_POST then (folder_error mem 405 (bytes ''POST required''), [])
        else let parent = (case http_get_param (cstr body) (bytes ''path'') 2048 of None \<Rightarrow> [] | Some p \<Rightarrow> p);
                 name = (case http_get_param (cstr body) (bytes ''name'') 2048 of None \<Rightarrow> [] | Some n \<Rightarrow> n)
        in if \<not> folder_name_ok name then (folder_error mem 400 bad_name_text, [])
           else case (if parent \<noteq> [] \<and> hd parent = ch CHR ''/'' then cn_realpath cn parent else None) of
             None \<Rightarrow> (folder_error mem 403 cannot_open_text, [])
           | Some resolved \<Rightarrow>
             let child = resolved @ (if resolved = bytes ''/'' then [] else bytes ''/'') @ name
             in if 4096 \<le> length child then (folder_error mem 400 (bytes ''Caminho muito longo.''), [])
                else if \<not> cn_opendir cn resolved then (folder_error mem 403 cannot_open_text, [])
                else (case cn_mkdirat cn resolved name of
                        Some err \<Rightarrow> (if err = EEXIST then folder_error mem 409 exists_text
                                     else folder_error mem 403 cannot_create_text)
                      | None \<Rightarrow> http_response_new mem 200 json_type
                          (bytes ''{'' @ [34] @ bytes ''success'' @ [34] @ bytes '':true,'' @ [34] @ bytes ''path'' @ [34, 58, 34] @
                           the (escape_text child) @ [34] @ bytes ''}''),
                      [(resolved, name)]))"

section \<open>Reading a torrent file\<close>

text \<open>The answers of \<open>open\<close>, \<open>fstat\<close> and \<open>read\<close>.\<close>

record torrent_source =
  ts_open :: bool
  ts_stat :: "(bool \<times> int) option"
  ts_reads :: "rx list"

definition console_torrent_read :: "allocator \<Rightarrow> (byte list \<Rightarrow> torrent_source) \<Rightarrow> byte list \<Rightarrow> byte list option" where
  "console_torrent_read mem src path =
     (if path = [] \<or> hd path \<noteq> ch CHR ''/'' \<or> \<not> torrent_name path \<or> \<not> ts_open (src path) then None
      else case ts_stat (src path) of
        None \<Rightarrow> None
      | Some (regular, n) \<Rightarrow>
          if \<not> regular \<or> n \<le> 0 \<or> int HTTP_MAX_BODY < n \<or> \<not> mem (nat n) then None
          else fst (recv_loop (ts_reads (src path)) (nat n) []))"

section \<open>Storage paths\<close>

record storage_path =
  sp_path :: "byte list"
  sp_label :: "byte list"
  sp_icon :: "byte list"
  sp_removable :: bool
  sp_default :: bool

definition storage_entry :: "string \<Rightarrow> string \<Rightarrow> byte list \<Rightarrow> bool \<Rightarrow> bool \<Rightarrow> storage_path" where
  "storage_entry p l i r d = \<lparr>sp_path = bytes p, sp_label = bytes l, sp_icon = i, sp_removable = r, sp_default = d\<rparr>"

definition storage_paths_get :: "storage_path list" where
  "storage_paths_get =
     [storage_entry ''/mnt/usb0/'' ''USB Pendrive (usb0)'' [0xF0, 0x9F, 0x92, 0xBE] True True,
      storage_entry ''/mnt/usb1/'' ''Second USB (usb1)'' [0xF0, 0x9F, 0x92, 0xBE] True False,
      storage_entry ''/mnt/usb2/'' ''Third USB (usb2)'' [0xF0, 0x9F, 0x92, 0xBE] True False,
      storage_entry ''/mnt/nvme0/'' ''NVMe SSD (nvme0)'' [0xF0, 0x9F, 0x92, 0xBF] False False,
      storage_entry ''/mnt/nvme1/'' ''Second NVMe (nvme1)'' [0xF0, 0x9F, 0x92, 0xBF] False False,
      storage_entry ''/mnt/ext0/'' ''External HDD (ext0)'' [0xF0, 0x9F, 0x92, 0xBD] True False,
      storage_entry ''/mnt/ext1/'' ''Second External (ext1)'' [0xF0, 0x9F, 0x92, 0xBD] True False,
      storage_entry ''/data/'' ''System Data (internal)'' [0xF0, 0x9F, 0x94, 0xA7] False False,
      storage_entry ''/system_data/'' ''System Data (alt)'' [0xF0, 0x9F, 0x94, 0xA7] False False,
      storage_entry ''/mnt/sata0/'' ''SATA SSD (sata0)'' [0xF0, 0x9F, 0x96, 0xB4] False False,
      storage_entry ''/user/'' ''User Data'' [0xF0, 0x9F, 0x91, 0xA4] False False,
      storage_entry ''/tmp/'' ''Temp (RAM)'' [0xE2, 0x9A, 0xA1] False False]"

definition storage_paths_get_default :: "byte list" where
  "storage_paths_get_default = bytes ''/mnt/usb0/''"

definition storage_path_exists :: "console \<Rightarrow> byte list \<Rightarrow> bool" where
  "storage_path_exists cn path \<longleftrightarrow> cn_stat cn path = Some Directory"

text \<open>\<open>statvfs\<close> says whether the file system is read-only.\<close>

definition storage_path_is_writable :: "console \<Rightarrow> (byte list \<Rightarrow> bool option) \<Rightarrow> byte list \<Rightarrow> bool" where
  "storage_path_is_writable cn readonly path \<longleftrightarrow>
     storage_path_exists cn path \<and> cn_access_search cn path \<and> readonly path = Some False"

section \<open>The text of a page\<close>

text \<open>The entries of a directory that can be listed, each with its kind.\<close>

definition visible :: "console \<Rightarrow> byte list \<Rightarrow> bool \<Rightarrow> byte list list \<Rightarrow> (byte list \<times> bool) list" where
  "visible cn resolved dirs names =
     concat (map (\<lambda>n. case listed cn resolved dirs n of None \<Rightarrow> [] | Some d \<Rightarrow> [(n, d)]) names)"

definition entry_text :: "nat \<Rightarrow> byte list \<times> bool \<Rightarrow> byte list" where
  "entry_text cnt e = (if cnt \<noteq> 0 then bytes '','' else []) @ bytes ''{'' @ [34] @ bytes ''name'' @ [34, 58, 34] @
     concat (map escape_char (cstr (fst e))) @ [34] @ bytes '','' @ [34] @ bytes ''directory'' @ [34, 58] @
     bool_text (snd e) @ bytes ''}''"

primrec page_text :: "nat \<Rightarrow> (byte list \<times> bool) list \<Rightarrow> byte list" where
  "page_text cnt [] = []"
| "page_text cnt (e # es) = entry_text cnt e @ page_text (Suc cnt) es"

lemma escape_length: "length (concat (map escape_char s)) \<le> 6 * length s"
proof (induction s)
  case (Cons c s)
  have "length (escape_char c) \<le> 6" by (simp add: escape_char_def)
  then show ?case using Cons by simp
qed simp

lemma cstr_length: "length (cstr s) \<le> length s"
  by (simp add: cstr_def length_takeWhile_le)

lemma escape_fits: "length s < 4096 \<Longrightarrow> escape_text s = Some (concat (map escape_char (cstr s)))"
  using escape_length [of "cstr s"] cstr_length [of s] by (simp add: escape_text_def)

lemma entry_length: "length (fst e) \<le> 255 \<Longrightarrow> length (entry_text cnt e) \<le> 1570"
  using escape_length [of "cstr (fst e)"] cstr_length [of "fst e"] by (simp add: entry_text_def bool_text_def)

text \<open>
  The loop writes the next page: the visible entries from the offset on, at most 128 of them in all.
\<close>

lemma list_page:
  assumes "\<forall>n \<in> set names. length n \<le> 255" "cnt \<le> 128" "0 < cnt \<Longrightarrow> offset \<le> seen"
    and "length json + (128 - cnt) * 1570 < 262144"
  shows "list_entries cn resolved dirs offset names seen cnt json =
    (let es = drop (nat (offset - seen)) (visible cn resolved dirs names); page = take (128 - cnt) es
     in Some (128 - cnt < length es, cnt + length page, json @ page_text cnt page))"
  using assms
proof (induction names arbitrary: seen cnt json)
  case Nil
  then show ?case by (simp add: visible_def)
next
  case (Cons name names)
  show ?case
  proof (cases "listed cn resolved dirs name")
    case None
    then show ?thesis using Cons by (simp add: visible_def)
  next
    case (Some d)
    have vis: "visible cn resolved dirs (name # names) = (name, d) # visible cn resolved dirs names"
      using Some by (simp add: visible_def)
    show ?thesis
    proof (cases "seen < offset")
      case True
      then have n: "nat (offset - seen) = Suc (nat (offset - (seen + 1)))" by simp
      have "cnt = 0" using Cons.prems(3) True by linarith
      then show ?thesis
        using Cons.IH [of cnt "seen + 1" json] Cons.prems Some True by (simp only: vis n) simp
    next
      case False
      then have z: "nat (offset - seen) = 0" "nat (offset - (seen + 1)) = 0" by simp_all
      show ?thesis
      proof (cases "cnt = 128")
        case True
        then show ?thesis using Some False vis z by simp
      next
        case more: False
        let ?j = "json @ entry_text cnt (name, d)"
        have esc: "escape_text name = Some (concat (map escape_char (cstr name)))"
          using escape_fits [of name] Cons.prems(1) by simp
        have n: "128 - cnt = Suc (128 - Suc cnt)" using more Cons.prems(2) by simp
        have len: "length ?j + (128 - Suc cnt) * 1570 < 262144"
          using entry_length [of "(name, d)" cnt] Cons.prems(1,4) unfolding n by simp
        have step: "list_entries cn resolved dirs offset (name # names) seen cnt json =
            list_entries cn resolved dirs offset names (seen + 1) (Suc cnt) ?j"
          using Some False more esc len by (simp add: entry_text_def Let_def)
        also have "\<dots> = (let es = drop (nat (offset - (seen + 1))) (visible cn resolved dirs names); page = take (128 - Suc cnt) es
            in Some (128 - Suc cnt < length es, Suc cnt + length page, ?j @ page_text (Suc cnt) page))"
          by (rule Cons.IH) (use Cons.prems more False len in auto)
        finally show ?thesis using z n by (simp add: vis Let_def)
      qed
    qed
  qed
qed

section \<open>Properties\<close>

lemma dec_int_length:
  assumes "- 1 \<le> i" "i < 2 ^ 64"
  shows "length (dec_int i) \<le> 20"
proof (cases "i < 0")
  case True
  then have "i = - 1" using assms(1) by simp
  then show ?thesis using length_dec [of 1 0] by (simp add: dec_int_def)
next
  case False
  then have "nat i < 10 ^ Suc 19" using assms(2) by simp
  from length_dec [OF this] show ?thesis using False by (simp add: dec_int_def)
qed

lemma strtol10_max: "strtol10 s < 2 ^ 63"
proof -
  have "max (- (2 ^ 63)) (min (2 ^ 63 - 1) v) < (2 ^ 63 :: int)" for v by (simp add: max_def min_def)
  then show ?thesis unfolding strtol10_def Let_def .
qed

lemma asked_offset_range: "0 \<le> asked_offset req \<and> asked_offset req < 2 ^ 63"
  using strtol10_max by (simp add: asked_offset_def Let_def)

text \<open>The body of a listing: the page of the visible entries, and the offset of the next one.\<close>

definition listing_text :: "console \<Rightarrow> byte list \<Rightarrow> bool \<Rightarrow> int \<Rightarrow> byte list" where
  "listing_text cn resolved dirs offset =
     (let es = drop (nat offset) (visible cn resolved dirs (cn_entries cn resolved)); page = take 128 es
      in listing_head cn resolved (concat (map escape_char (cstr resolved))) @ page_text 0 page @
         listing_end (if 128 < length es then offset + int (length page) else - 1))"

lemma page_length: "\<forall>e \<in> set es. length (fst e) \<le> 255 \<Longrightarrow> length (page_text cnt es) \<le> 1570 * length es"
proof (induction es arbitrary: cnt)
  case (Cons e es)
  have "length (entry_text cnt e) \<le> 1570" by (rule entry_length) (use Cons.prems in simp)
  then show ?case using Cons.IH [of "Suc cnt"] Cons.prems by simp
qed simp

lemma visible_names: "e \<in> set (visible cn resolved dirs names) \<Longrightarrow> fst e \<in> set names"
  by (auto simp: visible_def split: option.splits)

text \<open>
  C33.  A listing is the page that was asked for: for every readable absolute directory the response
  holds the visible entries (folders and torrent files) from the offset on, at most 128 of them, and the
  offset of the next page if there are more; the text never leaves its buffer of 256 KiB, whatever the
  names of the entries are.
\<close>

theorem listing_is_page:
  assumes "console_limits cn" "asked_directory cn req = Some resolved" "mem 262144"
  shows "console_files_list mem cn req = Some (http_response_new mem 200 json_type
    (listing_text cn resolved (folders_only req) (asked_offset req)))"
proof -
  let ?dirs = "folders_only req"
  let ?vis = "visible cn resolved ?dirs (cn_entries cn resolved)" and ?o = "asked_offset req"
  obtain p where p: "cn_realpath cn p = Some resolved"
    using assms(2) by (auto simp: asked_directory_def Let_def split: if_splits option.splits)
  have lim: "length resolved < 4096" "\<forall>n \<in> set (cn_entries cn resolved). length n \<le> 255"
    using assms(1) p by (auto simp: console_limits_def)
  define json where "json = listing_head cn resolved (concat (map escape_char (cstr resolved)))"
  have "length json \<le> 6 * length resolved + 50"
    using escape_length [of "cstr resolved"] cstr_length [of resolved] by (simp add: json_def listing_head_def bool_text_def)
  then have j: "length json \<le> 24620" using lim(1) by simp
  define page further where "page = take 128 (drop (nat ?o) ?vis)" and "further \<longleftrightarrow> 128 < length (drop (nat ?o) ?vis)"
  have entries: "list_entries cn resolved ?dirs ?o (cn_entries cn resolved) 0 0 json =
      Some (further, length page, json @ page_text 0 page)"
    using list_page [OF lim(2), of 0 ?o 0 json cn resolved ?dirs] j by (simp add: Let_def page_def further_def)
  have "length (page_text 0 page) \<le> 1570 * length page"
    by (rule page_length) (use lim(2) visible_names in \<open>fastforce simp: page_def dest: in_set_takeD in_set_dropD\<close>)
  moreover have len: "length page \<le> 128" by (simp add: page_def)
  ultimately have t: "length (page_text 0 page) \<le> 200960" by simp
  define nx where "nx = (if further then ?o + int (length page) else - 1)"
  have "length (dec_int nx) \<le> 20"
    unfolding nx_def by (rule dec_int_length) (use asked_offset_range [of req] len in auto)
  then have fit: "length (json @ page_text 0 page @ listing_end nx) < 262144" using j t by (simp add: listing_end_def)
  have body: "json @ page_text 0 page @ listing_end nx = listing_text cn resolved ?dirs ?o"
    by (simp add: listing_text_def Let_def json_def page_def [symmetric] further_def nx_def)
  have "\<not> 262144 \<le> length json" using j by simp
  then show ?thesis
    unfolding console_files_list_def
    using assms(2,3) escape_fits [OF lim(1)] entries fit body
    by (simp add: json_def [symmetric] nx_def [symmetric] Let_def not_le del: length_append)
qed

definition demo_console :: console where
  "demo_console = \<lparr>cn_realpath = (\<lambda>p. if p = bytes ''/d'' then Some (bytes ''/d'') else None), cn_opendir = (\<lambda>_. True),
     cn_entries = (\<lambda>_. [bytes ''.'', bytes ''x'', bytes ''film.torrent'']),
     cn_stat = (\<lambda>p. if p = bytes ''/d/x'' then Some Directory else Some Regular), cn_access = (\<lambda>_. True),
     cn_access_search = (\<lambda>_. True), cn_mkdirat = (\<lambda>_ _. None)\<rparr>"

definition demo_list_req :: http_request where
  "demo_list_req = \<lparr>rq_method = HTTP_GET, rq_path = bytes ''/api/files'', rq_query = bytes ''path=%2Fd&offset=1'',
     rq_body = None, rq_content_type = []\<rparr>"

theorem listing_is_page_witness:
  "console_files_list (\<lambda>_. True) demo_console demo_list_req = Some (http_response_new (\<lambda>_. True) 200 json_type
     (listing_head demo_console (bytes ''/d'') (bytes ''/d'') @ entry_text 0 (bytes ''film.torrent'', False) @ listing_end (- 1)))"
proof -
  have lim: "console_limits demo_console" by (simp add: console_limits_def demo_console_def)
  have q: "http_get_param (rq_query demo_list_req) (bytes ''path'') 1024 = Some (bytes ''/d'')"
    "http_get_param (rq_query demo_list_req) (bytes ''offset'') 24 = Some (bytes ''1'')"
    "http_get_param (rq_query demo_list_req) (bytes ''directories'') 8 = None"
    by (simp_all add: demo_list_req_def http_get_param_def get_param.simps http_url_decode_def cstr_def
        strtol16_pair_def hex_digit_val_def is_digit_def)
  have d: "asked_directory demo_console demo_list_req = Some (bytes ''/d'')"
    using q by (simp add: asked_directory_def demo_console_def)
  have o1: "asked_offset demo_list_req = 1" "\<not> folders_only demo_list_req"
    using q by (simp_all add: asked_offset_def folders_only_def strtol10_def is_space_def is_digit_def Let_def)
  have v: "visible demo_console (bytes ''/d'') False (cn_entries demo_console (bytes ''/d'')) =
      [(bytes ''x'', True), (bytes ''film.torrent'', False)]"
    by (simp add: visible_def listed_def demo_console_def torrent_name_def lower_def)
  have t: "listing_text demo_console (bytes ''/d'') False 1 =
      listing_head demo_console (bytes ''/d'') (bytes ''/d'') @ entry_text 0 (bytes ''film.torrent'', False) @ listing_end (- 1)"
    by (simp add: listing_text_def v Let_def escape_char_def cstr_def del: bytes_Cons)
      (simp add: escape_char_def cstr_def)
  show ?thesis using listing_is_page [OF lim d, of "\<lambda>_. True"] o1 t by simp
qed

lemma mkdir_calls:
  assumes "console_files_mkdir mem cn req = (resp, calls)"
  shows "calls = [] \<or> (\<exists>d n. calls = [(d, n)] \<and> (\<exists>p. hd p = ch CHR ''/'' \<and> cn_realpath cn p = Some d) \<and>
      folder_name_ok n \<and> ch CHR ''/'' \<notin> set n \<and> length n \<le> 255)"
    and "(\<exists>r. resp = Some r \<and> rs_status r = 200) \<Longrightarrow> \<exists>d n. calls = [(d, n)] \<and> cn_mkdirat cn d n = None"
proof -
  note defs = console_files_mkdir_def folder_error_def http_response_new_def Let_def
  show "calls = [] \<or> (\<exists>d n. calls = [(d, n)] \<and> (\<exists>p. hd p = ch CHR ''/'' \<and> cn_realpath cn p = Some d) \<and>
      folder_name_ok n \<and> ch CHR ''/'' \<notin> set n \<and> length n \<le> 255)"
    using assms by (auto simp: console_files_mkdir_def Let_def folder_name_ok_def list_all_iff split: option.splits if_splits)
  show "(\<exists>r. resp = Some r \<and> rs_status r = 200) \<Longrightarrow> \<exists>d n. calls = [(d, n)] \<and> cn_mkdirat cn d n = None"
    using assms by (auto simp: defs split: option.splits if_splits)
qed

text \<open>
  A folder is created only directly below the directory that was asked for: a request makes at most
  one call of \<open>mkdirat\<close>, in the resolved directory and with a name of at most 255 bytes that is neither
  \<open>.\<close> nor \<open>..\<close> and has no slash, backslash or control character; success is reported exactly if
  this call succeeded.
\<close>

theorem mkdir_one_child:
  assumes "console_files_mkdir mem cn req = (resp, calls)"
  shows "(calls = [] \<or> (\<exists>d n. calls = [(d, n)] \<and> (\<exists>p. hd p = ch CHR ''/'' \<and> cn_realpath cn p = Some d) \<and>
      folder_name_ok n \<and> ch CHR ''/'' \<notin> set n \<and> length n \<le> 255)) \<and>
    ((\<exists>r. resp = Some r \<and> rs_status r = 200) \<longrightarrow> (\<exists>d n. calls = [(d, n)] \<and> cn_mkdirat cn d n = None))"
  using mkdir_calls [OF assms] by blast

definition demo_mkdir_req :: http_request where
  "demo_mkdir_req = \<lparr>rq_method = HTTP_POST, rq_path = bytes ''/api/files/mkdir'', rq_query = [],
     rq_body = Some (bytes ''path=%2Fd&name=new''), rq_content_type = []\<rparr>"

theorem mkdir_one_child_witness:
  "snd (console_files_mkdir (\<lambda>_. True) demo_console demo_mkdir_req) = [(bytes ''/d'', bytes ''new'')] \<and>
   folder_name_ok (bytes ''new'')"
proof -
  have q: "http_get_param (cstr (bytes ''path=%2Fd&name=new'')) (bytes ''path'') 2048 = Some (bytes ''/d'')"
    "http_get_param (cstr (bytes ''path=%2Fd&name=new'')) (bytes ''name'') 2048 = Some (bytes ''new'')"
    by (simp_all add: http_get_param_def get_param.simps http_url_decode_def cstr_def
        strtol16_pair_def hex_digit_val_def is_digit_def)
  obtain resp where r: "console_files_mkdir (\<lambda>_. True) demo_console demo_mkdir_req = (resp, [(bytes ''/d'', bytes ''new'')])"
    using q by (auto simp: console_files_mkdir_def demo_mkdir_req_def folder_name_ok_def demo_console_def Let_def
        simp del: bytes_Cons) (auto simp: demo_console_def)
  show ?thesis using mkdir_one_child [OF r] r by auto
qed

text \<open>
  A local torrent file is read whole or not at all: what is returned are the first bytes of the
  file, as many as \<open>fstat\<close> reported, between 1 byte and 1 MiB, of a regular file with an absolute path
  that ends with \<open>.torrent\<close>; interrupted and short reads do not change it.
\<close>

theorem torrent_read_whole:
  assumes "console_torrent_read mem src path = Some data"
  shows "hd path = ch CHR ''/'' \<and> torrent_name path \<and> ts_stat (src path) = Some (True, int (length data)) \<and>
    0 < length data \<and> length data \<le> HTTP_MAX_BODY \<and> data = take (length data) (stream (ts_reads (src path)))"
proof -
  obtain n where n: "ts_stat (src path) = Some (True, n)" "0 < n" "n \<le> int HTTP_MAX_BODY"
    "fst (recv_loop (ts_reads (src path)) (nat n) []) = Some data" "hd path = ch CHR ''/''" "torrent_name path"
    using assms by (auto simp: console_torrent_read_def split: if_splits option.splits)
  have "nat n \<le> length (stream (ts_reads (src path)))"
    using n(4) recv_loop_none [of "ts_reads (src path)" "nat n" "[]"] by (cases "nat n \<le> length (stream (ts_reads (src path)))") auto
  then have "data = take (nat n) (stream (ts_reads (src path)))" "length data = nat n"
    using n(4) recv_loop_some [of "nat n" "ts_reads (src path)" "[]"] by auto
  then show ?thesis using n by auto
qed

theorem torrent_read_whole_witness:
  "\<exists>src. console_torrent_read (\<lambda>_. True) src (bytes ''/d/x.TORRENT'') = Some [1, 2, 3] \<and>
     [1, 2, 3] = take 3 (stream (ts_reads (src (bytes ''/d/x.TORRENT''))))"
proof -
  let ?src = "\<lambda>_. \<lparr>ts_open = True, ts_stat = Some (True, 3), ts_reads = [Chunk [1], RxIntr, Chunk [2, 3, 4]]\<rparr>"
  have r: "console_torrent_read (\<lambda>_. True) ?src (bytes ''/d/x.TORRENT'') = Some [1, 2, 3]"
    by (simp add: console_torrent_read_def torrent_name_def lower_def HTTP_MAX_BODY_def)
  show ?thesis using torrent_read_whole [OF r] r by auto
qed

end
