(* ===== verification/WebApi.thy ===== *)
theory WebApi
  imports Example StatusJson ConsoleFiles AppLog
begin

text \<open>
  The web interface of \<open>src/main.c\<close>: the handlers of the routes, as functions of the request and of the
  torrent manager.  A string literal that is sent with an explicit length is modelled by the literal, its
  NUL and the memory behind it.  The log of the handlers is not modelled.
\<close>

section \<open>Environment\<close>

text \<open>
  \<open>ae_behind\<close> is the memory behind a literal, \<open>ae_uninit\<close> an uninitialised array of a given size,
  \<open>ae_index\<close> the generated page, \<open>ae_language\<close> the language that the system reports, if it reports
  one, \<open>ae_fmt\<close> the text of the progress.
\<close>

record api_env =
  ae_env :: env
  ae_stat :: "byte list \<Rightarrow> bool option"
  ae_strerror :: "nat \<Rightarrow> byte list"
  ae_access :: bool
  ae_behind :: "byte list \<Rightarrow> byte list"
  ae_uninit :: "nat \<Rightarrow> byte list"
  ae_source :: "byte list \<Rightarrow> torrent_source"
  ae_console :: console
  ae_readonly :: "byte list \<Rightarrow> bool option"
  ae_index :: "byte list"
  ae_language :: "int option"
  ae_fmt :: "rat \<Rightarrow> byte list"
  ae_log :: "log_env \<times> log_state"

definition ae_mem :: "api_env \<Rightarrow> allocator" where "ae_mem ae = en_mem (ae_env ae)"

definition counted :: "api_env \<Rightarrow> byte list \<Rightarrow> nat \<Rightarrow> byte list" where
  "counted ae lit n = take n (lit @ 0 # ae_behind ae lit)"

definition json_reply :: "api_env \<Rightarrow> nat \<Rightarrow> byte list \<Rightarrow> http_response option" where
  "json_reply ae status body = http_response_new (ae_mem ae) status json_type body"

text \<open>\<open>{"success":false,"error":".."}\<close>\<close>

definition refusal_text :: "byte list \<Rightarrow> byte list" where
  "refusal_text msg = bytes ''{'' @ quote @ bytes ''success'' @ quote @ bytes '':false,'' @ quote @ bytes ''error'' @ quote @
     bytes '':'' @ quote @ msg @ quote @ bytes ''}''"

definition error_only_text :: "byte list \<Rightarrow> byte list" where
  "error_only_text msg = bytes ''{'' @ quote @ bytes ''error'' @ quote @ bytes '':'' @ quote @ msg @ quote @ bytes ''}''"

text \<open>\<open>{"success":true,"id":%d,"name":"%s"}\<close>\<close>

definition success_text :: "int \<Rightarrow> byte list \<Rightarrow> byte list" where
  "success_text i name = bytes ''{'' @ quote @ bytes ''success'' @ quote @ bytes '':true,'' @ quote @ bytes ''id'' @ quote @
     bytes '':'' @ dec_int i @ bytes '','' @ quote @ bytes ''name'' @ quote @ bytes '':'' @ quote @ name @ quote @ bytes ''}''"

section \<open>Texts and paths\<close>

text \<open>The loop of \<open>json_escape_text\<close>; \<open>out\<close> is what was written.\<close>

primrec escape_loop :: "nat \<Rightarrow> byte list \<Rightarrow> byte list \<Rightarrow> byte list" where
  "escape_loop output_size [] out = out"
| "escape_loop output_size (c # cs) out =
     (if \<not> length out + 1 < output_size then out
      else if c = 34 \<or> c = 92
      then (if output_size \<le> length out + 2 then out else escape_loop output_size cs (out @ [92, c]))
      else if c < 0x20
      then (if output_size \<le> length out + 6 then out
            else escape_loop output_size cs (out @ [92] @ bytes ''u00'' @ [hex_hi hex_lower c, hex_lo hex_lower c]))
      else escape_loop output_size cs (out @ [c]))"

definition json_escape_text :: "byte list \<Rightarrow> nat \<Rightarrow> byte list" where
  "json_escape_text input output_size = (if output_size = 0 then [] else escape_loop output_size (cstr input) [])"

text \<open>The character at a position of a C string, and the test for a control character or a dot component.\<close>

definition char_at :: "byte list \<Rightarrow> nat \<Rightarrow> byte" where
  "char_at s i = (if i < length s then s ! i else 0)"

definition bad_path_char :: "byte list \<Rightarrow> nat \<Rightarrow> bool" where
  "bad_path_char p i \<longleftrightarrow> p ! i < 0x20 \<or>
     (p ! i = ch CHR ''.'' \<and> (i = 0 \<or> p ! (i - 1) = slash) \<and>
      (char_at p (i + 1) = slash \<or> char_at p (i + 1) = 0 \<or>
       (char_at p (i + 1) = ch CHR ''.'' \<and> (char_at p (i + 2) = slash \<or> char_at p (i + 2) = 0))))"

definition build_save_path :: "byte list \<Rightarrow> nat \<Rightarrow> byte list option" where
  "build_save_path base save_path_size =
     (if base = [] \<or> hd base \<noteq> slash \<or> save_path_size = 0 then None
      else if list_ex (bad_path_char base) [0..<length base] then None
      else let b = trim_slashes base;
               p = b @ (if length b = 1 then [] else [slash]) @ bytes ''torrents/''
           in if length p < save_path_size then Some p else None)"

section \<open>Starting an added torrent\<close>

definition not_started_text :: "byte list" where
  "not_started_text = bytes ''N'' @ [0xC3, 0xA3] @ bytes ''o foi poss'' @ [0xC3, 0xAD] @ bytes ''vel iniciar o torrent''"

definition no_access_text :: "byte list" where
  "no_access_text = bytes ''. O payload n'' @ [0xC3, 0xA3] @ bytes ''o conseguiu obter acesso local; reinicie-o pelo loader''"

definition torrent_start_error_response ::
  "api_env \<Rightarrow> u64 \<Rightarrow> int \<Rightarrow> bool \<Rightarrow> manager \<Rightarrow> http_response option \<times> manager" where
  "torrent_start_error_response ae now index remove mg =
     (let mt = torrent_mgr_get index mg;
          message = (case mt of Some mt \<Rightarrow> if mt_error_msg mt \<noteq> [] then mt_error_msg mt else not_started_text
                     | None \<Rightarrow> not_started_text);
          status = (case mt of Some mt \<Rightarrow> if mt_error_type mt = TERR_WRITE_FAILED then 403 else 400 | None \<Rightarrow> 400);
          message = (if status = 403 \<and> \<not> ae_access ae then take 511 (message @ no_access_text) else message);
          json = refusal_text (json_escape_text message 512)
      in (json_reply ae status json, if remove then torrent_mgr_remove now index mg else mg))"

text \<open>What the three ways to add a torrent do at their end; \<open>cap\<close> is the size of the array for
  the name, \<open>unknown\<close> the name of a missing torrent.\<close>

definition start_added :: "api_env \<Rightarrow> nat \<Rightarrow> byte list \<Rightarrow> int \<Rightarrow> manager \<Rightarrow> http_response option \<times> manager" where
  "start_added ae cap unknown index mg =
     (case torrent_mgr_start (ae_env ae) (ae_stat ae) (ae_strerror ae) index mg of
        (r, mg) \<Rightarrow>
          if r < 0 then torrent_start_error_response ae (en_now (ae_env ae)) index True mg
          else let name = (case torrent_mgr_get index mg of Some mt \<Rightarrow> mt_name mt | None \<Rightarrow> unknown)
               in (json_reply ae 200 (success_text index (json_escape_text name cap)), mg))"

definition bad_path_text :: "byte list" where
  "bad_path_text = refusal_text (bytes ''Caminho inv'' @ [0xC3, 0xA1] @ bytes ''lido'')"

section \<open>Handlers\<close>

text \<open>A parameter of a form, empty where it is missing.\<close>

definition form_param :: "byte list \<Rightarrow> string \<Rightarrow> nat \<Rightarrow> byte list" where
  "form_param body k cap = (case http_get_param (cstr body) (bytes k) cap of None \<Rightarrow> [] | Some v \<Rightarrow> v)"

definition default_path :: "byte list \<Rightarrow> byte list" where
  "default_path p = (if p = [] then storage_paths_get_default else p)"

text \<open>\<open>None\<close> stands for undefined behaviour.\<close>

definition handle_api_add ::
  "api_env \<Rightarrow> http_request \<Rightarrow> manager \<Rightarrow> (http_response option \<times> manager) option" where
  "handle_api_add ae req mg =
     (case rq_body req of
        None \<Rightarrow> Some (json_reply ae 400 (counted ae (refusal_text (bytes ''POST required'')) 43), mg)
      | Some body \<Rightarrow>
        if rq_method req \<noteq> HTTP_POST
        then Some (json_reply ae 400 (counted ae (refusal_text (bytes ''POST required'')) 43), mg)
        else let magnet = form_param body ''magnet'' 2048; path = default_path (form_param body ''path'' 512)
        in if magnet = []
           then Some (json_reply ae 400 (counted ae (refusal_text (bytes ''Magnet link required'')) 50), mg)
           else case build_save_path path 512 of
             None \<Rightarrow> Some (json_reply ae 400 bad_path_text, mg)
           | Some save_path \<Rightarrow>
             (case torrent_mgr_add_magnet (ae_mem ae) (ae_uninit ae 41) magnet save_path mg of
                None \<Rightarrow> None
              | Some (idx, mg) \<Rightarrow>
                  if idx < 0
                  then Some (json_reply ae 400 (counted ae
                         (refusal_text (bytes ''Invalid magnet link or too many torrents'')) 60), mg)
                  else Some (start_added ae 384 (bytes ''Unknown'') idx mg)))"

definition handle_api_upload :: "api_env \<Rightarrow> http_request \<Rightarrow> manager \<Rightarrow> http_response option \<times> manager" where
  "handle_api_upload ae req mg =
     (case rq_body req of
        None \<Rightarrow> (json_reply ae 400 (counted ae (refusal_text (bytes ''File required'')) 44), mg)
      | Some body \<Rightarrow>
        if rq_method req \<noteq> HTTP_POST \<or> body = []
        then (json_reply ae 400 (counted ae (refusal_text (bytes ''File required'')) 44), mg)
        else case http_get_upload body (bytes ''torrent'') 256 of
          None \<Rightarrow> (json_reply ae 400 (refusal_text (bytes ''Use multipart upload instead'')), mg)
        | Some (file, filename) \<Rightarrow>
          let path = default_path (case http_get_multipart_field body (bytes ''path'') 512 of None \<Rightarrow> [] | Some p \<Rightarrow> cstr p)
          in if file = [] then (json_reply ae 400 (counted ae (refusal_text (bytes ''Empty file'')) 41), mg)
             else case build_save_path path 512 of
               None \<Rightarrow> (json_reply ae 400 bad_path_text, mg)
             | Some save_path \<Rightarrow>
               (case torrent_mgr_add_raw (ae_mem ae) file save_path mg of
                  (idx, mg) \<Rightarrow>
                    if idx < 0
                    then (json_reply ae 400 (counted ae (refusal_text (bytes ''Invalid torrent file'')) 50), mg)
                    else start_added ae 384 (bytes ''Unknown'') idx mg))"

definition handle_api_local :: "api_env \<Rightarrow> http_request \<Rightarrow> manager \<Rightarrow> http_response option \<times> manager" where
  "handle_api_local ae req mg =
     (case rq_body req of
        None \<Rightarrow> (json_reply ae 400 (bytes ''{}''), mg)
      | Some body \<Rightarrow>
        if rq_method req \<noteq> HTTP_POST then (json_reply ae 400 (bytes ''{}''), mg)
        else let src = form_param body ''source'' 1024; destination = default_path (form_param body ''path'' 512)
        in case console_torrent_read (ae_mem ae) (ae_source ae) src of
             None \<Rightarrow> (json_reply ae 400 (error_only_text (bytes ''Cannot read torrent or destination (maximum 1 MB)'')), mg)
           | Some data \<Rightarrow>
             (case build_save_path destination 512 of
                None \<Rightarrow> (json_reply ae 400 (error_only_text (bytes ''Cannot read torrent or destination (maximum 1 MB)'')), mg)
              | Some save_path \<Rightarrow>
                (case torrent_mgr_add_raw (ae_mem ae) data save_path mg of
                   (idx, mg) \<Rightarrow>
                     if idx < 0
                     then (json_reply ae 400 (error_only_text (bytes ''Invalid torrent or torrent limit reached'')), mg)
                     else start_added ae 1536 (bytes ''torrent'') idx mg)))"

text \<open>The number in the path, \<open>-1\<close> without digits; \<open>None\<close> where the \<open>int\<close> overflows.\<close>

primrec path_number :: "byte list \<Rightarrow> int \<Rightarrow> (int \<times> byte list) option" where
  "path_number [] i = Some (i, [])"
| "path_number (c # cs) i =
     (if is_digit c
      then let j = (if i < 0 then 0 else i) * 10 + int (unat (c - ch CHR ''0''))
           in if 2 ^ 31 \<le> j then None else path_number cs j
      else Some (i, c # cs))"

definition bad_action_text :: "byte list" where
  "bad_action_text = refusal_text (bytes ''A'' @ [0xC3, 0xA7, 0xC3, 0xA3] @ bytes ''o inv'' @ [0xC3, 0xA1] @ bytes ''lida'')"

definition action_done_text :: "byte list \<Rightarrow> int \<Rightarrow> byte list" where
  "action_done_text action i = bytes ''{'' @ quote @ bytes ''success'' @ quote @ bytes '':true,'' @ quote @ bytes ''action'' @ quote @
     bytes '':'' @ quote @ action @ quote @ bytes '','' @ quote @ bytes ''id'' @ quote @ bytes '':'' @ dec_int i @ bytes ''}''"

definition run_action :: "api_env \<Rightarrow> byte list \<Rightarrow> int \<Rightarrow> manager \<Rightarrow> int \<times> manager" where
  "run_action ae action i mg =
     (if action = bytes ''start'' then torrent_mgr_start (ae_env ae) (ae_stat ae) (ae_strerror ae) i mg
      else if action = bytes ''stop'' then (0, torrent_mgr_stop (en_now (ae_env ae)) i mg)
      else if action = bytes ''remove'' then (0, torrent_mgr_remove (en_now (ae_env ae)) i mg)
      else (- 1, mg))"

definition handle_api_action ::
  "api_env \<Rightarrow> http_request \<Rightarrow> manager \<Rightarrow> (http_response option \<times> manager) option" where
  "handle_api_action ae req mg =
     (if rq_method req \<noteq> HTTP_POST
      then Some (json_reply ae 400 (counted ae (refusal_text (bytes ''POST required'')) 43), mg)
      else case path_number (drop 14 (rq_path req)) (- 1) of
        None \<Rightarrow> None
      | Some (i, p) \<Rightarrow>
        if i < 0 \<or> p = [] \<or> hd p \<noteq> slash
        then Some (json_reply ae 400 (counted ae (refusal_text (bytes ''Invalid path'')) 43), mg)
        else let action = strncpy0 16 (drop 1 p)
        in case run_action ae action i mg of
             (r, mg) \<Rightarrow>
               if r = 0 then Some (json_reply ae 200 (action_done_text action i), mg)
               else if action = bytes ''start'' \<and> torrent_mgr_get i mg \<noteq> None
               then Some (torrent_start_error_response ae (en_now (ae_env ae)) i False mg)
               else Some (json_reply ae 400 bad_action_text, mg))"

definition handle_api_torrents :: "api_env \<Rightarrow> manager \<Rightarrow> http_response option" where
  "handle_api_torrents ae mg =
     (if \<not> ae_mem ae 16384 then json_reply ae 500 (bytes ''{}'')
      else json_reply ae 200
             (cstr (torrent_mgr_status_json (ae_fmt ae) (en_now (ae_env ae)) mg (ae_uninit ae 16384))))"

definition bit_text :: "bool \<Rightarrow> byte list" where "bit_text b = (if b then bytes ''1'' else bytes ''0'')"

definition storage_text :: "api_env \<Rightarrow> storage_path \<Rightarrow> byte list" where
  "storage_text ae p =
     (let exists = storage_path_exists (ae_console ae) (sp_path p);
          writable = exists \<and> storage_path_is_writable (ae_console ae) (ae_readonly ae) (sp_path p)
      in bytes ''{'' @ quote @ bytes ''path'' @ quote @ bytes '':'' @ quote @ sp_path p @ quote @
         key ''label'' @ quote @ sp_label p @ quote @ key ''icon'' @ quote @ sp_icon p @ quote @
         key ''exists'' @ bit_text exists @ key ''writable'' @ bit_text writable @
         key ''removable'' @ bit_text (sp_removable p) @ key ''default'' @ bit_text (sp_default p) @ bytes ''}'')"

definition paths_text :: "api_env \<Rightarrow> byte list" where
  "paths_text ae = bytes ''{'' @ quote @ bytes ''paths'' @ quote @ bytes '':['' @
     concat (map (\<lambda>i. (if 0 < i then bytes '','' else []) @ storage_text ae (storage_paths_get ! i))
       [0..<length storage_paths_get]) @ bytes '']}''"

text \<open>\<open>None\<close> where the text leaves its buffer.\<close>

definition handle_api_paths :: "api_env \<Rightarrow> http_response option option" where
  "handle_api_paths ae =
     (if \<not> ae_mem ae 4096 then Some (json_reply ae 500 (bytes ''{}''))
      else if 4096 \<le> length (paths_text ae) then None
      else Some (json_reply ae 200 (paths_text ae)))"

definition system_language :: "int option \<Rightarrow> byte list" where
  "system_language param =
     (case param of
        None \<Rightarrow> bytes ''en-US''
      | Some l \<Rightarrow> if l = 7 then bytes ''pt-PT'' else if l = 17 then bytes ''pt-BR''
                else if l = 3 \<or> l = 20 then bytes ''es-ES'' else bytes ''en-US'')"

text \<open>The text fits the array of 512 bytes.\<close>

definition handle_api_status :: "api_env \<Rightarrow> manager \<Rightarrow> http_response option" where
  "handle_api_status ae mg =
     json_reply ae 200
       (bytes ''{'' @ quote @ bytes ''status'' @ quote @ bytes '':'' @ quote @ bytes ''running'' @ quote @
        key ''version'' @ quote @ bytes ''2.0.4'' @ quote @ key ''jailbroken'' @ bool_text (ae_access ae) @
        key ''torrents'' @ dec (torrent_mgr_count mg) @ key ''capacity'' @ dec torrent_mgr_capacity @
        key ''language'' @ quote @ system_language (ae_language ae) @ quote @ bytes ''}'')"

definition handle_api_logs :: "api_env \<Rightarrow> http_request \<Rightarrow> http_response option" where
  "handle_api_logs ae req =
     (if rq_method req \<noteq> HTTP_GET
      then http_response_new (ae_mem ae) 405 (Some (bytes ''text/plain'')) (counted ae (bytes ''GET required'') 12)
      else case app_log_read (ae_mem ae) (fst (ae_log ae)) (snd (ae_log ae)) of
        None \<Rightarrow> http_response_new (ae_mem ae) 500 (Some (bytes ''text/plain'')) (counted ae (bytes ''Log unavailable'') 15)
      | Some t \<Rightarrow> http_response_new (ae_mem ae) 200 (Some (bytes ''text/plain; charset=utf-8'')) t)"

definition handle_web_index :: "api_env \<Rightarrow> http_response option" where
  "handle_web_index ae = http_response_new (ae_mem ae) 200 (Some (bytes ''text/html; charset=utf-8'')) (cstr (ae_index ae))"

section \<open>Routes\<close>

datatype route = AddRoute | UploadRoute | LocalRoute | ActionRoute | ListRoute | PathsRoute | StatusRoute
  | LogsRoute | MkdirRoute | FilesRoute | IndexRoute

text \<open>The registrations of \<open>main\<close>, in their order.\<close>

definition routes :: "(byte list \<times> route) list" where
  "routes =
     [(bytes ''/api/torrents/add'', AddRoute), (bytes ''/api/torrents/upload'', UploadRoute),
      (bytes ''/api/torrents/local'', LocalRoute), (bytes ''/api/torrents/'', ActionRoute),
      (bytes ''/api/torrents'', ListRoute), (bytes ''/api/paths'', PathsRoute), (bytes ''/api/status'', StatusRoute),
      (bytes ''/api/logs'', LogsRoute), (bytes ''/api/files/mkdir'', MkdirRoute), (bytes ''/api/files'', FilesRoute),
      (bytes ''/'', IndexRoute)]"

definition api_handle :: "api_env \<Rightarrow> route \<Rightarrow> http_request \<Rightarrow> manager \<Rightarrow> (http_response option \<times> manager) option" where
  "api_handle ae r req mg =
     (case r of
        AddRoute \<Rightarrow> handle_api_add ae req mg
      | UploadRoute \<Rightarrow> Some (handle_api_upload ae req mg)
      | LocalRoute \<Rightarrow> Some (handle_api_local ae req mg)
      | ActionRoute \<Rightarrow> handle_api_action ae req mg
      | ListRoute \<Rightarrow> Some (handle_api_torrents ae mg, mg)
      | PathsRoute \<Rightarrow> map_option (\<lambda>resp. (resp, mg)) (handle_api_paths ae)
      | StatusRoute \<Rightarrow> Some (handle_api_status ae mg, mg)
      | LogsRoute \<Rightarrow> Some (handle_api_logs ae req, mg)
      | MkdirRoute \<Rightarrow> Some (fst (console_files_mkdir (ae_mem ae) (ae_console ae) req), mg)
      | FilesRoute \<Rightarrow> map_option (\<lambda>resp. (resp, mg)) (console_files_list (ae_mem ae) (ae_console ae) req)
      | IndexRoute \<Rightarrow> Some (handle_web_index ae, mg))"

text \<open>The server of \<open>main\<close>, for one state of the manager.\<close>

definition register_routes :: "(route \<Rightarrow> handler) \<Rightarrow> server \<Rightarrow> server" where
  "register_routes h sv = foldl (\<lambda>sv (p, r). http_server_register p (h r) sv) sv routes"

section \<open>Save paths\<close>

text \<open>The loop over the characters is the scan of the file writer.\<close>

definition scan_bad :: "bool \<Rightarrow> byte list \<Rightarrow> nat \<Rightarrow> bool" where
  "scan_bad start p i \<longleftrightarrow> p ! i < 0x20 \<or>
     (p ! i = dot \<and> (if i = 0 then start else p ! (i - 1) = slash) \<and>
      (ends_segment (drop (i + 1) p) \<or> (hd (drop (i + 1) p) = dot \<and> ends_segment (drop (i + 2) p))))"

lemma safe_scan_bad: "safe_scan start p \<longleftrightarrow> (\<forall>i < length p. \<not> scan_bad start p i)"
proof (induction p arbitrary: start)
  case (Cons c p)
  have tl: "drop 1 p = tl p" by (cases p) simp_all
  have "scan_bad start (c # p) 0 \<longleftrightarrow> c < 0x20 \<or> (c = dot \<and> start \<and> (ends_segment p \<or> (hd p = dot \<and> ends_segment (tl p))))"
    by (simp add: scan_bad_def tl [simplified])
  moreover have "scan_bad start (c # p) (Suc i) = scan_bad (c = slash) p i" for i
    by (cases i) (simp_all add: scan_bad_def)
  ultimately show ?case by (simp add: Cons.IH All_less_Suc2)
qed simp

lemma drop_ends: "\<not> list_ex (\<lambda>c. c < 0x20) p \<Longrightarrow> ends_segment (drop i p) \<longleftrightarrow> char_at p i = slash \<or> char_at p i = 0"
proof (cases "i < length p")
  case True
  assume a: "\<not> list_ex (\<lambda>c. c < 0x20) p"
  then have "\<not> p ! i < 0x20" using nth_mem [OF True] by (simp add: list_ex_iff)
  then have "p ! i \<noteq> 0" by auto
  then show ?thesis using True by (simp add: ends_segment_def char_at_def Cons_nth_drop_Suc [symmetric])
qed (simp add: ends_segment_def char_at_def)

lemma bad_path_scan: "list_ex (bad_path_char p) [0..<length p] \<longleftrightarrow> \<not> safe_scan True p"
proof (cases "list_ex (\<lambda>c. c < 0x20) p")
  case True
  then obtain i where "i < length p" "p ! i < 0x20" by (auto simp: list_ex_iff in_set_conv_nth)
  then have "bad_path_char p i" "scan_bad True p i" by (simp_all add: bad_path_char_def scan_bad_def)
  then show ?thesis using \<open>i < length p\<close> unfolding safe_scan_bad list_ex_iff set_upt by fastforce
next
  case False
  have "bad_path_char p i = scan_bad True p i" if "i < length p" for i
  proof (cases "i + 1 < length p")
    case True
    then have "hd (drop (i + 1) p) = char_at p (i + 1)" by (simp add: char_at_def hd_drop_conv_nth)
    then show ?thesis
      using drop_ends [OF False, of "i + 1"] drop_ends [OF False, of "i + 2"] by (simp add: bad_path_char_def scan_bad_def)
  next
    case final: False
    then show ?thesis
      using drop_ends [OF False, of "i + 1"] by (simp add: bad_path_char_def scan_bad_def char_at_def)
  qed
  then show ?thesis by (auto simp: safe_scan_bad list_ex_iff)
qed

lemma key_of_final: "key_of (p @ replicate n slash) = key_of p"
proof (induction n)
  case (Suc n)
  have "p @ replicate (Suc n) slash = (p @ replicate n slash) @ slash # []" by (simp add: replicate_append_same)
  then show ?case using Suc by (simp only: key_of_join) (simp add: key_of_def)
qed simp

lemma trim_key: "key_of (trim_slashes p) = key_of p"
proof -
  let ?q = "drop 1 p"
  have "rev ?q = takeWhile (\<lambda>c. c = slash) (rev ?q) @ dropWhile (\<lambda>c. c = slash) (rev ?q)" by simp
  moreover have "takeWhile (\<lambda>c. c = slash) (rev ?q) = replicate (length (takeWhile (\<lambda>c. c = slash) (rev ?q))) slash"
    by (intro replicate_eqI) (auto dest: set_takeWhileD)
  ultimately obtain n where "rev ?q = replicate n slash @ dropWhile (\<lambda>c. c = slash) (rev ?q)" by metis
  then have "?q = rev (dropWhile (\<lambda>c. c = slash) (rev ?q)) @ replicate n slash"
    by (metis rev_append rev_replicate rev_rev_ident)
  then have "p = trim_slashes p @ replicate n slash"
    unfolding trim_slashes_def by (metis append.assoc append_take_drop_id)
  then show ?thesis using key_of_final by metis
qed

lemma trim_first: "p \<noteq> [] \<Longrightarrow> trim_slashes p \<noteq> [] \<and> hd (trim_slashes p) = hd p"
  by (cases p) (simp_all add: trim_slashes_def)

lemma segments_no_slash: "slash \<notin> set s \<Longrightarrow> segments s = [s]"
  by (induction s) auto

text \<open>
  C31.  A save path is confined to the directory that the user chose: a path that the web interface
  accepts is absolute, fits its array, leads to the folder \<open>torrents\<close> of that directory, and none of its
  components is \<open>.\<close> or \<open>..\<close>; every other path is refused.
\<close>

theorem save_path_confined:
  "(case build_save_path base n of
      Some p \<Rightarrow> hd p = slash \<and> length p < n \<and> key_of p = key_of base @ [bytes ''torrents''] \<and>
        [dot] \<notin> set (key_of p) \<and> [dot, dot] \<notin> set (key_of p)
    | None \<Rightarrow> base = [] \<or> hd base \<noteq> slash \<or> \<not> safe_scan True base \<or> n \<le> length base + 10)"
proof (cases "build_save_path base n")
  case None
  have "length (trim_slashes base) \<le> length base"
    unfolding trim_slashes_def using length_dropWhile_le [of "\<lambda>c. c = slash" "rev (drop 1 base)"] by simp
  then show ?thesis using None by (auto simp: build_save_path_def bad_path_scan Let_def split: if_splits)
next
  case (Some p)
  let ?b = "trim_slashes base"
  have b: "base \<noteq> []" "hd base = slash" "safe_scan True base" "length p < n"
    "p = ?b @ (if length ?b = 1 then [] else [slash]) @ bytes ''torrents/''"
    using Some by (auto simp: build_save_path_def bad_path_scan Let_def split: if_splits)
  have seg: "segments (bytes ''torrents'') = [bytes ''torrents'']"
    by (rule segments_no_slash) simp
  have t: "key_of (bytes ''torrents/'') = [bytes ''torrents'']"
    using key_of_final [of "bytes ''torrents''" 1] seg by (simp add: key_of_def)
  have k: "key_of p = key_of base @ [bytes ''torrents'']"
  proof (cases "length ?b = 1")
    case True
    then have "?b = [slash]" using trim_first [OF b(1)] b(2) by (cases ?b) auto
    then have "p = [] @ slash # bytes ''torrents/''" "key_of base = []"
      using b(5) trim_key [of base] by (simp_all add: key_of_def)
    then show ?thesis using key_of_join [of "[]" "bytes ''torrents/''"] t by (simp add: key_of_def)
  next
    case False
    then have "p = ?b @ slash # bytes ''torrents/''" using b(5) by simp
    then show ?thesis using key_of_join [of ?b "bytes ''torrents/''"] trim_key [of base] t by simp
  qed
  have "x \<noteq> [dot] \<and> x \<noteq> [dot, dot]" if "x \<in> set (segments base)" for x
    using that safe_scan_segments [OF b(3)] by (cases "segments base") auto
  then have "[dot] \<notin> set (key_of base)" "[dot, dot] \<notin> set (key_of base)" by (auto simp: key_of_def)
  moreover have "hd p = slash" using trim_first [OF b(1)] b(2,5) by simp
  ultimately show ?thesis using Some b(4) k by simp
qed

theorem save_path_confined_witness:
  "\<exists>p. build_save_path (bytes ''/mnt/usb0//'') 512 = Some p \<and> key_of p = [bytes ''mnt'', bytes ''usb0'', bytes ''torrents'']"
proof -
  have s: "build_save_path (bytes ''/mnt/usb0//'') 512 = Some (bytes ''/mnt/usb0/torrents/'')"
    by (simp add: build_save_path_def bad_path_char_def char_at_def trim_slashes_def)
  show ?thesis
    using save_path_confined [of "bytes ''/mnt/usb0//''" 512] unfolding s
    by (simp add: key_of_def)
qed

section \<open>Adding and starting\<close>

text \<open>The operations of the manager touch the torrent of their index only.\<close>

lemma stop_one: "\<not> bad_index i mg \<Longrightarrow> \<exists>mt. mg_torrents (torrent_mgr_stop now i mg) = (mg_torrents mg)[nat i := mt]"
  by (auto simp: torrent_mgr_stop_def put_torrent_def)

lemma start_one:
  assumes "\<not> bad_index i mg"
  shows "\<exists>mt. mg_torrents (snd (torrent_mgr_start en stat strerror i mg)) = (mg_torrents mg)[nat i := mt]"
proof -
  have same: "\<exists>mt. mg_torrents mg = (mg_torrents mg)[nat i := mt]" by (metis list_update_id)
  obtain mt1 where s: "mg_torrents (torrent_mgr_stop (en_now en) i mg) = (mg_torrents mg)[nat i := mt1]"
    using stop_one [OF assms] by blast
  show ?thesis
    using assms same s
    by (auto simp: torrent_mgr_start_def put_torrent_def Let_def split: option.split prod.split)
qed

lemma remove_one:
  assumes "\<not> bad_index i mg"
  shows "mg_torrents (torrent_mgr_remove now i mg) = take (nat i) (mg_torrents mg) @ drop (Suc (nat i)) (mg_torrents mg)"
proof -
  obtain mt where "mg_torrents (torrent_mgr_stop now i mg) = (mg_torrents mg)[nat i := mt]" using stop_one [OF assms] by blast
  then show ?thesis using assms by (simp add: torrent_mgr_remove_def Let_def split: prod.split)
qed

text \<open>A torrent as it is added.\<close>

definition fresh_entry :: "torrent \<Rightarrow> byte list \<Rightarrow> managed_torrent \<Rightarrow> bool" where
  "fresh_entry t path mt \<longleftrightarrow> mt_torrent mt = Some t \<and> mt_save_path mt = strncpy0 512 (cstr path) \<and>
     mt_state mt = TORRENT_STOPPED \<and> pm_pieces (mt_piece_mgr mt) = None \<and> fw_base_path (mt_file_writer mt) = None"

lemma add_new:
  assumes "torrent_mgr_add t path m u mg = (i, mg')"
  shows "if i < 0 then mg' = mg else i = int (length (mg_torrents mg)) \<and>
    (\<exists>mt. mg_torrents mg' = mg_torrents mg @ [mt] \<and> fresh_entry t path mt)"
  using assms
  by (auto simp: torrent_mgr_add_def Let_def fresh_entry_def mt_zero_def pm_zero_def fw_zero_def split: prod.splits if_splits)

lemma launch_started:
  assumes "launch en stat strerror t mt w = (r, mt', w')"
  shows "if r = 0 then mt_state mt' = TORRENT_DOWNLOADING \<and> mt_torrent mt' = mt_torrent mt \<and> mt_save_path mt' = mt_save_path mt
    else r = - 1"
  using assms by (auto simp: launch_def Let_def start_error_def set_error_def split: prod.splits option.splits if_splits)

lemma start_new:
  assumes ts: "mg_torrents mg = ts @ [mt]" and fresh: "fresh_entry t path mt"
    and run: "torrent_mgr_start en stat strerror (int (length ts)) mg = (r, mg')"
  shows "if r < 0 then \<exists>mt'. mg_torrents mg' = ts @ [mt']
    else \<exists>mt'. mg_torrents mg' = ts @ [mt'] \<and> mt_torrent mt' = Some t \<and> mt_save_path mt' = mt_save_path mt \<and>
      mt_state mt' = TORRENT_DOWNLOADING"
proof -
  let ?mt = "clear_error (mt\<lparr>mt_downloaded := 0\<rparr>)"
  obtain mt' w' where l: "launch en stat strerror t ?mt (mg_world mg) = (r, mt', w')"
    and g: "mg' = put_torrent (int (length ts)) (mt', w') mg"
    using run fresh by (auto simp: torrent_mgr_start_def bad_index_def ts fresh_entry_def Let_def split: prod.splits)
  have "mg_torrents mg' = ts @ [mt']" by (simp add: g put_torrent_def ts)
  then show ?thesis
    using launch_started [OF l] fresh by (auto simp: fresh_entry_def clear_error_def split: if_splits)
qed

lemma reply_status: "json_reply ae status body = Some resp \<Longrightarrow> rs_status resp = status"
  by (auto simp: json_reply_def http_response_new_def Let_def split: if_splits)

lemma started_new:
  assumes ts: "mg_torrents mg = ts @ [mt]" and fresh: "fresh_entry t path mt"
    and run: "start_added ae cap unknown (int (length ts)) mg = (resp, mg')"
  shows "mg_torrents mg' = ts \<and> (\<forall>r. resp = Some r \<longrightarrow> rs_status r \<noteq> 200) \<or>
    (\<exists>mt'. mg_torrents mg' = ts @ [mt'] \<and> mt_torrent mt' = Some t \<and> mt_save_path mt' = mt_save_path mt \<and>
      mt_state mt' = TORRENT_DOWNLOADING \<and> (\<forall>r. resp = Some r \<longrightarrow> rs_status r = 200))"
proof -
  obtain r mg1 where s: "torrent_mgr_start (ae_env ae) (ae_stat ae) (ae_strerror ae) (int (length ts)) mg = (r, mg1)"
    by (metis prod.exhaust)
  note n = start_new [OF ts fresh s]
  show ?thesis
  proof (cases "r < 0")
    case True
    then obtain mt' where m: "mg_torrents mg1 = ts @ [mt']" using n by auto
    then have "\<not> bad_index (int (length ts)) mg1" by (simp add: bad_index_def)
    then have "mg_torrents (torrent_mgr_remove now (int (length ts)) mg1) = ts" for now by (simp add: remove_one m)
    then show ?thesis
      using run s True by (auto simp: start_added_def torrent_start_error_response_def Let_def dest!: reply_status split: if_splits option.splits)
  next
    case False
    then show ?thesis using run s n by (auto simp: start_added_def Let_def dest: reply_status)
  qed
qed

section \<open>Properties\<close>

text \<open>The three routes that add a torrent.\<close>

definition adds :: "route \<Rightarrow> bool" where
  "adds r \<longleftrightarrow> r = AddRoute \<or> r = UploadRoute \<or> r = LocalRoute"

lemma raw_added:
  assumes "torrent_mgr_add_raw mem file path mg = (idx, mg1)" "\<not> idx < 0"
  shows "\<exists>t mt. torrent_parse mem file = Some t \<and> idx = int (length (mg_torrents mg)) \<and>
    mg_torrents mg1 = mg_torrents mg @ [mt] \<and> fresh_entry t path mt"
  using assms add_new by (fastforce simp: torrent_mgr_add_raw_def split: option.splits)

lemma raw_refused: "torrent_mgr_add_raw mem file path mg = (idx, mg1) \<Longrightarrow> idx < 0 \<Longrightarrow> mg1 = mg"
  using add_new by (fastforce simp: torrent_mgr_add_raw_def split: option.splits)

lemma magnet_added:
  assumes "torrent_mgr_add_magnet mem junk uri path mg = Some (idx, mg1)"
  shows "if idx < 0 then mg1 = mg else idx = int (length (mg_torrents mg)) \<and>
    (\<exists>t mt. mg_torrents mg1 = mg_torrents mg @ [mt] \<and> fresh_entry t path mt)"
  using assms
  by (auto simp: torrent_mgr_add_magnet_def Let_def dest!: add_new split: option.splits if_splits) blast

text \<open>A response that is not a success, or none, goes with an unchanged list or a started torrent.\<close>

definition all_or_nothing :: "manager \<Rightarrow> http_response option \<Rightarrow> manager \<Rightarrow> bool" where
  "all_or_nothing mg resp mg' \<longleftrightarrow>
     mg_torrents mg' = mg_torrents mg \<and> (\<forall>r. resp = Some r \<longrightarrow> rs_status r \<noteq> 200) \<or>
     (\<exists>t mt. mg_torrents mg' = mg_torrents mg @ [mt] \<and> mt_torrent mt = Some t \<and>
        mt_state mt = TORRENT_DOWNLOADING \<and> (\<forall>r. resp = Some r \<longrightarrow> rs_status r = 200))"

lemma refused: "status \<noteq> 200 \<Longrightarrow> all_or_nothing mg (json_reply ae status body) mg"
  by (auto simp: all_or_nothing_def dest: reply_status)

lemma started_all_or_nothing:
  assumes "mg_torrents mg1 = mg_torrents mg @ [mt]" "fresh_entry t path mt"
    and "start_added ae cap unknown (int (length (mg_torrents mg))) mg1 = (resp, mg')"
  shows "all_or_nothing mg resp mg'"
  using started_new [OF assms] by (fastforce simp: all_or_nothing_def)

lemma raw_all_or_nothing:
  assumes "(case torrent_mgr_add_raw mem file path mg of
      (idx, mg1) \<Rightarrow> if idx < 0 then (json_reply ae 400 body, mg1) else start_added ae cap unknown idx mg1) = (resp, mg')"
  shows "all_or_nothing mg resp mg'"
proof -
  obtain idx mg1 where a: "torrent_mgr_add_raw mem file path mg = (idx, mg1)" by (metis prod.exhaust)
  show ?thesis
  proof (cases "idx < 0")
    case True
    then show ?thesis using assms a raw_refused [OF a] refused by auto
  next
    case False
    then show ?thesis using assms a raw_added [OF a False] started_all_or_nothing by auto
  qed
qed

lemma add_all_or_nothing:
  assumes "handle_api_add ae req mg = Some (resp, mg')"
  shows "all_or_nothing mg resp mg'"
proof -
  consider body status where "resp = json_reply ae status body" "status \<noteq> 200" "mg' = mg"
    | junk uri path idx mg1 body where "torrent_mgr_add_magnet (ae_mem ae) junk uri path mg = Some (idx, mg1)"
      "(resp, mg') = (if idx < 0 then (json_reply ae 400 body, mg1) else start_added ae 384 (bytes ''Unknown'') idx mg1)"
    using assms
    by (fastforce simp: handle_api_add_def Let_def split: option.splits if_splits prod.splits)
  then show ?thesis
  proof cases
    case 1
    then show ?thesis using refused by simp
  next
    case 2
    show ?thesis
    proof (cases "idx < 0")
      case True
      then show ?thesis using 2 magnet_added [OF 2(1)] refused by simp
    next
      case False
      then obtain t mt where "idx = int (length (mg_torrents mg))" "mg_torrents mg1 = mg_torrents mg @ [mt]" "fresh_entry t path mt"
        using magnet_added [OF 2(1)] by auto
      then show ?thesis using 2(2) False started_all_or_nothing by simp
    qed
  qed
qed

text \<open>An upload is refused, or its file reaches the manager.\<close>

definition upload_path :: "byte list \<Rightarrow> byte list" where
  "upload_path body = default_path (case http_get_multipart_field body (bytes ''path'') 512 of None \<Rightarrow> [] | Some p \<Rightarrow> cstr p)"

lemma upload_cases:
  assumes "handle_api_upload ae req mg = (resp, mg')"
  shows "(\<exists>b. resp = json_reply ae 400 b \<and> mg' = mg) \<or>
    (\<exists>body file fn p b. rq_body req = Some body \<and> http_get_upload body (bytes ''torrent'') 256 = Some (file, fn) \<and>
       build_save_path (upload_path body) 512 = Some p \<and>
       (case torrent_mgr_add_raw (ae_mem ae) file p mg of
          (idx, mg1) \<Rightarrow> if idx < 0 then (json_reply ae 400 b, mg1) else start_added ae 384 (bytes ''Unknown'') idx mg1) = (resp, mg'))"
proof (cases "\<exists>body file fn p. rq_body req = Some body \<and> rq_method req = HTTP_POST \<and> body \<noteq> [] \<and>
    http_get_upload body (bytes ''torrent'') 256 = Some (file, fn) \<and> file \<noteq> [] \<and> build_save_path (upload_path body) 512 = Some p")
  case True
  then obtain body data fn p where c: "rq_body req = Some body" "rq_method req = HTTP_POST" "body \<noteq> []"
    "http_get_upload body (bytes ''torrent'') 256 = Some (data, fn)" "data \<noteq> []" "build_save_path (upload_path body) 512 = Some p"
    by blast
  have "(case torrent_mgr_add_raw (ae_mem ae) data p mg of
      (idx, mg1) \<Rightarrow> if idx < 0 then (json_reply ae 400 (counted ae (refusal_text (bytes ''Invalid torrent file'')) 50), mg1)
        else start_added ae 384 (bytes ''Unknown'') idx mg1) = (resp, mg')"
    using assms c by (simp add: handle_api_upload_def upload_path_def [symmetric] Let_def del: bytes_Cons)
  then show ?thesis using c by blast
next
  case False
  show ?thesis
  proof (cases "rq_body req")
    case None
    then show ?thesis using assms by (simp add: handle_api_upload_def) blast
  next
    case body: (Some body)
    show ?thesis
    proof (cases "rq_method req \<noteq> HTTP_POST \<or> body = []")
      case True
      then show ?thesis using assms body by (simp add: handle_api_upload_def del: bytes_Cons) blast
    next
      case post: False
      show ?thesis
      proof (cases "http_get_upload body (bytes ''torrent'') 256")
        case None
        then show ?thesis using assms body post by (simp add: handle_api_upload_def del: bytes_Cons) blast
      next
        case (Some r)
        then show ?thesis
          using assms body post False
          by (cases r; cases "build_save_path (upload_path body) 512")
            (auto simp: handle_api_upload_def upload_path_def [symmetric] Let_def simp del: bytes_Cons split: if_splits)
      qed
    qed
  qed
qed

lemma upload_all_or_nothing:
  assumes "handle_api_upload ae req mg = (resp, mg')"
  shows "all_or_nothing mg resp mg'"
  using upload_cases [OF assms]
proof (elim disjE exE conjE)
  fix b assume "resp = json_reply ae 400 b" "mg' = mg"
  then show ?thesis using refused by simp
next
  fix p b and data :: "byte list"
  assume "(case torrent_mgr_add_raw (ae_mem ae) data p mg of
    (idx, mg1) \<Rightarrow> if idx < 0 then (json_reply ae 400 b, mg1) else start_added ae 384 (bytes ''Unknown'') idx mg1) = (resp, mg')"
  then show ?thesis by (rule raw_all_or_nothing)
qed

text \<open>A local file is refused, or it reaches the manager.\<close>

lemma local_cases:
  assumes "handle_api_local ae req mg = (resp, mg')"
  shows "(\<exists>b. resp = json_reply ae 400 b \<and> mg' = mg) \<or>
    (\<exists>data p b. (case torrent_mgr_add_raw (ae_mem ae) data p mg of
       (idx, mg1) \<Rightarrow> if idx < 0 then (json_reply ae 400 b, mg1) else start_added ae 1536 (bytes ''torrent'') idx mg1) = (resp, mg'))"
  using assms
  by (simp add: handle_api_local_def Let_def del: bytes_Cons split: option.splits if_splits) blast+

lemma local_all_or_nothing:
  assumes "handle_api_local ae req mg = (resp, mg')"
  shows "all_or_nothing mg resp mg'"
  using local_cases [OF assms]
proof (elim disjE exE conjE)
  fix b assume "resp = json_reply ae 400 b" "mg' = mg"
  then show ?thesis using refused by simp
next
  fix p b and data :: "byte list"
  assume "(case torrent_mgr_add_raw (ae_mem ae) data p mg of
    (idx, mg1) \<Rightarrow> if idx < 0 then (json_reply ae 400 b, mg1) else start_added ae 1536 (bytes ''torrent'') idx mg1) = (resp, mg')"
  then show ?thesis by (rule raw_all_or_nothing)
qed

text \<open>
  C30.  A request to add a torrent is all or nothing: whatever the form, the upload or the local file
  holds, either the list of torrents is as before and no success is reported, or exactly one new torrent is at its
  end, it is downloading, and nothing but a success is reported.  A torrent that cannot be started is
  removed again.
\<close>

theorem add_request_all_or_nothing:
  assumes "adds r" "api_handle ae r req mg = Some (resp, mg')"
  shows "mg_torrents mg' = mg_torrents mg \<and> (\<forall>p. resp = Some p \<longrightarrow> rs_status p \<noteq> 200) \<or>
    (\<exists>t mt. mg_torrents mg' = mg_torrents mg @ [mt] \<and> mt_torrent mt = Some t \<and>
       mt_state mt = TORRENT_DOWNLOADING \<and> (\<forall>p. resp = Some p \<longrightarrow> rs_status p = 200))"
  using assms add_all_or_nothing upload_all_or_nothing local_all_or_nothing
  unfolding all_or_nothing_def [symmetric] adds_def api_handle_def
  by (elim disjE) simp_all

text \<open>A concrete request: a readable torrent file on the console, to be saved below the root.\<close>

definition demo_api :: api_env where
  "demo_api = \<lparr>ae_env = demo_env, ae_stat = (\<lambda>_. Some True), ae_strerror = (\<lambda>_. []), ae_access = True,
     ae_behind = (\<lambda>_. []), ae_uninit = (\<lambda>n. replicate n 0),
     ae_source = (\<lambda>_. \<lparr>ts_open = True, ts_stat = Some (True, int (length (benc demo_seed_root))), ts_reads = [Chunk (benc demo_seed_root)]\<rparr>),
     ae_console = \<lparr>cn_realpath = Some, cn_opendir = (\<lambda>_. False), cn_entries = (\<lambda>_. []), cn_stat = (\<lambda>_. None),
       cn_access = (\<lambda>_. False), cn_access_search = (\<lambda>_. False), cn_mkdirat = (\<lambda>_ _. None)\<rparr>,
     ae_readonly = (\<lambda>_. None), ae_index = [], ae_language = None, ae_fmt = (\<lambda>_. []), ae_log = undefined\<rparr>"

definition demo_request_local :: http_request where
  "demo_request_local = \<lparr>rq_method = HTTP_POST, rq_path = bytes ''/api/torrents/local'', rq_query = [],
     rq_body = Some (bytes ''source=%2Fd%2Fx.torrent&path=/''), rq_content_type = []\<rparr>"

lemma demo_local_read:
  "console_torrent_read demo_mem (ae_source demo_api) (bytes ''/d/x.torrent'') = Some (benc demo_seed_root)"
proof -
  let ?n = "length (benc demo_seed_root)"
  have n: "0 < ?n" by (simp add: demo_seed_root_def)
  then have "recv_loop [Chunk (benc demo_seed_root)] ?n [] = (Some (benc demo_seed_root), [])" by auto
  moreover have "demo_mem ?n" "int ?n \<le> int HTTP_MAX_BODY" using demo_seed_length by (simp_all add: demo_mem_def HTTP_MAX_BODY_def)
  ultimately show ?thesis
    using n by (simp add: console_torrent_read_def demo_api_def torrent_name_def lower_def del: recv_loop.simps)
qed

lemma demo_local_started:
  assumes "torrent_mgr_add_raw demo_mem (benc demo_seed_root) (bytes ''/torrents/'') (mgr_start demo_socks demo_disk) = (i, mg)"
  shows "i = 0" "fst (torrent_mgr_start demo_env (\<lambda>_. Some True) (\<lambda>_. []) 0 mg) = 0"
proof -
  show i: "i = 0"
    using assms demo_seed_parse by (simp add: torrent_mgr_add_raw_def torrent_mgr_add_def mgr_start_def Let_def MAX_TORRENTS_def split: prod.splits)
  have "torrent_mgr_add demo_seed_torrent (bytes ''/torrents/'') False None (mgr_start demo_socks demo_disk) = (0, mg)"
    using assms i demo_seed_parse by (simp add: torrent_mgr_add_raw_def)
  then obtain mt where mt: "mg_torrents mg = [mt]" "fresh_entry demo_seed_torrent (bytes ''/torrents/'') mt" "\<not> mt_is_magnet mt"
    using add_new [of demo_seed_torrent "bytes ''/torrents/''" False None "mgr_start demo_socks demo_disk" 0 mg]
    by (auto simp: mgr_start_def torrent_mgr_add_def Let_def mt_zero_def split: prod.splits if_splits)
  have tree: "ensure_directory_tree demo_env (\<lambda>_. Some True) (bytes ''/torrents/'') fs =
      (None, fs\<lparr>fs_dirs := insert (key_of (bytes ''/torrents'')) (fs_dirs fs)\<rparr>)" for fs
    by (simp add: ensure_directory_tree_def tree_prefixes_def trim_slashes_def demo_env_def demo_kernel_def upt_conv_Cons)
  have writer: "fst (file_writer_init demo_kernel demo_mem demo_seed_torrent (bytes ''/torrents/'') fs) = 0" for fs
    by (simp add: file_writer_init_def demo_seed_torrent_def torrent_zero_def demo_mem_def safe_relative_path_def
      full_path_def demo_kernel_def fw_zero_def Let_def cstr_def ends_segment_def)
  then have writer: "file_writer_init demo_kernel demo_mem demo_seed_torrent (bytes ''/torrents/'') fs = (x, y) \<Longrightarrow> x = 0" for fs x y
    by (metis fst_conv)
  have t: "t_num_pieces demo_seed_torrent = 1" "t_piece_length demo_seed_torrent = 4" "t_total_size demo_seed_torrent = 4"
    "t_pieces demo_seed_torrent = Some demo_digest" by (simp_all add: demo_seed_torrent_def)
  have e: "en_mem demo_env = demo_mem" "en_os demo_env = demo_kernel" by (simp_all add: demo_env_def)
  have b: "pm_pieces (demo_board s) \<noteq> None" "pm_bitfield (demo_board s) \<noteq> None" for s by (simp_all add: demo_board_def)
  have path: "cstr (bytes ''/torrents/'') = bytes ''/torrents/''" "strncpy0 512 (bytes ''/torrents/'') = bytes ''/torrents/''"
    by (simp_all add: cstr_def strncpy0_def)
  show "fst (torrent_mgr_start demo_env (\<lambda>_. Some True) (\<lambda>_. []) 0 mg) = 0"
    using mt
    by (auto simp: torrent_mgr_start_def bad_index_def fresh_entry_def launch_def path tree t e b demo_init [simplified] Let_def
      clear_error_def simp del: bytes_Cons dest!: writer split: prod.splits)
qed

theorem add_request_all_or_nothing_witness:
  "\<exists>mg' mt p. api_handle demo_api LocalRoute demo_request_local (mgr_start demo_socks demo_disk) = Some (Some p, mg') \<and>
     rs_status p = 200 \<and> mg_torrents mg' = [mt] \<and> mt_state mt = TORRENT_DOWNLOADING"
proof -
  let ?mg = "mgr_start demo_socks demo_disk"
  obtain i mg1 where a: "torrent_mgr_add_raw demo_mem (benc demo_seed_root) (bytes ''/torrents/'') ?mg = (i, mg1)" by (metis prod.exhaust)
  note s = demo_local_started [OF a]
  obtain mg2 where g: "torrent_mgr_start demo_env (\<lambda>_. Some True) (\<lambda>_. []) 0 mg1 = (0, mg2)" using s(2) by (metis prod.collapse)
  have form: "form_param (bytes ''source=%2Fd%2Fx.torrent&path=/'') ''source'' 1024 = bytes ''/d/x.torrent''"
    "form_param (bytes ''source=%2Fd%2Fx.torrent&path=/'') ''path'' 512 = bytes ''/''"
    by (simp_all add: form_param_def cstr_def http_get_param_def get_param.simps http_url_decode_def strtol16_pair_def hex_digit_val_def is_digit_def)
  have path: "build_save_path (bytes ''/'') 512 = Some (bytes ''/torrents/'')" "default_path (bytes ''/'') = bytes ''/''"
    by (simp_all add: build_save_path_def bad_path_char_def char_at_def trim_slashes_def default_path_def)
  have m: "ae_mem demo_api = demo_mem" "ae_env demo_api = demo_env" "ae_stat demo_api = (\<lambda>_. Some True)" "ae_strerror demo_api = (\<lambda>_. [])"
    by (simp_all add: ae_mem_def demo_api_def demo_env_def)
  have room: "demo_mem sizeof_response" by (simp add: demo_mem_def sizeof_response_def)
  obtain p mg' where h: "api_handle demo_api LocalRoute demo_request_local ?mg = Some (Some p, mg')" "rs_status p = 200"
    using a s(1) g
    by (simp add: api_handle_def handle_api_local_def demo_request_local_def form path m demo_local_read start_added_def Let_def
      json_reply_def http_response_new_def room del: bytes_Cons)
  have "adds LocalRoute" by (simp add: adds_def)
  from add_request_all_or_nothing [OF this h(1)] h show ?thesis by (auto simp: mgr_start_def)
qed

lemma starts_with_step [simp]: "starts_with xs []" "\<not> starts_with [] (y # ys)"
  "starts_with (x # xs) (y # ys) \<longleftrightarrow> x = y \<and> starts_with xs ys"
  by (auto simp: starts_with_def)

text \<open>
  C32.  Every route is reached: a server on which \<open>main\<close> registers its routes gives each registered path
  to its own handler, no route being hidden by an earlier one, and every path of the form
  \<open>/api/torrents/<number>..\<close> to the handler of actions.
\<close>

theorem routes_reached:
  assumes "sv_handlers sv = []" "(p, r) \<in> set routes" "is_digit d"
  shows "find_handler (sv_handlers (register_routes h sv)) p = Some (h r) \<and>
    find_handler (sv_handlers (register_routes h sv)) (bytes ''/api/torrents/'' @ d # rest) = Some (h ActionRoute)"
proof -
  have d: "d \<noteq> ch CHR ''a''" "d \<noteq> ch CHR ''u''" "d \<noteq> ch CHR ''l''" using assms(3) by (auto simp: is_digit_def)
  have reg: "sv_handlers (register_routes h sv) = map (\<lambda>(p, r). (p, h r)) routes"
    using assms(1) by (simp add: register_routes_def routes_def http_server_register_def MAX_HANDLERS_def strncpy0_def)
  have "find_handler (map (\<lambda>(p, r). (p, h r)) routes) (bytes ''/api/torrents/'' @ d # rest) = Some (h ActionRoute)"
    using d by (simp add: routes_def)
  moreover have "list_all (\<lambda>(p, r). find_handler (map (\<lambda>(p, r). (p, h r)) routes) p = Some (h r)) routes"
    by (simp add: routes_def)
  ultimately show ?thesis using assms(2) by (auto simp: reg list_all_iff)
qed

theorem routes_reached_witness:
  "\<forall>h. find_handler (sv_handlers (register_routes h \<lparr>sv_fd = 3, sv_handlers = [], sv_clients = []\<rparr>)) (bytes ''/api/files'') =
       Some (h FilesRoute) \<and>
     find_handler (sv_handlers (register_routes h \<lparr>sv_fd = 3, sv_handlers = [], sv_clients = []\<rparr>))
       (bytes ''/api/torrents/7/stop'') = Some (h ActionRoute)"
proof
  fix h :: "route \<Rightarrow> handler"
  show "find_handler (sv_handlers (register_routes h \<lparr>sv_fd = 3, sv_handlers = [], sv_clients = []\<rparr>)) (bytes ''/api/files'') =
       Some (h FilesRoute) \<and>
     find_handler (sv_handlers (register_routes h \<lparr>sv_fd = 3, sv_handlers = [], sv_clients = []\<rparr>))
       (bytes ''/api/torrents/7/stop'') = Some (h ActionRoute)"
    using routes_reached [of "\<lparr>sv_fd = 3, sv_handlers = [], sv_clients = []\<rparr>" "bytes ''/api/files''" FilesRoute
        "ch CHR ''7''" h "bytes ''/stop''"]
    by (simp add: routes_def is_digit_def)
qed

text \<open>
  Refusals leave the literal: the answer to a request to add a torrent that is not a \<open>POST\<close> has 43
  bytes, two more than its text, so that it contains the NUL of the literal and one byte of the memory
  behind it.
\<close>

theorem refusal_overreads:
  assumes "rq_method req \<noteq> HTTP_POST" "\<forall>n. ae_mem ae n" "ae_behind ae (refusal_text (bytes ''POST required'')) = b # bs"
  shows "\<exists>resp. handle_api_add ae req mg = Some (Some resp, mg) \<and>
    rs_body resp = Some (refusal_text (bytes ''POST required'') @ [0, b])"
proof -
  have "length (refusal_text (bytes ''POST required'')) = 41" by (simp add: refusal_text_def quote_def)
  then have b: "counted ae (refusal_text (bytes ''POST required'')) 43 = refusal_text (bytes ''POST required'') @ [0, b]"
    using assms(3) by (simp add: counted_def del: bytes_Cons)
  have "handle_api_add ae req mg = Some (json_reply ae 400 (refusal_text (bytes ''POST required'') @ [0, b]), mg)"
    using assms(1) unfolding b [symmetric] by (simp add: handle_api_add_def del: bytes_Cons split: option.split)
  then show ?thesis
    using assms(2) by (simp add: json_reply_def http_response_new_def Let_def del: bytes_Cons)
qed

theorem refusal_overreads_witness:
  "\<exists>ae req resp. handle_api_add ae req (mgr_start demo_socks demo_disk) = Some (Some resp, mgr_start demo_socks demo_disk) \<and>
     rs_body resp = Some (refusal_text (bytes ''POST required'') @ [0, 255])"
proof -
  let ?ae = "demo_api\<lparr>ae_behind := (\<lambda>_. [255]), ae_env := demo_env\<lparr>en_mem := (\<lambda>_. True)\<rparr>\<rparr>"
  let ?req = "demo_request_local\<lparr>rq_method := HTTP_GET\<rparr>"
  have "rq_method ?req \<noteq> HTTP_POST" "\<forall>n. ae_mem ?ae n" "ae_behind ?ae (refusal_text (bytes ''POST required'')) = [255]"
    by (simp_all add: ae_mem_def)
  from refusal_overreads [OF this] show ?thesis by blast
qed

end
