(* ===== verification/Fleet.thy ===== *)
theory Fleet
  imports Engine
begin

text \<open>
  All torrents of the manager together: they share the counter of assembly bytes, the table of web seed jobs and the
  file system, and each keeps its own invariant while the others move.
\<close>

section \<open>The invariant of all torrents\<close>

text \<open>The assembly bytes of a torrent.\<close>

definition load :: "managed_torrent \<Rightarrow> int" where
  "load mt = assembling (mt_peers mt)"

lemma load_nonneg [simp]: "0 \<le> load mt"
proof -
  have "0 \<le> assembling ps" for ps by (induction ps) simp_all
  then show ?thesis by (simp add: load_def)
qed

lemma loads_nonneg [simp]: "0 \<le> (\<Sum>mt\<leftarrow>ts. load mt)"
  by (induction ts) simp_all

lemma load_le: "mt \<in> set ts \<Longrightarrow> load mt \<le> (\<Sum>m\<leftarrow>ts. load m)"
  by (induction ts) (auto intro: add_increasing add_increasing2)

text \<open>What a torrent was added with, and the places where it may write.\<close>

definition origin :: "managed_torrent \<Rightarrow> torrent option \<times> byte list" where
  "origin mt = (mt_torrent mt, mt_save_path mt)"

definition ground :: "torrent option \<times> byte list \<Rightarrow> path_key set" where
  "ground c = (case c of (Some t, path) \<Rightarrow> if torrent_wf t then places t path else {} | (None, path) \<Rightarrow> {})"

abbreviation feet :: "managed_torrent \<Rightarrow> path_key set" where
  "feet mt \<equiv> ground (origin mt)"

text \<open>A torrent comes from a torrent file, or from a magnet link without pieces.\<close>

definition known :: "torrent \<Rightarrow> managed_torrent \<Rightarrow> bool" where
  "known t mt \<longleftrightarrow> torrent_wf t \<or> mt_is_magnet mt \<and> t_num_pieces t = 0"

definition entry_ok :: "kernel \<Rightarrow> web_seed_job option list \<Rightarrow> int \<Rightarrow> managed_torrent \<Rightarrow> world \<Rightarrow> bool" where
  "entry_ok os js b mt w \<longleftrightarrow> (\<exists>t. mt_torrent mt = Some t \<and> known t mt \<and> torrent_ok os t js b mt w)"

definition all_ok :: "kernel \<Rightarrow> managed_torrent list \<Rightarrow> web_seed_job option list \<Rightarrow> world \<Rightarrow> bool" where
  "all_ok os ts js w \<longleftrightarrow> distinct (map mt_generation ts) \<and> wd_assembly w = (\<Sum>mt\<leftarrow>ts. load mt) \<and>
     wd_assembly w \<le> ASSEMBLY_LIMIT \<and> (\<forall>mt \<in> set ts. entry_ok os js (wd_assembly w - load mt) mt w)"

text \<open>No two torrents write to the same place.\<close>

definition apart :: "(torrent option \<times> byte list) list \<Rightarrow> bool" where
  "apart cs \<longleftrightarrow> sorted_wrt (\<lambda>c d. ground c \<inter> ground d = {}) cs"

lemma apart_split:
  assumes "apart (map origin (xs @ mt # ys))" "m \<in> set xs \<union> set ys"
  shows "feet mt \<inter> feet m = {}"
  using assms by (auto simp: apart_def sorted_wrt_append)

lemma torrent_load:
  assumes "torrent_ok os t js b mt w"
  shows "wd_assembly w = b + load mt \<and> 0 \<le> b \<and> wd_assembly w \<le> ASSEMBLY_LIMIT"
proof -
  have idle: "assembling ps = 0" if "\<forall>q \<in> set ps. pr_piece_size q = 0" for ps
    using that by (induction ps) simp_all
  show ?thesis
    using assms idle [of "mt_peers mt"]
    by (auto simp: torrent_ok_def engine_ok_def table_ok_def swarm_ok_def idle_def bare_def calm_def load_def split: if_splits)
qed

lemma engine_wf: "engine_ok os t js b mt w \<Longrightarrow> torrent_wf t \<and> at_home t (mt_save_path mt) (mt_file_writer mt) \<and> mt_torrent mt = Some t"
  using engine_board [of os t js b mt w] by (auto simp: engine_ok_def board_ok_def writer_ok_def)

section \<open>One torrent moves\<close>

text \<open>A torrent does not notice what the others do.\<close>

lemma entry_frame:
  assumes e: "entry_ok os js b mt w" and jobs: "jobs_of (mt_generation mt) js' = jobs_of (mt_generation mt) js"
    and w: "wd_assembly w' = b' + load mt" "0 \<le> b'" "wd_assembly w' \<le> ASSEMBLY_LIMIT"
    and fs: "file_frame K (wd_fs w) (wd_fs w')" "K \<inter> feet mt = {}"
  shows "entry_ok os js' b' mt w'"
proof -
  obtain t where t: "mt_torrent mt = Some t" "known t mt" "torrent_ok os t js b mt w" using e by (auto simp: entry_ok_def)
  have view: "writer_view t (mt_file_writer mt, wd_fs w') = writer_view t (mt_file_writer mt, wd_fs w)"
    if "at_home t (mt_save_path mt) (mt_file_writer mt)" "torrent_wf t"
    by (rule home_view [OF that(1) fs(1)]) (use fs(2) t(1) that(2) in \<open>simp add: origin_def ground_def\<close>)
  have jl: "job_list (mt_generation mt) js' = job_list (mt_generation mt) js" by (simp add: job_list_def jobs)
  have "torrent_ok os t js' b' mt w'"
  proof (cases "mt_state mt = TORRENT_DONE")
    case True
    then have d: "all_verified t mt w" "idle b mt w" "at_home t (mt_save_path mt) (mt_file_writer mt)"
      using t(3) by (simp_all add: torrent_ok_def)
    have "all_verified t mt w'"
      using d(1) view [OF d(3)] t(2) by (auto simp: all_verified_def known_def)
    moreover have "load mt = 0" using torrent_load [OF t(3)] d(2) by (simp add: idle_def calm_def)
    ultimately show ?thesis using True t(1) d w by (simp add: torrent_ok_def idle_def calm_def)
  next
    case False
    show ?thesis
    proof (cases "engine_ok os t js b mt w")
      case True
      note h = engine_wf [OF True]
      have "engine_ok os t js' b' mt w'"
        using True view h w
        by (auto simp: engine_ok_def table_ok_def swarm_ok_def board_ok_def on_disk_def writer_ok_def jl jobs load_def)
      then show ?thesis using False torrent_not_done by blast
    next
      case bare: False
      then have "bare js b mt w" "mt_state mt \<noteq> TORRENT_DOWNLOADING" using False t(3) by (auto simp: torrent_ok_def)
      then show ?thesis using False t(1) w jobs by (simp add: torrent_ok_def bare_def calm_def load_def assembling_def)
    qed
  qed
  then show ?thesis using t by (auto simp: entry_ok_def)
qed

lemma one_moves:
  assumes ok: "all_ok os (xs @ mt # ys) js w"
    and e: "entry_ok os js' (wd_assembly w - load mt) mt' w'"
    and fs: "file_frame K (wd_fs w) (wd_fs w')" "\<And>m. m \<in> set xs \<union> set ys \<Longrightarrow> K \<inter> feet m = {}"
    and jobs: "\<And>m. m \<in> set xs \<union> set ys \<Longrightarrow> jobs_of (mt_generation m) js' = jobs_of (mt_generation m) js"
    and gen: "mt_generation mt' \<notin> mt_generation ` (set xs \<union> set ys)"
  shows "all_ok os (xs @ mt' # ys) js' w'"
proof -
  obtain t where t: "torrent_ok os t js' (wd_assembly w - load mt) mt' w'" using e by (auto simp: entry_ok_def)
  note l = torrent_load [OF t]
  have s: "wd_assembly w' = (\<Sum>m\<leftarrow>xs @ mt' # ys. load m)" using ok l by (simp add: all_ok_def)
  have "entry_ok os js' (wd_assembly w' - load m) m w'" if m: "m \<in> set xs \<union> set ys" for m
  proof (rule entry_frame [where K = K and b = "wd_assembly w - load m" and w = w and js = js])
    show "entry_ok os js (wd_assembly w - load m) m w" using ok m by (auto simp: all_ok_def)
    have "load m \<le> (\<Sum>m\<leftarrow>xs @ mt' # ys. load m)" by (rule load_le) (use m in auto)
    then show "0 \<le> wd_assembly w' - load m" by (simp add: s)
  qed (use l jobs [OF m] fs(1) fs(2) [OF m] in simp_all)
  moreover have "entry_ok os js' (wd_assembly w' - load mt') mt' w'"
    using e l by (simp add: add_diff_eq [symmetric] diff_eq_eq [symmetric])
  ultimately have "\<forall>m \<in> set (xs @ mt' # ys). entry_ok os js' (wd_assembly w' - load m) m w'" by auto
  moreover have "distinct (map mt_generation (xs @ mt' # ys))" using ok gen by (auto simp: all_ok_def)
  ultimately show ?thesis unfolding all_ok_def using s l by blast
qed

text \<open>A torrent that runs moves in its own places.\<close>

lemma engine_moves:
  assumes ok: "all_ok os (xs @ mt # ys) js w" and apart: "apart (map origin (xs @ mt # ys))"
    and eng: "engine_ok os t js (wd_assembly w - load mt) mt w"
    and new: "torrent_ok os t js' (wd_assembly w - load mt) mt' w'" and st: "stays mt w mt' w'"
    and gen: "mt_generation mt' = mt_generation mt"
    and jobs: "\<And>g. g \<noteq> mt_generation mt \<Longrightarrow> jobs_of g js' = jobs_of g js"
  shows "all_ok os (xs @ mt' # ys) js' w' \<and> origin mt' = origin mt"
proof -
  note h = engine_wf [OF eng]
  have t': "mt_torrent mt' = Some t" using new by (simp add: torrent_ok_def)
  have "feet mt = places t (mt_save_path mt)" using h by (simp add: origin_def ground_def)
  then have fs: "file_frame (feet mt) (wd_fs w) (wd_fs w')" using st h by (simp add: stays_def)
  have d: "mt_generation mt \<notin> mt_generation ` (set xs \<union> set ys)" using ok by (auto simp: all_ok_def)
  have "all_ok os (xs @ mt' # ys) js' w'"
  proof (rule one_moves [OF ok _ fs apart_split [OF apart]])
    show "entry_ok os js' (wd_assembly w - load mt) mt' w'" using new t' h by (auto simp: entry_ok_def known_def)
    show "jobs_of (mt_generation m) js' = jobs_of (mt_generation m) js" if "m \<in> set xs \<union> set ys" for m
      by (rule jobs) (use d that in \<open>metis image_eqI\<close>)
    show "mt_generation mt' \<notin> mt_generation ` (set xs \<union> set ys)" using d gen by simp
  qed
  moreover have "origin mt' = origin mt" using st t' h by (simp add: origin_def stays_def)
  ultimately show ?thesis ..
qed

section \<open>What the schedulers and the collections do to the jobs\<close>

lemma jobs_of_other: "wj_generation job \<noteq> g \<Longrightarrow> jobs_of g (pre @ Some job # post) = jobs_of g (pre @ None # post)"
  by (simp add: jobs_of_def)

lemma jobs_of_update_other:
  assumes "i < length js" "js ! i = None \<or> (\<exists>j. js ! i = Some j \<and> wj_generation j \<noteq> g)" "wj_generation job \<noteq> g"
  shows "jobs_of g (js[i := Some job]) = jobs_of g js"
proof -
  have "js = take i js @ js ! i # drop (Suc i) js" using assms(1) by (simp add: id_take_nth_drop)
  moreover have "js[i := Some job] = take i js @ Some job # drop (Suc i) js" using assms(1) by (simp add: upd_conv_take_nth_drop)
  moreover have "jobs_of g (pre @ Some job # post) = jobs_of g (pre @ js ! i # post)" for pre post
    using assms(2,3) by (auto simp: jobs_of_def)
  ultimately show ?thesis by metis
qed

lemma schedule_jobs:
  "schedule_web_seed n en sp mt js = Some (mt', js') \<Longrightarrow> g \<noteq> mt_generation mt \<Longrightarrow> jobs_of g js' = jobs_of g js"
proof (induction n arbitrary: mt js)
  case (Suc n)
  obtain started mt1 js1 where r: "schedule_web_seed_one en (sp n) mt js = (started, mt1, js1)" by (metis prod.exhaust)
  obtain pm where pm: "mt1 = mt\<lparr>mt_piece_mgr := pm\<rparr>" using schedule_one_board [OF r] by blast
  have "js1 = js \<or> (\<exists>i job. first_slot js = Some i \<and> js1 = js[i := Some job] \<and> wj_generation job = mt_generation mt)"
    using r by (auto simp: schedule_web_seed_one_def Let_def new_web_job_def split: if_splits option.splits)
  then have "jobs_of g js1 = jobs_of g js"
    using Suc.prems(2) by (auto simp: first_slot_def find_Some_iff intro!: jobs_of_update_other)
  then show ?case using Suc.IH [of mt1 js1] Suc.prems r pm by (cases started) auto
qed simp

lemma live_facts:
  assumes "live_index gen ts = Some i"
  shows "i < length ts \<and> mt_generation (ts ! i) = gen \<and> mt_state (ts ! i) = TORRENT_DOWNLOADING"
proof -
  have "foldl (\<lambda>r i. if P i then Some i else r) None is = Some i \<Longrightarrow> i \<in> set is \<and> P i" for P and "is" :: "nat list"
    by (induction "is" rule: rev_induct) (auto split: if_splits)
  from this [OF assms [unfolded live_index_def]] show ?thesis by auto
qed

text \<open>Generations and directories stay what they are.\<close>

definition ident :: "managed_torrent \<Rightarrow> u64 \<times> byte list" where
  "ident mt = (mt_generation mt, mt_save_path mt)"

lemma core_ident: "same_core mt mt' \<Longrightarrow> ident mt' = ident mt"
  by (simp add: same_core_def ident_def)

lemma peer_ident: "process_peer en i mt w = (mt', w') \<Longrightarrow> ident mt' = ident mt"
proof -
  assume run: "process_peer en i mt w = (mt', w')"
  obtain mt1 p1 where s: "serve_peer en mt (mt_peers mt ! i) w = (mt1, p1, w')"
    "mt' = mt1\<lparr>mt_peers := (mt_peers mt)[i := p1]\<rparr>"
    using run by (auto simp: process_peer_def split: prod.splits)
  then show ?thesis using frame_serve [of mt "mt_peers mt ! i" en w] by (simp add: frame_def ident_def)
qed

lemma peers_ident: "process_peers en mt w = (mt', w') \<Longrightarrow> ident mt' = ident mt"
proof -
  have "ident (fst (foldl (\<lambda>(mt, w) i. process_peer en i mt w) (mt, w) is)) = ident mt" for "is"
  proof (induction "is" rule: rev_induct)
    case (snoc i "is")
    obtain m v where l: "foldl (\<lambda>(mt, w) i. process_peer en i mt w) (mt, w) is = (m, v)" by (metis prod.exhaust)
    obtain m1 v1 where "process_peer en i m v = (m1, v1)" by (metis prod.exhaust)
    then show ?case using snoc l peer_ident by simp
  qed simp
  then show "process_peers en mt w = (mt', w') \<Longrightarrow> ident mt' = ident mt" by (metis process_peers_def fst_conv)
qed

lemma disconnect_ident: "disconnect_all now mt w = (mt', w') \<Longrightarrow> ident mt' = ident mt"
  using disconnect_all_idle [of now mt w mt' w'] stays_disconnect [of now mt w mt' w'] by (simp add: ident_def stays_def)

lemma schedule_gens:
  "schedule_web_seed n en sp mt js = Some (mt', js') \<Longrightarrow> ident mt' = ident mt \<and>
   (\<forall>job. Some job \<in> set js' \<longrightarrow> Some job \<in> set js \<or> wj_generation job = mt_generation mt)"
proof (induction n arbitrary: mt js)
  case (Suc n)
  obtain started mt1 js1 where r: "schedule_web_seed_one en (sp n) mt js = (started, mt1, js1)" by (metis prod.exhaust)
  obtain pm where pm: "mt1 = mt\<lparr>mt_piece_mgr := pm\<rparr>" using schedule_one_board [OF r] by blast
  have "\<forall>job. Some job \<in> set js1 \<longrightarrow> Some job \<in> set js \<or> wj_generation job = mt_generation mt"
    using r set_update_subset_insert [of js]
    by (fastforce simp: schedule_web_seed_one_def Let_def new_web_job_def split: if_splits option.splits)
  then show ?case using Suc.IH [of mt1 js1] Suc.prems r pm by (cases started) (auto simp: ident_def)
qed simp

lemma tick_torrent_ident:
  assumes "tick_torrent te (mt, w, dj, cj, wj) = (mt', w', dj', cj', wj')"
  shows "ident mt' = ident mt \<and> (\<forall>job. Some job \<in> set wj' \<longrightarrow> Some job \<in> set wj \<or> wj_generation job = mt_generation mt) \<and>
    (\<forall>g. g \<noteq> mt_generation mt \<longrightarrow> jobs_of g wj' = jobs_of g wj)"
proof (cases "mt_state mt = TORRENT_DOWNLOADING \<and> \<not> piece_mgr_is_done (mt_piece_mgr mt)")
  case False
  then show ?thesis
    using assms
    by (auto simp: tick_torrent_def Let_def complete_torrent_def finish_writer_def ident_def dest!: disconnect_ident
        split: if_splits prod.splits)
next
  case True
  from assms conjunct1 [OF True] conjunct2 [OF True] show ?thesis
  proof (rule tick_parts)
    fix m1 m2 m3 m4
    assume c: "same_core mt m1" "process_peers (te_env te) m1 w = (m2, w')" "same_core m2 m3"
      and j: "schedule_web_seed (Suc WEB_SEED_PARALLEL_PER_TORRENT) (te_env te) (te_spawn_web te) m3 wj = Some (m4, wj')"
      and c4: "same_core m4 mt'"
    have "ident m3 = ident mt" using core_ident [OF c(1)] peers_ident [OF c(2)] core_ident [OF c(3)] by simp
    then show ?thesis using schedule_gens [OF j] schedule_jobs [OF j] core_ident [OF c4] by (auto simp: ident_def)
  qed
qed

lemma collect_web_ident:
  "collect_web_seed en slots ts w = (slots', ts', w') \<Longrightarrow>
   map ident ts' = map ident ts \<and> (\<forall>job. Some job \<in> set slots' \<longrightarrow> Some job \<in> set slots)"
proof (induction slots arbitrary: ts w slots' ts' w')
  case (Cons slot slots)
  obtain slot1 ts1 w1 where h: "collect_web_slot en slot ts w = (slot1, ts1, w1)" by (metis prod.exhaust)
  have "map ident ts1 = map ident ts \<and> (slot1 = slot \<or> slot1 = None)"
  proof (cases "\<exists>job i. slot = Some job \<and> wj_done job \<and> live_index (wj_generation job) ts = Some i")
    case True
    then obtain job i where j: "slot = Some job" "wj_done job" "live_index (wj_generation job) ts = Some i" by blast
    obtain mt v where c: "collect_batch en job (ts ! i) w = (mt, v)" by (metis prod.exhaust)
    have "ident mt = ident (ts ! i)" using collect_frame [OF c] by (simp add: ident_def)
    moreover have "i < length ts" using live_facts [OF j(3)] by simp
    ultimately have "map ident (ts[i := mt]) = map ident ts" by (simp add: map_update list_update_same_conv)
    then show ?thesis using h j c by (auto simp: collect_web_slot_def)
  next
    case False
    then show ?thesis using h by (auto simp: collect_web_slot_def split: option.splits if_splits)
  qed
  moreover obtain slots2 ts2 w2 where r: "collect_web_seed en slots ts1 w1 = (slots2, ts2, w2)" by (metis prod.exhaust)
  ultimately show ?case using Cons.IH [OF r] Cons.prems h r by auto
qed simp

lemma connections_ident:
  "collect_peer_connections now cj ts w = (cj', ts', w') \<Longrightarrow> map ident ts' = map ident ts"
proof (induction cj arbitrary: ts w cj' ts' w')
  case (Cons slot cj)
  obtain slot1 ts1 w1 where h: "collect_connect_slot now slot ts w = (slot1, ts1, w1)" by (metis prod.exhaust)
  have one: "ident mt' = ident mt" if "collect_connection now job mt = (taken, mt')" for job mt taken mt'
    using that
    by (auto simp: collect_connection_def add_peer_def ident_def set_candidate_def Let_def split: if_splits option.splits)
  have "map ident ts1 = map ident ts"
  proof (cases slot)
    case (Some job)
    then show ?thesis
      using h one live_facts
      by (auto simp: collect_connect_slot_def collect_connect_job_def Let_def map_update list_update_same_conv
          split: if_splits option.splits prod.splits)
  qed (use h in \<open>simp add: collect_connect_slot_def\<close>)
  moreover obtain cj2 ts2 w2 where r: "collect_peer_connections now cj ts1 w1 = (cj2, ts2, w2)" by (metis prod.exhaust)
  ultimately show ?case using Cons.IH [OF r] Cons.prems h r by auto
qed simp

text \<open>A list with one element singled out.\<close>

lemma list_split: "i < length ts \<Longrightarrow> \<exists>xs ys. ts = xs @ ts ! i # ys \<and> length xs = i \<and> (\<forall>m. ts[i := m] = xs @ m # ys)"
  by (rule exI [of _ "take i ts"], rule exI [of _ "drop (Suc i) ts"]) (simp add: id_take_nth_drop upd_conv_take_nth_drop)

lemma all_running:
  assumes "all_ok os (xs @ mt # ys) js w" "mt_state mt = TORRENT_DOWNLOADING"
  shows "\<exists>t. engine_ok os t js (wd_assembly w - load mt) mt w"
  using assms torrent_running by (auto simp: all_ok_def entry_ok_def)

section \<open>Collecting the workers' results\<close>

lemma web_slot_all:
  assumes ok: "all_ok (en_os en) ts (pre @ slot # post) w" and apart: "apart (map origin ts)"
    and run: "collect_web_slot en slot ts w = (slot', ts', w')"
  shows "all_ok (en_os en) ts' (pre @ slot' # post) w' \<and> map origin ts' = map origin ts"
proof (cases "\<exists>job. slot = Some job \<and> wj_done job")
  case False
  then have "slot' = slot \<and> ts' = ts \<and> w' = w" using run by (cases slot) (simp_all add: collect_web_slot_def)
  then show ?thesis using ok by simp
next
  case True
  then obtain job where job: "slot = Some job" "wj_done job" by blast
  show ?thesis
  proof (cases "live_index (wj_generation job) ts")
    case None
    then have out: "slot' = None" "ts' = ts" "w' = w" using run job by (auto simp: collect_web_slot_def)
    have "entry_ok os (pre @ Some job # post) b mt w \<Longrightarrow> entry_ok os (pre @ None # post) b mt w" for os b mt
      using drop_job_ok by (auto simp: entry_ok_def)
    then show ?thesis using ok by (auto simp: out job all_ok_def)
  next
    case (Some i)
    note l = live_facts [OF Some]
    obtain xs ys where ts: "ts = xs @ ts ! i # ys" "\<And>m. ts[i := m] = xs @ m # ys" using list_split l by blast
    obtain mt1 where c: "collect_batch en job (ts ! i) w = (mt1, w')" "slot' = None" "ts' = xs @ mt1 # ys"
      using run job Some ts(2) by (auto simp: collect_web_slot_def split: prod.splits)
    have ok1: "all_ok (en_os en) (xs @ ts ! i # ys) (pre @ Some job # post) w" "apart (map origin (xs @ ts ! i # ys))"
      using ok apart ts(1) job by simp_all
    obtain t where e: "engine_ok (en_os en) t (pre @ Some job # post) (wd_assembly w - load (ts ! i)) (ts ! i) w"
      using all_running [OF ok1(1)] l by blast
    have "engine_ok (en_os en) t (pre @ None # post) (wd_assembly w - load (ts ! i)) mt1 w'"
      by (rule collect_batch_engine [OF e _ c(1)]) (use l in simp)
    then have "torrent_ok (en_os en) t (pre @ None # post) (wd_assembly w - load (ts ! i)) mt1 w'"
      using collect_frame [OF c(1)] l torrent_not_done by simp
    from engine_moves [OF ok1 e this stays_collect [OF c(1)]] show ?thesis
      using collect_frame [OF c(1)] l jobs_of_other ts(1) by (simp add: c) (metis list.simps(9) map_append)
  qed
qed

lemma collect_web_all:
  assumes "all_ok (en_os en) ts (pre @ slots) w" "apart (map origin ts)"
    and "collect_web_seed en slots ts w = (slots', ts', w')"
  shows "all_ok (en_os en) ts' (pre @ slots') w' \<and> map origin ts' = map origin ts"
  using assms
proof (induction slots arbitrary: pre ts w slots' ts' w')
  case (Cons slot slots)
  obtain slot1 ts1 w1 where h: "collect_web_slot en slot ts w = (slot1, ts1, w1)" by (metis prod.exhaust)
  obtain slots2 ts2 w2 where r: "collect_web_seed en slots ts1 w1 = (slots2, ts2, w2)" by (metis prod.exhaust)
  have out: "slots' = slot1 # slots2" "ts' = ts2" "w' = w2" using Cons.prems(3) h r by auto
  have s: "all_ok (en_os en) ts1 ((pre @ [slot1]) @ slots) w1" "map origin ts1 = map origin ts"
    using web_slot_all [OF Cons.prems(1,2) h] by simp_all
  show ?case using Cons.IH [OF s(1) _ r] s(2) Cons.prems(2) out by simp
qed simp

text \<open>Steps that leave the core of every torrent alone.\<close>

lemma all_core:
  assumes "list_all2 same_core ts ts'" "all_ok os ts js w"
  shows "all_ok os ts' js w \<and> map origin ts' = map origin ts"
proof -
  have e: "entry_ok os js b mt' w" if c: "same_core mt mt'" and o: "entry_ok os js b mt w" for b mt mt'
  proof -
    obtain t where t: "mt_torrent mt = Some t" "known t mt" "torrent_ok os t js b mt w" using o by (auto simp: entry_ok_def)
    have "torrent_ok os t js b mt' w"
      using t(3) c engine_core [OF _ c refl refl, of os t js b w]
      by (auto simp: torrent_ok_def all_verified_def idle_def bare_def same_core_def split: if_splits)
    then show ?thesis using t c by (auto simp: entry_ok_def known_def same_core_def)
  qed
  have f: "map f ts' = map f ts" if "\<And>a b. same_core a b \<Longrightarrow> f b = f a" for f :: "managed_torrent \<Rightarrow> 'a"
    using assms(1) that by (induction rule: list_all2_induct) simp_all
  have l: "map load ts' = map load ts" by (rule f) (simp add: same_core_def load_def)
  have "entry_ok os js (wd_assembly w - load mt') mt' w" if m: "mt' \<in> set ts'" for mt'
  proof -
    obtain mt where "mt \<in> set ts" "same_core mt mt'" using assms(1) m by (metis list_all2_conv_all_nth in_set_conv_nth)
    then show ?thesis using e assms(2) by (auto simp: all_ok_def same_core_def load_def)
  qed
  moreover have "map mt_generation ts' = map mt_generation ts" by (rule f) (simp add: same_core_def)
  moreover have "map origin ts' = map origin ts" by (rule f) (simp add: same_core_def origin_def)
  ultimately show ?thesis using assms(2) l by (simp add: all_ok_def)
qed

lemma list_core_refl [simp]: "list_all2 same_core ts ts"
  by (rule list_all2_refl) simp

lemma list_core_update: "same_core (ts ! i) mt \<Longrightarrow> list_all2 same_core ts (ts[i := mt])"
  by (cases "i < length ts") (auto simp: list_all2_conv_all_nth nth_list_update)

lemma list_core_trans: "list_all2 same_core a b \<Longrightarrow> list_all2 same_core b c \<Longrightarrow> list_all2 same_core a c"
  by (rule list_all2_trans [of same_core same_core same_core]) (auto intro: same_core_trans)

lemma collect_discovery_core:
  "collect_discovery now dj ts = (dj', ts') \<Longrightarrow> list_all2 same_core ts ts'"
proof (induction dj arbitrary: ts dj' ts')
  case (Cons slot dj)
  obtain slot1 ts1 where h: "(case slot of None \<Rightarrow> (None, ts) | Some job \<Rightarrow> collect_discovery_job now job ts) = (slot1, ts1)"
    by (metis prod.exhaust)
  have "list_all2 same_core ts ts1"
    using h list_core_update same_core_trans [OF core_adds core_finish_discovery] core_adds
    by (auto simp: collect_discovery_job_def Let_def split: option.splits if_splits)
  moreover obtain dj2 ts2 where "collect_discovery now dj ts1 = (dj2, ts2)" by (metis prod.exhaust)
  ultimately show ?case using Cons.IH [of ts1] Cons.prems h list_core_trans by auto
qed simp

lemma all_world:
  assumes "all_ok os ts js w" "wd_assembly w' = wd_assembly w" "wd_fs w' = wd_fs w"
  shows "all_ok os ts js w'"
  using assms torrent_ok_world [OF _ assms(2,3)] by (auto simp: all_ok_def entry_ok_def)

lemma connect_slot_all:
  assumes ok: "all_ok os ts js w" and apart: "apart (map origin ts)" and run: "collect_connect_slot now slot ts w = (slot', ts', w')"
  shows "all_ok os ts' js w' \<and> map origin ts' = map origin ts"
proof (cases "\<exists>job. slot = Some job \<and> pj_done job")
  case False
  then show ?thesis using ok run by (cases slot) (auto simp: collect_connect_slot_def)
next
  case True
  then obtain job where job: "slot = Some job" "pj_done job" by blast
  have r: "collect_connect_job now job ts w = (ts', w')" using run job by (simp add: collect_connect_slot_def)
  then have w: "wd_assembly w' = wd_assembly w" "wd_fs w' = wd_fs w"
    by (auto simp: collect_connect_job_def close_sock_def Let_def split: prod.splits if_splits)
  show ?thesis
  proof (cases "live_index (pj_generation job) ts")
    case None
    then have "ts' = ts" using r by (auto simp: collect_connect_job_def Let_def)
    then show ?thesis using all_world [OF ok w] by simp
  next
    case (Some i)
    note l = live_facts [OF Some]
    obtain xs ys where ts: "ts = xs @ ts ! i # ys" "\<And>m. ts[i := m] = xs @ m # ys" using list_split l by blast
    obtain taken mt1 where c: "collect_connection now job (ts ! i) = (taken, mt1)" by (metis prod.exhaust)
    have ok1: "all_ok os (xs @ ts ! i # ys) js w" "apart (map origin (xs @ ts ! i # ys))" using ok apart ts(1) by simp_all
    obtain t where e: "engine_ok os t js (wd_assembly w - load (ts ! i)) (ts ! i) w"
      using all_running [OF ok1(1)] l by blast
    have n: "engine_ok os t js (wd_assembly w - load (ts ! i)) mt1 w \<and> mt_state mt1 = mt_state (ts ! i)"
      by (rule collect_connection_engine [OF e c])
    have f: "mt_generation mt1 = mt_generation (ts ! i)" "stays (ts ! i) w mt1 w"
      using c by (auto simp: collect_connection_def add_peer_def set_candidate_def record_peer_failure_def Let_def
          intro!: stays_same split: if_splits option.splits)
    have "torrent_ok os t js (wd_assembly w - load (ts ! i)) mt1 w" using n l torrent_not_done by simp
    from engine_moves [OF ok1 e this f(2,1)] have "all_ok os (xs @ mt1 # ys) js w \<and> origin mt1 = origin (ts ! i)" by simp
    moreover have "ts' = xs @ mt1 # ys" using r Some c ts(2) by (auto simp: collect_connect_job_def Let_def)
    ultimately show ?thesis using all_world [OF _ w] ts(1) by (metis list.simps(9) map_append)
  qed
qed

lemma collect_connections_all:
  "all_ok os ts js w \<Longrightarrow> apart (map origin ts) \<Longrightarrow> collect_peer_connections now cj ts w = (cj', ts', w') \<Longrightarrow>
   all_ok os ts' js w' \<and> map origin ts' = map origin ts"
proof (induction cj arbitrary: ts w cj' ts' w')
  case (Cons slot cj)
  obtain slot1 ts1 w1 where h: "collect_connect_slot now slot ts w = (slot1, ts1, w1)" by (metis prod.exhaust)
  note m = connect_slot_all [OF Cons.prems(1,2) h]
  obtain cj2 ts2 w2 where r: "collect_peer_connections now cj ts1 w1 = (cj2, ts2, w2)" by (metis prod.exhaust)
  show ?case using Cons.IH [OF conjunct1 [OF m] _ r] Cons.prems(2,3) h m r by simp
qed simp

section \<open>The tick\<close>

lemma tick_one_all:
  assumes ok: "all_ok os (xs @ mt # ys) wj w" and apart: "apart (map origin (xs @ mt # ys))" and os: "en_os (te_env te) = os"
    and run: "tick_torrent te (mt, w, dj, cj, wj) = (mt', w', dj', cj', wj')"
  shows "all_ok os (xs @ mt' # ys) wj' w' \<and> origin mt' = origin mt"
proof (cases "mt_state mt = TORRENT_DOWNLOADING")
  case False
  then show ?thesis using ok run by (simp add: tick_torrent_def Let_def)
next
  case True
  obtain t where e: "engine_ok os t wj (wd_assembly w - load mt) mt w" using all_running [OF ok True] by blast
  have "torrent_ok os t wj (wd_assembly w - load mt) mt w" using e True torrent_running by blast
  then have n: "torrent_ok os t wj' (wd_assembly w - load mt) mt' w'" using tick_keeps [OF _ run] os by simp
  note i = tick_torrent_ident [OF run]
  show ?thesis by (rule engine_moves [OF ok apart e n stays_tick [OF run]]) (use i in \<open>auto simp: ident_def\<close>)
qed

text \<open>No web seed job has a generation that is not handed out yet.\<close>

definition gens_fresh :: "manager \<Rightarrow> bool" where
  "gens_fresh mg \<longleftrightarrow> (\<forall>mt \<in> set (mg_torrents mg). mt_generation mt < mg_generation mg) \<and>
     (\<forall>job. Some job \<in> set (mg_web mg) \<longrightarrow> wj_generation job < mg_generation mg)"

text \<open>The manager: all of its torrents, and generations that are still to come.\<close>

definition manager_ok :: "kernel \<Rightarrow> manager \<Rightarrow> bool" where
  "manager_ok os mg \<longleftrightarrow> all_ok os (mg_torrents mg) (mg_web mg) (mg_world mg) \<and> gens_fresh mg"

abbreviation origins :: "manager \<Rightarrow> (torrent option \<times> byte list) list" where
  "origins mg \<equiv> map origin (mg_torrents mg)"

lemma tick_at_all:
  assumes ok: "manager_ok os mg" and apart: "apart (origins mg)" and os: "en_os (te_env te) = os" and i: "i < length (mg_torrents mg)"
    and run: "tick_torrent te (mg_torrents mg ! i, mg_world mg, mg_discovery mg, mg_connects mg, mg_web mg) = (mt', w', dj', cj', wj')"
  shows "manager_ok os (mg\<lparr>mg_torrents := (mg_torrents mg)[i := mt'], mg_world := w', mg_discovery := dj', mg_connects := cj', mg_web := wj'\<rparr>) \<and>
    map origin ((mg_torrents mg)[i := mt']) = origins mg"
proof -
  obtain xs ys where ts: "mg_torrents mg = xs @ mg_torrents mg ! i # ys" "\<And>m. (mg_torrents mg)[i := m] = xs @ m # ys"
    using list_split [OF i] by blast
  have "all_ok os (xs @ mg_torrents mg ! i # ys) (mg_web mg) (mg_world mg)" "apart (map origin (xs @ mg_torrents mg ! i # ys))"
    using ok apart ts(1) by (simp_all add: manager_ok_def)
  note n = tick_one_all [OF this os run] and j = tick_torrent_ident [OF run]
  have "mt_generation mt' = mt_generation (mg_torrents mg ! i)" using j by (simp add: ident_def)
  moreover have "mt_generation (mg_torrents mg ! i) < mg_generation mg" using ok i by (simp add: manager_ok_def gens_fresh_def)
  ultimately have g: "\<forall>m \<in> set ((mg_torrents mg)[i := mt']). mt_generation m < mg_generation mg"
    using ok by (auto simp: manager_ok_def gens_fresh_def dest!: set_update_subset_insert [THEN subsetD])
  have w: "\<forall>job. Some job \<in> set wj' \<longrightarrow> wj_generation job < mg_generation mg"
    using ok j i by (auto simp: manager_ok_def gens_fresh_def)
  have "map origin (xs @ mt' # ys) = map origin (xs @ mg_torrents mg ! i # ys)" using n by simp
  then have "map origin ((mg_torrents mg)[i := mt']) = origins mg" by (simp only: ts(2)) (simp only: ts(1) [symmetric])
  moreover have "all_ok os ((mg_torrents mg)[i := mt']) wj' w'" using n by (simp only: ts(2))
  ultimately show ?thesis using g w by (simp add: manager_ok_def gens_fresh_def)
qed

lemma tick_list_all:
  assumes "manager_ok os mg" "apart (origins mg)" "\<forall>i. en_os (te_env (te i)) = os" "\<forall>i \<in> set is. i < length (mg_torrents mg)"
  shows "manager_ok os (tick_torrents te is mg) \<and> origins (tick_torrents te is mg) = origins mg"
  using assms
proof (induction "is" arbitrary: mg)
  case (Cons i "is")
  obtain mt' w' dj' cj' wj' where r: "tick_torrent (te i) (mg_torrents mg ! i, mg_world mg, mg_discovery mg, mg_connects mg, mg_web mg) =
      (mt', w', dj', cj', wj')" by (metis prod.exhaust)
  have "i < length (mg_torrents mg)" using Cons.prems(4) by simp
  note o = tick_at_all [OF Cons.prems(1,2) _ this r]
  show ?case using Cons.IH [OF conjunct1 [OF o]] o Cons.prems r by simp
qed simp

lemma tick_all:
  assumes ok: "manager_ok os mg" and apart: "apart (origins mg)" and os: "\<forall>i. en_os (te_env (te i)) = os"
  shows "manager_ok os (snd (torrent_mgr_tick te mg)) \<and> origins (snd (torrent_mgr_tick te mg)) = origins mg"
proof -
  let ?en = "te_env (te 0)"
  obtain wj1 ts1 w1 where c1: "collect_web_seed ?en (mg_web mg) (mg_torrents mg) (mg_world mg) = (wj1, ts1, w1)" by (metis prod.exhaust)
  obtain dj2 ts2 where c2: "collect_discovery (en_now ?en) (mg_discovery mg) ts1 = (dj2, ts2)" by (metis prod.exhaust)
  obtain cj3 ts3 w3 where c3: "collect_peer_connections (en_now ?en) (mg_connects mg) ts2 w1 = (cj3, ts3, w3)" by (metis prod.exhaust)
  let ?mg = "mg\<lparr>mg_torrents := ts3, mg_world := w3, mg_discovery := dj2, mg_connects := cj3, mg_web := wj1\<rparr>"
  have col: "collect_jobs ?en mg = ?mg" by (simp add: collect_jobs_def c1 c2 c3)
  have a1: "all_ok os ts1 wj1 w1 \<and> map origin ts1 = origins mg"
    using collect_web_all [of ?en "mg_torrents mg" "[]", OF _ apart c1] ok os by (simp add: manager_ok_def)
  note core = collect_discovery_core [OF c2]
  have a2: "all_ok os ts2 wj1 w1 \<and> map origin ts2 = origins mg" using all_core [OF core] a1 by metis
  have a3: "all_ok os ts3 wj1 w3 \<and> map origin ts3 = origins mg"
    using collect_connections_all [OF conjunct1 [OF a2] _ c3] a2 apart by simp
  have "map ident ts2 = map ident ts1"
    using core core_ident by (induction rule: list_all2_induct) simp_all
  then have i: "map ident ts3 = map ident (mg_torrents mg)" using collect_web_ident [OF c1] connections_ident [OF c3] by simp
  then have g: "map mt_generation ts3 = map mt_generation (mg_torrents mg)"
    by (metis (no_types, lifting) fst_conv ident_def list.map_comp map_eq_conv comp_apply)
  have "mt_generation mt < mg_generation mg" if "mt \<in> set ts3" for mt
    using that ok g by (metis (no_types, lifting) gens_fresh_def image_eqI image_set manager_ok_def imageE)
  then have "manager_ok os ?mg" using a3 ok collect_web_ident [OF c1] by (auto simp: manager_ok_def gens_fresh_def)
  from tick_list_all [OF this _ os, of "[0..<length ts3]"] show ?thesis
    using a3 apart by (simp add: torrent_mgr_tick_def col Let_def)
qed

lemma fetch_generation [simp]: "wj_generation (fetch_web_seed_piece net job) = wj_generation job"
  by (simp add: fetch_web_seed_piece_def split: option.split)

lemma engine_step_all:
  assumes "engine_step os mg mg'" "manager_ok os mg" "apart (origins mg)"
  shows "manager_ok os mg' \<and> origins mg' = origins mg \<and> mg_generation mg' = mg_generation mg"
  using assms(1)
proof cases
  case (tick te)
  have g: "mg_generation (tick_torrents te is m) = mg_generation m" for "is" m
    by (induction "is" arbitrary: m) (simp_all split: prod.split)
  have "mg_generation (snd (torrent_mgr_tick te mg)) = mg_generation mg"
    by (simp add: torrent_mgr_tick_def Let_def g) (simp add: collect_jobs_def split: prod.split)
  then show ?thesis using tick_all [OF assms(2,3)] tick by simp
next
  case (web_worker i job net)
  have "Some job \<in> set (mg_web mg)" using web_worker nth_mem by metis
  then show ?thesis
    using assms(2) web_worker fetch_ok
    by (auto simp: manager_ok_def all_ok_def entry_ok_def gens_fresh_def dest!: set_update_subset_insert [THEN subsetD])
next
  case (discovery_worker i dj ann)
  then show ?thesis using assms(2) by (simp add: manager_ok_def gens_fresh_def)
next
  case (connect_worker i cj kc timeout nonblock err cj' w)
  then show ?thesis using assms(2) all_world connect_world by (fastforce simp: manager_ok_def gens_fresh_def)
qed

interpretation engine_run: kept_invariant "engine_step os" "\<lambda>mg. manager_ok os mg \<and> origins mg = cs \<and> apart cs" for os cs
  by unfold_locales (use engine_step_all in blast)

end
