(* ===== verification/Session.thy ===== *)
theory Session
  imports Fleet
begin

text \<open>
  The torrents over their whole life in the manager: besides the ticks and the workers, they are added, stopped,
  started again and removed at any time.  Stopping gives a torrent a new generation, by which the results of the
  workers that are still at work are recognised as stale; a start begins with empty tables.
\<close>

section \<open>Generations to come\<close>

text \<open>A generation is a 64-bit number; \<open>k\<close> of them can still be handed out.\<close>

definition room :: "nat \<Rightarrow> manager \<Rightarrow> bool" where
  "room k mg \<longleftrightarrow> unat (mg_generation mg) + k < 2 ^ 64"

lemma room_same: "mg_generation mg' = mg_generation mg \<Longrightarrow> room k mg' \<longleftrightarrow> room k mg"
  by (simp add: room_def)

lemma room_less: "room k mg \<Longrightarrow> j \<le> k \<Longrightarrow> room j mg"
  by (simp add: room_def)

lemma room_next:
  assumes "room (Suc k) mg" "mg_generation mg' = mg_generation mg + 1"
  shows "room k mg' \<and> mg_generation mg < mg_generation mg'"
proof -
  have "unat (mg_generation mg + 1) = unat (mg_generation mg) + 1"
    using assms(1) by (simp add: room_def unat_word_ariths)
  then show ?thesis using assms by (simp add: room_def word_less_nat_alt)
qed

lemma room_one: "mg_generation mg \<noteq> - 1 \<Longrightarrow> room (Suc 0) mg"
proof -
  assume "mg_generation mg \<noteq> - 1"
  then have "unat (mg_generation mg) \<noteq> unat (- 1 :: u64)" by (simp add: word_unat_eq_iff [symmetric])
  moreover have "unat (- 1 :: u64) = 2 ^ 64 - 1" by (simp add: unsigned_minus_1_eq_mask mask_eq_exp_minus_1)
  moreover have "unat (mg_generation mg) < 2 ^ 64" by (rule unsigned_less [THEN order_less_le_trans]) simp
  ultimately show ?thesis by (simp add: room_def)
qed

lemma fresh_jobs: "gens_fresh mg \<Longrightarrow> jobs_of (mg_generation mg) (mg_web mg) = []"
  by (auto simp: gens_fresh_def jobs_of_def split: option.split)

lemma fresh_later: "gens_fresh mg \<Longrightarrow> mg_generation mg < g \<Longrightarrow> mt \<in> set (mg_torrents mg) \<Longrightarrow> mt_generation mt < g"
  by (auto simp: gens_fresh_def intro: less_trans)

section \<open>One torrent of the manager changes\<close>

lemma manager_split:
  assumes "i < length (mg_torrents mg)"
  obtains xs ys where "mg_torrents mg = xs @ mg_torrents mg ! i # ys" "\<And>m. (mg_torrents mg)[i := m] = xs @ m # ys" "length xs = i"
proof -
  have "mg_torrents mg = take i (mg_torrents mg) @ mg_torrents mg ! i # drop (Suc i) (mg_torrents mg)"
    "(mg_torrents mg)[i := m] = take i (mg_torrents mg) @ m # drop (Suc i) (mg_torrents mg)" for m
    using assms by (simp_all add: id_take_nth_drop [symmetric] upd_conv_take_nth_drop)
  then show thesis using that assms by simp
qed

abbreviation rest_of :: "manager \<Rightarrow> managed_torrent \<Rightarrow> int" where
  "rest_of mg mt \<equiv> wd_assembly (mg_world mg) - load mt"

text \<open>A torrent is replaced; its generation stays, or it is the next one.\<close>

lemma put_keeps:
  assumes ok: "manager_ok os mg" and i: "i < length (mg_torrents mg)"
    and e: "entry_ok os (mg_web mg) (rest_of mg (mg_torrents mg ! i)) mt w" "origin mt = origin (mg_torrents mg ! i)"
    and fs: "file_frame K (wd_fs (mg_world mg)) (wd_fs w)" "K = {} \<or> K = feet mt \<and> apart (origins mg)"
    and gen: "mt_generation mt = mt_generation (mg_torrents mg ! i) \<and> g = mg_generation mg \<or>
      mt_generation mt = mg_generation mg \<and> mg_generation mg < g"
    and mg': "mg' = (put_torrent (int i) (mt, w) mg)\<lparr>mg_generation := g\<rparr>"
  shows "manager_ok os mg' \<and> origins mg' = origins mg"
proof -
  obtain xs ys where ts: "mg_torrents mg = xs @ mg_torrents mg ! i # ys" "\<And>m. (mg_torrents mg)[i := m] = xs @ m # ys"
    using manager_split [OF i] by blast
  have fresh: "gens_fresh mg" and all: "all_ok os (xs @ mg_torrents mg ! i # ys) (mg_web mg) (mg_world mg)"
    using ok ts(1) by (simp_all add: manager_ok_def)
  have others: "m \<in> set (mg_torrents mg)" if "m \<in> set xs \<union> set ys" for m using that by (subst ts(1)) auto
  have K: "K \<inter> feet m = {}" if "m \<in> set xs \<union> set ys" for m
    using fs(2) e(2) apart_split [OF _ that, of "mg_torrents mg ! i"] ts(1) by auto
  have d: "mt_generation mt \<notin> mt_generation ` (set xs \<union> set ys)"
    using gen
  proof
    assume "mt_generation mt = mt_generation (mg_torrents mg ! i) \<and> g = mg_generation mg"
    then show ?thesis using all by (auto simp: all_ok_def)
  next
    assume "mt_generation mt = mg_generation mg \<and> mg_generation mg < g"
    then show ?thesis using fresh others by (auto simp: gens_fresh_def)
  qed
  have a: "all_ok os (xs @ mt # ys) (mg_web mg) w"
    by (rule one_moves [OF all e(1) fs(1) K _ d]) simp_all
  have "mt_generation m < g" if "m \<in> set ((mg_torrents mg)[i := mt])" for m
    using gen fresh fresh_later [OF fresh] set_update_subset_insert that nth_mem [OF i] by (fastforce simp: gens_fresh_def)
  moreover have "mg_generation mg \<le> g" using gen by auto
  ultimately have "gens_fresh mg'" using fresh by (auto simp: mg' gens_fresh_def put_torrent_def intro: less_le_trans)
  moreover have "origins mg' = origins mg"
    using e(2) by (simp add: mg' put_torrent_def map_update) (metis list_update_id map_update)
  ultimately show ?thesis using a ts(2) by (simp add: manager_ok_def mg' put_torrent_def)
qed

lemma manager_entry:
  assumes "manager_ok os mg" "i < length (mg_torrents mg)"
  obtains t where "mt_torrent (mg_torrents mg ! i) = Some t" "known t (mg_torrents mg ! i)"
    "torrent_ok os t (mg_web mg) (rest_of mg (mg_torrents mg ! i)) (mg_torrents mg ! i) (mg_world mg)"
proof -
  have "entry_ok os (mg_web mg) (rest_of mg (mg_torrents mg ! i)) (mg_torrents mg ! i) (mg_world mg)"
    using assms nth_mem [OF assms(2)] unfolding manager_ok_def all_ok_def by blast
  then show thesis using that unfolding entry_ok_def by blast
qed

section \<open>Stopping\<close>

lemma new_generation:
  assumes "torrent_ok os t js b mt w" "jobs_of g js = []" "mt_state mt = TORRENT_DONE \<longrightarrow> s = TORRENT_STOPPED"
  shows "engine_ok os t js b (mt\<lparr>mt_state := s, mt_generation := g\<rparr>) w \<or> idle b (mt\<lparr>mt_state := s, mt_generation := g\<rparr>) w"
proof -
  have "engine_ok os t js b (mt\<lparr>mt_state := s, mt_generation := g\<rparr>) w" if e: "engine_ok os t js b mt w"
  proof -
    have "swarm_ok os t (job_list (mt_generation mt) js @ []) b mt w" using e by (simp add: engine_ok_def table_ok_def)
    from swarm_drop_jobs [OF this] show ?thesis
      using e assms(2) by (simp add: engine_ok_def table_ok_def job_list_def swarm_ok_def)
  qed
  then show ?thesis using assms by (auto simp: torrent_ok_def idle_def bare_def split: if_splits)
qed

lemma stop_keeps:
  assumes ok: "torrent_ok os t js b mt w" and g: "jobs_of g js = []" and run: "stop_torrent now g mt w = (mt', w')"
  shows "mt_torrent mt' = Some t \<and> bare js b mt' w' \<and> mt_state mt' = TORRENT_STOPPED \<and> mt_generation mt' = g \<and>
    mt_save_path mt' = mt_save_path mt \<and> mt_is_magnet mt' = mt_is_magnet mt \<and> wd_fs w' = wd_fs w"
proof -
  let ?mt = "mt\<lparr>mt_state := TORRENT_STOPPED, mt_generation := g\<rparr>"
  obtain mt1 w1 where d: "disconnect_all now ?mt w = (mt1, w1)" by (metis prod.exhaust)
  have "idle b mt1 w1" using disconnect_all_settles [OF new_generation [OF ok g] d] by simp
  moreover have "mt_save_path mt1 = mt_save_path mt" using stays_disconnect [OF d] by (simp add: stays_def)
  ultimately show ?thesis
    using run d disconnect_all_idle [OF d] ok g
    by (auto simp: stop_torrent_def finish_writer_def bare_def idle_def calm_def torrent_ok_def split: prod.splits)
qed

text \<open>A stopped torrent is bare, with the next generation.\<close>

lemma stop_all:
  assumes ok: "manager_ok os mg" and i: "i < length (mg_torrents mg)" and room: "room (Suc k) mg"
    and mg': "mg' = torrent_mgr_stop now (int i) mg"
  shows "manager_ok os mg'" "origins mg' = origins mg" "room k mg'" "mg_web mg' = mg_web mg"
    "length (mg_torrents mg') = length (mg_torrents mg)"
    "bare (mg_web mg') (wd_assembly (mg_world mg')) (mg_torrents mg' ! i) (mg_world mg')"
    "mt_state (mg_torrents mg' ! i) = TORRENT_STOPPED"
proof -
  let ?mt = "mg_torrents mg ! i"
  obtain t where t: "mt_torrent ?mt = Some t" "known t ?mt" "torrent_ok os t (mg_web mg) (rest_of mg ?mt) ?mt (mg_world mg)"
    using manager_entry [OF ok i] .
  have "gens_fresh mg" using ok by (simp add: manager_ok_def)
  obtain mt w where s: "stop_torrent now (mg_generation mg) ?mt (mg_world mg) = (mt, w)" by (metis prod.exhaust)
  note k = stop_keeps [OF t(3) fresh_jobs [OF \<open>gens_fresh mg\<close>] s]
  have g: "mg' = (put_torrent (int i) (mt, w) mg)\<lparr>mg_generation := mg_generation mg + 1\<rparr>"
    using i by (simp add: mg' torrent_mgr_stop_def bad_index_def s)
  have r: "room k mg' \<and> mg_generation mg < mg_generation mg + 1" using room_next [OF room, of mg'] by (simp add: g)
  have "entry_ok os (mg_web mg) (rest_of mg ?mt) mt w"
    using k t by (auto simp: entry_ok_def known_def torrent_ok_def)
  from put_keeps [OF ok i this _ _ _ _ g, of "{}"] show "manager_ok os mg'" "origins mg' = origins mg"
    using k t r by (simp_all add: origin_def file_frame_def)
  show "room k mg'" using r by simp
  show "mg_web mg' = mg_web mg" "length (mg_torrents mg') = length (mg_torrents mg)" by (simp_all add: g put_torrent_def)
  show "bare (mg_web mg') (wd_assembly (mg_world mg')) (mg_torrents mg' ! i) (mg_world mg')"
    "mt_state (mg_torrents mg' ! i) = TORRENT_STOPPED"
    using k i fresh_jobs [OF \<open>gens_fresh mg\<close>] by (simp_all add: g put_torrent_def bare_def calm_def)
qed

lemma bare_load: "bare js b mt w \<Longrightarrow> load mt = 0 \<and> wd_assembly w = b"
  by (simp add: bare_def calm_def load_def)

text \<open>Closing files does not concern the invariant.\<close>

lemma bare_entry:
  assumes ok: "manager_ok os mg" and i: "i < length (mg_torrents mg)"
    and b: "bare (mg_web mg) (wd_assembly (mg_world mg)) (mg_torrents mg ! i) (mg_world mg)"
    and st: "mt_state mt \<noteq> TORRENT_DONE" "mt_state mt \<noteq> TORRENT_DOWNLOADING"
    and mt: "ident mt = ident (mg_torrents mg ! i)" "mt_peers mt = []" "mt_torrent mt = mt_torrent (mg_torrents mg ! i)"
      "mt_is_magnet mt = mt_is_magnet (mg_torrents mg ! i)"
    and w: "wd_assembly w = wd_assembly (mg_world mg)"
  shows "entry_ok os (mg_web mg) (rest_of mg (mg_torrents mg ! i)) mt w" "origin mt = origin (mg_torrents mg ! i)"
proof -
  obtain t where t: "mt_torrent (mg_torrents mg ! i) = Some t" "known t (mg_torrents mg ! i)" using manager_entry [OF ok i] by metis
  show "entry_ok os (mg_web mg) (rest_of mg (mg_torrents mg ! i)) mt w"
    using t mt st w b bare_load [OF b] by (auto simp: entry_ok_def known_def torrent_ok_def bare_def calm_def ident_def)
  show "origin mt = origin (mg_torrents mg ! i)" using mt by (simp add: origin_def ident_def)
qed

section \<open>Starting again\<close>

lemma launch_failed:
  assumes "launch en stat strerror t mt w = (r, mt', w')" "r \<noteq> 0"
  shows "mt_state mt' = TORRENT_ERROR \<and> mt_peers mt' = mt_peers mt \<and> wd_assembly w' = wd_assembly w"
  using assms by (auto simp: launch_def Let_def start_error_def set_error_def split: prod.splits option.splits if_splits)

lemma launch_ident:
  "launch en stat strerror t mt w = (r, mt', w') \<Longrightarrow>
     ident mt' = ident mt \<and> mt_torrent mt' = mt_torrent mt \<and> mt_is_magnet mt' = mt_is_magnet mt"
  by (auto simp: launch_def Let_def start_error_def set_error_def ident_def split: prod.splits option.splits if_splits)

lemma launch_pieces: "launch en stat strerror t mt w = (0, mt', w') \<Longrightarrow> known t mt \<Longrightarrow> torrent_wf t"
  by (auto simp: launch_def known_def Let_def split: prod.splits option.splits if_splits)

text \<open>The torrents of the manager have their own, sound places.\<close>

definition fit :: "kernel \<Rightarrow> (torrent option \<times> byte list) list \<Rightarrow> bool" where
  "fit os cs \<longleftrightarrow> apart cs \<and> (\<forall>t path. (Some t, path) \<in> set cs \<and> torrent_wf t \<longrightarrow> sound_target os t path)"

lemma launch_all:
  assumes ok: "manager_ok (en_os en) mg" and i: "i < length (mg_torrents mg)"
    and b: "bare (mg_web mg) (wd_assembly (mg_world mg)) (mg_torrents mg ! i) (mg_world mg)"
    and t: "mt_torrent (mg_torrents mg ! i) = Some t"
    and run: "launch en stat strerror t (clear_error ((mg_torrents mg ! i)\<lparr>mt_downloaded := 0\<rparr>)) (mg_world mg) = (r, mt, w)"
    and fit: "r = 0 \<Longrightarrow> fit (en_os en) (origins mg)"
    and mg': "mg' = put_torrent (int i) (mt, w) mg"
  shows "manager_ok (en_os en) mg' \<and> origins mg' = origins mg"
proof -
  let ?mt = "mg_torrents mg ! i" and ?m = "clear_error ((mg_torrents mg ! i)\<lparr>mt_downloaded := 0\<rparr>)"
  have m: "ident ?m = ident ?mt" "mt_torrent ?m = Some t" "mt_is_magnet ?m = mt_is_magnet ?mt" "mt_peers ?m = []"
    using t b by (simp_all add: clear_error_def ident_def bare_def)
  note l = launch_ident [OF run]
  have g: "mt_generation mt = mt_generation ?mt" "mt_save_path mt = mt_save_path ?mt" using l m by (simp_all add: ident_def)
  have mg: "mg' = (put_torrent (int i) (mt, w) mg)\<lparr>mg_generation := mg_generation mg\<rparr>" by (simp add: mg' put_torrent_def)
  have kt: "known t ?mt" using manager_entry [OF ok i] t by (metis option.inject)
  show ?thesis
  proof (cases "r = 0")
    case True
    have wf: "torrent_wf t" by (rule launch_pieces [OF run [unfolded True]]) (use kt in \<open>simp add: known_def clear_error_def\<close>)
    have mem: "(Some t, mt_save_path ?mt) \<in> set (origins mg)" using i t by (force simp: origin_def)
    then have snd: "sound_target (en_os en) t (mt_save_path ?m)" using fit [OF True] wf by (simp add: fit_def clear_error_def)
    have "calm (wd_assembly (mg_world mg)) (mg_world mg)" "jobs_of (mt_generation ?m) (mg_web mg) = []"
      using b by (simp_all add: bare_def clear_error_def)
    from launch_engine [OF run [unfolded True] wf snd m(2,4) this]
    have "engine_ok (en_os en) t (mg_web mg) (wd_assembly (mg_world mg)) mt w" "mt_state mt = TORRENT_DOWNLOADING" by simp_all
    then have "torrent_ok (en_os en) t (mg_web mg) (rest_of mg ?mt) mt w" using bare_load [OF b] torrent_not_done by simp
    then have e: "entry_ok (en_os en) (mg_web mg) (rest_of mg ?mt) mt w" using l m wf by (auto simp: entry_ok_def known_def)
    have o: "origin mt = origin ?mt" using l m g t by (simp add: origin_def)
    have "feet mt = places t (mt_save_path ?m)" using l m(2) g wf by (simp add: origin_def ground_def clear_error_def)
    then have "file_frame (feet mt) (wd_fs (mg_world mg)) (wd_fs w)" using launch_home(2) [OF run] by simp
    then show ?thesis by (rule put_keeps [OF ok i e o _ _ _ mg]) (use fit [OF True] g in \<open>simp_all add: fit_def\<close>)
  next
    case False
    note f = launch_failed [OF run False]
    have e: "entry_ok (en_os en) (mg_web mg) (rest_of mg ?mt) mt w" "origin mt = origin ?mt"
      using bare_entry [OF ok i b, of mt w] f l m t by simp_all
    show ?thesis by (rule put_keeps [OF ok i e launch_home(4) [OF run False, of "{}"] _ _ mg]) (use g in simp_all)
  qed
qed

text \<open>What \<open>torrent_mgr_start\<close> does before the directory is created: a used torrent is stopped and emptied.\<close>

definition rewind :: "u64 \<Rightarrow> nat \<Rightarrow> manager \<Rightarrow> manager" where
  "rewind now i mg =
     (if pm_pieces (mt_piece_mgr (mg_torrents mg ! i)) \<noteq> None \<or> fw_base_path (mt_file_writer (mg_torrents mg ! i)) \<noteq> None
      then let mg = torrent_mgr_stop now (int i) mg;
               (mt, w) = destroy_writer (mg_torrents mg ! i) (mg_world mg)
           in put_torrent (int i) (mt\<lparr>mt_piece_mgr := piece_mgr_destroy (mt_piece_mgr mt)\<rparr>, w) mg
      else mg)"

lemma rewind_all:
  assumes ok: "manager_ok os mg" and i: "i < length (mg_torrents mg)" and room: "room (Suc k) mg"
    and st: "mt_state (mg_torrents mg ! i) \<noteq> TORRENT_DOWNLOADING" "mt_state (mg_torrents mg ! i) \<noteq> TORRENT_DONE"
    and mg': "mg' = rewind now i mg"
  shows "manager_ok os mg' \<and> origins mg' = origins mg \<and> room k mg' \<and>
    bare (mg_web mg') (wd_assembly (mg_world mg')) (mg_torrents mg' ! i) (mg_world mg')"
proof (cases "pm_pieces (mt_piece_mgr (mg_torrents mg ! i)) \<noteq> None \<or> fw_base_path (mt_file_writer (mg_torrents mg ! i)) \<noteq> None")
  case True
  define mg1 where "mg1 = torrent_mgr_stop now (int i) mg"
  note s = stop_all [OF ok i room mg1_def]
  obtain m w where d: "destroy_writer (mg_torrents mg1 ! i) (mg_world mg1) = (m, w)" by (metis prod.exhaust)
  let ?m = "m\<lparr>mt_piece_mgr := piece_mgr_destroy (mt_piece_mgr m)\<rparr>"
  have f: "ident ?m = ident (mg_torrents mg1 ! i)" "mt_peers ?m = []" "mt_torrent ?m = mt_torrent (mg_torrents mg1 ! i)"
    "mt_is_magnet ?m = mt_is_magnet (mg_torrents mg1 ! i)" "mt_state ?m = TORRENT_STOPPED"
    "wd_assembly w = wd_assembly (mg_world mg1)" "wd_fs w = wd_fs (mg_world mg1)"
    using d s(6,7) by (auto simp: destroy_writer_def ident_def bare_def split: prod.splits)
  have g: "mg' = put_torrent (int i) (?m, w) mg1"
    using True d by (simp add: mg' rewind_def mg1_def [symmetric] Let_def)
  have i1: "i < length (mg_torrents mg1)" using s(5) i by simp
  have e: "entry_ok os (mg_web mg1) (rest_of mg1 (mg_torrents mg1 ! i)) ?m w" "origin ?m = origin (mg_torrents mg1 ! i)"
    using bare_entry [OF s(1) i1 s(6), of ?m w] f by simp_all
  have "file_frame {} (wd_fs (mg_world mg1)) (wd_fs w)" using f(7) by simp
  moreover have "mg' = (put_torrent (int i) (?m, w) mg1)\<lparr>mg_generation := mg_generation mg1\<rparr>" by (simp add: g put_torrent_def)
  moreover have "mt_generation ?m = mt_generation (mg_torrents mg1 ! i)" using f(1) by (simp add: ident_def)
  ultimately have "manager_ok os mg' \<and> origins mg' = origins mg1" using put_keeps [OF s(1) i1 e] by blast
  moreover have "room k mg'" using s(3) by (simp add: g put_torrent_def room_def)
  moreover have "bare (mg_web mg') (wd_assembly (mg_world mg')) (mg_torrents mg' ! i) (mg_world mg')"
    using s(6) f i1 by (simp add: g put_torrent_def bare_def calm_def ident_def)
  ultimately show ?thesis using s(2) by simp
next
  case False
  obtain t where t: "torrent_ok os t (mg_web mg) (rest_of mg (mg_torrents mg ! i)) (mg_torrents mg ! i) (mg_world mg)"
    using manager_entry [OF ok i] .
  have "\<not> engine_ok os t (mg_web mg) b (mg_torrents mg ! i) (mg_world mg)" for b
    using False engine_board [of os t "mg_web mg" b "mg_torrents mg ! i" "mg_world mg"]
    by (auto simp: board_ok_def pm_small_def pm_ok_def pm_shape_def)
  then have b: "bare (mg_web mg) (rest_of mg (mg_torrents mg ! i)) (mg_torrents mg ! i) (mg_world mg)"
    using t st by (auto simp: torrent_ok_def)
  then have "bare (mg_web mg) (wd_assembly (mg_world mg)) (mg_torrents mg ! i) (mg_world mg)"
    using conjunct2 [OF bare_load [OF b]] by simp
  then show ?thesis using False ok room by (simp add: mg' rewind_def room_def)
qed

lemma start_all:
  assumes ok: "manager_ok (en_os en) mg" and room: "room (Suc k) mg"
    and run: "torrent_mgr_start en stat strerror i mg = (r, mg')"
    and fit: "r = 0 \<Longrightarrow> fit (en_os en) (origins mg)"
  shows "manager_ok (en_os en) mg' \<and> origins mg' = origins mg \<and> room k mg'"
proof (cases "bad_index i mg")
  case True
  then show ?thesis using ok room run by (simp add: torrent_mgr_start_def room_def)
next
  case False
  define n where "n = nat i"
  have n: "i = int n" "n < length (mg_torrents mg)" using False by (auto simp: n_def bad_index_def)
  obtain t where t: "mt_torrent (mg_torrents mg ! n) = Some t" using manager_entry [OF ok n(2)] .
  show ?thesis
  proof (cases "mt_state (mg_torrents mg ! n) = TORRENT_DOWNLOADING \<or> mt_state (mg_torrents mg ! n) = TORRENT_SEEDING \<or>
      mt_state (mg_torrents mg ! n) = TORRENT_DONE")
    case True
    have g: "mg' = mg\<lparr>mg_torrents := (mg_torrents mg)[n := clear_error (mg_torrents mg ! n)]\<rparr>"
      using True run False by (simp add: torrent_mgr_start_def n put_torrent_def)
    have core: "list_all2 same_core (mg_torrents mg) (mg_torrents mg')"
      by (simp add: g list_core_update core_error(2))
    have "gens_fresh mg'"
      using ok n(2) by (auto simp: manager_ok_def gens_fresh_def g clear_error_def dest!: set_update_subset_insert [THEN subsetD])
    moreover have "all_ok (en_os en) (mg_torrents mg') (mg_web mg) (mg_world mg) \<and> origins mg' = origins mg"
      using all_core [OF core, of "en_os en" "mg_web mg" "mg_world mg"] ok by (simp add: manager_ok_def)
    moreover have "mg_web mg' = mg_web mg" "mg_world mg' = mg_world mg" "room k mg'" using room by (simp_all add: g room_def)
    ultimately show ?thesis by (simp add: manager_ok_def)
  next
    case rest: False
    define mg1 where "mg1 = rewind (en_now en) n mg"
    have r: "manager_ok (en_os en) mg1" "origins mg1 = origins mg" "room k mg1"
      "bare (mg_web mg1) (wd_assembly (mg_world mg1)) (mg_torrents mg1 ! n) (mg_world mg1)"
      using rewind_all [OF ok n(2) room _ _ mg1_def] rest by auto
    have n1: "n < length (mg_torrents mg1)" using r(2) n(2) by (metis length_map)
    have "origin (mg_torrents mg1 ! n) = origin (mg_torrents mg ! n)" using r(2) n(2) n1 by (metis nth_map)
    then have t1: "mt_torrent (mg_torrents mg1 ! n) = Some t" using t by (simp add: origin_def)
    obtain mt w where l: "launch en stat strerror t (clear_error ((mg_torrents mg1 ! n)\<lparr>mt_downloaded := 0\<rparr>)) (mg_world mg1) = (r, mt, w)"
      and g: "mg' = put_torrent (int n) (mt, w) mg1"
      using run False rest t unfolding torrent_mgr_start_def mg1_def rewind_def n
      by (auto simp: Let_def split: prod.splits if_splits)
    have "manager_ok (en_os en) mg' \<and> origins mg' = origins mg1" by (rule launch_all [OF r(1) n1 r(4) t1 l _ g]) (use fit r(2) in simp)
    moreover have "room k mg'" using r(3) by (simp add: g put_torrent_def room_def)
    ultimately show ?thesis using r(2) by simp
  qed
qed

section \<open>Removing and adding\<close>

lemma drop_entry_all:
  assumes ok: "manager_ok os mg" and i: "i < length (mg_torrents mg)" and room: "room (Suc k) mg"
    and mg': "mg' = torrent_mgr_remove now (int i) mg"
  shows "manager_ok os mg' \<and> origins mg' = take i (origins mg) @ drop (Suc i) (origins mg) \<and> room k mg'"
proof -
  define mg1 where "mg1 = torrent_mgr_stop now (int i) mg"
  note s = stop_all [OF ok i room mg1_def]
  obtain m w where d: "destroy_writer (mg_torrents mg1 ! i) (mg_world mg1) = (m, w)" by (metis prod.exhaust)
  have w: "wd_assembly w = wd_assembly (mg_world mg1)" "wd_fs w = wd_fs (mg_world mg1)"
    using d by (auto simp: destroy_writer_def split: prod.splits)
  let ?xs = "take i (mg_torrents mg1)" and ?ys = "drop (Suc i) (mg_torrents mg1)"
  have g: "mg' = mg1\<lparr>mg_torrents := ?xs @ ?ys, mg_world := w\<rparr>"
    using i d by (simp add: mg' torrent_mgr_remove_def bad_index_def mg1_def [symmetric] Let_def)
  have ts: "mg_torrents mg1 = ?xs @ mg_torrents mg1 ! i # ?ys" using i s(5) by (simp add: id_take_nth_drop)
  have a: "all_ok os (?xs @ mg_torrents mg1 ! i # ?ys) (mg_web mg1) (mg_world mg1)" "gens_fresh mg1"
    using s(1) ts by (simp_all add: manager_ok_def)
  have "load (mg_torrents mg1 ! i) = 0" using bare_load [OF s(6)] by simp
  then have "all_ok os (?xs @ ?ys) (mg_web mg1) (mg_world mg1)" using a(1) by (auto simp: all_ok_def)
  then have "all_ok os (?xs @ ?ys) (mg_web mg1) w" by (rule all_world [OF _ w])
  moreover have "gens_fresh (mg1\<lparr>mg_torrents := ?xs @ ?ys, mg_world := w\<rparr>)"
    using a(2) by (auto simp: gens_fresh_def dest: in_set_takeD in_set_dropD)
  moreover have "room k mg'" using s(3) by (simp add: g room_def)
  moreover have "map origin (?xs @ ?ys) = take i (origins mg) @ drop (Suc i) (origins mg)"
    by (simp add: take_map [symmetric] drop_map [symmetric] s(2))
  ultimately show ?thesis by (simp add: g manager_ok_def)
qed

lemma add_all:
  assumes ok: "manager_ok os mg" and room: "room (Suc k) mg" and wf: "torrent_wf t \<or> magnet \<and> t_num_pieces t = 0"
    and run: "torrent_mgr_add t path magnet uri mg = (i, mg')"
  shows "if i < 0 then mg' = mg else
    manager_ok os mg' \<and> origins mg' = origins mg @ [(Some t, take 511 (cstr path))] \<and> room k mg' \<and> i = int (length (mg_torrents mg))"
proof (cases "i < 0")
  case True
  then show ?thesis using run by (auto simp: torrent_mgr_add_def Let_def split: prod.splits if_splits)
next
  case False
  then obtain mt where m: "mg_torrents mg' = mg_torrents mg @ [mt]" "mt_torrent mt = Some t" "mt_peers mt = []"
    "mt_save_path mt = take 511 (cstr path)" "mt_state mt = TORRENT_STOPPED" "mt_is_magnet mt = magnet"
    "mt_generation mt = mg_generation mg" "mg_generation mg' = mg_generation mg + 1" "mg_web mg' = mg_web mg"
    "mg_world mg' = mg_world mg" "i = int (length (mg_torrents mg))"
    using run by (auto simp: torrent_mgr_add_def Let_def mt_zero_def strncpy0_def split: prod.splits if_splits)
  have r: "room k mg' \<and> mg_generation mg < mg_generation mg'" by (rule room_next [OF room m(8)])
  have fresh: "gens_fresh mg" and all: "all_ok os (mg_torrents mg) (mg_web mg) (mg_world mg)" using ok by (simp_all add: manager_ok_def)
  have l: "load mt = 0" using m(3) by (simp add: load_def)
  have a: "wd_assembly (mg_world mg) = (\<Sum>m\<leftarrow>mg_torrents mg. load m)" "wd_assembly (mg_world mg) \<le> ASSEMBLY_LIMIT"
    using all by (simp_all add: all_ok_def)
  have "calm (wd_assembly (mg_world mg)) (mg_world mg)" using a loads_nonneg by (simp add: calm_def)
  then have "bare (mg_web mg) (wd_assembly (mg_world mg)) mt (mg_world mg)"
    using m fresh_jobs [OF fresh] by (simp add: bare_def)
  then have e: "entry_ok os (mg_web mg) (wd_assembly (mg_world mg) - load mt) mt (mg_world mg)"
    using m wf l by (simp add: entry_ok_def known_def torrent_ok_def)
  have "mg_generation mg \<notin> mt_generation ` set (mg_torrents mg)" using fresh by (auto simp: gens_fresh_def)
  then have "all_ok os (mg_torrents mg @ [mt]) (mg_web mg) (mg_world mg)" using all e l m(7) by (auto simp: all_ok_def)
  moreover have "gens_fresh mg'" using fresh fresh_later [OF fresh] r m by (auto simp: gens_fresh_def intro: less_trans)
  ultimately show ?thesis using False r m by (simp add: manager_ok_def origin_def)
qed

lemma mgr_start_ok: "manager_ok os (mgr_start socks fs)"
  by (auto simp: manager_ok_def all_ok_def gens_fresh_def mgr_start_def ASSEMBLY_LIMIT_def)

section \<open>A manager with one torrent\<close>

definition session_ok :: "kernel \<Rightarrow> torrent \<Rightarrow> byte list \<Rightarrow> manager \<Rightarrow> bool" where
  "session_ok os t path mg \<longleftrightarrow> manager_ok os mg \<and> origins mg = [(Some t, path)]"

lemma session_fit: "sound_target os t path \<Longrightarrow> fit os [(Some t, path)]"
  by (simp add: fit_def apart_def)

text \<open>A torrent that is reported as done is on disk.\<close>

lemma done_verified:
  assumes "manager_ok os mg" "mt \<in> set (mg_torrents mg)" "mt_state mt = TORRENT_DONE" "mt_torrent mt = Some t" "i < t_num_pieces t"
  shows "sha1_hash (slice t i (writer_view t (mt_file_writer mt, wd_fs (mg_world mg)))) = piece_digest (the (t_pieces t)) i"
proof -
  have "entry_ok os (mg_web mg) (rest_of mg mt) mt (mg_world mg)"
    using assms(1,2) unfolding manager_ok_def all_ok_def by blast
  then show ?thesis using assms(3-5) by (auto simp: entry_ok_def torrent_ok_def all_verified_def)
qed

lemma session_verified:
  assumes "session_ok os t path mg" "mg_torrents mg = [mt]" "mt_state mt = TORRENT_DONE" "i < t_num_pieces t"
  shows "sha1_hash (slice t i (writer_view t (mt_file_writer mt, wd_fs (mg_world mg)))) = piece_digest (the (t_pieces t)) i"
  using assms by (intro done_verified [of os]) (simp_all add: session_ok_def origin_def)

section \<open>Descriptors\<close>

text \<open>The sockets of the peers of a torrent and the file of its writer, as they are closed.\<close>

definition open_fds :: "managed_torrent \<Rightarrow> int list" where
  "open_fds mt = filter (\<lambda>fd. 0 \<le> fd) (map pr_sock (mt_peers mt)) @ snd (file_writer_finish (mt_file_writer mt))"

lemma disconnect_at_closed:
  assumes "disconnect_at now i mt w = (mt', w')"
  shows "wd_closed w' = wd_closed w @ net_close (pr_sock (mt_peers mt ! i))" "mt_file_writer mt' = mt_file_writer mt"
  using assms
  by (auto simp: disconnect_at_def disconnect_peer_def release_piece_def close_sock_def net_close_def Let_def
      split: if_splits prod.splits)

lemma disconnect_closed:
  assumes "k \<le> length (mt_peers mt)" "foldl (\<lambda>(mt, w) i. disconnect_at now i mt w) (mt, w) [0..<k] = (mt', w')"
  shows "wd_closed w' = wd_closed w @ filter (\<lambda>fd. 0 \<le> fd) (map pr_sock (take k (mt_peers mt))) \<and>
    mt_file_writer mt' = mt_file_writer mt"
  using assms
proof (induction k arbitrary: mt' w')
  case (Suc k)
  obtain mt1 w1 where l: "foldl (\<lambda>(mt, w) i. disconnect_at now i mt w) (mt, w) [0..<k] = (mt1, w1)" by (metis prod.exhaust)
  have d: "disconnect_at now k mt1 w1 = (mt', w')" using Suc.prems(2) l by simp
  have "mt_peers mt1 ! k = mt_peers mt ! k" using disconnect_loop [OF _ l] Suc.prems(1) by simp
  then show ?case
    using Suc.IH [OF _ l] disconnect_at_closed [OF d] Suc.prems(1) by (simp add: take_Suc_conv_app_nth net_close_def)
qed simp

lemma stop_closed:
  assumes "stop_torrent now g mt w = (mt', w')"
  shows "wd_closed w' = wd_closed w @ open_fds mt" "fw_fd (mt_file_writer mt') < 0"
proof -
  let ?mt = "mt\<lparr>mt_state := TORRENT_STOPPED, mt_generation := g\<rparr>"
  obtain mt1 w1 where d: "disconnect_all now ?mt w = (mt1, w1)" by (metis prod.exhaust)
  note c = disconnect_closed [OF order_refl d [unfolded disconnect_all_def]]
  show "wd_closed w' = wd_closed w @ open_fds mt" "fw_fd (mt_file_writer mt') < 0"
    using assms d c
    by (auto simp: stop_torrent_def finish_writer_def file_writer_finish_def open_fds_def split: prod.splits if_splits)
qed

lemma remove_closed:
  assumes "i < length (mg_torrents mg)"
  shows "mg_torrents (torrent_mgr_remove now (int i) mg) = take i (mg_torrents mg) @ drop (Suc i) (mg_torrents mg)"
    "wd_closed (mg_world (torrent_mgr_remove now (int i) mg)) = wd_closed (mg_world mg) @ open_fds (mg_torrents mg ! i)"
proof -
  obtain mt' w' where s: "stop_torrent now (mg_generation mg) (mg_torrents mg ! i) (mg_world mg) = (mt', w')"
    by (metis prod.exhaust)
  show "mg_torrents (torrent_mgr_remove now (int i) mg) = take i (mg_torrents mg) @ drop (Suc i) (mg_torrents mg)"
    "wd_closed (mg_world (torrent_mgr_remove now (int i) mg)) = wd_closed (mg_world mg) @ open_fds (mg_torrents mg ! i)"
    using assms stop_closed [OF s]
    by (auto simp: torrent_mgr_remove_def torrent_mgr_stop_def bad_index_def put_torrent_def s destroy_writer_def
        file_writer_destroy_def file_writer_finish_def Let_def split: prod.splits)
qed

lemma removals_closed:
  assumes "k \<le> length (mg_torrents mg)"
  shows "mg_torrents (foldl (\<lambda>mg i. torrent_mgr_remove now (int i) mg) mg (rev [k..<length (mg_torrents mg)])) = take k (mg_torrents mg) \<and>
    wd_closed (mg_world (foldl (\<lambda>mg i. torrent_mgr_remove now (int i) mg) mg (rev [k..<length (mg_torrents mg)]))) =
      wd_closed (mg_world mg) @ concat (map open_fds (rev (drop k (mg_torrents mg))))"
  using assms
proof (induction "length (mg_torrents mg) - k" arbitrary: k)
  case (Suc n)
  let ?f = "\<lambda>k. foldl (\<lambda>mg i. torrent_mgr_remove now (int i) mg) mg (rev [k..<length (mg_torrents mg)])"
  have k: "k < length (mg_torrents mg)" using Suc.hyps(2) by simp
  have h: "mg_torrents (?f (Suc k)) = take (Suc k) (mg_torrents mg)"
    "wd_closed (mg_world (?f (Suc k))) = wd_closed (mg_world mg) @ concat (map open_fds (rev (drop (Suc k) (mg_torrents mg))))"
    using Suc.hyps(1) [of "Suc k"] Suc.hyps(2) k by auto
  have "?f k = torrent_mgr_remove now (int k) (?f (Suc k))" using k by (simp add: upt_conv_Cons)
  then show ?case using remove_closed [of k "?f (Suc k)" now] h k by (simp add: Cons_nth_drop_Suc [symmetric] min_def)
qed simp

text \<open>
  A shutdown leaks nothing: whatever the torrents are doing, every open socket of a peer and every
  open file of a writer is closed exactly once, and no torrent is left.
\<close>

theorem shutdown_closes_all:
  "mg_torrents (torrent_mgr_shutdown now mg) = [] \<and>
   wd_closed (mg_world (torrent_mgr_shutdown now mg)) =
     wd_closed (mg_world mg) @ concat (map open_fds (rev (mg_torrents mg)))"
  using removals_closed [of 0 mg now] by (simp add: torrent_mgr_shutdown_def)

end
