(* ===== verification/Program.thy ===== *)
theory Program
  imports WebApi Session
begin

text \<open>
  The program as it runs: the event loop of \<open>src/main.c\<close> serves requests of the web interface and ticks the
  torrent manager in turn, while the workers run in their threads.
\<close>

section \<open>Requests\<close>

lemma error_keeps: "snd (torrent_start_error_response ae now i False mg) = mg"
  by (simp add: torrent_start_error_response_def Let_def)

lemma action_run:
  assumes "handle_api_action ae req mg = Some (resp, mg')"
  shows "mg' = mg \<or> (\<exists>action i. mg' = snd (run_action ae action i mg))"
proof (cases "rq_method req = HTTP_POST \<and> (\<exists>i p. path_number (drop 14 (rq_path req)) (- 1) = Some (i, p) \<and> \<not> (i < 0 \<or> p = [] \<or> hd p \<noteq> slash))")
  case False
  then show ?thesis using assms by (auto simp: handle_api_action_def split: if_splits option.splits prod.splits)
next
  case True
  then obtain i p where p: "rq_method req = HTTP_POST" "path_number (drop 14 (rq_path req)) (- 1) = Some (i, p)"
    "\<not> (i < 0 \<or> p = [] \<or> hd p \<noteq> slash)" by blast
  obtain r mg1 where a: "run_action ae (strncpy0 16 (drop 1 p)) i mg = (r, mg1)" by (metis prod.exhaust)
  then have "mg' = mg1"
    using assms p error_keeps [of ae "en_now (ae_env ae)" i mg1]
    by (simp add: handle_api_action_def Let_def split: if_splits)
  then show ?thesis using a by (metis snd_conv)
qed

lemma action_all:
  assumes ok: "manager_ok (en_os (ae_env ae)) mg" and fit: "fit (en_os (ae_env ae)) (origins mg)" and room: "room (Suc k) mg"
    and run: "mg' = snd (run_action ae action i mg)"
  shows "manager_ok (en_os (ae_env ae)) mg' \<and> (origins mg' = origins mg \<or> length (mg_torrents mg') < length (mg_torrents mg))"
proof (cases "bad_index i mg")
  case True
  then show ?thesis
    using ok run by (auto simp: run_action_def torrent_mgr_start_def torrent_mgr_stop_def torrent_mgr_remove_def)
next
  case False
  define n where "n = nat i"
  have n: "i = int n" "n < length (mg_torrents mg)" using False by (auto simp: n_def bad_index_def)
  obtain r mg1 where s: "torrent_mgr_start (ae_env ae) (ae_stat ae) (ae_strerror ae) i mg = (r, mg1)" by (metis prod.exhaust)
  note a = start_all [OF ok room s fit] stop_all [OF ok n(2) room refl] drop_entry_all [OF ok n(2) room refl]
  have "length (origins (torrent_mgr_remove now i mg)) < length (origins mg)" for now using a(9) n by simp
  then have "length (mg_torrents (torrent_mgr_remove now i mg)) < length (mg_torrents mg)" for now by simp
  then show ?thesis using run ok a s n(1) by (auto simp: run_action_def simp del: bytes_Cons)
qed

text \<open>A torrent that was just added is started, or removed again.\<close>

lemma started_all:
  assumes ok: "manager_ok (en_os (ae_env ae)) mg" and room: "room (Suc (Suc k)) mg"
    and ts: "mg_torrents mg = ts @ [mt]" and fresh: "fresh_entry t path mt"
    and run: "start_added ae cap unknown (int (length ts)) mg = (resp, mg')"
    and fit: "fit (en_os (ae_env ae)) (origins mg')"
  shows "manager_ok (en_os (ae_env ae)) mg'"
proof -
  obtain r mg1 where s: "torrent_mgr_start (ae_env ae) (ae_stat ae) (ae_strerror ae) (int (length ts)) mg = (r, mg1)"
    by (metis prod.exhaust)
  note n = start_new [OF ts fresh s]
  show ?thesis
  proof (cases "r < 0")
    case True
    have m: "manager_ok (en_os (ae_env ae)) mg1 \<and> origins mg1 = origins mg \<and> room (Suc k) mg1"
      by (rule start_all [OF ok room s]) (use True in simp)
    obtain mt' where "mg_torrents mg1 = ts @ [mt']" using n True by auto
    then have i: "length ts < length (mg_torrents mg1)" by simp
    show ?thesis
      using run s True drop_entry_all [OF _ i _ refl] m
      by (auto simp: start_added_def torrent_start_error_response_def Let_def split: if_splits option.splits)
  next
    case False
    then have g: "mg' = mg1" using run s by (simp add: start_added_def Let_def)
    have "origins mg1 = origins mg" using n False fresh ts by (auto simp: fresh_entry_def origin_def)
    then show ?thesis using start_all [OF ok room s] fit g by simp
  qed
qed

lemma added_all:
  assumes ok: "manager_ok (en_os (ae_env ae)) mg" and room: "room (Suc (Suc (Suc k))) mg"
    and wf: "torrent_wf t \<or> magnet \<and> t_num_pieces t = 0"
    and add: "torrent_mgr_add t path magnet uri mg = (idx, mg1)"
    and run: "(if idx < 0 then (reply, mg1) else start_added ae cap unknown idx mg1) = (resp, mg')"
    and fit: "fit (en_os (ae_env ae)) (origins mg')"
  shows "manager_ok (en_os (ae_env ae)) mg'"
proof -
  note a = add_all [OF ok room wf add] add_new [OF add]
  show ?thesis
  proof (cases "idx < 0")
    case True
    then show ?thesis using a(1) run ok by simp
  next
    case False
    have k: "manager_ok (en_os (ae_env ae)) mg1" "room (Suc (Suc k)) mg1" "idx = int (length (mg_torrents mg))"
      using a(1) unfolding if_not_P [OF False] by blast+
    obtain mt where m: "mg_torrents mg1 = mg_torrents mg @ [mt]" "fresh_entry t path mt"
      using a(2) unfolding if_not_P [OF False] by blast
    have "start_added ae cap unknown (int (length (mg_torrents mg))) mg1 = (resp, mg')"
      using run k(3) unfolding if_not_P [OF False] by blast
    from started_all [OF k(1,2) m this fit] show ?thesis .
  qed
qed

lemma raw_all:
  assumes ok: "manager_ok (en_os (ae_env ae)) mg" and room: "room (Suc (Suc (Suc k))) mg" and mem: "malloc_limit mem"
    and run: "(case torrent_mgr_add_raw mem data path mg of
      (idx, mg1) \<Rightarrow> if idx < 0 then (reply, mg1) else start_added ae cap unknown idx mg1) = (resp, mg')"
    and fit: "fit (en_os (ae_env ae)) (origins mg')"
  shows "manager_ok (en_os (ae_env ae)) mg'"
proof (cases "torrent_parse mem data")
  case None
  then show ?thesis using run ok by (simp add: torrent_mgr_add_raw_def)
next
  case (Some t)
  obtain idx mg1 where a: "torrent_mgr_add t path False None mg = (idx, mg1)" by (metis prod.exhaust)
  show ?thesis
    by (rule added_all [OF ok room _ a _ fit])
      (use torrent_parse_facts(1) [OF Some mem] run Some a in \<open>auto simp: torrent_mgr_add_raw_def\<close>)
qed

lemma magnet_all:
  assumes ok: "manager_ok (en_os (ae_env ae)) mg" and room: "room (Suc (Suc (Suc k))) mg"
    and add: "torrent_mgr_add_magnet mem junk uri path mg = Some (idx, mg1)"
    and run: "(if idx < 0 then (reply, mg1) else start_added ae cap unknown idx mg1) = (resp, mg')"
    and fit: "fit (en_os (ae_env ae)) (origins mg')"
  shows "manager_ok (en_os (ae_env ae)) mg'"
proof -
  consider "idx = - 1" "mg1 = mg" | t u where "torrent_mgr_add t path True u mg = (idx, mg1)" "t_num_pieces t = 0"
    using add by (auto simp: torrent_mgr_add_magnet_def magnet_torrent_def torrent_zero_def Let_def split: option.splits if_splits)
  then show ?thesis
  proof cases
    case 1
    then show ?thesis using run ok by simp
  next
    case 2
    then show ?thesis using added_all [OF ok room _ 2(1) run fit] by simp
  qed
qed

lemma request_all:
  assumes ok: "manager_ok (en_os (ae_env ae)) mg" and room: "room 3 mg" and mem: "malloc_limit (ae_mem ae)"
    and fit: "fit (en_os (ae_env ae)) (origins mg)" "fit (en_os (ae_env ae)) (origins mg')"
    and run: "api_handle ae r req mg = Some (resp, mg')"
  shows "manager_ok (en_os (ae_env ae)) mg'"
proof -
  have room3: "room (Suc (Suc (Suc 0))) mg" using room by (simp add: numeral_eq_Suc)
  consider "mg' = mg" | "r = AddRoute" | "r = UploadRoute" | "r = LocalRoute" | "r = ActionRoute"
    using run by (cases r) (auto simp: api_handle_def)
  then show ?thesis
  proof cases
    case 2
    then have h: "handle_api_add ae req mg = Some (resp, mg')" using run by (simp add: api_handle_def)
    consider "mg' = mg" | junk uri path idx mg1 body where "torrent_mgr_add_magnet (ae_mem ae) junk uri path mg = Some (idx, mg1)"
      "(if idx < 0 then (json_reply ae 400 body, mg1) else start_added ae 384 (bytes ''Unknown'') idx mg1) = (resp, mg')"
      using h by (fastforce simp: handle_api_add_def Let_def split: option.splits if_splits prod.splits)
    then show ?thesis
    proof cases
      case 1
      then show ?thesis using ok by simp
    next
      case 2
      then show ?thesis by (rule magnet_all [OF ok room3 _ _ fit(2)])
    qed
  next
    case 3
    then have "handle_api_upload ae req mg = (resp, mg')" using run by (simp add: api_handle_def)
    from upload_cases [OF this] show ?thesis using ok raw_all [OF ok room3 mem _ fit(2)] by blast
  next
    case 4
    then have "handle_api_local ae req mg = (resp, mg')" using run by (simp add: api_handle_def)
    from local_cases [OF this] show ?thesis using ok raw_all [OF ok room3 mem _ fit(2)] by blast
  next
    case 5
    then have "mg' = mg \<or> (\<exists>action i. mg' = snd (run_action ae action i mg))" using run action_run by (simp add: api_handle_def)
    then show ?thesis using ok action_all [OF ok fit(1)] room_less [OF room, of 1] by auto
  qed (use ok in simp)
qed

section \<open>Steps of the program\<close>

text \<open>A request that neither adds nor removes a torrent, between two ticks; the last generation is never handed out.\<close>

inductive program_step :: "kernel \<Rightarrow> manager \<Rightarrow> manager \<Rightarrow> bool" for os where
  engine: "engine_step os mg mg' \<Longrightarrow> program_step os mg mg'"
| request: "api_handle ae r req mg = Some (resp, mg') \<Longrightarrow> \<not> adds r \<Longrightarrow>
    length (mg_torrents mg') = length (mg_torrents mg) \<Longrightarrow> en_os (ae_env ae) = os \<Longrightarrow> mg_generation mg \<noteq> - 1 \<Longrightarrow>
    program_step os mg mg'"

text \<open>
  Any request, those that add and remove torrents included, or a torrent file that is added through the interface of
  the manager.  The torrents that the manager then has write to places of their own.
\<close>

inductive user_step :: "kernel \<Rightarrow> manager \<Rightarrow> manager \<Rightarrow> bool" for os where
  engine: "engine_step os mg mg' \<Longrightarrow> user_step os mg mg'"
| request: "api_handle ae r req mg = Some (resp, mg') \<Longrightarrow> en_os (ae_env ae) = os \<Longrightarrow> malloc_limit (ae_mem ae) \<Longrightarrow>
    room 3 mg \<Longrightarrow> fit os (origins mg') \<Longrightarrow> user_step os mg mg'"
| add: "torrent_mgr_add_raw mem data path mg = (i, mg') \<Longrightarrow> malloc_limit mem \<Longrightarrow> room 1 mg \<Longrightarrow> fit os (origins mg') \<Longrightarrow>
    user_step os mg mg'"

lemma user_step_all:
  assumes "user_step os mg mg'" "manager_ok os mg" "fit os (origins mg)"
  shows "manager_ok os mg' \<and> fit os (origins mg')"
  using assms(1)
proof cases
  case engine
  then show ?thesis using engine_step_all [OF engine assms(2)] assms(3) by (simp add: fit_def)
next
  case (request ae r req resp)
  then show ?thesis using request_all [of ae mg mg' r req resp] assms(2,3) by simp
next
  case (add mem data path i)
  show ?thesis
  proof (cases "torrent_parse mem data")
    case None
    then show ?thesis using add(1) assms by (simp add: torrent_mgr_add_raw_def)
  next
    case (Some t)
    then have a: "torrent_mgr_add t path False None mg = (i, mg')" using add(1) by (simp add: torrent_mgr_add_raw_def)
    have room: "room (Suc 0) mg" using add(3) by simp
    have wf: "torrent_wf t \<or> False \<and> t_num_pieces t = 0" using torrent_parse_facts(1) [OF Some add(2)] by simp
    show ?thesis using add_all [OF assms(2) room wf a] add(4) assms(2) by (simp split: if_splits)
  qed
qed

interpretation user_run: kept_invariant "user_step os" "\<lambda>mg. manager_ok os mg \<and> fit os (origins mg)" for os
  by unfold_locales (use user_step_all in blast)

text \<open>A request that leaves the list of torrents as long as it is leaves every torrent where it is.\<close>

lemma request_session:
  assumes run: "api_handle ae r req mg = Some (resp, mg')" "\<not> adds r" "length (mg_torrents mg') = length (mg_torrents mg)"
    and g: "mg_generation mg \<noteq> - 1" and ok: "session_ok (en_os (ae_env ae)) t path mg"
    and tgt: "sound_target (en_os (ae_env ae)) t path"
  shows "session_ok (en_os (ae_env ae)) t path mg'"
proof -
  have "mg' = mg \<or> (\<exists>action i. mg' = snd (run_action ae action i mg))"
    using run(1,2) action_run by (cases r) (auto simp: api_handle_def adds_def)
  then show ?thesis
  proof (elim disjE exE)
    fix action i assume a: "mg' = snd (run_action ae action i mg)"
    have m: "manager_ok (en_os (ae_env ae)) mg" "fit (en_os (ae_env ae)) (origins mg)"
      using ok session_fit [OF tgt] by (simp_all add: session_ok_def)
    show ?thesis using action_all [OF m room_one [OF g] a] run(3) ok by (simp add: session_ok_def)
  qed (use ok in simp)
qed

lemma step_session:
  assumes "program_step os mg mg'" "session_ok os t path mg" "sound_target os t path"
  shows "session_ok os t path mg'"
  using assms(1)
proof cases
  case engine
  then show ?thesis using engine_step_all [OF engine] assms(2) by (simp add: session_ok_def apart_def)
next
  case (request ae r req resp)
  then show ?thesis using request_session [OF request(1-3,5)] assms(2,3) by simp
qed

interpretation program_run: kept_invariant "program_step os" "\<lambda>mg. session_ok os t path mg \<and> sound_target os t path" for os t path
  by unfold_locales (use step_session in blast)

text \<open>A torrent file that was added to a fresh manager.\<close>

lemma add_session:
  assumes "torrent_mgr_add_raw mem data path (mgr_start socks fs) = (0, mg)" "torrent_parse mem data = Some t" "malloc_limit mem"
  shows "session_ok os t (take 511 (cstr path)) mg" "room 1 mg"
proof -
  have a: "torrent_mgr_add t path False None (mgr_start socks fs) = (0, mg)"
    using assms by (simp add: torrent_mgr_add_raw_def)
  have "room (Suc 1) (mgr_start socks fs)" by (simp add: room_def mgr_start_def)
  from add_all [OF mgr_start_ok this _ a] show "session_ok os t (take 511 (cstr path)) mg" "room 1 mg"
    using torrent_parse_facts(1) [OF assms(2,3)] by (simp_all add: session_ok_def mgr_start_def)
qed

section \<open>The demonstration run\<close>

definition demo_start_request :: http_request where
  "demo_start_request = \<lparr>rq_method = HTTP_POST, rq_path = bytes ''/api/torrents/0/start'', rq_query = [],
     rq_body = None, rq_content_type = []\<rparr>"

lemma demo_fit: "fit (en_os demo_env) [(Some demo_seed_torrent, take 511 (cstr (bytes ''/d'')))]"
  by (rule session_fit [OF demo_target])

lemma demo_started_ok:
  "manager_ok (en_os demo_env) demo_started \<and> origins demo_started = origins demo_added \<and> apart (origins demo_added)"
  "origins demo_added = [(Some demo_seed_torrent, take 511 (cstr (bytes ''/d'')))]"
proof -
  have s: "session_ok (en_os demo_env) demo_seed_torrent (take 511 (cstr (bytes ''/d''))) demo_added" "room 1 demo_added"
    using add_session [OF demo_add demo_seed_parse demo_limit] by blast+
  then show o: "origins demo_added = [(Some demo_seed_torrent, take 511 (cstr (bytes ''/d'')))]" by (simp add: session_ok_def)
  have "room (Suc 0) demo_added" using s(2) by simp
  from start_all [OF _ this demo_start(1)] show
    "manager_ok (en_os demo_env) demo_started \<and> origins demo_started = origins demo_added \<and> apart (origins demo_added)"
    using s(1) demo_fit by (simp add: session_ok_def apart_def)
qed

lemma demo_request_step: "program_step (en_os demo_env) demo_added demo_started" "user_step (en_os demo_env) demo_added demo_started"
proof -
  have p: "path_number (drop 14 (rq_path demo_start_request)) (- 1) = Some (0, bytes ''/start'')"
    by (simp add: demo_start_request_def is_digit_def)
  have e: "ae_env demo_api = demo_env" "ae_stat demo_api = (\<lambda>_. Some True)" "ae_strerror demo_api = (\<lambda>_. [])"
    by (simp_all add: demo_api_def)
  have r: "run_action demo_api (bytes ''start'') 0 demo_added = (0, demo_started)"
    using demo_start(1) by (simp add: run_action_def e del: bytes_Cons)
  have n: "strncpy0 16 (drop (Suc 0) (bytes ''/start'')) = bytes ''start''" "bytes ''/start'' \<noteq> []" "hd (bytes ''/start'') = slash"
    by (simp_all add: strncpy0_def)
  have m: "rq_method demo_start_request = HTTP_POST" by (simp add: demo_start_request_def)
  have "handle_api_action demo_api demo_start_request demo_added =
      Some (json_reply demo_api 200 (action_done_text (bytes ''start'') 0), demo_started)"
    unfolding handle_api_action_def p option.case m by (simp add: n r Let_def del: bytes_Cons)
  then have a: "api_handle demo_api ActionRoute demo_start_request demo_added =
      Some (json_reply demo_api 200 (action_done_text (bytes ''start'') 0), demo_started)"
    by (simp add: api_handle_def)
  have g: "mg_generation demo_added = 2"
    by (simp add: demo_added_def torrent_mgr_add_raw_def demo_seed_parse torrent_mgr_add_def mgr_start_def MAX_TORRENTS_def
        Let_def split: prod.split)
  show "program_step (en_os demo_env) demo_added demo_started"
    by (rule program_step.request [OF a]) (simp_all add: adds_def e g demo_start(2) demo_added)
  show "user_step (en_os demo_env) demo_added demo_started"
    by (rule user_step.request [OF a]) (use demo_fit in \<open>simp_all add: e ae_mem_def room_def g demo_limit demo_started_ok demo_env_def\<close>)
qed

lemma demo_add_step: "user_step (en_os demo_env) (mgr_start demo_socks demo_disk) demo_added"
  by (rule user_step.add [OF demo_add demo_limit]) (use demo_fit demo_started_ok(2) in \<open>simp_all add: room_def mgr_start_def\<close>)

end
