(* ===== verification/Startup.thy ===== *)
theory Startup
  imports AppLog ConsoleFiles
begin

text \<open>
  Messages of the user interface (\<open>src/ui.c\<close>) and the helpers of \<open>src/main.c\<close> at the start of the program:
  the clock, the language of notifications, the address of the console and the choice of a storage.
  A formatted message is given by its text.
\<close>

section \<open>Messages\<close>

text \<open>\<open>ui_out\<close> is what was printed, to the kernel log, to the standard output or to the standard error.\<close>

datatype channel = Klog | Stdout | Stderr

record ui_state =
  ui_klog :: bool
  ui_out :: "(channel \<times> byte list) list"
  ui_file :: log_state

definition ui_print :: "channel \<Rightarrow> byte list \<Rightarrow> ui_state \<Rightarrow> ui_state" where
  "ui_print s text ui = ui\<lparr>ui_out := ui_out ui @ [(s, text)]\<rparr>"

definition ui_write :: "log_env \<Rightarrow> string \<Rightarrow> byte list \<Rightarrow> ui_state \<Rightarrow> ui_state" where
  "ui_write le level message ui = ui\<lparr>ui_file := app_log_write le (bytes level) (Some message) (ui_file ui)\<rparr>"

definition ui_init :: "log_env \<Rightarrow> ui_state \<Rightarrow> ui_state" where
  "ui_init le ui =
     ui_write le ''INFO'' (bytes ''PS5Torrent v2.0.4 session started'')
       ((ui_print Klog (bytes ''=== PS5Torrent Initializing ==='' @ [10]) ui)\<lparr>ui_klog := True\<rparr>)"

definition ui_log :: "log_env \<Rightarrow> byte list \<Rightarrow> ui_state \<Rightarrow> ui_state" where
  "ui_log le text ui =
     (let ui = ui_write le ''INFO'' (take 1023 text) ui
      in if ui_klog ui then ui_print Klog (take 511 text) (ui_print Klog (bytes ''[PS5T] '') ui)
         else ui_print Stdout [10] (ui_print Stdout text ui))"

definition ui_error :: "log_env \<Rightarrow> byte list \<Rightarrow> ui_state \<Rightarrow> ui_state" where
  "ui_error le text ui =
     (let buf = take 511 text; ui = ui_write le ''ERROR'' buf ui
      in if ui_klog ui then ui_print Klog (bytes ''[PS5T] ERROR: '' @ buf @ [10]) ui
         else ui_print Stderr (bytes ''ERROR: '' @ buf @ [10]) ui)"

definition ui_success :: "log_env \<Rightarrow> byte list \<Rightarrow> ui_state \<Rightarrow> ui_state" where
  "ui_success le text ui =
     (let buf = take 511 text; ui = ui_write le ''SUCCESS'' buf ui
      in if ui_klog ui then ui_print Klog (bytes ''[PS5T] SUCCESS: '' @ buf @ [10]) ui
         else ui_print Stdout (bytes ''SUCCESS: '' @ buf @ [10]) ui)"

text \<open>
  \<open>send\<close> is the system service: it gets the message, which has 3075 bytes with its NUL, and answers with
  a code, whose hexadecimal digits are \<open>hex\<close>.
\<close>

definition ui_notify :: "(byte list \<Rightarrow> int) \<Rightarrow> (int \<Rightarrow> byte list) \<Rightarrow> log_env \<Rightarrow> byte list \<Rightarrow> ui_state \<Rightarrow> ui_state" where
  "ui_notify send hex le text ui =
     (let result = send (take 3074 text)
      in if result \<noteq> 0
         then ui_error le (bytes ''Could not display PS5 notification (0x'' @ hex result @ bytes '')'') ui else ui)"

definition localized :: "byte list \<Rightarrow> 'a \<Rightarrow> 'a \<Rightarrow> 'a \<Rightarrow> 'a" where
  "localized language pt en es =
     (if take 2 language = bytes ''pt'' then pt else if take 2 language = bytes ''es'' then es else en)"

section \<open>Clock, address, storage\<close>

text \<open>\<open>clock_gettime\<close> gives seconds and nanoseconds.\<close>

definition get_time_ms :: "int \<Rightarrow> int \<Rightarrow> u64" where
  "get_time_ms sec nsec = word_of_int sec * 1000 + word_of_int (nsec div 1000000)"

definition usable_ip :: "u32 \<Rightarrow> bool" where
  "usable_ip ip \<longleftrightarrow> drop_bit 24 ip \<noteq> 127 \<and> drop_bit 16 ip \<noteq> 0xA9FE \<and> ip \<noteq> 0"

definition dotted :: "u32 \<Rightarrow> byte list" where
  "dotted ip = dec (unat (drop_bit 24 ip)) @ bytes ''.'' @ dec (unat (drop_bit 16 ip AND 0xFF)) @ bytes ''.'' @
     dec (unat (drop_bit 8 ip AND 0xFF)) @ bytes ''.'' @ dec (unat (ip AND 0xFF))"

text \<open>
  \<open>ifaces\<close> are the addresses of the interfaces in host order, as \<open>ioctl\<close> lists them, \<open>None\<close> where \<open>socket\<close>
  or \<open>ioctl\<close> fails; the result is the code and the string in the buffer of 64 bytes.
\<close>

definition get_local_ip :: "u32 list option \<Rightarrow> int \<times> byte list" where
  "get_local_ip ifaces =
     (case ifaces of
        None \<Rightarrow> (- 1, bytes ''192.168.x.x'')
      | Some ips \<Rightarrow>
          (case find usable_ip ips of
             None \<Rightarrow> (- 1, bytes ''192.168.x.x'')
           | Some ip \<Rightarrow> (0, dotted ip)))"

text \<open>The storage that the log names: the first that can be written, empty without one.\<close>

definition detected_storage :: "console \<Rightarrow> (byte list \<Rightarrow> bool option) \<Rightarrow> byte list" where
  "detected_storage cn readonly =
     foldl (\<lambda>chosen p.
         let exists = storage_path_exists cn (sp_path p);
             writable = exists \<and> storage_path_is_writable cn readonly (sp_path p)
         in if writable \<and> chosen = [] then take 255 (sp_path p) else chosen)
       [] storage_paths_get"

section \<open>Properties\<close>

text \<open>
  The clock neither wraps nor runs backwards: for times of less than 500 million years the result is the number
  of whole milliseconds, so that a later time has no smaller value.
\<close>

theorem clock_monotone:
  assumes "0 \<le> s" "s \<le> s'" "s' < 2 ^ 54" "0 \<le> n" "n < 10 ^ 9" "0 \<le> n'" "n' < 10 ^ 9" "s < s' \<or> n \<le> n'"
  shows "get_time_ms s n \<le> get_time_ms s' n' \<and> uint (get_time_ms s n) = s * 1000 + n div 1000000"
proof -
  have u: "uint (get_time_ms s n) = s * 1000 + n div 1000000" if "0 \<le> s" "s < 2 ^ 54" "0 \<le> n" "n < 10 ^ 9" for s n
  proof -
    have "get_time_ms s n = word_of_int (s * 1000 + n div 1000000)" by (simp add: get_time_ms_def)
    moreover have "0 \<le> s * 1000 + n div 1000000" "s * 1000 + n div 1000000 < 2 ^ 64" using that by auto
    ultimately show ?thesis by (simp only: uint_word_of_int) (simp add: take_bit_int_eq_self_iff)
  qed
  have "s * 1000 + n div 1000000 \<le> s' * 1000 + n' div 1000000"
  proof (cases "s < s'")
    case True
    moreover have "n div 1000000 \<le> 999" "0 \<le> n' div 1000000" using assms by auto
    ultimately show ?thesis by linarith
  next
    case False
    then show ?thesis using assms zdiv_mono1 [of n n' 1000000] by auto
  qed
  then show ?thesis using u [of s n] u [of s' n'] assms by (simp add: word_le_def)
qed

theorem clock_monotone_witness:
  "get_time_ms 5 999999999 \<le> get_time_ms 6 1 \<and> uint (get_time_ms 5 999999999) = 5999"
  using clock_monotone [of 5 6 999999999 1] by simp

text \<open>The storage that is named at the start can be written, and there is one if any can be written.\<close>

theorem detected_is_writable:
  "(case detected_storage cn readonly of
      [] \<Rightarrow> \<forall>p \<in> set storage_paths_get. \<not> storage_path_is_writable cn readonly (sp_path p)
    | c # cs \<Rightarrow> storage_path_is_writable cn readonly (c # cs) \<and> c # cs \<in> sp_path ` set storage_paths_get)"
proof -
  have ex: "storage_path_is_writable cn readonly p \<Longrightarrow> storage_path_exists cn p" for p
    by (simp add: storage_path_is_writable_def)
  have short: "\<forall>p \<in> set storage_paths_get. sp_path p \<noteq> [] \<and> length (sp_path p) \<le> 255"
    by (simp add: storage_paths_get_def storage_entry_def)
  define f where "f = (\<lambda>chosen (p :: storage_path). let exists = storage_path_exists cn (sp_path p);
             writable = exists \<and> storage_path_is_writable cn readonly (sp_path p)
         in if writable \<and> chosen = [] then take 255 (sp_path p) else chosen)"
  have "(foldl f [] ps = [] \<longrightarrow> (\<forall>p \<in> set ps. \<not> storage_path_is_writable cn readonly (sp_path p))) \<and>
      (foldl f [] ps \<noteq> [] \<longrightarrow> storage_path_is_writable cn readonly (foldl f [] ps) \<and> foldl f [] ps \<in> sp_path ` set ps)"
    if "\<forall>p \<in> set ps. sp_path p \<noteq> [] \<and> length (sp_path p) \<le> 255" for ps
    using that
  proof (induction ps rule: rev_induct)
    case (snoc p ps)
    have "f c p = (if storage_path_is_writable cn readonly (sp_path p) \<and> c = [] then sp_path p else c)" for c
      using snoc.prems ex [of "sp_path p"] by (auto simp: f_def Let_def)
    then show ?case using snoc by auto
  qed simp
  from this [OF short] show ?thesis
    unfolding detected_storage_def f_def [symmetric] by (cases "foldl f [] storage_paths_get") simp_all
qed

end
