(* ===== verification/Ps5.thy ===== *)
theory Ps5
  imports TileState Startup
begin

text \<open>
  The console side of the program: \<open>src/ps5_tile.c\<close> (installation of the media tile), \<open>src/ps5_jailbreak.c\<close>
  (credentials of the process) and \<open>src/ps5_browser.c\<close>.  The system services are parameters: records hold the
  answers that they give in one call.  The messages of the tile and of the browser are not modelled.
\<close>

section \<open>The media tile\<close>

definition WORK_DIR :: "byte list" where "WORK_DIR = bytes ''/data/PS5Torrent''"
definition TILE_VERSION :: "byte list" where "TILE_VERSION = bytes ''02.000.004''"
definition TITLE_ID :: "byte list" where "TITLE_ID = bytes ''HBTR00001''"
definition PACKAGE :: "byte list" where "PACKAGE = WORK_DIR @ bytes ''/PS5Torrent.pkg''"
definition APP_DIR :: "byte list" where "APP_DIR = bytes ''/user/app/'' @ TITLE_ID"
definition SYSTEM_APP_DIR :: "byte list" where "SYSTEM_APP_DIR = bytes ''/system_ex/app/'' @ TITLE_ID"
definition APPMETA_DIR :: "byte list" where "APPMETA_DIR = bytes ''/system_data/priv/appmeta/'' @ TITLE_ID"
definition VERSION_MARKER :: "byte list" where "VERSION_MARKER = WORK_DIR @ bytes ''/installed-version''"

text \<open>\<open>tw_services\<close> counts the initialisations of the installer that were not terminated.\<close>

record tile_world =
  tw_pending :: bool
  tw_files :: "byte list \<Rightarrow> byte list option"
  tw_auth :: u64
  tw_services :: int

text \<open>
  \<open>tl_stat\<close> is the directory as it is at the call, \<open>tl_stat_installed\<close> after the installer was called;
  \<open>tl_mkdir\<close> is true also where the directory exists.
\<close>

record tile_env =
  tl_stat :: "byte list \<Rightarrow> (bool \<times> int) option"
  tl_stat_installed :: "byte list \<Rightarrow> (bool \<times> int) option"
  tl_segment :: "byte list \<Rightarrow> byte list list"
  tl_package :: "byte list"
  tl_initialize :: int
  tl_mkdir :: bool
  tl_fopen :: bool
  tl_taken :: nat
  tl_fclose :: bool
  tl_rename :: bool
  tl_install :: int
  tl_marker_open :: bool
  tl_marker_taken :: nat
  tl_marker_close :: bool

definition current_tile :: "tile_env \<Rightarrow> tile_world \<Rightarrow> bool" where
  "current_tile te w \<longleftrightarrow>
     tile_state_version (tl_stat te) (tl_segment te) (tw_files w) APP_DIR APPMETA_DIR VERSION_MARKER TILE_VERSION \<or>
     tile_state_version (tl_stat te) (tl_segment te) (tw_files w) SYSTEM_APP_DIR APPMETA_DIR VERSION_MARKER TILE_VERSION"

definition ps5_tile_poll :: "(byte list \<Rightarrow> (bool \<times> int) option) \<Rightarrow> tile_env \<Rightarrow> tile_world \<Rightarrow> int \<times> tile_world" where
  "ps5_tile_poll stat te w =
     (if \<not> tw_pending w then (0, w)
      else if \<not> tile_state_present stat APP_DIR \<and> \<not> tile_state_present stat SYSTEM_APP_DIR then (1, w)
      else (0, w\<lparr>tw_files := snd (tile_state_write_marker (tl_marker_open te) (tl_marker_taken te) (tl_marker_close te)
                   VERSION_MARKER TILE_VERSION (tw_files w)), tw_pending := False\<rparr>))"

text \<open>The package is written beside its place and renamed.\<close>

definition write_package :: "tile_env \<Rightarrow> tile_world \<Rightarrow> bool \<times> tile_world" where
  "write_package te w =
     (if \<not> tl_mkdir te \<or> \<not> tl_fopen te then (False, w)
      else if tl_taken te \<noteq> length (tl_package te) \<or> \<not> tl_fclose te \<or> \<not> tl_rename te
      then (False, w\<lparr>tw_files := (tw_files w)(PACKAGE @ bytes ''.tmp'' := None)\<rparr>)
      else (True, w\<lparr>tw_files := (tw_files w)(PACKAGE @ bytes ''.tmp'' := None, PACKAGE \<mapsto> tl_package te)\<rparr>))"

text \<open>From the initialisation to the label \<open>done\<close>.\<close>

definition install_package :: "tile_env \<Rightarrow> tile_world \<Rightarrow> int \<times> tile_world" where
  "install_package te w =
     (case write_package te w of
        (False, w) \<Rightarrow> (- 1, w)
      | (True, w) \<Rightarrow>
          if tl_install te \<noteq> 0 then (- 1, w)
          else let w = snd (ps5_tile_poll (tl_stat_installed te) te (w\<lparr>tw_pending := True\<rparr>))
               in (if tw_pending w then 1 else 0, w))"

definition INSTALL_AUTH :: u64 where "INSTALL_AUTH = 0x4801000000000013"

definition ps5_tile_install :: "tile_env \<Rightarrow> tile_world \<Rightarrow> int \<times> tile_world" where
  "ps5_tile_install te w =
     (if current_tile te w then (0, w)
      else let previous_auth = tw_auth w; w = w\<lparr>tw_auth := INSTALL_AUTH\<rparr>
      in if tl_initialize te \<noteq> 0 then (- 1, w\<lparr>tw_auth := previous_auth\<rparr>)
         else (case install_package te (w\<lparr>tw_services := tw_services w + 1\<rparr>) of
                 (r, w) \<Rightarrow> (r, w\<lparr>tw_services := tw_services w - 1, tw_auth := previous_auth\<rparr>)))"

section \<open>Credentials\<close>

record credentials =
  cr_uid :: nat
  cr_ruid :: nat
  cr_svuid :: nat
  cr_rgid :: nat
  cr_svgid :: nat
  cr_root :: int
  cr_jail :: int
  cr_authid :: u64
  cr_caps :: "byte list"
  cr_attrs :: "byte list"

text \<open>One call: whether the kernel takes it, and what it then does.\<close>

definition kernel_call :: "bool \<Rightarrow> (credentials \<Rightarrow> credentials) \<Rightarrow> int \<times> credentials \<Rightarrow> int \<times> credentials" where
  "kernel_call taken f s = (if taken then (fst s, f (snd s)) else (- 1, snd s))"

text \<open>
  \<open>k\<close> says which of the calls succeed, by their order in the code; \<open>root\<close> is the root vnode, \<open>0\<close> for
  none, \<open>proc\<close> whether the process is found.
\<close>

definition ps5_request_jailbreak :: "bool \<Rightarrow> int \<Rightarrow> (nat \<Rightarrow> bool) \<Rightarrow> credentials \<Rightarrow> int \<times> credentials" where
  "ps5_request_jailbreak proc root k c =
     (if \<not> proc then (- 1, c)
      else let s = kernel_call (k 0) (cr_uid_update (\<lambda>_. 0)) (0, c);
               s = kernel_call (k 1) (cr_ruid_update (\<lambda>_. 0)) s;
               s = kernel_call (k 2) (cr_svuid_update (\<lambda>_. 0)) s;
               s = kernel_call (k 3) (cr_rgid_update (\<lambda>_. 0)) s;
               s = kernel_call (k 4) (cr_svgid_update (\<lambda>_. 0)) s;
               s = (if root = 0 then (- 1, snd s)
                    else kernel_call (k 6) (cr_jail_update (\<lambda>_. root)) (kernel_call (k 5) (cr_root_update (\<lambda>_. root)) s));
               s = kernel_call (k 7) (cr_authid_update (\<lambda>_. INSTALL_AUTH)) s;
               s = kernel_call (k 8) (cr_caps_update (\<lambda>_. replicate 16 0xFF)) s
           in if \<not> k 9 then (- 1, snd s)
              else kernel_call (k 10) (\<lambda>c. c\<lparr>cr_attrs := (cr_attrs c)[0 := cr_attrs c ! 0 OR 0x80]\<rparr>) s)"

section \<open>The browser\<close>

text \<open>The flag \<open>user_service_initialized\<close>, and the initialisations of the service not yet terminated.\<close>

record browser =
  br_initialized :: bool
  br_services :: int

definition ps5_browser_init :: "int \<Rightarrow> browser \<Rightarrow> int \<times> browser" where
  "ps5_browser_init result b =
     (if result = 0 then (0, b\<lparr>br_initialized := True, br_services := br_services b + 1\<rparr>) else (result, b))"

definition ps5_browser_open :: "int \<Rightarrow> byte list option \<Rightarrow> browser \<Rightarrow> int" where
  "ps5_browser_open launched url b =
     (case url of None \<Rightarrow> - 1
      | Some u \<Rightarrow> if u = [] \<or> \<not> br_initialized b then - 1 else launched)"

definition ps5_browser_open_tile :: "int \<Rightarrow> int \<Rightarrow> browser \<Rightarrow> int" where
  "ps5_browser_open_tile user launched b =
     (if \<not> br_initialized b then - 1 else if user \<noteq> 0 then user else if launched < 0 then launched else 0)"

definition ps5_browser_shutdown :: "browser \<Rightarrow> browser" where
  "ps5_browser_shutdown b =
     (if \<not> br_initialized b then b else b\<lparr>br_services := br_services b - 1, br_initialized := False\<rparr>)"

section \<open>Properties\<close>


definition demo_tile_env :: tile_env where
  "demo_tile_env = \<lparr>tl_stat = (\<lambda>_. None), tl_stat_installed = (\<lambda>_. None), tl_segment = map (\<lambda>b. [b]), tl_package = [1, 2, 3],
     tl_initialize = 0, tl_mkdir = True, tl_fopen = True, tl_taken = 3, tl_fclose = True, tl_rename = True, tl_install = 0,
     tl_marker_open = True, tl_marker_taken = 10, tl_marker_close = True\<rparr>"

definition demo_tile :: "bool \<Rightarrow> tile_world" where
  "demo_tile pending = \<lparr>tw_pending = pending, tw_files = Map.empty, tw_auth = 7, tw_services = 0\<rparr>"


text \<open>
  C37.  A tile is installed once: when the program sees a pending installation appear in a directory of
  applications and can write its marker, then a later start of the program, with the same files in place, finds
  the tile and leaves everything as it is, instead of installing the package again.
\<close>

theorem installed_tile_kept:
  assumes "tw_pending w" "ps5_tile_poll stat te w = (0, w')" "cuts (tl_segment te')" "tl_stat te' = stat"
    and "tl_marker_open te" "tl_marker_taken te = length TILE_VERSION" "tl_marker_close te"
  shows "ps5_tile_install te' w' = (0, w')"
proof -
  have v: "TILE_VERSION \<noteq> []" "length TILE_VERSION < 8192" by (simp_all add: TILE_VERSION_def)
  have p: "tile_state_present stat APP_DIR \<or> tile_state_present stat SYSTEM_APP_DIR"
    and f: "tile_state_write_marker True (length TILE_VERSION) True VERSION_MARKER TILE_VERSION (tw_files w) = (0, tw_files w')"
    using assms(1,2,5-7) by (auto simp: ps5_tile_poll_def tile_state_write_marker_def split: if_splits)
  have "tile_state_version stat (tl_segment te') (tw_files w') d APPMETA_DIR VERSION_MARKER TILE_VERSION"
    if "tile_state_present stat d" for d
    by (rule marker_roundtrip [OF assms(3) v that f])
  then have "current_tile te' w'" using p assms(4) by (auto simp: current_tile_def)
  then show ?thesis by (simp add: ps5_tile_install_def)
qed

theorem installed_tile_kept_witness:
  "\<exists>w'. ps5_tile_poll (\<lambda>_. Some (True, 7)) demo_tile_env (demo_tile True) = (0, w') \<and>
     ps5_tile_install (demo_tile_env\<lparr>tl_stat := (\<lambda>_. Some (True, 7))\<rparr>) w' = (0, w')"
proof -
  obtain w' where r: "ps5_tile_poll (\<lambda>_. Some (True, 7)) demo_tile_env (demo_tile True) = (0, w')"
    by (simp add: ps5_tile_poll_def tile_state_present_def has_file_def joined_path_def demo_tile_def APP_DIR_def TITLE_ID_def)
  have "ps5_tile_install (demo_tile_env\<lparr>tl_stat := (\<lambda>_. Some (True, 7))\<rparr>) w' = (0, w')"
    by (rule installed_tile_kept [OF _ r]) (simp_all add: demo_tile_env_def demo_tile_def cuts_bytes TILE_VERSION_def)
  then show ?thesis using r by blast
qed

lemma call_zero: "fst (kernel_call taken f s) = 0 \<longleftrightarrow> taken \<and> fst s = 0"
  by (simp add: kernel_call_def)

lemma call_done: "taken \<Longrightarrow> kernel_call taken f s = (fst s, f (snd s))"
  by (simp add: kernel_call_def)

text \<open>
  The credentials are complete exactly if success is reported: then every identity is that of the
  superuser, the process sees the whole file system, and of its attributes only one bit was added.
\<close>

theorem jailbreak_complete:
  assumes "ps5_request_jailbreak proc root k c = (0, c')"
  shows "c' = c\<lparr>cr_uid := 0, cr_ruid := 0, cr_svuid := 0, cr_rgid := 0, cr_svgid := 0, cr_root := root, cr_jail := root,
      cr_authid := INSTALL_AUTH, cr_caps := replicate 16 0xFF, cr_attrs := (cr_attrs c)[0 := cr_attrs c ! 0 OR 0x80]\<rparr> \<and>
    root \<noteq> 0 \<and> list_all k [0..<11]"
proof -
  have z: "fst (ps5_request_jailbreak proc root k c) = 0" using assms by simp
  then have p: "proc" "root \<noteq> 0" by (auto simp: ps5_request_jailbreak_def Let_def call_zero split: if_splits)
  have a: "k 0" "k 1" "k 2" "k 3" "k 4" "k 5" "k 6" "k 7" "k 8" "k 9" "k 10"
    using z p by (simp_all add: ps5_request_jailbreak_def Let_def call_zero split: if_splits)
  have "list_all k [0..<11]" using a by (simp add: upt_conv_Cons numeral_eq_Suc)
  moreover have "c' = snd (ps5_request_jailbreak proc root k c)" using assms by simp
  ultimately show ?thesis using p a by (simp add: ps5_request_jailbreak_def Let_def call_done)
qed

end
