(* ===== verification/ManagerApi.thy ===== *)
theory ManagerApi
  imports TorrentMgr
begin

text \<open>
  The table of torrents that \<open>include/torrent_mgr.h\<close> promises, whatever stands behind it: an index is the
  position in a list, a removal closes the gap, a search finds the first torrent with a digest.
  The manager of \<open>src/torrent_mgr.c\<close> and the one of \<open>src/torrent_mgr_libtorrent.cpp\<close> are both interpretations.
\<close>

section \<open>The interface\<close>

text \<open>The list without its element at an index of the caller, unchanged for a bad index.\<close>

definition delete_at :: "int \<Rightarrow> 'a list \<Rightarrow> 'a list" where
  "delete_at i xs = (if i < 0 \<or> int (length xs) \<le> i then xs else take (nat i) xs @ drop (Suc (nat i)) xs)"

lemma length_delete [simp]:
  "length (delete_at i xs) = (if i < 0 \<or> int (length xs) \<le> i then length xs else length xs - 1)"
  by (auto simp: delete_at_def)

lemma nth_delete:
  assumes "0 \<le> i" "i < int (length xs)" "j < length xs - 1"
  shows "delete_at i xs ! j = (if j < nat i then xs ! j else xs ! Suc j)"
  using assms by (auto simp: delete_at_def nth_append)

lemma delete_last: "delete_at (int (length xs)) (xs @ [x]) = xs"
  by (simp add: delete_at_def)

text \<open>The first position with a property.\<close>

definition first_index :: "('a \<Rightarrow> bool) \<Rightarrow> 'a list \<Rightarrow> int" where
  "first_index P xs = (case find (\<lambda>i. P (xs ! i)) [0..<length xs] of None \<Rightarrow> - 1 | Some i \<Rightarrow> int i)"

lemma first_none: "first_index P xs = - 1 \<longleftrightarrow> (\<forall>x \<in> set xs. \<not> P x)"
proof -
  have "find (\<lambda>i. P (xs ! i)) [0..<length xs] = None \<longleftrightarrow> (\<forall>x \<in> set xs. \<not> P x)"
    by (auto simp: find_None_iff) (metis in_set_conv_nth)
  then show ?thesis by (auto simp: first_index_def split: option.split)
qed

lemma first_some:
  assumes "first_index P xs = int i"
  shows "i < length xs \<and> P (xs ! i) \<and> (\<forall>j < i. \<not> P (xs ! j))"
proof -
  have "find (\<lambda>i. P (xs ! i)) [0..<length xs] = Some i"
    using assms by (auto simp: first_index_def split: option.splits)
  then show ?thesis by (auto simp: find_Some_iff)
qed

locale torrent_table =
  fixes table :: "'s \<Rightarrow> 'e list"
    and good :: "'s \<Rightarrow> bool"
    and hash_of :: "'e \<Rightarrow> byte list"
    and count_of :: "'s \<Rightarrow> nat"
    and find_hash :: "byte list \<Rightarrow> 's \<Rightarrow> int"
    and remove_at :: "int \<Rightarrow> 's \<Rightarrow> 's"
  assumes count_table: "good s \<Longrightarrow> count_of s = length (table s)"
    and find_table: "good s \<Longrightarrow> find_hash h s = first_index (\<lambda>e. take 20 (hash_of e) = take 20 h) (table s)"
    and remove_good: "good s \<Longrightarrow> good (remove_at i s)"
    and remove_table: "good s \<Longrightarrow> table (remove_at i s) = delete_at i (table s)"
begin

lemma found:
  assumes "good s" "find_hash h s = int i"
  shows "i < count_of s \<and> take 20 (hash_of (table s ! i)) = take 20 h"
  using first_some [of _ "table s" i] assms by (auto simp: find_table count_table)

lemma not_found:
  "good s \<Longrightarrow> find_hash h s = - 1 \<longleftrightarrow> (\<forall>e \<in> set (table s). take 20 (hash_of e) \<noteq> take 20 h)"
  by (simp add: find_table first_none)

text \<open>A torrent with a digest of its own that is removed is not found again.\<close>

lemma removed_not_found:
  assumes "good s" "i < count_of s"
    and own: "\<forall>j < count_of s. j \<noteq> i \<longrightarrow> take 20 (hash_of (table s ! j)) \<noteq> take 20 h"
  shows "find_hash h (remove_at (int i) s) = - 1"
proof -
  have "take 20 (hash_of (delete_at (int i) (table s) ! j)) \<noteq> take 20 h" if "j < length (table s) - 1" for j
    using that assms by (auto simp: count_table nth_delete)
  then show ?thesis
    using assms by (auto simp: not_found remove_good remove_table in_set_conv_nth count_table)
qed

text \<open>Removing from the last index down empties the table.\<close>

lemma remove_all_table:
  "good s \<Longrightarrow> n \<le> length (table s) \<Longrightarrow>
   good (foldl (\<lambda>s i. remove_at (int i) s) s (rev [length (table s) - n..<length (table s)])) \<and>
   table (foldl (\<lambda>s i. remove_at (int i) s) s (rev [length (table s) - n..<length (table s)])) =
     take (length (table s) - n) (table s)"
proof (induction n)
  case (Suc n)
  let ?m = "length (table s) - Suc n"
  define s1 where "s1 = foldl (\<lambda>s i. remove_at (int i) s) s (rev [Suc ?m..<length (table s)])"
  have e: "Suc ?m = length (table s) - n" using Suc.prems by simp
  have s1: "good s1" "table s1 = take (Suc ?m) (table s)" using Suc by (simp_all add: s1_def e)
  have "[?m..<length (table s)] = ?m # [Suc ?m..<length (table s)]" using Suc.prems by (simp add: upt_conv_Cons)
  then have f: "foldl (\<lambda>s i. remove_at (int i) s) s (rev [?m..<length (table s)]) = remove_at (int ?m) s1"
    by (simp add: s1_def)
  have "table (remove_at (int ?m) s1) = take ?m (table s)"
    using s1 Suc.prems by (simp add: remove_table delete_at_def nat_diff_distrib flip: of_nat_Suc of_nat_diff)
  then show ?case using f s1 remove_good by simp
qed simp

lemma remove_all:
  assumes "good s"
  shows "good (foldl (\<lambda>s i. remove_at (int i) s) s (rev [0..<count_of s]))"
    "table (foldl (\<lambda>s i. remove_at (int i) s) s (rev [0..<count_of s])) = []"
  using remove_all_table [OF assms, of "length (table s)"] by (simp_all add: count_table assms)

end

section \<open>The manager of the program\<close>

lemma stop_table:
  "mg_torrents (torrent_mgr_stop now i mg) =
     (if bad_index i mg then mg_torrents mg
      else (mg_torrents mg)[nat i := fst (stop_torrent now (mg_generation mg) (mg_torrents mg ! nat i) (mg_world mg))])"
  by (simp add: torrent_mgr_stop_def put_torrent_def)

lemma remove_mgr_table: "mg_torrents (torrent_mgr_remove now i mg) = delete_at i (mg_torrents mg)"
proof (cases "bad_index i mg")
  case False
  then have "mg_torrents (torrent_mgr_remove now i mg) =
      take (nat i) (mg_torrents (torrent_mgr_stop now i mg)) @ drop (Suc (nat i)) (mg_torrents (torrent_mgr_stop now i mg))"
    by (simp add: torrent_mgr_remove_def Let_def split: prod.split)
  then show ?thesis using False by (simp add: stop_table delete_at_def bad_index_def)
qed (simp add: torrent_mgr_remove_def delete_at_def bad_index_def)

interpretation mgr_table: torrent_table mg_torrents "\<lambda>_. True" mt_info_hash torrent_mgr_count torrent_mgr_find
    "torrent_mgr_remove now" for now
  by unfold_locales (simp_all add: torrent_mgr_count_def torrent_mgr_find_def first_index_def remove_mgr_table)

text \<open>
  A torrent that is removed is gone: its digest is no longer found, unless another torrent has it, and the others keep
  their order.
\<close>

theorem removed_is_gone:
  assumes "i < torrent_mgr_count mg"
    "\<forall>j < torrent_mgr_count mg. j \<noteq> i \<longrightarrow> take 20 (mt_info_hash (mg_torrents mg ! j)) \<noteq> take 20 h"
  shows "torrent_mgr_find h (torrent_mgr_remove now (int i) mg) = - 1 \<and>
    mg_torrents (torrent_mgr_remove now (int i) mg) = take i (mg_torrents mg) @ drop (Suc i) (mg_torrents mg)"
  using mgr_table.removed_not_found [OF TrueI assms] mgr_table.remove_table [OF TrueI, of now "int i" mg] assms(1)
  by (simp add: torrent_mgr_count_def delete_at_def)

end
