(* ===== verification/LtApi.thy ===== *)
theory LtApi
  imports Complex_Main Prelude
begin

text \<open>
  What the two programs that are built on libtorrent use of that library.  The library is not part of the
  repository: its calls are the fields of a record that is an argument of every definition, over a world
  \<open>'w\<close> (the session with its threads), handles \<open>'h\<close> and the part \<open>'x\<close> of its parameters that the
  programs never look at.  Its structures are records with the fields that the programs read or write.
  A call that throws answers with the text of the exception.
\<close>

section \<open>Structures of the library\<close>

record lt_info =
  ti_name :: "byte list"
  ti_total_size :: int
  ti_num_pieces :: int
  ti_piece_length :: int
  ti_best_hash :: "byte list"

record 'x lt_params =
  ap_ti :: "lt_info option"
  ap_best_hash :: "byte list"
  ap_name :: "byte list"
  ap_save_path :: "byte list"
  ap_auto_managed :: bool
  ap_paused :: bool
  ap_rest :: 'x

text \<open>The error is that of the code \<open>errc\<close>, \<open>None\<close> without one.\<close>

record lt_status =
  ls_name :: "byte list"
  ls_torrent_file :: "lt_info option"
  ls_num_pieces :: int
  ls_errc :: "byte list option"
  ls_is_seeding :: bool
  ls_progress :: rat
  ls_progress_ppm :: int
  ls_total_done :: int
  ls_total_upload :: int
  ls_download_rate :: int
  ls_upload_rate :: int
  ls_download_payload_rate :: int
  ls_upload_payload_rate :: int
  ls_num_peers :: int
  ls_num_seeds :: int
  ls_current_tracker :: "byte list"
  ls_total_wanted :: int
  ls_total_wanted_done :: int

text \<open>An alert with its message, its category (whether it is an error), and what its type adds.\<close>

datatype ('h, 'x) alert_kind =
  Add_torrent 'h
| Metadata_received 'h
| Metadata_failed 'h
| Torrent_finished 'h
| Torrent_error 'h "byte list"
| File_error 'h
| Tracker_error "byte list"
| Tracker_reply int
| Peer_error "byte list"
| Resume_saved 'h "'x lt_params"
| Resume_failed 'h
| Other_alert

record ('h, 'x) lt_alert =
  al_kind :: "('h, 'x) alert_kind"
  al_message :: "byte list"
  al_is_error :: bool

datatype setting =
  Str string "byte list"
| Flag string bool
| Number string nat
| Mask string "string set"

section \<open>Calls of the library\<close>

type_synonym 'w raising = "'w \<Rightarrow> byte list option \<times> 'w"

datatype 'h add_answer = Threw "byte list" | Answered "byte list option" "'h option"

text \<open>
  \<open>api_moved\<close> is what is left of parameters after a move, which C++ does not specify; a handle may
  become invalid at any time, since \<open>api_valid\<close> looks at the world.
\<close>

record ('w, 'h, 'x) libtorrent =
  api_version :: "byte list"
  api_open :: "setting list \<Rightarrow> 'w raising"
  api_extend :: "string \<Rightarrow> 'w raising"
  api_close :: "'w \<Rightarrow> 'w"
  api_load_buffer :: "byte list \<Rightarrow> byte list + 'x lt_params"
  api_load_file :: "byte list \<Rightarrow> byte list + 'x lt_params"
  api_parse_magnet :: "byte list \<Rightarrow> byte list + 'x lt_params"
  api_read_resume :: "byte list \<Rightarrow> byte list + 'x lt_params"
  api_write_resume :: "'x lt_params \<Rightarrow> byte list"
  api_same_hashes :: "'x lt_params \<Rightarrow> 'x lt_params \<Rightarrow> bool"
  api_moved :: "'x lt_params \<Rightarrow> 'x lt_params"
  api_add :: "'x lt_params \<Rightarrow> 'w \<Rightarrow> 'h add_answer \<times> 'w"
  api_valid :: "'h \<Rightarrow> 'w \<Rightarrow> bool"
  api_resume :: "'h \<Rightarrow> 'w raising"
  api_reannounce :: "'h \<Rightarrow> 'w raising"
  api_pause :: "'h \<Rightarrow> 'w raising"
  api_remove :: "'h \<Rightarrow> 'w raising"
  api_save_resume :: "'h \<Rightarrow> string list \<Rightarrow> 'w raising"
  api_status :: "'h \<Rightarrow> 'w \<Rightarrow> (byte list + lt_status) \<times> 'w"
  api_pop_alerts :: "'w \<Rightarrow> ('h, 'x) lt_alert list \<times> 'w"

text \<open>
  Documented: a handle is a weak pointer to a torrent, so that one that has become invalid stays invalid.
\<close>

definition handles_expire :: "('w, 'h, 'x) libtorrent \<Rightarrow> bool" where
  "handles_expire api \<longleftrightarrow> (\<forall>h g w. api_valid api h (snd (api_status api g w)) \<longrightarrow> api_valid api h w)"

text \<open>A string of C++ copied through \<open>snprintf ("%s")\<close> into an array of \<open>n\<close> bytes.\<close>

definition safe_copy :: "nat \<Rightarrow> byte list \<Rightarrow> byte list" where
  "safe_copy n v = take (n - 1) (cstr v)"

text \<open>\<open>static_cast\<close> of a signed number that \<open>std::max\<close> made non-negative.\<close>

definition nonneg :: "int \<Rightarrow> u64" where "nonneg n = word_of_int (max 0 n)"

end
