(* ===== verification/LtBackend.thy ===== *)
theory LtBackend
  imports ManagerApi StatusJson LtApi
begin

text \<open>
  \<open>src/torrent_mgr_libtorrent.cpp\<close>: the same manager interface on top of libtorrent.  Two arrays of
  \<open>MAX_TORRENTS\<close> entries are kept in step: what the interface shows of a torrent, and the slot with its
  parameters and its handle.  Calls of the library are the fields of the argument \<open>api\<close>.

  Result \<open>None\<close> of an operation is an exception that leaves it: the functions are called from C, so that
  the program ends.
\<close>

section \<open>State\<close>

text \<open>The number of peers is a field of its own here, since the table of peers stays empty.\<close>

record shown_torrent = managed_torrent +
  mt_num_peers :: int

definition shown_zero :: shown_torrent where
  "shown_zero = managed_torrent.extend mt_zero \<lparr>mt_num_peers = 0\<rparr>"

text \<open>\<open>sl_handle\<close> is \<open>None\<close> for a handle that was never assigned.\<close>

record ('h, 'x) lt_slot =
  sl_params :: "'x lt_params"
  sl_handle :: "'h option"
  sl_added :: bool
  sl_paused :: bool
  sl_has_metadata :: bool

record ('w, 'h, 'x) backend =
  bk_torrents :: "shown_torrent list"
  bk_slots :: "('h, 'x) lt_slot option list"
  bk_num :: nat
  bk_generation :: u64
  bk_session :: bool
  bk_world :: 'w
  bk_log :: "(string \<times> byte list) list"

text \<open>Before the first call.\<close>

definition backend_start :: "'w \<Rightarrow> ('w, 'h, 'x) backend" where
  "backend_start w =
     \<lparr>bk_torrents = replicate MAX_TORRENTS shown_zero, bk_slots = replicate MAX_TORRENTS None, bk_num = 0,
      bk_generation = 1, bk_session = False, bk_world = w, bk_log = []\<rparr>"

section \<open>Helpers\<close>

text \<open>\<open>app_log_write\<close> with its level and message; \<open>log_line\<close> formats into 768 bytes first.\<close>

definition lt_log_write :: "string \<Rightarrow> byte list \<Rightarrow> ('w, 'h, 'x) backend \<Rightarrow> ('w, 'h, 'x) backend" where
  "lt_log_write level message bk = bk\<lparr>bk_log := bk_log bk @ [(level, message)]\<rparr>"

definition lt_log_line :: "string \<Rightarrow> byte list \<Rightarrow> ('w, 'h, 'x) backend \<Rightarrow> ('w, 'h, 'x) backend" where
  "lt_log_line level text bk = lt_log_write level (take 767 text) bk"

definition hex_hash :: "byte list \<Rightarrow> byte list" where
  "hex_hash hash = concat (map (\<lambda>c. [hex_hi hex_lower c, hex_lo hex_lower c]) (take 20 hash))"

definition make_settings :: "byte list \<Rightarrow> setting list" where
  "make_settings version =
     [Str ''user_agent'' (bytes ''PS5Torrent/2.0.4 libtorrent/'' @ version),
      Str ''listen_interfaces'' (bytes ''0.0.0.0:0''),
      Flag ''enable_dht'' True, Flag ''enable_lsd'' True,
      Flag ''enable_outgoing_utp'' True, Flag ''enable_incoming_utp'' True,
      Flag ''enable_upnp'' False, Flag ''enable_natpmp'' False,
      Flag ''announce_to_all_tiers'' True, Flag ''announce_to_all_trackers'' True,
      Number ''active_downloads'' MAX_TORRENTS, Number ''connections_limit'' 220,
      Number ''unchoke_slots_limit'' 32, Number ''request_queue_time'' 3, Number ''max_peerlist_size'' 2500,
      Mask ''alert_mask'' {''error'', ''storage'', ''status'', ''tracker'', ''peer'', ''dht''}]"

text \<open>Asks the library; the answer of the call comes first.\<close>

definition lt_call :: "('w \<Rightarrow> 'r \<times> 'w) \<Rightarrow> ('w, 'h, 'x) backend \<Rightarrow> 'r \<times> ('w, 'h, 'x) backend" where
  "lt_call f bk = (case f (bk_world bk) of (r, w) \<Rightarrow> (r, bk\<lparr>bk_world := w\<rparr>))"

text \<open>
  The session exists from its construction on, so that a failure of \<open>add_extension\<close> leaves it behind.
\<close>

definition session_failed :: "byte list \<Rightarrow> ('w, 'h, 'x) backend \<Rightarrow> bool \<times> ('w, 'h, 'x) backend" where
  "session_failed what bk =
     (False, lt_log_line ''ERROR'' (bytes ''libtorrent session initialization failed: '' @ cstr what) bk)"

definition ensure_session ::
  "('w, 'h, 'x) libtorrent \<Rightarrow> ('w, 'h, 'x) backend \<Rightarrow> bool \<times> ('w, 'h, 'x) backend" where
  "ensure_session api bk =
     (if bk_session bk then (True, bk)
      else case lt_call (api_open api (make_settings (api_version api))) bk of
        (Some e, bk) \<Rightarrow> session_failed e bk
      | (None, bk) \<Rightarrow>
        (case lt_call (api_extend api ''ut_metadata'') (bk\<lparr>bk_session := True\<rparr>) of
           (Some e, bk) \<Rightarrow> session_failed e bk
         | (None, bk) \<Rightarrow>
           (case lt_call (api_extend api ''ut_pex'') bk of
              (Some e, bk) \<Rightarrow> session_failed e bk
            | (None, bk) \<Rightarrow> (True, lt_log_write ''INFO'' (bytes ''libtorrent session initialized'') bk))))"

definition reset_session ::
  "('w, 'h, 'x) libtorrent \<Rightarrow> ('w, 'h, 'x) backend \<Rightarrow> ('w, 'h, 'x) backend" where
  "reset_session api bk =
     (if bk_session bk then bk\<lparr>bk_session := False, bk_world := api_close api (bk_world bk)\<rparr> else bk)"

definition handle_valid :: "('w, 'h, 'x) libtorrent \<Rightarrow> 'h option \<Rightarrow> 'w \<Rightarrow> bool" where
  "handle_valid api h w = (case h of None \<Rightarrow> False | Some h \<Rightarrow> api_valid api h w)"

text \<open>The index, \<open>None\<close> for \<open>-1\<close>.\<close>

definition find_by_handle :: "('w, 'h, 'x) libtorrent \<Rightarrow> 'h \<Rightarrow> ('w, 'h, 'x) backend \<Rightarrow> nat option" where
  "find_by_handle api h bk =
     (if \<not> api_valid api h (bk_world bk) then None
      else find (\<lambda>i. case bk_slots bk ! i of None \<Rightarrow> False | Some s \<Rightarrow> sl_added s \<and> sl_handle s = Some h)
             [0..<bk_num bk])"

definition set_error_lt :: "torrent_error \<Rightarrow> byte list \<Rightarrow> shown_torrent \<Rightarrow> shown_torrent" where
  "set_error_lt e message mt =
     mt\<lparr>mt_state := TORRENT_ERROR, mt_error_type := e, mt_error_msg := safe_copy 256 message\<rparr>"

definition put_shown :: "nat \<Rightarrow> (shown_torrent \<Rightarrow> shown_torrent) \<Rightarrow> ('w, 'h, 'x) backend \<Rightarrow> ('w, 'h, 'x) backend" where
  "put_shown i f bk = bk\<lparr>bk_torrents := (bk_torrents bk)[i := f (bk_torrents bk ! i)]\<rparr>"

definition put_slot ::
  "nat \<Rightarrow> (('h, 'x) lt_slot \<Rightarrow> ('h, 'x) lt_slot) \<Rightarrow> ('w, 'h, 'x) backend \<Rightarrow> ('w, 'h, 'x) backend" where
  "put_slot i f bk = bk\<lparr>bk_slots := (bk_slots bk)[i := map_option f (bk_slots bk ! i)]\<rparr>"

text \<open>The pieces and sizes that the metainfo gives.\<close>

definition fill_sizes :: "lt_info \<Rightarrow> shown_torrent \<Rightarrow> shown_torrent" where
  "fill_sizes info mt =
     mt\<lparr>mt_total_size := nonneg (ti_total_size info),
        mt_piece_mgr := (mt_piece_mgr mt)\<lparr>pm_num_pieces := nat (max 0 (ti_num_pieces info)),
          pm_piece_length := word_of_int (ti_piece_length info), pm_total_size := word_of_int (ti_total_size info)\<rparr>\<rparr>"

definition set_hash :: "byte list \<Rightarrow> shown_torrent \<Rightarrow> shown_torrent" where
  "set_hash best mt = mt\<lparr>mt_id := safe_copy 64 (hex_hash best), mt_info_hash := take 20 best\<rparr>"

definition params_shown :: "nat \<Rightarrow> 'x lt_params \<Rightarrow> shown_torrent \<Rightarrow> shown_torrent" where
  "params_shown i p mt =
     (case ap_ti p of
        Some info \<Rightarrow> set_hash (ti_best_hash info) (fill_sizes info (mt\<lparr>mt_name := safe_copy 256 (ti_name info)\<rparr>))
      | None \<Rightarrow>
        let best = ap_best_hash p;
            mt = (if best \<noteq> replicate 20 0 then set_hash best mt
                  else mt\<lparr>mt_id := take 63 (bytes ''magnet-'' @ dec i)\<rparr>)
        in if ap_name p \<noteq> [] then mt\<lparr>mt_name := safe_copy 256 (ap_name p)\<rparr>
           else if mt_id mt \<noteq> [] then mt\<lparr>mt_name := take 255 (bytes ''Torrent_'' @ mt_id mt)\<rparr>
           else mt\<lparr>mt_name := take 255 (bytes ''Torrent_'' @ dec i)\<rparr>)"

definition fill_metadata_from_params :: "nat \<Rightarrow> ('w, 'h, 'x) backend \<Rightarrow> ('w, 'h, 'x) backend" where
  "fill_metadata_from_params i bk =
     (case bk_slots bk ! i of
        None \<Rightarrow> bk
      | Some s \<Rightarrow>
        let bk = put_shown i (params_shown i (sl_params s)) bk
        in if ap_ti (sl_params s) \<noteq> None then put_slot i (\<lambda>s. s\<lparr>sl_has_metadata := True\<rparr>) bk else bk)"

text \<open>The loop of \<open>erase_index\<close>: a moved slot leaves its place empty.\<close>

definition shift_down :: "nat \<Rightarrow> ('w, 'h, 'x) backend \<Rightarrow> ('w, 'h, 'x) backend" where
  "shift_down i bk =
     bk\<lparr>bk_torrents := (bk_torrents bk)[i := bk_torrents bk ! Suc i],
        bk_slots := (bk_slots bk)[i := bk_slots bk ! Suc i, Suc i := None]\<rparr>"

definition erase_index :: "nat \<Rightarrow> ('w, 'h, 'x) backend \<Rightarrow> ('w, 'h, 'x) backend" where
  "erase_index index bk =
     (let bk = fold shift_down [index..<bk_num bk - 1] bk
      in if 0 < bk_num bk
         then let n = bk_num bk - 1
              in bk\<lparr>bk_num := n, bk_torrents := (bk_torrents bk)[n := shown_zero], bk_slots := (bk_slots bk)[n := None]\<rparr>
         else bk)"

section \<open>Alerts\<close>

text \<open>The status of a torrent whose metadata arrived; the call is not inside a \<open>try\<close>.\<close>

definition shown_metadata :: "lt_status \<Rightarrow> shown_torrent \<Rightarrow> shown_torrent" where
  "shown_metadata st mt =
     (let mt = (if ls_name st \<noteq> [] then mt\<lparr>mt_name := safe_copy 256 (ls_name st)\<rparr> else mt)
      in case ls_torrent_file st of None \<Rightarrow> mt | Some info \<Rightarrow> mt\<lparr>mt_total_size := nonneg (ti_total_size info)\<rparr>)"

definition id_name :: "string \<Rightarrow> nat \<Rightarrow> ('w, 'h, 'x) backend \<Rightarrow> byte list" where
  "id_name what i bk = bytes what @ bytes '': id='' @ dec i @ bytes '', name='' @ mt_name (bk_torrents bk ! i)"

definition alert_added :: "('w, 'h, 'x) libtorrent \<Rightarrow> 'h \<Rightarrow> ('w, 'h, 'x) backend \<Rightarrow> ('w, 'h, 'x) backend" where
  "alert_added api h bk =
     (case find_by_handle api h bk of
        None \<Rightarrow> bk
      | Some i \<Rightarrow>
        let bk = put_slot i (\<lambda>s. s\<lparr>sl_added := True, sl_handle := Some h\<rparr>) bk;
            bk = put_shown i (\<lambda>mt. mt\<lparr>mt_state := TORRENT_DOWNLOADING, mt_error_type := TERR_NONE, mt_error_msg := []\<rparr>) bk
        in lt_log_line ''INFO'' (id_name ''libtorrent added torrent'' i bk) bk)"

definition alert_metadata ::
  "('w, 'h, 'x) libtorrent \<Rightarrow> 'h \<Rightarrow> ('w, 'h, 'x) backend \<Rightarrow> ('w, 'h, 'x) backend option" where
  "alert_metadata api h bk =
     (case find_by_handle api h bk of
        None \<Rightarrow> Some bk
      | Some i \<Rightarrow>
        (case lt_call (api_status api h) (put_slot i (\<lambda>s. s\<lparr>sl_has_metadata := True\<rparr>) bk) of
           (Inl e, bk) \<Rightarrow> None
         | (Inr st, bk) \<Rightarrow>
           let bk = put_shown i (shown_metadata st) bk
           in Some (lt_log_line ''INFO'' (id_name ''libtorrent metadata received'' i bk) bk)))"

definition alert_finished :: "('w, 'h, 'x) libtorrent \<Rightarrow> 'h \<Rightarrow> ('w, 'h, 'x) backend \<Rightarrow> ('w, 'h, 'x) backend" where
  "alert_finished api h bk =
     (case find_by_handle api h bk of
        None \<Rightarrow> bk
      | Some i \<Rightarrow>
        lt_log_write ''SUCCESS'' (bytes ''libtorrent download completed'')
          (put_shown i (\<lambda>mt. mt\<lparr>mt_state := TORRENT_DONE, mt_progress := 1\<rparr>) bk))"

definition alert_failed ::
  "('w, 'h, 'x) libtorrent \<Rightarrow> 'h \<Rightarrow> byte list \<Rightarrow> ('w, 'h, 'x) backend \<Rightarrow> ('w, 'h, 'x) backend" where
  "alert_failed api h e bk =
     lt_log_line ''ERROR'' (bytes ''libtorrent torrent error: '' @ cstr e)
       (case find_by_handle api h bk of
          None \<Rightarrow> bk | Some i \<Rightarrow> put_shown i (set_error_lt TERR_WRITE_FAILED e) bk)"

text \<open>Every other alert is only logged, if it is an error.\<close>

definition alert_logged :: "('h, 'x) lt_alert \<Rightarrow> ('w, 'h, 'x) backend \<Rightarrow> ('w, 'h, 'x) backend" where
  "alert_logged alert bk =
     (if al_is_error alert then lt_log_line ''WARN'' (bytes ''libtorrent alert: '' @ cstr (al_message alert)) bk else bk)"

definition handle_alert ::
  "('w, 'h, 'x) libtorrent \<Rightarrow> ('h, 'x) lt_alert \<Rightarrow> ('w, 'h, 'x) backend \<Rightarrow> ('w, 'h, 'x) backend option" where
  "handle_alert api alert bk =
     (case al_kind alert of
        Add_torrent h \<Rightarrow> Some (alert_added api h bk)
      | Metadata_received h \<Rightarrow> alert_metadata api h bk
      | Torrent_finished h \<Rightarrow> Some (alert_finished api h bk)
      | Torrent_error h e \<Rightarrow> Some (alert_failed api h e bk)
      | Tracker_error e \<Rightarrow> Some (lt_log_line ''WARN'' (bytes ''libtorrent tracker error: '' @ cstr e) bk)
      | Tracker_reply n \<Rightarrow> Some (lt_log_line ''INFO'' (bytes ''libtorrent tracker reply: peers='' @ dec_int n) bk)
      | Peer_error e \<Rightarrow> Some (lt_log_line ''WARN'' (bytes ''libtorrent peer error: '' @ cstr e) bk)
      | _ \<Rightarrow> Some (alert_logged alert bk))"

primrec handle_alerts ::
  "('w, 'h, 'x) libtorrent \<Rightarrow> ('h, 'x) lt_alert list \<Rightarrow> ('w, 'h, 'x) backend \<Rightarrow> ('w, 'h, 'x) backend option" where
  "handle_alerts api [] bk = Some bk"
| "handle_alerts api (a # as) bk = Option.bind (handle_alert api a bk) (handle_alerts api as)"

definition pump_alerts :: "('w, 'h, 'x) libtorrent \<Rightarrow> ('w, 'h, 'x) backend \<Rightarrow> ('w, 'h, 'x) backend option" where
  "pump_alerts api bk =
     (if \<not> bk_session bk then Some bk
      else case lt_call (api_pop_alerts api) bk of (alerts, bk) \<Rightarrow> handle_alerts api alerts bk)"

section \<open>What is shown of a torrent\<close>

text \<open>The body of \<open>refresh_slot\<close> after the status was read.\<close>

definition shown_state :: "bool \<Rightarrow> lt_status \<Rightarrow> shown_torrent \<Rightarrow> shown_torrent" where
  "shown_state paused st mt =
     (case ls_errc st of
        Some e \<Rightarrow> set_error_lt TERR_WRITE_FAILED e mt
      | None \<Rightarrow>
        if ls_is_seeding st then mt\<lparr>mt_state := TORRENT_DONE, mt_progress := 1\<rparr>
        else if paused then mt\<lparr>mt_state := TORRENT_STOPPED\<rparr>
        else mt\<lparr>mt_state := TORRENT_DOWNLOADING\<rparr>)"

definition shown_file :: "lt_status \<Rightarrow> shown_torrent \<Rightarrow> shown_torrent" where
  "shown_file st mt =
     (let mt = (if ls_name st \<noteq> [] then mt\<lparr>mt_name := safe_copy 256 (ls_name st)\<rparr> else mt)
      in case ls_torrent_file st of
        None \<Rightarrow> mt
      | Some info \<Rightarrow>
        let mt = fill_sizes info mt
        in mt\<lparr>mt_piece_mgr := (mt_piece_mgr mt)\<lparr>pm_num_complete := nat (max 0 (ls_num_pieces st))\<rparr>,
             mt_torrent := None\<rparr>)"

definition shown_numbers :: "lt_status \<Rightarrow> shown_torrent \<Rightarrow> shown_torrent" where
  "shown_numbers st mt =
     (let mt = mt\<lparr>mt_progress := max 0 (min 1 (ls_progress st)),
                  mt_downloaded := nonneg (ls_total_done st), mt_uploaded := nonneg (ls_total_upload st),
                  mt_speed_down := nonneg (ls_download_rate st), mt_speed_up := nonneg (ls_upload_rate st),
                  mt_num_peers := ls_num_peers st, mt_active_peers := ls_num_peers st,
                  mt_tracker_announces := (if ls_current_tracker st = [] then 0 else 1)\<rparr>;
          mt = (if mt_total_size mt = 0 \<and> 0 < ls_total_wanted st
                then mt\<lparr>mt_total_size := word_of_int (ls_total_wanted st)\<rparr> else mt)
      in if mt_error_type mt = TERR_NONE then mt\<lparr>mt_error_msg := []\<rparr> else mt)"

definition refresh_slot :: "('w, 'h, 'x) libtorrent \<Rightarrow> nat \<Rightarrow> ('w, 'h, 'x) backend \<Rightarrow> ('w, 'h, 'x) backend" where
  "refresh_slot api i bk =
     (if bk_num bk \<le> i then bk
      else case bk_slots bk ! i of
        None \<Rightarrow> bk
      | Some s \<Rightarrow>
        if \<not> sl_added s \<or> \<not> handle_valid api (sl_handle s) (bk_world bk) then bk
        else case lt_call (api_status api (the (sl_handle s))) bk of
          (Inl e, bk) \<Rightarrow> put_shown i (set_error_lt TERR_TRACKER_FAILED e) bk
        | (Inr st, bk) \<Rightarrow> put_shown i (\<lambda>mt. shown_numbers st (shown_state (sl_paused s) st (shown_file st mt))) bk)"

section \<open>Operations\<close>

definition torrent_mgr_init_lt :: "('w, 'h, 'x) libtorrent \<Rightarrow> ('w, 'h, 'x) backend \<Rightarrow> ('w, 'h, 'x) backend" where
  "torrent_mgr_init_lt api bk =
     snd (ensure_session api ((reset_session api bk)
       \<lparr>bk_slots := replicate MAX_TORRENTS None, bk_torrents := replicate MAX_TORRENTS shown_zero, bk_num := 0\<rparr>))"

text \<open>The slot of a new torrent, and the entry that shows it.\<close>

definition new_slot :: "'x lt_params \<Rightarrow> byte list \<Rightarrow> ('h, 'x) lt_slot" where
  "new_slot p save_path =
     \<lparr>sl_params = p\<lparr>ap_save_path := cstr save_path, ap_auto_managed := True, ap_paused := False\<rparr>,
      sl_handle = None, sl_added = False, sl_paused = True, sl_has_metadata = False\<rparr>"

definition install_slot ::
  "'x lt_params \<Rightarrow> byte list \<Rightarrow> bool \<Rightarrow> byte list \<Rightarrow> ('w, 'h, 'x) backend \<Rightarrow> int \<times> ('w, 'h, 'x) backend" where
  "install_slot p save_path is_magnet uri bk =
     (let i = bk_num bk;
          mt = shown_zero\<lparr>mt_generation := bk_generation bk, mt_save_path := safe_copy 512 save_path,
                 mt_magnet_uri := safe_copy 1024 uri, mt_state := TORRENT_STOPPED, mt_error_type := TERR_NONE,
                 mt_is_magnet := is_magnet\<rparr>;
          bk = bk\<lparr>bk_torrents := (bk_torrents bk)[i := mt], bk_generation := bk_generation bk + 1,
                 bk_slots := (bk_slots bk)[i := Some (new_slot p save_path)]\<rparr>;
          bk = fill_metadata_from_params i bk
      in (int i, bk\<lparr>bk_num := bk_num bk + 1\<rparr>))"

text \<open>\<open>None\<close> stands for a null pointer of the caller.\<close>

definition torrent_mgr_add_raw_lt ::
  "('w, 'h, 'x) libtorrent \<Rightarrow> byte list option \<Rightarrow> byte list option \<Rightarrow> ('w, 'h, 'x) backend \<Rightarrow> int \<times> ('w, 'h, 'x) backend" where
  "torrent_mgr_add_raw_lt api data save_path bk =
     (case (data, save_path) of
        (Some d, Some p) \<Rightarrow>
          if d = [] \<or> MAX_TORRENTS \<le> bk_num bk then (- 1, bk)
          else (case ensure_session api bk of
            (ok, bk) \<Rightarrow>
              if \<not> ok then (- 1, bk)
              else case api_load_buffer api d of
                Inl e \<Rightarrow> (- 1, lt_log_line ''ERROR'' (bytes ''libtorrent failed to load torrent buffer: '' @ cstr e) bk)
              | Inr ps \<Rightarrow>
                (case install_slot ps p False [] bk of
                   (i, bk) \<Rightarrow> (i, lt_log_line ''INFO''
                     (bytes ''libtorrent torrent loaded from buffer: id='' @ dec_int i @ bytes '', bytes='' @ dec (length d) @
                      bytes '', name='' @ mt_name (bk_torrents bk ! nat i)) bk)))
      | _ \<Rightarrow> (- 1, bk))"

definition torrent_mgr_add_magnet_lt ::
  "('w, 'h, 'x) libtorrent \<Rightarrow> byte list option \<Rightarrow> byte list option \<Rightarrow> ('w, 'h, 'x) backend \<Rightarrow> int \<times> ('w, 'h, 'x) backend" where
  "torrent_mgr_add_magnet_lt api magnet_uri save_path bk =
     (case (magnet_uri, save_path) of
        (Some u, Some p) \<Rightarrow>
          if \<not> starts_with (cstr u) (bytes ''magnet:'') \<or> MAX_TORRENTS \<le> bk_num bk then (- 1, bk)
          else (case ensure_session api bk of
            (ok, bk) \<Rightarrow>
              if \<not> ok then (- 1, bk)
              else case api_parse_magnet api (cstr u) of
                Inl e \<Rightarrow> (- 1, lt_log_line ''ERROR'' (bytes ''libtorrent failed to parse magnet URI: '' @ cstr e) bk)
              | Inr ps \<Rightarrow>
                (case install_slot ps p True u bk of
                   (i, bk) \<Rightarrow> (i, lt_log_line ''INFO''
                     (bytes ''libtorrent magnet loaded: id='' @ dec_int i @ bytes '', name='' @ mt_name (bk_torrents bk ! nat i)) bk)))
      | _ \<Rightarrow> (- 1, bk))"

definition torrent_mgr_add_lt ::
  "('w, 'h, 'x) libtorrent \<Rightarrow> byte list option \<Rightarrow> bool \<Rightarrow> byte list option \<Rightarrow> ('w, 'h, 'x) backend \<Rightarrow> int \<times> ('w, 'h, 'x) backend" where
  "torrent_mgr_add_lt api save_path is_magnet magnet_uri bk =
     (if is_magnet \<and> magnet_uri \<noteq> None then torrent_mgr_add_magnet_lt api magnet_uri save_path bk else (- 1, bk))"

definition bad_slot :: "int \<Rightarrow> ('w, 'h, 'x) backend \<Rightarrow> bool" where
  "bad_slot i bk \<longleftrightarrow> i < 0 \<or> int (bk_num bk) \<le> i"

text \<open>An exception, or a refusal, inside \<open>torrent_mgr_start\<close>.\<close>

definition start_refused :: "nat \<Rightarrow> byte list \<Rightarrow> ('w, 'h, 'x) backend \<Rightarrow> int \<times> ('w, 'h, 'x) backend" where
  "start_refused i e bk = (- 1, put_shown i (set_error_lt TERR_PARSE_FAILED e) bk)"

text \<open>Adds the torrent to the session; the parameters are moved out of the slot in any case.\<close>

definition add_to_session ::
  "('w, 'h, 'x) libtorrent \<Rightarrow> nat \<Rightarrow> ('h, 'x) lt_slot \<Rightarrow> ('w, 'h, 'x) backend \<Rightarrow>
   byte list option \<times> ('w, 'h, 'x) backend" where
  "add_to_session api i s bk =
     (case lt_call (api_add api (sl_params s)) (put_slot i (\<lambda>s. s\<lparr>sl_params := api_moved api (sl_params s)\<rparr>) bk) of
        (Threw e, bk) \<Rightarrow> (Some e, bk)
      | (Answered err h, bk) \<Rightarrow>
        let bk = put_slot i (\<lambda>s. s\<lparr>sl_handle := h\<rparr>) bk
        in if err \<noteq> None \<or> \<not> handle_valid api h (bk_world bk)
           then (Some (case err of Some e \<Rightarrow> e | None \<Rightarrow> bytes ''invalid torrent handle''), bk)
           else (None, put_slot i (\<lambda>s. s\<lparr>sl_added := True\<rparr>) bk))"

definition resume_slot ::
  "('w, 'h, 'x) libtorrent \<Rightarrow> u64 \<Rightarrow> nat \<Rightarrow> ('w, 'h, 'x) backend \<Rightarrow> int \<times> ('w, 'h, 'x) backend" where
  "resume_slot api now i bk =
     (let h = the (sl_handle (the (bk_slots bk ! i)));
          bk = put_slot i (\<lambda>s. s\<lparr>sl_paused := False\<rparr>) bk
      in case lt_call (api_resume api h) bk of
           (Some e, bk) \<Rightarrow> start_refused i e bk
         | (None, bk) \<Rightarrow>
           (case lt_call (api_reannounce api h) bk of
              (Some e, bk) \<Rightarrow> start_refused i e bk
            | (None, bk) \<Rightarrow>
              (0, lt_log_write ''INFO'' (bytes ''libtorrent download started'')
                 (put_shown i (\<lambda>mt. mt\<lparr>mt_state := TORRENT_DOWNLOADING, mt_start_time := now, mt_last_speed_calc := now\<rparr>) bk))))"

definition torrent_mgr_start_lt ::
  "('w, 'h, 'x) libtorrent \<Rightarrow> u64 \<Rightarrow> int \<Rightarrow> ('w, 'h, 'x) backend \<Rightarrow> (int \<times> ('w, 'h, 'x) backend) option" where
  "torrent_mgr_start_lt api now index bk =
     (let i = nat index
      in if bad_slot index bk \<or> bk_slots bk ! i = None then Some (- 1, bk)
         else case ensure_session api bk of
           (ok, bk) \<Rightarrow>
             if \<not> ok then Some (- 1, bk)
             else map_option (\<lambda>bk.
               let bk = put_shown i (\<lambda>mt. mt\<lparr>mt_error_type := TERR_NONE, mt_error_msg := []\<rparr>) bk;
                   s = the (bk_slots bk ! i)
               in if sl_added s \<and> handle_valid api (sl_handle s) (bk_world bk) then resume_slot api now i bk
                  else case add_to_session api i s bk of
                    (Some e, bk) \<Rightarrow> start_refused i e bk
                  | (None, bk) \<Rightarrow> resume_slot api now i bk) (pump_alerts api bk))"

text \<open>An exception of \<open>pause\<close> or \<open>remove_torrent\<close> is swallowed.\<close>

definition torrent_mgr_stop_lt ::
  "('w, 'h, 'x) libtorrent \<Rightarrow> int \<Rightarrow> ('w, 'h, 'x) backend \<Rightarrow> ('w, 'h, 'x) backend" where
  "torrent_mgr_stop_lt api index bk =
     (let i = nat index
      in if bad_slot index bk then bk
         else case bk_slots bk ! i of
           None \<Rightarrow> bk
         | Some s \<Rightarrow>
           let bk = (if sl_added s \<and> handle_valid api (sl_handle s) (bk_world bk)
                     then snd (lt_call (api_pause api (the (sl_handle s))) bk) else bk);
               bk = put_slot i (\<lambda>s. s\<lparr>sl_paused := True\<rparr>) bk;
               bk = put_shown i (\<lambda>mt. mt\<lparr>mt_state := TORRENT_STOPPED, mt_speed_down := 0, mt_speed_up := 0,
                                       mt_generation := bk_generation bk\<rparr>) bk
           in lt_log_write ''INFO'' (bytes ''libtorrent torrent paused'') (bk\<lparr>bk_generation := bk_generation bk + 1\<rparr>))"

definition torrent_mgr_remove_lt ::
  "('w, 'h, 'x) libtorrent \<Rightarrow> int \<Rightarrow> ('w, 'h, 'x) backend \<Rightarrow> ('w, 'h, 'x) backend" where
  "torrent_mgr_remove_lt api index bk =
     (let i = nat index
      in if bad_slot index bk then bk
         else let bk = (case bk_slots bk ! i of
                          None \<Rightarrow> bk
                        | Some s \<Rightarrow>
                          if bk_session bk \<and> sl_added s \<and> handle_valid api (sl_handle s) (bk_world bk)
                          then snd (lt_call (api_remove api (the (sl_handle s))) bk) else bk)
              in lt_log_write ''INFO'' (bytes ''libtorrent torrent removed'') (erase_index i bk))"

text \<open>The entry that the caller gets a pointer to, and the state.\<close>

definition torrent_mgr_get_lt ::
  "('w, 'h, 'x) libtorrent \<Rightarrow> int \<Rightarrow> ('w, 'h, 'x) backend \<Rightarrow> (shown_torrent option \<times> ('w, 'h, 'x) backend) option" where
  "torrent_mgr_get_lt api index bk =
     (if bad_slot index bk then Some (None, bk)
      else map_option (\<lambda>bk. let bk = refresh_slot api (nat index) bk in (Some (bk_torrents bk ! nat index), bk))
             (pump_alerts api bk))"

definition torrent_mgr_count_lt :: "('w, 'h, 'x) backend \<Rightarrow> nat" where
  "torrent_mgr_count_lt bk = bk_num bk"

definition torrent_mgr_capacity_lt :: nat where
  "torrent_mgr_capacity_lt = MAX_TORRENTS"

definition torrent_mgr_find_lt :: "byte list \<Rightarrow> ('w, 'h, 'x) backend \<Rightarrow> int" where
  "torrent_mgr_find_lt info_hash bk =
     (case find (\<lambda>i. take 20 (mt_info_hash (bk_torrents bk ! i)) = take 20 info_hash) [0..<bk_num bk] of
        None \<Rightarrow> - 1 | Some i \<Rightarrow> int i)"

text \<open>The loop of a tick: the number of active torrents, and the state.\<close>

definition active_state :: "torrent_state \<Rightarrow> bool" where
  "active_state s \<longleftrightarrow> s = TORRENT_DOWNLOADING \<or> s = TORRENT_SEEDING"

definition tick_slots :: "('w, 'h, 'x) libtorrent \<Rightarrow> nat list \<Rightarrow> ('w, 'h, 'x) backend \<Rightarrow> nat \<times> ('w, 'h, 'x) backend" where
  "tick_slots api slots bk =
     foldl (\<lambda>(active, bk) i.
         let bk = refresh_slot api i bk
         in (if active_state (mt_state (bk_torrents bk ! i)) then active + 1 else active, bk)) (0, bk) slots"

definition torrent_mgr_tick_lt ::
  "('w, 'h, 'x) libtorrent \<Rightarrow> ('w, 'h, 'x) backend \<Rightarrow> (nat \<times> ('w, 'h, 'x) backend) option" where
  "torrent_mgr_tick_lt api bk =
     map_option (\<lambda>bk. tick_slots api [0..<bk_num bk] bk) (pump_alerts api bk)"

definition torrent_mgr_shutdown_lt ::
  "('w, 'h, 'x) libtorrent \<Rightarrow> ('w, 'h, 'x) backend \<Rightarrow> ('w, 'h, 'x) backend option" where
  "torrent_mgr_shutdown_lt api bk =
     map_option (\<lambda>bk. bk\<lparr>bk_slots := replicate MAX_TORRENTS None, bk_torrents := replicate MAX_TORRENTS shown_zero,
                          bk_num := 0\<rparr>)
       (if bk_session bk
        then map_option (reset_session api)
               (pump_alerts api (foldl (\<lambda>bk i. torrent_mgr_remove_lt api (int i) bk) bk (rev [0..<bk_num bk])))
        else Some bk)"

section \<open>The status report\<close>

text \<open>The copies of the writer and of the names of states are those of the other manager.\<close>

definition state_name :: "torrent_state \<Rightarrow> byte list" where
  "state_name s =
     (case s of
        TORRENT_STOPPED \<Rightarrow> bytes ''stopped'' | TORRENT_DOWNLOADING \<Rightarrow> bytes ''downloading''
      | TORRENT_SEEDING \<Rightarrow> bytes ''seeding'' | TORRENT_ERROR \<Rightarrow> bytes ''error'' | TORRENT_DONE \<Rightarrow> bytes ''done'')"

definition numbers_lt :: "(rat \<Rightarrow> byte list) \<Rightarrow> u64 \<Rightarrow> shown_torrent \<Rightarrow> byte list" where
  "numbers_lt fmt now mt =
     key ''state'' @ quote @ state_name (mt_state mt) @ quote @
     key ''progress'' @ fmt (mt_progress mt) @
     key ''size'' @ dec (unat (mt_total_size mt)) @
     key ''downloaded'' @ dec (unat (mt_downloaded mt)) @
     key ''uploaded'' @ dec (unat (mt_uploaded mt)) @
     key ''remaining'' @ dec (unat (remaining_bytes mt)) @
     key ''speed_down'' @ dec (unat (mt_speed_down mt)) @
     key ''speed_up'' @ dec (unat (mt_speed_up mt)) @
     key ''peers'' @ dec_int (mt_num_peers mt) @
     key ''active_peers'' @ dec_int (mt_active_peers mt) @
     key ''pieces_done'' @ dec (pm_num_complete (mt_piece_mgr mt)) @
     key ''pieces_total'' @ dec (pm_num_pieces (mt_piece_mgr mt)) @
     key ''elapsed'' @ dec (unat (elapsed_time now mt)) @
     key ''tracker_announces'' @ dec_int (mt_tracker_announces mt) @
     key ''is_magnet'' @ (if mt_is_magnet mt then bytes ''true'' else bytes ''false'') @
     key ''save_path''"

text \<open>The calls of the writer for one torrent, in their order.\<close>

definition shown_steps :: "(rat \<Rightarrow> byte list) \<Rightarrow> u64 \<Rightarrow> nat \<Rightarrow> shown_torrent \<Rightarrow> (json_writer \<Rightarrow> json_writer) list" where
  "shown_steps fmt now i mt =
     [if 0 < i then json_writef (bytes '','') else (\<lambda>wr. wr),
      json_writef (bytes ''{'' @ quote @ bytes ''id'' @ quote @ bytes '':'' @ dec i @ key ''name''),
      json_write_string (mt_name mt), json_writef (key ''hash''), json_write_string (mt_id mt),
      json_writef (numbers_lt fmt now mt), json_write_string (mt_save_path mt), json_writef (key ''error''),
      json_write_string (mt_error_msg mt), json_writef (bytes ''}'')]"

definition torrent_mgr_status_json_lt ::
  "('w, 'h, 'x) libtorrent \<Rightarrow> (rat \<Rightarrow> byte list) \<Rightarrow> u64 \<Rightarrow> byte list \<Rightarrow> ('w, 'h, 'x) backend \<Rightarrow>
   (byte list \<times> ('w, 'h, 'x) backend) option" where
  "torrent_mgr_status_json_lt api fmt now buf bk =
     (if length buf < 64 then Some (buf, bk)
      else map_option (\<lambda>(active, bk).
        (jw_buf (steps ([json_writef (bytes ''{'' @ quote @ bytes ''torrents'' @ quote @ bytes '':['')] @
             concat (map (\<lambda>i. shown_steps fmt now i (bk_torrents bk ! i)) [0..<bk_num bk]) @
             [json_writef (bytes '']}'')]) \<lparr>jw_buf = buf, jw_size = length buf, jw_pos = 0\<rparr>), bk))
        (torrent_mgr_tick_lt api bk))"

end
