(* ===== verification/LtSafety.thy ===== *)
theory LtSafety
  imports LtBackend
begin

text \<open>
  The libtorrent manager keeps its promises: its two arrays stay in step under any sequence of calls, a removal
  refines the deletion from a list (it is an interpretation of the table of torrents), an alert touches one torrent,
  and a torrent that was stopped is not shown as active.
\<close>

section \<open>The two arrays\<close>

text \<open>
  A used entry has a slot; one that is paused and was never added to the session is not shown as active.
  Entries that are not used are empty.
\<close>

definition entry_ok :: "shown_torrent \<Rightarrow> ('h, 'x) lt_slot option \<Rightarrow> bool" where
  "entry_ok mt slot \<longleftrightarrow>
     (case slot of None \<Rightarrow> False | Some s \<Rightarrow> sl_paused s \<and> \<not> sl_added s \<longrightarrow> \<not> active_state (mt_state mt))"

definition backend_ok :: "('w, 'h, 'x) backend \<Rightarrow> bool" where
  "backend_ok bk \<longleftrightarrow>
     length (bk_torrents bk) = MAX_TORRENTS \<and> length (bk_slots bk) = MAX_TORRENTS \<and> bk_num bk \<le> MAX_TORRENTS \<and>
     (\<forall>i < bk_num bk. entry_ok (bk_torrents bk ! i) (bk_slots bk ! i)) \<and>
     (\<forall>i. bk_num bk \<le> i \<and> i < MAX_TORRENTS \<longrightarrow> bk_torrents bk ! i = shown_zero \<and> bk_slots bk ! i = None)"

text \<open>The used entries with their slots.\<close>

definition entries :: "('w, 'h, 'x) backend \<Rightarrow> (shown_torrent \<times> ('h, 'x) lt_slot option) list" where
  "entries bk = zip (take (bk_num bk) (bk_torrents bk)) (take (bk_num bk) (bk_slots bk))"

named_theorems lt_keeps \<open>steps that keep the arrays of the backend\<close>

lemma lt_logs [simp]:
  "bk_torrents (lt_log_write l m bk) = bk_torrents bk" "bk_slots (lt_log_write l m bk) = bk_slots bk"
  "bk_num (lt_log_write l m bk) = bk_num bk" "bk_session (lt_log_write l m bk) = bk_session bk"
  "bk_world (lt_log_write l m bk) = bk_world bk" "bk_generation (lt_log_write l m bk) = bk_generation bk"
  "bk_torrents (lt_log_line l m bk) = bk_torrents bk" "bk_slots (lt_log_line l m bk) = bk_slots bk"
  "bk_num (lt_log_line l m bk) = bk_num bk" "bk_session (lt_log_line l m bk) = bk_session bk"
  "bk_world (lt_log_line l m bk) = bk_world bk" "bk_generation (lt_log_line l m bk) = bk_generation bk"
  by (simp_all add: lt_log_write_def lt_log_line_def)

lemma puts [simp]:
  "bk_num (put_shown i f bk) = bk_num bk" "bk_slots (put_shown i f bk) = bk_slots bk"
  "bk_world (put_shown i f bk) = bk_world bk" "bk_session (put_shown i f bk) = bk_session bk"
  "bk_num (put_slot i g bk) = bk_num bk" "bk_torrents (put_slot i g bk) = bk_torrents bk"
  "bk_world (put_slot i g bk) = bk_world bk" "bk_session (put_slot i g bk) = bk_session bk"
  "bk_generation (put_shown i f bk) = bk_generation bk" "bk_generation (put_slot i g bk) = bk_generation bk"
  by (simp_all add: put_shown_def put_slot_def)

lemma put_shown_nth: "bk_torrents (put_shown i f bk) = (bk_torrents bk)[i := f (bk_torrents bk ! i)]"
  and put_slot_nth: "bk_slots (put_slot i g bk) = (bk_slots bk)[i := map_option g (bk_slots bk ! i)]"
  by (simp_all add: put_shown_def put_slot_def)

lemma lt_call_eq: "lt_call f bk = (r, bk') \<Longrightarrow> bk' = bk\<lparr>bk_world := snd (f (bk_world bk))\<rparr> \<and> r = fst (f (bk_world bk))"
  by (auto simp: lt_call_def split: prod.splits)

lemma ok_world [simp]:
  "backend_ok (bk\<lparr>bk_world := w\<rparr>) = backend_ok bk" "backend_ok (lt_log_write l m bk) = backend_ok bk"
  "backend_ok (lt_log_line l m bk) = backend_ok bk" "backend_ok (bk\<lparr>bk_session := b\<rparr>) = backend_ok bk"
  "backend_ok (bk\<lparr>bk_generation := g\<rparr>) = backend_ok bk"
  by (simp_all add: backend_ok_def)

lemma ok_nth: "backend_ok bk \<Longrightarrow> i < bk_num bk \<Longrightarrow> entry_ok (bk_torrents bk ! i) (bk_slots bk ! i) \<and>
    i < length (bk_torrents bk) \<and> i < length (bk_slots bk)"
  by (simp add: backend_ok_def)

lemma ok_slot: "backend_ok bk \<Longrightarrow> i < bk_num bk \<Longrightarrow> \<exists>s. bk_slots bk ! i = Some s"
  using ok_nth [of bk i] by (auto simp: entry_ok_def split: option.splits)

lemma ok_put_shown:
  "backend_ok bk \<Longrightarrow> i < bk_num bk \<Longrightarrow> entry_ok (f (bk_torrents bk ! i)) (bk_slots bk ! i) \<Longrightarrow>
   backend_ok (put_shown i f bk)"
  by (auto simp: backend_ok_def put_shown_nth nth_list_update)

lemma ok_put_slot:
  "backend_ok bk \<Longrightarrow> i < bk_num bk \<Longrightarrow> entry_ok (bk_torrents bk ! i) (map_option g (bk_slots bk ! i)) \<Longrightarrow>
   backend_ok (put_slot i g bk)"
  by (auto simp: backend_ok_def put_slot_nth nth_list_update)

lemma ok_session [lt_keeps]:
  "backend_ok (snd (ensure_session api bk)) = backend_ok bk"
  "bk_num (snd (ensure_session api bk)) = bk_num bk"
  "bk_torrents (snd (ensure_session api bk)) = bk_torrents bk"
  "bk_slots (snd (ensure_session api bk)) = bk_slots bk"
  by (auto simp: ensure_session_def session_failed_def split: prod.split option.split dest!: lt_call_eq)

lemma ok_reset [lt_keeps]: "backend_ok (reset_session api bk) = backend_ok bk"
  by (simp add: reset_session_def)

lemma found_slot:
  assumes "find_by_handle api h bk = Some i"
  shows "i < bk_num bk" "\<exists>s. bk_slots bk ! i = Some s \<and> sl_added s \<and> sl_handle s = Some h" "api_valid api h (bk_world bk)"
  using assms by (auto simp: find_by_handle_def find_Some_iff split: if_splits option.splits)

section \<open>Alerts\<close>

text \<open>An alert changes what is shown of one torrent, that of its handle.\<close>

definition only_changes :: "nat option \<Rightarrow> ('w, 'h, 'x) backend \<Rightarrow> ('w, 'h, 'x) backend \<Rightarrow> bool" where
  "only_changes k bk bk' \<longleftrightarrow>
     bk_num bk' = bk_num bk \<and>
     (\<forall>j. Some j \<noteq> k \<longrightarrow> bk_torrents bk' ! j = bk_torrents bk ! j \<and> bk_slots bk' ! j = bk_slots bk ! j)"

definition alert_handle :: "('h, 'x) lt_alert \<Rightarrow> 'h option" where
  "alert_handle alert =
     (case al_kind alert of
        Add_torrent h \<Rightarrow> Some h | Metadata_received h \<Rightarrow> Some h | Torrent_finished h \<Rightarrow> Some h
      | Torrent_error h e \<Rightarrow> Some h | _ \<Rightarrow> None)"

definition alert_target :: "('w, 'h, 'x) libtorrent \<Rightarrow> ('h, 'x) lt_alert \<Rightarrow> ('w, 'h, 'x) backend \<Rightarrow> nat option" where
  "alert_target api alert bk = Option.bind (alert_handle alert) (\<lambda>h. find_by_handle api h bk)"

lemma only_logs [simp]: "only_changes k bk (lt_log_line l m bk') = only_changes k bk bk'"
  "only_changes k bk (lt_log_write l m bk') = only_changes k bk bk'"
  by (simp_all add: only_changes_def)

lemma alert_only:
  assumes "handle_alert api alert bk = Some bk'"
  shows "only_changes (alert_target api alert bk) bk bk'"
  using assms
  by (auto simp: handle_alert_def alert_target_def alert_handle_def alert_added_def alert_metadata_def alert_finished_def
      alert_failed_def alert_logged_def only_changes_def put_shown_nth put_slot_nth Let_def nth_list_update
      split: alert_kind.splits option.splits prod.splits sum.splits dest!: lt_call_eq)

text \<open>The states that an alert and a status give.\<close>

lemma entry_added: "\<exists>s. slot = Some s \<and> sl_added s \<Longrightarrow> entry_ok mt slot"
  by (auto simp: entry_ok_def)

lemma entry_same: "entry_ok mt slot \<Longrightarrow> mt_state mt' = mt_state mt \<Longrightarrow> entry_ok mt' slot"
  by (cases slot) (simp_all add: entry_ok_def)

lemma ok_added: "backend_ok bk \<Longrightarrow> find_by_handle api h bk = Some i \<Longrightarrow> backend_ok (put_shown i f bk)"
  using found_slot [of api h bk i] by (intro ok_put_shown entry_added) auto

lemma ok_alert [lt_keeps]:
  assumes "handle_alert api alert bk = Some bk'" "backend_ok bk"
  shows "backend_ok bk'"
proof -
  have slot: "backend_ok (put_slot i g bk)" if "find_by_handle api h bk = Some i" "\<And>s. sl_added s \<Longrightarrow> sl_added (g s)" for h i g
    using that found_slot [OF that(1)] assms(2) by (intro ok_put_slot entry_added) auto
  show ?thesis
  proof (cases "al_kind alert")
    case (Add_torrent h)
    then have b: "bk' = alert_added api h bk" using assms(1) by (simp add: handle_alert_def)
    show ?thesis
    proof (cases "find_by_handle api h bk")
      case (Some i)
      let ?g = "\<lambda>s. s\<lparr>sl_added := True, sl_handle := Some h\<rparr>"
      have "backend_ok (put_slot i ?g bk)" using slot [OF Some, of ?g] by simp
      moreover have "i < bk_num bk" "\<exists>s. bk_slots bk ! i = Some s" using found_slot [OF Some] by auto
      ultimately show ?thesis
        unfolding b alert_added_def Some option.case Let_def ok_world
        by (intro ok_put_shown entry_added) (use assms(2) in \<open>auto simp: put_slot_nth backend_ok_def\<close>)
    qed (use b assms(2) in \<open>simp add: alert_added_def\<close>)
  next
    case (Metadata_received h)
    then have b: "alert_metadata api h bk = Some bk'" using assms(1) by (simp add: handle_alert_def)
    show ?thesis
    proof (cases "find_by_handle api h bk")
      case (Some i)
      let ?g = "\<lambda>s. s\<lparr>sl_has_metadata := True\<rparr>"
      obtain st w where "backend_ok bk' = backend_ok (put_shown i (shown_metadata st) ((put_slot i ?g bk)\<lparr>bk_world := w\<rparr>))"
        using b Some by (auto simp: alert_metadata_def Let_def split: prod.splits sum.splits dest!: lt_call_eq)
      moreover have "mt_state (shown_metadata st mt) = mt_state mt" for mt
        by (simp add: shown_metadata_def Let_def split: option.split)
      ultimately show ?thesis
        using slot [OF Some, of ?g] found_slot(1) [OF Some]
        by (simp add: ok_put_shown entry_same [OF conjunct1 [OF ok_nth [of "put_slot i ?g bk"]]])
    qed (use b assms(2) in \<open>simp add: alert_metadata_def\<close>)
  next
    case (Torrent_finished h)
    then show ?thesis
      using assms ok_added [OF assms(2)] by (auto simp: handle_alert_def alert_finished_def split: option.splits)
  next
    case (Torrent_error h e)
    then show ?thesis
      using assms ok_added [OF assms(2)] by (auto simp: handle_alert_def alert_failed_def split: option.splits)
  qed (use assms in \<open>auto simp: handle_alert_def alert_logged_def split: if_splits\<close>)
qed

lemma alerts_ok:
  "handle_alerts api as bk = Some bk' \<Longrightarrow> backend_ok bk \<Longrightarrow> backend_ok bk' \<and> bk_num bk' = bk_num bk"
proof (induction as arbitrary: bk)
  case (Cons a as)
  then obtain bk1 where b: "handle_alert api a bk = Some bk1" "handle_alerts api as bk1 = Some bk'"
    by (auto simp: Option.bind_eq_Some_conv)
  show ?case using Cons.IH [OF b(2)] ok_alert [OF b(1)] alert_only [OF b(1)] Cons.prems(2) by (simp add: only_changes_def)
qed simp

lemma pump_ok [lt_keeps]:
  assumes "pump_alerts api bk = Some bk'" "backend_ok bk"
  shows "backend_ok bk'" "bk_num bk' = bk_num bk"
  using assms alerts_ok [of api _ "bk\<lparr>bk_world := _\<rparr>" bk']
  by (auto simp: pump_alerts_def split: if_splits prod.splits dest!: lt_call_eq)

section \<open>Refreshing\<close>

lemma refresh_only: "only_changes (Some i) bk (refresh_slot api i bk)"
  by (auto simp: refresh_slot_def only_changes_def put_shown_nth split: option.split prod.split sum.split dest!: lt_call_eq)

lemma refresh_slots [simp]: "bk_slots (refresh_slot api i bk) = bk_slots bk" "bk_num (refresh_slot api i bk) = bk_num bk"
    "bk_session (refresh_slot api i bk) = bk_session bk"
  by (auto simp: refresh_slot_def split: option.split prod.split sum.split dest!: lt_call_eq)

lemma ok_refresh [lt_keeps]: "backend_ok bk \<Longrightarrow> backend_ok (refresh_slot api i bk)"
  by (auto simp: refresh_slot_def intro!: ok_put_shown entry_added split: option.split prod.split sum.split dest!: lt_call_eq)

lemma tick_snoc:
  "snd (tick_slots api (is @ [i]) bk) = refresh_slot api i (snd (tick_slots api is bk))"
  by (simp add: tick_slots_def Let_def split: prod.split)

lemma ok_tick_slots [lt_keeps]:
  "backend_ok bk \<Longrightarrow> backend_ok (snd (tick_slots api is bk)) \<and> bk_num (snd (tick_slots api is bk)) = bk_num bk \<and>
   bk_slots (snd (tick_slots api is bk)) = bk_slots bk"
proof (induction "is" rule: rev_induct)
  case Nil
  then show ?case by (simp add: tick_slots_def)
next
  case (snoc i "is")
  then show ?case by (simp add: tick_snoc ok_refresh)
qed

section \<open>Removing\<close>

lemma shift_down_fields [simp]:
  "bk_num (fold shift_down is bk) = bk_num bk" "bk_session (fold shift_down is bk) = bk_session bk"
  "length (bk_torrents (fold shift_down is bk)) = length (bk_torrents bk)"
  "length (bk_slots (fold shift_down is bk)) = length (bk_slots bk)"
  "bk_torrents (shift_down i bk) = (bk_torrents bk)[i := bk_torrents bk ! Suc i]"
  "bk_slots (shift_down i bk) = (bk_slots bk)[i := bk_slots bk ! Suc i, Suc i := None]"
  by (induction "is" arbitrary: bk) (simp_all add: shift_down_def)

lemma shift_nth:
  assumes "i \<le> k" "k < length (bk_torrents bk)" "k < length (bk_slots bk)"
  shows "bk_torrents (fold shift_down [i..<k] bk) ! j = (if i \<le> j \<and> j < k then bk_torrents bk ! Suc j else bk_torrents bk ! j)"
    "bk_slots (fold shift_down [i..<k] bk) ! j =
       (if i \<le> j \<and> j < k then bk_slots bk ! Suc j else if j = k \<and> i < k then None else bk_slots bk ! j)"
  using assms
proof (induction k arbitrary: j)
  case (Suc k)
  {
    case 1
    then show ?case
      by (cases "i = Suc k") (auto simp: nth_list_update Suc.IH(1))
  next
    case 2
    then show ?case
      by (cases "i = Suc k") (auto simp: nth_list_update Suc.IH(2))
  }
qed auto

lemma erase_nth:
  assumes "backend_ok bk" "i < bk_num bk"
  shows "bk_num (erase_index i bk) = bk_num bk - 1"
    "j < bk_num bk - 1 \<Longrightarrow> bk_torrents (erase_index i bk) ! j = (if j < i then bk_torrents bk ! j else bk_torrents bk ! Suc j)"
    "j < bk_num bk - 1 \<Longrightarrow> bk_slots (erase_index i bk) ! j = (if j < i then bk_slots bk ! j else bk_slots bk ! Suc j)"
    "bk_num bk - 1 \<le> j \<Longrightarrow> j < MAX_TORRENTS \<Longrightarrow>
       bk_torrents (erase_index i bk) ! j = shown_zero \<and> bk_slots (erase_index i bk) ! j = None"
    "length (bk_torrents (erase_index i bk)) = MAX_TORRENTS" "length (bk_slots (erase_index i bk)) = MAX_TORRENTS"
  using assms by (auto simp: erase_index_def Let_def shift_nth backend_ok_def nth_list_update)

lemma ok_erase [lt_keeps]:
  assumes "backend_ok bk" "i < bk_num bk"
  shows "backend_ok (erase_index i bk)"
proof -
  have "entry_ok (bk_torrents (erase_index i bk) ! j) (bk_slots (erase_index i bk) ! j)" if "j < bk_num bk - 1" for j
    using that erase_nth(2,3) [OF assms that] ok_nth [OF assms(1), of j] ok_nth [OF assms(1), of "Suc j"] by simp
  moreover have "bk_num bk - 1 \<le> MAX_TORRENTS" using assms(1) by (auto simp: backend_ok_def)
  ultimately show ?thesis unfolding backend_ok_def using erase_nth [OF assms] by simp
qed

lemma length_entries [simp]: "backend_ok bk \<Longrightarrow> length (entries bk) = bk_num bk"
  by (simp add: entries_def backend_ok_def)

lemma entries_nth: "backend_ok bk \<Longrightarrow> j < bk_num bk \<Longrightarrow> entries bk ! j = (bk_torrents bk ! j, bk_slots bk ! j)"
  by (simp add: entries_def backend_ok_def)

lemma erase_entries:
  assumes "backend_ok bk" "i < bk_num bk"
  shows "entries (erase_index i bk) = delete_at (int i) (entries bk)"
proof (rule nth_equalityI)
  show l: "length (entries (erase_index i bk)) = length (delete_at (int i) (entries bk))"
    using assms ok_erase [OF assms] erase_nth(1) [OF assms] by simp
  fix j assume "j < length (entries (erase_index i bk))"
  then have "j < bk_num bk - 1" using ok_erase [OF assms] erase_nth(1) [OF assms] by simp
  then show "entries (erase_index i bk) ! j = delete_at (int i) (entries bk) ! j"
    using assms ok_erase [OF assms] erase_nth(1-3) [OF assms] by (auto simp: entries_nth nth_delete)
qed

text \<open>The call of the library before the entry is erased changes only the world.\<close>

lemma remove_lt_eq:
  assumes "\<not> bad_slot i bk"
  shows "\<exists>w. torrent_mgr_remove_lt api i bk =
     lt_log_write ''INFO'' (bytes ''libtorrent torrent removed'') (erase_index (nat i) (bk\<lparr>bk_world := w\<rparr>))"
proof (cases "bk_slots bk ! nat i")
  case None
  then show ?thesis using assms by (intro exI [of _ "bk_world bk"]) (simp add: torrent_mgr_remove_lt_def)
next
  case (Some s)
  let ?b = "bk_session bk \<and> sl_added s \<and> handle_valid api (sl_handle s) (bk_world bk)"
  let ?w = "snd (api_remove api (the (sl_handle s)) (bk_world bk))"
  show ?thesis
    using assms Some
    by (intro exI [of _ "if ?b then ?w else bk_world bk"]) (simp add: torrent_mgr_remove_lt_def lt_call_def split: prod.split)
qed

lemma entries_world [simp]: "entries (bk\<lparr>bk_world := w\<rparr>) = entries bk" "entries (lt_log_write l m bk) = entries bk"
  by (simp_all add: entries_def)

lemma remove_lt_ok: "backend_ok bk \<Longrightarrow> backend_ok (torrent_mgr_remove_lt api i bk)"
  and remove_lt_entries: "backend_ok bk \<Longrightarrow> entries (torrent_mgr_remove_lt api i bk) = delete_at i (entries bk)"
proof -
  assume ok: "backend_ok bk"
  have "backend_ok (torrent_mgr_remove_lt api i bk) \<and> entries (torrent_mgr_remove_lt api i bk) = delete_at i (entries bk)"
  proof (cases "bad_slot i bk")
    case True
    then show ?thesis using ok by (auto simp: torrent_mgr_remove_lt_def bad_slot_def delete_at_def)
  next
    case False
    obtain w where "torrent_mgr_remove_lt api i bk =
        lt_log_write ''INFO'' (bytes ''libtorrent torrent removed'') (erase_index (nat i) (bk\<lparr>bk_world := w\<rparr>))"
      using remove_lt_eq [OF False] by blast
    then show ?thesis
      using ok False ok_erase [of "bk\<lparr>bk_world := w\<rparr>" "nat i"] erase_entries [of "bk\<lparr>bk_world := w\<rparr>" "nat i"]
      by (auto simp: bad_slot_def)
  qed
  then show "backend_ok (torrent_mgr_remove_lt api i bk)" "entries (torrent_mgr_remove_lt api i bk) = delete_at i (entries bk)"
    by simp_all
qed

lemma find_lt:
  assumes "backend_ok bk"
  shows "torrent_mgr_find_lt h bk = first_index (\<lambda>e. take 20 (mt_info_hash (fst e)) = take 20 h) (entries bk)"
proof -
  have "find (\<lambda>i. take 20 (mt_info_hash (bk_torrents bk ! i)) = take 20 h) [0..<bk_num bk] =
      find (\<lambda>i. take 20 (mt_info_hash (fst (entries bk ! i))) = take 20 h) [0..<length (entries bk)]"
    using assms by (intro find_cong) (auto simp: entries_nth)
  then show ?thesis by (simp add: torrent_mgr_find_lt_def first_index_def)
qed

interpretation lt_table: torrent_table entries backend_ok "\<lambda>e. mt_info_hash (fst e)" torrent_mgr_count_lt torrent_mgr_find_lt
    "torrent_mgr_remove_lt api" for api
  by unfold_locales (simp_all add: torrent_mgr_count_lt_def find_lt remove_lt_ok remove_lt_entries)

section \<open>The other operations\<close>

lemma params_state [simp]: "mt_state (params_shown i p mt) = mt_state mt"
  by (simp add: params_shown_def set_hash_def fill_sizes_def Let_def split: option.split)

lemma install_eq:
  assumes "bk_num bk < MAX_TORRENTS" "length (bk_slots bk) = MAX_TORRENTS" "length (bk_torrents bk) = MAX_TORRENTS"
    and run: "install_slot p path is_magnet uri bk = (i, bk')"
  obtains mt s where "i = int (bk_num bk)" "bk_num bk' = bk_num bk + 1"
    "bk_torrents bk' = (bk_torrents bk)[bk_num bk := mt]" "bk_slots bk' = (bk_slots bk)[bk_num bk := Some s]"
    "mt_state mt = TORRENT_STOPPED" "sl_paused s" "\<not> sl_added s" "sl_handle s = None"
    "sl_params s = p\<lparr>ap_save_path := cstr path, ap_auto_managed := True, ap_paused := False\<rparr>"
  using run assms(1-3)
  by (cases "ap_ti p = None")
    (auto simp: install_slot_def fill_metadata_from_params_def new_slot_def put_shown_def put_slot_def Let_def)

lemma install_ok [lt_keeps]:
  assumes "backend_ok bk" "bk_num bk < MAX_TORRENTS"
  shows "backend_ok (snd (install_slot p path is_magnet uri bk))"
proof -
  obtain i bk' where r: "install_slot p path is_magnet uri bk = (i, bk')" by (metis prod.exhaust)
  obtain mt s where i: "bk_num bk' = bk_num bk + 1" "bk_torrents bk' = (bk_torrents bk)[bk_num bk := mt]"
    "bk_slots bk' = (bk_slots bk)[bk_num bk := Some s]" "mt_state mt = TORRENT_STOPPED"
    by (rule install_eq [OF assms(2) _ _ r]) (use assms(1) in \<open>auto simp: backend_ok_def\<close>)
  have "entry_ok mt (Some s)" using i(4) by (simp add: entry_ok_def active_state_def)
  then show ?thesis using assms by (auto simp: r i backend_ok_def nth_list_update less_Suc_eq)
qed

lemma add_raw_ok [lt_keeps]:
  assumes "backend_ok bk"
  shows "backend_ok (snd (torrent_mgr_add_raw_lt api data path bk))"
proof -
  obtain ok bk1 where e: "ensure_session api bk = (ok, bk1)" by (metis prod.exhaust)
  have s: "backend_ok bk1" "bk_num bk1 = bk_num bk" using assms ok_session [of api bk] e by simp_all
  show ?thesis
    using assms s install_ok [OF s(1)]
    by (auto simp: torrent_mgr_add_raw_lt_def e split: option.split prod.split sum.split)
      (metis snd_conv not_le)+
qed

lemma add_magnet_ok [lt_keeps]:
  assumes "backend_ok bk"
  shows "backend_ok (snd (torrent_mgr_add_magnet_lt api uri path bk))"
proof -
  obtain ok bk1 where e: "ensure_session api bk = (ok, bk1)" by (metis prod.exhaust)
  have s: "backend_ok bk1" "bk_num bk1 = bk_num bk" using assms ok_session [of api bk] e by simp_all
  show ?thesis
    using assms s install_ok [OF s(1)]
    by (auto simp: torrent_mgr_add_magnet_lt_def e split: option.split prod.split sum.split)
      (metis snd_conv not_le)+
qed

lemma refused_ok [lt_keeps]: "backend_ok bk \<Longrightarrow> i < bk_num bk \<Longrightarrow> backend_ok (snd (start_refused i e bk))"
proof -
  assume a: "backend_ok bk" "i < bk_num bk"
  have "entry_ok (set_error_lt t e mt) slot" if "entry_ok mt slot" for t mt slot
    using that by (cases slot) (simp_all add: entry_ok_def set_error_lt_def active_state_def)
  then have "entry_ok (set_error_lt TERR_PARSE_FAILED e (bk_torrents bk ! i)) (bk_slots bk ! i)" using ok_nth [OF a] by blast
  from ok_put_shown [of bk i "set_error_lt TERR_PARSE_FAILED e", OF a this] show "backend_ok (snd (start_refused i e bk))"
    by (simp add: start_refused_def)
qed

lemma resume_ok [lt_keeps]:
  assumes "backend_ok bk" "i < bk_num bk"
  shows "backend_ok (snd (resume_slot api now i bk))"
proof -
  let ?b = "put_slot i (\<lambda>s. s\<lparr>sl_paused := False\<rparr>) bk"
  obtain s where s: "bk_slots bk ! i = Some s" using ok_slot assms by blast
  have p: "entry_ok mt (bk_slots (?b\<lparr>bk_world := w\<rparr>) ! i)" for mt w
    using assms s by (simp add: put_slot_nth entry_ok_def backend_ok_def)
  have ok: "backend_ok (?b\<lparr>bk_world := w\<rparr>)" for w
    using assms s by (simp add: ok_put_slot entry_ok_def)
  have "backend_ok (put_shown i f (?b\<lparr>bk_world := w\<rparr>))" for f w
    using assms(2) by (intro ok_put_shown ok p) simp
  then show ?thesis
    by (auto simp: resume_slot_def Let_def start_refused_def split: prod.split option.split dest!: lt_call_eq)
qed

lemma add_session_ok [lt_keeps]:
  assumes "add_to_session api i s bk = (r, bk')" "backend_ok bk" "i < bk_num bk"
  shows "backend_ok bk'" "bk_num bk' = bk_num bk"
proof -
  have e: "entry_ok mt (map_option g slot)" if "entry_ok mt slot" "\<And>s. sl_paused (g s) \<longrightarrow> sl_paused s" "\<And>s. sl_added s \<longrightarrow> sl_added (g s)"
    for mt g slot
    using that by (cases slot) (auto simp: entry_ok_def)
  have slot: "backend_ok (put_slot i g b)" if "backend_ok b" "i < bk_num b"
      "\<And>s. sl_paused (g s) \<longrightarrow> sl_paused s" "\<And>s. sl_added s \<longrightarrow> sl_added (g s)" for g b
    using that ok_nth [OF that(1,2)] by (intro ok_put_slot e) auto
  show "backend_ok bk'" "bk_num bk' = bk_num bk"
    using assms
    by (auto simp: add_to_session_def Let_def slot split: prod.splits add_answer.splits if_splits dest!: lt_call_eq)
qed

lemma start_lt_ok [lt_keeps]:
  assumes "torrent_mgr_start_lt api now index bk = Some (r, bk')" "backend_ok bk"
  shows "backend_ok bk'"
proof -
  obtain ok bk1 where e: "ensure_session api bk = (ok, bk1)" by (metis prod.exhaust)
  have s: "backend_ok bk1" "bk_num bk1 = bk_num bk" using assms ok_session [of api bk] e by simp_all
  let ?i = "nat index"
  show ?thesis
  proof (cases "bad_slot index bk \<or> bk_slots bk ! ?i = None \<or> \<not> ok")
    case True
    then show ?thesis using assms s by (auto simp: torrent_mgr_start_lt_def e Let_def split: if_splits)
  next
    case False
    then have i: "?i < bk_num bk" by (auto simp: bad_slot_def)
    obtain bk2 where p: "pump_alerts api bk1 = Some bk2"
      using assms(1) False by (auto simp: torrent_mgr_start_lt_def e Let_def)
    have b2: "backend_ok bk2" "bk_num bk2 = bk_num bk" using pump_ok [OF p] s by simp_all
    define bk3 where "bk3 = put_shown ?i (\<lambda>mt. mt\<lparr>mt_error_type := TERR_NONE, mt_error_msg := []\<rparr>) bk2"
    have b3: "backend_ok bk3" "?i < bk_num bk3"
      unfolding bk3_def using b2 i ok_nth [of bk2 ?i] by (auto intro!: ok_put_shown intro: entry_same)
    obtain r1 bk4 where a: "add_to_session api ?i (the (bk_slots bk3 ! ?i)) bk3 = (r1, bk4)" by (metis prod.exhaust)
    note b4 = add_session_ok [OF a b3]
    show ?thesis
      using assms(1) False a resume_ok [OF b3] refused_ok [of bk4 ?i] resume_ok [of bk4 ?i] b3 b4
      by (auto simp: torrent_mgr_start_lt_def e p Let_def bk3_def [symmetric] split: if_splits option.splits)
        (metis snd_conv)+
  qed
qed

lemma stop_lt_ok [lt_keeps]:
  assumes "backend_ok bk"
  shows "backend_ok (torrent_mgr_stop_lt api index bk)"
proof (cases "bad_slot index bk \<or> bk_slots bk ! nat index = None")
  case False
  let ?i = "nat index"
  have i: "?i < bk_num bk" using False by (auto simp: bad_slot_def)
  define f where "f = (\<lambda>g (mt :: shown_torrent). mt\<lparr>mt_state := TORRENT_STOPPED, mt_speed_down := 0, mt_speed_up := 0, mt_generation := g\<rparr>)"
  obtain s where s: "bk_slots bk ! ?i = Some s" using False by auto
  have "backend_ok (put_shown ?i (f g) (put_slot ?i (\<lambda>s. s\<lparr>sl_paused := True\<rparr>) b))"
    if "backend_ok b" "bk_num b = bk_num bk" for g b
  proof -
    have "bk_torrents (put_shown ?i (f g) (put_slot ?i (\<lambda>s. s\<lparr>sl_paused := True\<rparr>) b)) = (bk_torrents b)[?i := f g (bk_torrents b ! ?i)]"
      by (simp add: put_shown_nth)
    moreover have "entry_ok (f g (bk_torrents b ! ?i)) (map_option (\<lambda>s. s\<lparr>sl_paused := True\<rparr>) (bk_slots b ! ?i))"
      using ok_slot [OF that(1), of ?i] that(2) i by (auto simp: entry_ok_def f_def active_state_def)
    ultimately show ?thesis using that i by (auto simp: backend_ok_def put_slot_nth nth_list_update)
  qed
  then show ?thesis
    using assms False s
    by (auto simp: torrent_mgr_stop_lt_def Let_def f_def lt_call_def split: prod.split)
qed (use assms in \<open>auto simp: torrent_mgr_stop_lt_def Let_def\<close>)

lemma empty_ok: "backend_ok (bk\<lparr>bk_slots := replicate MAX_TORRENTS None, bk_torrents := replicate MAX_TORRENTS shown_zero, bk_num := 0\<rparr>)"
  by (simp add: backend_ok_def)

lemma init_lt_ok [lt_keeps]: "backend_ok (torrent_mgr_init_lt api bk)"
  using ok_session(1) [of api "(reset_session api bk)\<lparr>bk_slots := replicate MAX_TORRENTS None,
      bk_torrents := replicate MAX_TORRENTS shown_zero, bk_num := 0\<rparr>"] empty_ok [of "reset_session api bk"]
  by (simp add: torrent_mgr_init_lt_def)

lemma tick_lt_ok [lt_keeps]:
  "torrent_mgr_tick_lt api bk = Some (n, bk') \<Longrightarrow> backend_ok bk \<Longrightarrow> backend_ok bk'"
proof -
  assume a: "torrent_mgr_tick_lt api bk = Some (n, bk')" "backend_ok bk"
  obtain b where b: "pump_alerts api bk = Some b" "tick_slots api [0..<bk_num b] b = (n, bk')"
    using a(1) by (auto simp: torrent_mgr_tick_lt_def)
  show "backend_ok bk'" using ok_tick_slots [OF pump_ok(1) [OF b(1) a(2)], of api "[0..<bk_num b]"] b(2) by simp
qed

lemma get_lt_ok [lt_keeps]:
  "torrent_mgr_get_lt api i bk = Some (mt, bk') \<Longrightarrow> backend_ok bk \<Longrightarrow> backend_ok bk'"
  using pump_ok [of api bk] by (auto simp: torrent_mgr_get_lt_def Let_def ok_refresh split: if_splits)

lemma status_lt_ok [lt_keeps]:
  "torrent_mgr_status_json_lt api fmt now buf bk = Some (out, bk') \<Longrightarrow> backend_ok bk \<Longrightarrow> backend_ok bk'"
  using tick_lt_ok [of api bk] by (auto simp: torrent_mgr_status_json_lt_def split: if_splits)

lemma shutdown_lt_ok [lt_keeps]: "torrent_mgr_shutdown_lt api bk = Some bk' \<Longrightarrow> backend_ok bk'"
  by (auto simp: torrent_mgr_shutdown_lt_def empty_ok)

section \<open>Runs\<close>

text \<open>Any sequence of calls of the interface that return.\<close>

inductive backend_step :: "('w, 'h, 'x) libtorrent \<Rightarrow> ('w, 'h, 'x) backend \<Rightarrow> ('w, 'h, 'x) backend \<Rightarrow> bool" for api where
  init: "backend_step api bk (torrent_mgr_init_lt api bk)"
| add_raw: "torrent_mgr_add_raw_lt api data path bk = (i, bk') \<Longrightarrow> backend_step api bk bk'"
| add_magnet: "torrent_mgr_add_magnet_lt api uri path bk = (i, bk') \<Longrightarrow> backend_step api bk bk'"
| start: "torrent_mgr_start_lt api now i bk = Some (r, bk') \<Longrightarrow> backend_step api bk bk'"
| stop: "backend_step api bk (torrent_mgr_stop_lt api i bk)"
| remove: "backend_step api bk (torrent_mgr_remove_lt api i bk)"
| get: "torrent_mgr_get_lt api i bk = Some (mt, bk') \<Longrightarrow> backend_step api bk bk'"
| tick: "torrent_mgr_tick_lt api bk = Some (n, bk') \<Longrightarrow> backend_step api bk bk'"
| status: "torrent_mgr_status_json_lt api fmt now buf bk = Some (out, bk') \<Longrightarrow> backend_step api bk bk'"
| shutdown: "torrent_mgr_shutdown_lt api bk = Some bk' \<Longrightarrow> backend_step api bk bk'"
| time_passes: "backend_step api bk (bk\<lparr>bk_world := w\<rparr>)"

lemma backend_step_ok: "backend_step api bk bk' \<Longrightarrow> backend_ok bk \<Longrightarrow> backend_ok bk'"
proof (induction rule: backend_step.induct)
  case (add_raw data path bk i bk')
  then show ?case using add_raw_ok [of bk api data path] by simp
next
  case (add_magnet uri path bk i bk')
  then show ?case using add_magnet_ok [of bk api uri path] by simp
next
  case (shutdown bk bk')
  then show ?case using shutdown_lt_ok by blast
qed (simp_all add: init_lt_ok start_lt_ok stop_lt_ok remove_lt_ok get_lt_ok tick_lt_ok status_lt_ok)

lemma backend_reachable: "(backend_step api)\<^sup>*\<^sup>* bk bk' \<Longrightarrow> backend_ok bk \<Longrightarrow> backend_ok bk'"
  by (induction rule: rtranclp_induct) (auto intro: backend_step_ok)

lemma start_ok_lt: "backend_ok (backend_start w)"
  by (simp add: backend_ok_def backend_start_def)

text \<open>
  C13.  Whatever is called on the libtorrent manager in whatever order, and whatever the library answers: the two arrays stay in
  step.  Exactly the first \<open>count\<close> entries have a slot, at most \<open>MAX_TORRENTS\<close> of them, and every other entry is empty.
\<close>

theorem backend_arrays_agree:
  assumes "(backend_step api)\<^sup>*\<^sup>* (backend_start w) bk"
  shows "torrent_mgr_count_lt bk \<le> torrent_mgr_capacity_lt \<and>
    (\<forall>i < torrent_mgr_capacity_lt. (bk_slots bk ! i \<noteq> None) = (i < torrent_mgr_count_lt bk) \<and>
       (i < torrent_mgr_count_lt bk \<or> bk_torrents bk ! i = shown_zero))"
proof -
  have ok: "backend_ok bk" using backend_reachable [OF assms start_ok_lt] .
  then have "(bk_slots bk ! i \<noteq> None) = (i < bk_num bk) \<and> (i < bk_num bk \<or> bk_torrents bk ! i = shown_zero)"
    if "i < MAX_TORRENTS" for i
    using that ok_slot [OF ok, of i] by (cases "i < bk_num bk") (auto simp: backend_ok_def)
  then show ?thesis using ok by (simp add: torrent_mgr_count_lt_def torrent_mgr_capacity_lt_def backend_ok_def)
qed

section \<open>What a stopped torrent shows\<close>

text \<open>A paused entry is inactive, unless its handle has expired.\<close>

definition paused_shown :: "('w, 'h, 'x) libtorrent \<Rightarrow> nat \<Rightarrow> ('w, 'h, 'x) backend \<Rightarrow> bool" where
  "paused_shown api i bk \<longleftrightarrow>
     (\<forall>s. bk_slots bk ! i = Some s \<and> sl_paused s \<and> (sl_added s \<longrightarrow> handle_valid api (sl_handle s) (bk_world bk)) \<longrightarrow>
        \<not> active_state (mt_state (bk_torrents bk ! i)))"

lemma numbers_state [simp]: "mt_state (shown_numbers st mt) = mt_state mt"
  by (simp add: shown_numbers_def Let_def)

lemma paused_state: "\<not> active_state (mt_state (shown_state True st mt))"
  by (auto simp: shown_state_def set_error_lt_def active_state_def split: option.split)

text \<open>A refresh does nothing, or writes one entry after one question to the library.\<close>

lemma refresh_cases:
  obtains (idle) "refresh_slot api i bk = bk"
    "\<And>s. i < bk_num bk \<Longrightarrow> bk_slots bk ! i = Some s \<Longrightarrow> \<not> (sl_added s \<and> handle_valid api (sl_handle s) (bk_world bk))"
  | (asked) s g f where "i < bk_num bk" "bk_slots bk ! i = Some s"
    "refresh_slot api i bk = put_shown i f (bk\<lparr>bk_world := snd (api_status api g (bk_world bk))\<rparr>)"
    "\<And>mt. sl_paused s \<Longrightarrow> \<not> active_state (mt_state (f mt))"
proof (cases "i < bk_num bk \<and> (\<exists>s. bk_slots bk ! i = Some s \<and> sl_added s \<and> handle_valid api (sl_handle s) (bk_world bk))")
  case False
  then have "refresh_slot api i bk = bk" by (auto simp: refresh_slot_def split: option.split)
  then show thesis using False idle by auto
next
  case True
  then obtain s where s: "i < bk_num bk" "bk_slots bk ! i = Some s" "sl_added s" "handle_valid api (sl_handle s) (bk_world bk)" by blast
  let ?g = "the (sl_handle s)"
  obtain r w where c: "api_status api ?g (bk_world bk) = (r, w)" by (metis prod.exhaust)
  have e: "\<not> active_state (mt_state (set_error_lt t m mt))" for t m mt by (simp add: set_error_lt_def active_state_def)
  show thesis
  proof (cases r)
    case (Inl m)
    then show thesis using s c e by (intro asked [of s "set_error_lt TERR_TRACKER_FAILED m" ?g]) (simp_all add: refresh_slot_def lt_call_def)
  next
    case (Inr st)
    then show thesis
      using s c paused_state
      by (intro asked [of s "\<lambda>mt. shown_numbers st (shown_state (sl_paused s) st (shown_file st mt))" ?g])
        (simp_all add: refresh_slot_def lt_call_def)
  qed
qed

lemma refresh_world:
  assumes "handles_expire api" "handle_valid api h (bk_world (refresh_slot api i bk))"
  shows "handle_valid api h (bk_world bk)"
  by (cases rule: refresh_cases [of api i bk])
    (use assms in \<open>auto simp: handle_valid_def handles_expire_def split: option.splits\<close>)

lemma refresh_paused:
  assumes "backend_ok bk" "i < bk_num bk" "handles_expire api"
  shows "paused_shown api i (refresh_slot api i bk)"
proof (cases rule: refresh_cases [of api i bk])
  case idle
  then show ?thesis
    using ok_nth [OF assms(1,2)] assms(2) by (auto simp: paused_shown_def entry_ok_def)
next
  case (asked s g f)
  then show ?thesis
    using ok_nth [OF assms(1,2)] by (auto simp: paused_shown_def put_shown_nth)
qed

lemma tick_paused:
  assumes "backend_ok bk" "handles_expire api" "k \<le> bk_num bk" "i < k"
  shows "paused_shown api i (snd (tick_slots api [0..<k] bk))"
  using assms(3,4)
proof (induction k)
  case (Suc k)
  define b where "b = snd (tick_slots api [0..<k] bk)"
  have ok: "backend_ok b" "bk_num b = bk_num bk" using ok_tick_slots [OF assms(1)] by (simp_all add: b_def)
  have t: "snd (tick_slots api [0..<Suc k] bk) = refresh_slot api k b"
    unfolding b_def using tick_snoc [of api "[0..<k]" k bk] by simp
  show ?case
  proof (cases "i = k")
    case True
    then show ?thesis unfolding t using refresh_paused [OF ok(1) _ assms(2)] ok(2) Suc.prems by simp
  next
    case False
    then have "paused_shown api i b" using Suc by (simp add: b_def)
    moreover have "bk_torrents (refresh_slot api k b) ! i = bk_torrents b ! i"
      using refresh_only [of k b api] False by (simp add: only_changes_def)
    ultimately show ?thesis unfolding t paused_shown_def using refresh_world [OF assms(2)] by simp blast
  qed
qed simp

lemma tick_count:
  assumes "k \<le> bk_num bk"
  shows "fst (tick_slots api [0..<k] bk) =
    length (filter (\<lambda>i. active_state (mt_state (bk_torrents (snd (tick_slots api [0..<k] bk)) ! i))) [0..<k])"
  using assms
proof (induction k)
  case 0
  then show ?case by (simp add: tick_slots_def)
next
  case (Suc k)
  let ?b = "snd (tick_slots api [0..<k] bk)"
  have t: "snd (tick_slots api [0..<Suc k] bk) = refresh_slot api k ?b"
    using tick_snoc [of api "[0..<k]" k bk] by simp
  have "bk_torrents (refresh_slot api k ?b) ! j = bk_torrents ?b ! j" if "j < k" for j
    using refresh_only [of k ?b api] that by (simp add: only_changes_def)
  then have "filter (\<lambda>i. active_state (mt_state (bk_torrents (refresh_slot api k ?b) ! i))) [0..<k] =
      filter (\<lambda>i. active_state (mt_state (bk_torrents ?b ! i))) [0..<k]"
    by (intro filter_cong) auto
  moreover have "fst (tick_slots api [0..<Suc k] bk) =
      (if active_state (mt_state (bk_torrents (refresh_slot api k ?b) ! k))
       then fst (tick_slots api [0..<k] bk) + 1 else fst (tick_slots api [0..<k] bk))"
    by (simp add: tick_slots_def Let_def split: prod.split)
  ultimately show ?case using Suc tick_snoc [of api "[0..<k]" k bk] by simp
qed

section \<open>Properties\<close>


text \<open>A library that accepts everything and reports a torrent that is downloading.\<close>

definition demo_params :: "unit lt_params" where
  "demo_params = \<lparr>ap_ti = None, ap_best_hash = replicate 20 7, ap_name = [], ap_save_path = [], ap_auto_managed = True,
     ap_paused = True, ap_rest = ()\<rparr>"

definition demo_status :: lt_status where
  "demo_status = \<lparr>ls_name = bytes ''a'', ls_torrent_file = None, ls_num_pieces = 0, ls_errc = None, ls_is_seeding = False,
     ls_progress = 0, ls_progress_ppm = 0, ls_total_done = 0, ls_total_upload = 0, ls_download_rate = 9, ls_upload_rate = 0, ls_download_payload_rate = 9, ls_upload_payload_rate = 0,
     ls_num_peers = 3, ls_num_seeds = 1, ls_current_tracker = [], ls_total_wanted = 0, ls_total_wanted_done = 0\<rparr>"

definition demo_lt :: "(unit, nat, unit) libtorrent" where
  "demo_lt = \<lparr>api_version = bytes ''2'', api_open = (\<lambda>_ w. (None, w)), api_extend = (\<lambda>_ w. (None, w)), api_close = id,
     api_load_buffer = (\<lambda>_. Inr demo_params), api_load_file = (\<lambda>_. Inr demo_params), api_parse_magnet = (\<lambda>_. Inr demo_params),
     api_read_resume = (\<lambda>_. Inr demo_params), api_write_resume = (\<lambda>_. bytes ''r''), api_same_hashes = (\<lambda>_ _. True), api_moved = id,
     api_add = (\<lambda>_ w. (Answered None (Some 5), w)), api_valid = (\<lambda>_ _. True), api_resume = (\<lambda>_ w. (None, w)),
     api_reannounce = (\<lambda>_ w. (None, w)), api_pause = (\<lambda>_ w. (None, w)), api_remove = (\<lambda>_ w. (None, w)),
     api_save_resume = (\<lambda>_ _ w. (None, w)), api_status = (\<lambda>_ w. (Inr demo_status, w)),
     api_pop_alerts = (\<lambda>w. ([\<lparr>al_kind = Add_torrent 5, al_message = [], al_is_error = False\<rparr>], w))\<rparr>"

definition demo_lt_added :: "(unit, nat, unit) backend" where
  "demo_lt_added = snd (torrent_mgr_add_magnet_lt demo_lt (Some (bytes ''magnet:'')) (Some (bytes ''/a'')) (backend_start ()))"

definition demo_lt_started :: "(unit, nat, unit) backend" where
  "demo_lt_started = snd (the (torrent_mgr_start_lt demo_lt 7 0 demo_lt_added))"

definition demo_lt_stopped :: "(unit, nat, unit) backend" where
  "demo_lt_stopped = torrent_mgr_stop_lt demo_lt 0 demo_lt_started"

definition demo_lt_ticked :: "nat \<times> (unit, nat, unit) backend" where
  "demo_lt_ticked = the (torrent_mgr_tick_lt demo_lt demo_lt_stopped)"

lemma demo_lt_calls: "torrent_mgr_start_lt demo_lt 7 0 demo_lt_added \<noteq> None" "torrent_mgr_tick_lt demo_lt demo_lt_stopped \<noteq> None"
  by code_simp+

lemma demo_lt_run: "(backend_step demo_lt)\<^sup>*\<^sup>* (backend_start ()) demo_lt_stopped"
proof -
  have "backend_step demo_lt (backend_start ()) demo_lt_added"
    unfolding demo_lt_added_def by (rule add_magnet [of _ _ _ _ "fst _"]) (rule prod.collapse [symmetric])
  moreover have "torrent_mgr_start_lt demo_lt 7 0 demo_lt_added =
      Some (fst (the (torrent_mgr_start_lt demo_lt 7 0 demo_lt_added)), demo_lt_started)"
    using demo_lt_calls(1) by (auto simp: demo_lt_started_def)
  moreover have "backend_step demo_lt demo_lt_started demo_lt_stopped"
    unfolding demo_lt_stopped_def by (rule stop)
  ultimately show ?thesis by (meson backend_step.start rtranclp.rtrancl_refl rtranclp.rtrancl_into_rtrancl)
qed


theorem backend_arrays_agree_witness:
  "torrent_mgr_count_lt demo_lt_stopped = 1 \<and> bk_slots demo_lt_stopped ! 0 \<noteq> None \<and> bk_slots demo_lt_stopped ! 1 = None"
proof -
  have "torrent_mgr_count_lt demo_lt_stopped = 1" by code_simp
  moreover have "(0 :: nat) < torrent_mgr_capacity_lt" "(1 :: nat) < torrent_mgr_capacity_lt"
    by (simp_all add: torrent_mgr_capacity_lt_def MAX_TORRENTS_def)
  ultimately show ?thesis using conjunct2 [OF backend_arrays_agree [OF demo_lt_run]] by (metis less_one less_irrefl)
qed

text \<open>
  C15.  An alert of libtorrent changes what is shown of at most one torrent: the one whose slot holds the handle of the
  alert.  Alerts of trackers and peers, and alerts for a handle that no slot holds, change no torrent at all.
\<close>

theorem alert_changes_own:
  assumes "handle_alert api alert bk = Some bk'" "bk_slots bk ! j = Some s" "alert_handle alert \<noteq> sl_handle s"
  shows "bk_torrents bk' ! j = bk_torrents bk ! j \<and> bk_slots bk' ! j = bk_slots bk ! j \<and>
    torrent_mgr_count_lt bk' = torrent_mgr_count_lt bk"
proof -
  have "alert_target api alert bk \<noteq> Some j"
    using assms(2,3) found_slot(2) by (fastforce simp: alert_target_def Option.bind_eq_Some_conv)
  then show ?thesis using alert_only [OF assms(1)] by (simp add: only_changes_def torrent_mgr_count_lt_def)
qed

theorem alert_changes_own_witness:
  "bk_torrents (the (handle_alert demo_lt \<lparr>al_kind = Torrent_finished 6, al_message = [], al_is_error = False\<rparr> demo_lt_started)) ! 0 =
   bk_torrents demo_lt_started ! 0"
proof -
  obtain s where s: "bk_slots demo_lt_started ! 0 = Some s" "sl_handle s = Some 5"
  proof -
    have "map_option sl_handle (bk_slots demo_lt_started ! 0) = Some (Some 5)" by code_simp
    then show thesis using that by auto
  qed
  let ?a = "\<lparr>al_kind = Torrent_finished 6, al_message = [], al_is_error = False\<rparr>"
  have "handle_alert demo_lt ?a demo_lt_started = Some (the (handle_alert demo_lt ?a demo_lt_started))"
    by (simp add: handle_alert_def)
  from alert_changes_own [OF this s(1)] s(2) show ?thesis by (simp add: alert_handle_def)
qed

text \<open>
  The report of the libtorrent manager never leaves its buffer either, and always terminates it.
\<close>

lemma shown_inside: "\<forall>f \<in> set (shown_steps fmt now i mt). keeps_inside f"
  by (simp add: shown_steps_def writer del: bytes_Cons)

theorem status_in_buffer_lt:
  assumes "torrent_mgr_status_json_lt api fmt now buf bk = Some (out, bk')" "64 \<le> length buf"
  shows "length out = length buf \<and> 0 \<in> set out"
proof -
  let ?wr = "\<lparr>jw_buf = buf, jw_size = length buf, jw_pos = 0\<rparr>"
  define fs where "fs = json_writef (bytes ''{'' @ quote @ bytes ''torrents'' @ quote @ bytes '':['') #
     concat (map (\<lambda>i. shown_steps fmt now i (bk_torrents bk' ! i)) [0..<bk_num bk'])"
  have "keeps_inside (steps fs)"
    by (rule steps_inside) (use shown_inside in \<open>auto simp: fs_def writer simp del: bytes_Cons\<close>)
  moreover have "inside ?wr" using assms(2) by (auto simp: inside_def)
  ultimately have i: "inside (steps fs ?wr)" "jw_size (steps fs ?wr) = length buf" by (simp_all add: keeps_inside_def)
  define r where "r = json_writef (bytes '']}'') (steps fs ?wr)"
  have "out = jw_buf r"
    using assms by (auto simp: torrent_mgr_status_json_lt_def r_def fs_def steps_def simp del: bytes_Cons)
  moreover have "ended r" "jw_size r = length buf" using writef_ended [OF i(1), of "bytes '']}''"] i(2) by (simp_all add: r_def)
  ultimately show ?thesis by (auto simp: ended_def inside_def in_set_conv_nth)
qed

theorem status_in_buffer_lt_witness:
  "\<exists>out bk'. torrent_mgr_status_json_lt demo_lt (\<lambda>_. bytes ''0.000'') 9 (replicate 64 7) demo_lt_stopped = Some (out, bk') \<and>
     length out = 64 \<and> 0 \<in> set out"
proof -
  obtain out bk' where r: "torrent_mgr_status_json_lt demo_lt (\<lambda>_. bytes ''0.000'') 9 (replicate 64 7) demo_lt_stopped = Some (out, bk')"
    using demo_lt_calls(2) by (auto simp: torrent_mgr_status_json_lt_def)
  from status_in_buffer_lt [OF r] show ?thesis using r by auto
qed

text \<open>
  A shutdown of the libtorrent manager removes every torrent before it closes the session, and leaves the empty table
  without a session.
\<close>

theorem shutdown_lt_empty:
  assumes "torrent_mgr_shutdown_lt api bk = Some bk'" "backend_ok bk"
  shows "entries (foldl (\<lambda>bk i. torrent_mgr_remove_lt api (int i) bk) bk (rev [0..<torrent_mgr_count_lt bk])) = [] \<and>
    torrent_mgr_count_lt bk' = 0 \<and> \<not> bk_session bk'"
proof -
  have "\<not> bk_session (reset_session api b)" for b by (simp add: reset_session_def)
  then show ?thesis
    using assms lt_table.remove_all(2) [OF assms(2), of api]
    by (auto simp: torrent_mgr_shutdown_lt_def torrent_mgr_count_lt_def split: if_splits)
qed

text \<open>A torrent that is removed is gone, as in the other manager.\<close>

theorem removed_is_gone_lt:
  assumes "backend_ok bk" "i < torrent_mgr_count_lt bk"
    "\<forall>j < torrent_mgr_count_lt bk. j \<noteq> i \<longrightarrow> take 20 (mt_info_hash (fst (entries bk ! j))) \<noteq> take 20 h"
  shows "torrent_mgr_find_lt h (torrent_mgr_remove_lt api (int i) bk) = - 1 \<and>
    entries (torrent_mgr_remove_lt api (int i) bk) = take i (entries bk) @ drop (Suc i) (entries bk)"
  using lt_table.removed_not_found [OF assms] assms
  by (auto simp: remove_lt_entries delete_at_def torrent_mgr_count_lt_def)

end
