(* ===== verification/LtLab.thy ===== *)
theory LtLab
  imports LtApi "HOL-Library.Signed_Division"
begin

text \<open>
  \<open>src_libtorrent/ps5torrent_libtorrent_lab.cpp\<close>: the stand-alone program that downloads one torrent with
  libtorrent, keeps its resume data in a file, and seeds.  A call of the library that throws ends the program
  through the handler of \<open>main\<close>.
\<close>

section \<open>State\<close>

definition data_root :: "byte list" where "data_root = bytes ''/data/PS5Torrent''"
definition download_root :: "byte list" where "download_root = data_root @ bytes ''/libtorrent-downloads''"
definition state_root :: "byte list" where "state_root = data_root @ bytes ''/libtorrent-state''"
definition resume_path :: "byte list" where "resume_path = state_root @ bytes ''/lab.fastresume''"
definition resume_temp_path :: "byte list" where "resume_temp_path = state_root @ bytes ''/lab.fastresume.tmp''"
definition default_torrent_path :: "byte list" where "default_torrent_path = data_root @ bytes ''/input.torrent''"

text \<open>
  \<open>lab_log\<close> are the lines of the log file with their phase, while it is open; \<open>lab_notes\<close> the
  notifications; times are nanoseconds of the steady clock.
\<close>

record 'w lab =
  lab_world :: 'w
  lab_files :: "byte list \<Rightarrow> byte list option"
  lab_log_open :: bool
  lab_log :: "(string \<times> byte list) list"
  lab_notes :: "byte list list"
  lab_bucket :: int
  lab_last_status :: int
  lab_last_resume :: int
  lab_pending :: bool

definition lab_start :: "'w \<Rightarrow> (byte list \<Rightarrow> byte list option) \<Rightarrow> 'w lab" where
  "lab_start w files =
     \<lparr>lab_world = w, lab_files = files, lab_log_open = False, lab_log = [], lab_notes = [], lab_bucket = - 1,
      lab_last_status = 0, lab_last_resume = 0, lab_pending = False\<rparr>"

definition lab_notify :: "byte list \<Rightarrow> 'w lab \<Rightarrow> 'w lab" where
  "lab_notify message lab = lab\<lparr>lab_notes := lab_notes lab @ [take 3074 message]\<rparr>"

text \<open>The line without its time stamp (the first one has no phase either); nothing is written before the file is open.\<close>

definition lab_log_line :: "string \<Rightarrow> byte list \<Rightarrow> 'w lab \<Rightarrow> 'w lab" where
  "lab_log_line phase message lab =
     (if lab_log_open lab then lab\<lparr>lab_log := lab_log lab @ [(phase, message)]\<rparr> else lab)"

section \<open>Files\<close>

text \<open>\<open>None\<close> where \<open>mkdir\<close> succeeds or the directory exists, else the error number.\<close>

definition ensure_directory :: "(byte list \<Rightarrow> int option) \<Rightarrow> byte list \<Rightarrow> 'w lab \<Rightarrow> bool \<times> 'w lab" where
  "ensure_directory mkdir path lab =
     (case mkdir path of
        None \<Rightarrow> (True, lab)
      | Some err \<Rightarrow>
        (False, lab_log_line ''fs''
           (take 255 (bytes ''mkdir failed: '' @ take 180 path @ bytes '' errno='' @ dec_int err)) lab))"

definition prepare_directories :: "(byte list \<Rightarrow> int option) \<Rightarrow> 'w lab \<Rightarrow> bool \<times> 'w lab" where
  "prepare_directories mkdir lab =
     (case ensure_directory mkdir data_root lab of
        (False, lab) \<Rightarrow> (False, lab)
      | (True, lab) \<Rightarrow>
        (case ensure_directory mkdir download_root lab of
           (False, lab) \<Rightarrow> (False, lab)
         | (True, lab) \<Rightarrow> ensure_directory mkdir state_root lab))"

text \<open>
  The answers of the C library while a file is read or written: whether the calls succeed, and how many
  of the bytes \<open>fread\<close> and \<open>fwrite\<close> take.
\<close>

record file_answers =
  fa_open :: bool
  fa_seek_end :: bool
  fa_tell :: bool
  fa_seek_set :: bool
  fa_taken :: "nat \<Rightarrow> nat"
  fa_flush :: bool
  fa_rename :: bool
  fa_remove :: bool

definition read_file :: "file_answers \<Rightarrow> (byte list \<Rightarrow> byte list option) \<Rightarrow> byte list \<Rightarrow> bool \<times> byte list" where
  "read_file fa files path =
     (case files path of
        None \<Rightarrow> (False, [])
      | Some d \<Rightarrow>
        if \<not> fa_open fa \<or> \<not> fa_seek_end fa \<or> \<not> fa_tell fa \<or> \<not> fa_seek_set fa then (False, [])
        else let n = length d;
                 got = min n (fa_taken fa n);
                 ok = (n = 0 \<or> got = n)
             in (ok, if ok then d else []))"

text \<open>The new data goes to another file, which then replaces the old one.\<close>

definition write_resume ::
  "('w, 'h, 'x) libtorrent \<Rightarrow> file_answers \<Rightarrow> 'x lt_params \<Rightarrow> 'w lab \<Rightarrow> bool \<times> 'w lab" where
  "write_resume api fa params lab =
     (let contents = api_write_resume api params
      in if \<not> fa_open fa then (False, lab)
         else let got = min (length contents) (fa_taken fa (length contents));
                  ok = (got = length contents \<and> fa_flush fa);
                  files = (lab_files lab)(resume_temp_path \<mapsto> take got contents)
              in if \<not> ok \<or> \<not> fa_rename fa
                 then (False, lab\<lparr>lab_files := (if fa_remove fa then files(resume_temp_path := None) else files)\<rparr>)
                 else (True, lab\<lparr>lab_files := files(resume_path := files resume_temp_path, resume_temp_path := None)\<rparr>))"

section \<open>The start\<close>

definition make_add_params :: "('w, 'h, 'x) libtorrent \<Rightarrow> byte list \<Rightarrow> byte list + 'x lt_params" where
  "make_add_params api source =
     (if starts_with source (bytes ''magnet:?'') then api_parse_magnet api source else api_load_file api source)"

text \<open>\<open>args\<close> are the arguments of \<open>main\<close>, the name of the program included.\<close>

definition source_from_args :: "byte list option list \<Rightarrow> byte list" where
  "source_from_args args =
     (case args of
        _ # Some a # _ \<Rightarrow> if cstr a \<noteq> [] then cstr a else default_torrent_path
      | _ \<Rightarrow> default_torrent_path)"

definition lab_settings :: "setting list" where
  "lab_settings =
     [Flag ''enable_dht'' True, Flag ''enable_lsd'' True, Flag ''enable_upnp'' False, Flag ''enable_natpmp'' False,
      Str ''listen_interfaces'' (bytes ''0.0.0.0:0''), Str ''disk_write_mode'' (bytes ''always_pwrite''),
      Mask ''alert_mask'' {''error'', ''storage'', ''status'', ''tracker'', ''peer'', ''dht''}]"

text \<open>The parameters of the torrent, or those that were saved for the same torrent.\<close>

definition restored_params ::
  "('w, 'h, 'x) libtorrent \<Rightarrow> file_answers \<Rightarrow> 'x lt_params \<Rightarrow> 'w lab \<Rightarrow> 'x lt_params \<times> 'w lab" where
  "restored_params api fa params lab =
     (let params = params\<lparr>ap_save_path := download_root\<rparr>
      in case read_file fa (lab_files lab) resume_path of
           (False, _) \<Rightarrow> (params, lab)
         | (True, d) \<Rightarrow>
           (case api_read_resume api d of
              Inl e \<Rightarrow> (params, lab_log_line ''resume'' (cstr e) lab)
            | Inr restored \<Rightarrow>
              if api_same_hashes api restored params
              then (restored\<lparr>ap_save_path := download_root\<rparr>, lab_log_line ''resume'' (bytes ''resume data restored'') lab)
              else (params, lab_log_line ''resume'' (bytes ''resume data ignored for different torrent'') lab)))"

text \<open>A call of the library inside the \<open>try\<close> of \<open>main\<close>: the exception, or the next step.\<close>

definition lab_call ::
  "('w \<Rightarrow> byte list option \<times> 'w) \<Rightarrow> 'w lab \<Rightarrow> ('w lab \<Rightarrow> byte list option \<times> 'w lab) \<Rightarrow> byte list option \<times> 'w lab" where
  "lab_call f lab k =
     (case f (lab_world lab) of
        (Some e, w) \<Rightarrow> (Some e, lab\<lparr>lab_world := w\<rparr>)
      | (None, w) \<Rightarrow> k (lab\<lparr>lab_world := w\<rparr>))"

text \<open>Everything in the \<open>try\<close> up to the loop: the handle of the torrent comes with the state.\<close>

definition lab_add ::
  "('w, 'h, 'x) libtorrent \<Rightarrow> file_answers \<Rightarrow> int \<Rightarrow> byte list \<Rightarrow> 'w lab \<Rightarrow> (byte list + 'h option) \<times> 'w lab" where
  "lab_add api fa now source lab =
     (case make_add_params api source of
        Inl e \<Rightarrow> (Inl e, lab)
      | Inr params \<Rightarrow>
        (case restored_params api fa params lab of
           (params, lab) \<Rightarrow>
             (case api_add api params (lab_world lab) of
                (Threw e, w) \<Rightarrow> (Inl e, lab\<lparr>lab_world := w\<rparr>)
              | (Answered _ h, w) \<Rightarrow>
                (Inr h, (lab_log_line ''torrent'' (bytes ''torrent added to libtorrent session'') (lab\<lparr>lab_world := w\<rparr>))
                   \<lparr>lab_bucket := - 1, lab_last_status := now - 10 * 10 ^ 9, lab_last_resume := now, lab_pending := False\<rparr>))))"

definition lab_session ::
  "('w, 'h, 'x) libtorrent \<Rightarrow> file_answers \<Rightarrow> int \<Rightarrow> byte list \<Rightarrow> 'w lab \<Rightarrow> (byte list + 'h option) \<times> 'w lab" where
  "lab_session api fa now source lab =
     (case api_open api lab_settings (lab_world lab) of
        (Some e, w) \<Rightarrow> (Inl e, lab\<lparr>lab_world := w\<rparr>)
      | (None, w) \<Rightarrow>
        (case api_extend api ''ut_metadata'' w of
           (Some e, w) \<Rightarrow> (Inl e, lab\<lparr>lab_world := w\<rparr>)
         | (None, w) \<Rightarrow>
           (case api_extend api ''ut_pex'' w of
              (Some e, w) \<Rightarrow> (Inl e, lab\<lparr>lab_world := w\<rparr>)
            | (None, w) \<Rightarrow> lab_add api fa now source (lab\<lparr>lab_world := w\<rparr>))))"

text \<open>The handler of exceptions, whose code is 1.\<close>

definition lab_failed :: "byte list \<Rightarrow> 'w lab \<Rightarrow> int \<times> 'w lab" where
  "lab_failed what lab =
     (1, (lab_notify (bytes ''PS5Torrent libtorrent lab failed; check log'') (lab_log_line ''exception'' (cstr what) lab))
           \<lparr>lab_log_open := False\<rparr>)"

text \<open>\<open>main\<close> up to its loop: the code of the program where it ends, else the handle.\<close>

definition lab_prologue ::
  "('w, 'h, 'x) libtorrent \<Rightarrow> (byte list \<Rightarrow> int option) \<Rightarrow> bool \<Rightarrow> file_answers \<Rightarrow> int \<Rightarrow> byte list option list \<Rightarrow>
   byte list \<Rightarrow> 'w lab \<Rightarrow> (int + 'h option) \<times> 'w lab" where
  "lab_prologue api mkdir log_open fa now args version lab =
     (case prepare_directories mkdir lab of
        (False, lab) \<Rightarrow> (Inl 2, lab_notify (bytes ''PS5Torrent libtorrent lab: directory setup failed'') lab)
      | (True, lab) \<Rightarrow>
        let lab = lab\<lparr>lab_log_open := log_open\<rparr>;
            lab = lab_log_line [] (bytes ''=== PS5Torrent libtorrent lab '' @ version @ bytes '' ==='') lab;
            source = source_from_args args;
            lab = lab_notify (bytes ''PS5Torrent libtorrent lab started'') (lab_log_line ''startup'' source lab)
        in case lab_session api fa now source lab of
             (Inl e, lab) \<Rightarrow> (case lab_failed e lab of (code, lab) \<Rightarrow> (Inl code, lab))
           | (Inr h, lab) \<Rightarrow> (Inr h, lab))"

section \<open>The loop\<close>

definition lab_save ::
  "('w, 'h, 'x) libtorrent \<Rightarrow> 'h option \<Rightarrow> string list \<Rightarrow> 'w lab \<Rightarrow>
   ('w lab \<Rightarrow> byte list option \<times> 'w lab) \<Rightarrow> byte list option \<times> 'w lab" where
  "lab_save api h flags lab k =
     lab_call (\<lambda>w. case h of None \<Rightarrow> (Some (bytes ''invalid torrent handle used''), w) | Some h \<Rightarrow> api_save_resume api h flags w)
       lab (\<lambda>lab. k (lab\<lparr>lab_pending := True\<rparr>))"

definition lab_resume_alert ::
  "('w, 'h, 'x) libtorrent \<Rightarrow> file_answers \<Rightarrow> 'h option \<Rightarrow> ('h, 'x) lt_alert \<Rightarrow> 'w lab \<Rightarrow> 'w lab" where
  "lab_resume_alert api fa h alert lab =
     (case al_kind alert of
        Resume_saved g params \<Rightarrow>
          if Some g = h
          then (case write_resume api fa params lab of
                  (saved, lab) \<Rightarrow>
                    (lab_log_line ''resume'' (if saved then bytes ''resume data saved'' else bytes ''failed to save resume data'') lab)
                      \<lparr>lab_pending := False\<rparr>)
          else lab
      | Resume_failed g \<Rightarrow> if Some g = h then lab\<lparr>lab_pending := False\<rparr> else lab
      | _ \<Rightarrow> lab)"

definition lab_alert ::
  "('w, 'h, 'x) libtorrent \<Rightarrow> file_answers \<Rightarrow> 'h option \<Rightarrow> ('h, 'x) lt_alert \<Rightarrow> 'w lab \<Rightarrow> byte list option \<times> 'w lab" where
  "lab_alert api fa h alert lab =
     (let lab = lab_resume_alert api fa h alert (lab_log_line ''alert'' (cstr (al_message alert)) lab)
      in case al_kind alert of
           Torrent_finished _ \<Rightarrow>
             lab_save api h [''save_info_dict'']
               (lab_notify (bytes ''PS5Torrent libtorrent lab: download finished and verified'') lab) (\<lambda>lab. (None, lab))
         | _ \<Rightarrow> (None, lab))"

primrec lab_alerts ::
  "('w, 'h, 'x) libtorrent \<Rightarrow> (nat \<Rightarrow> file_answers) \<Rightarrow> 'h option \<Rightarrow> ('h, 'x) lt_alert list \<Rightarrow> 'w lab \<Rightarrow>
   byte list option \<times> 'w lab" where
  "lab_alerts api fa h [] lab = (None, lab)"
| "lab_alerts api fa h (a # as) lab =
     (case lab_alert api (fa (length as)) h a lab of
        (Some e, lab) \<Rightarrow> (Some e, lab)
      | (None, lab) \<Rightarrow> lab_alerts api fa h as lab)"

definition progress_text :: "lt_status \<Rightarrow> byte list" where
  "progress_text st =
     take 159 (bytes ''PS5Torrent libtorrent lab: '' @ dec_int (ls_progress_ppm st sdiv 10000) @ bytes ''% '' @
       dec_int (ls_download_payload_rate st sdiv 1000) @ bytes '' kB/s'')"

definition lab_progress :: "lt_status \<Rightarrow> 'w lab \<Rightarrow> 'w lab" where
  "lab_progress st lab =
     (let bucket = ls_progress_ppm st sdiv 100000
      in if lab_bucket lab < bucket then (lab_notify (progress_text st) lab)\<lparr>lab_bucket := bucket\<rparr> else lab)"

definition status_line :: "lt_status \<Rightarrow> byte list" where
  "status_line st =
     take 511 (cstr (ls_name st) @ bytes '' | '' @ dec_int (ls_progress_ppm st sdiv 10000) @ bytes ''% | down='' @
       dec_int (ls_download_payload_rate st) @ bytes '' B/s up='' @ dec_int (ls_upload_payload_rate st) @ bytes '' B/s peers='' @
       dec_int (ls_num_peers st) @ bytes '' seeds='' @ dec_int (ls_num_seeds st) @ bytes '' total='' @
       dec_int (ls_total_wanted st) @ bytes '' done='' @ dec_int (ls_total_wanted_done st))"

definition lab_log_status :: "lt_status \<Rightarrow> 'w lab \<Rightarrow> 'w lab" where
  "lab_log_status st lab = lab_log_line ''status'' (status_line st) lab"

text \<open>What a round does after the alerts, once the status is known; \<open>now\<close> is the time that it reads.\<close>

definition seeding_all :: "lt_status \<Rightarrow> bool" where
  "seeding_all st \<longleftrightarrow> ls_is_seeding st \<and> 1000000 \<le> ls_progress_ppm st"

definition lab_complete ::
  "('w, 'h, 'x) libtorrent \<Rightarrow> 'h option \<Rightarrow> lt_status \<Rightarrow> 'w lab \<Rightarrow> byte list option \<times> 'w lab" where
  "lab_complete api h st lab =
     (if seeding_all st \<and> \<not> lab_pending lab
      then lab_save api h [''save_info_dict'']
             (lab_log_line ''complete'' (bytes ''download complete; lab keeps seeding'') lab) (\<lambda>lab. (None, lab))
      else (None, lab))"

definition lab_timers ::
  "('w, 'h, 'x) libtorrent \<Rightarrow> 'h option \<Rightarrow> int \<Rightarrow> lt_status \<Rightarrow> 'w lab \<Rightarrow> byte list option \<times> 'w lab" where
  "lab_timers api h now st lab =
     (let lab = (if 5 * 10 ^ 9 \<le> now - lab_last_status lab
                 then (lab_log_status st lab)\<lparr>lab_last_status := now\<rparr> else lab)
      in if \<not> lab_pending lab \<and> 90 * 10 ^ 9 \<le> now - lab_last_resume lab
         then lab_save api h [''only_if_modified'', ''save_info_dict''] lab
                (\<lambda>lab. lab_complete api h st (lab\<lparr>lab_last_resume := now\<rparr>))
         else lab_complete api h st lab)"

definition lab_round ::
  "('w, 'h, 'x) libtorrent \<Rightarrow> (nat \<Rightarrow> file_answers) \<Rightarrow> 'h option \<Rightarrow> int \<Rightarrow> 'w lab \<Rightarrow> byte list option \<times> 'w lab" where
  "lab_round api fa h now lab =
     (case api_pop_alerts api (lab_world lab) of
        (alerts, w) \<Rightarrow>
          (case lab_alerts api fa h alerts (lab\<lparr>lab_world := w\<rparr>) of
             (Some e, lab) \<Rightarrow> (Some e, lab)
           | (None, lab) \<Rightarrow>
             (case (case h of None \<Rightarrow> (Inl (bytes ''invalid torrent handle used''), lab_world lab)
                    | Some h \<Rightarrow> api_status api h (lab_world lab)) of
                (Inl e, w) \<Rightarrow> (Some e, lab\<lparr>lab_world := w\<rparr>)
              | (Inr st, w) \<Rightarrow> lab_timers api h now st (lab_progress st (lab\<lparr>lab_world := w\<rparr>)))))"

text \<open>Rounds in sequence, with the time and the answers of each.\<close>

primrec lab_rounds ::
  "('w, 'h, 'x) libtorrent \<Rightarrow> 'h option \<Rightarrow> ((nat \<Rightarrow> file_answers) \<times> int) list \<Rightarrow> 'w lab \<Rightarrow> byte list option \<times> 'w lab" where
  "lab_rounds api h [] lab = (None, lab)"
| "lab_rounds api h (r # rs) lab =
     (case lab_round api (fst r) h (snd r) lab of
        (Some e, lab) \<Rightarrow> (Some e, lab)
      | (None, lab) \<Rightarrow> lab_rounds api h rs lab)"

section \<open>Facts about a round\<close>

lemma lab_fields [simp]:
  "lab_notes (lab_log_line ph m lab) = lab_notes lab" "lab_bucket (lab_log_line ph m lab) = lab_bucket lab"
  "lab_files (lab_log_line ph m lab) = lab_files lab" "lab_world (lab_log_line ph m lab) = lab_world lab"
  "lab_pending (lab_log_line ph m lab) = lab_pending lab"
  "lab_notes (lab_notify m lab) = lab_notes lab @ [take 3074 m]" "lab_bucket (lab_notify m lab) = lab_bucket lab"
  by (simp_all add: lab_log_line_def lab_notify_def)

lemma save_cases:
  assumes "lab_save api h flags lab k = (r, lab')"
  obtains (raised) w e where "r = Some e" "lab' = lab\<lparr>lab_world := w\<rparr>"
    | (asked) w where "k (lab\<lparr>lab_world := w, lab_pending := True\<rparr>) = (r, lab')"
proof -
  define f where "f = (\<lambda>w. case h of None \<Rightarrow> (Some (bytes ''invalid torrent handle used''), w) | Some h \<Rightarrow> api_save_resume api h flags w)"
  obtain e w where e: "f (lab_world lab) = (e, w)" by (metis prod.exhaust)
  have l: "lab_call f lab (\<lambda>lab. k (lab\<lparr>lab_pending := True\<rparr>)) = (r, lab')" using assms by (simp add: lab_save_def f_def)
  show thesis
  proof (cases e)
    case None
    then show thesis using l e by (intro asked [of w]) (simp add: lab_call_def)
  next
    case (Some a)
    then show thesis using l e by (intro raised [of a w]) (auto simp: lab_call_def)
  qed
qed

lemma complete_cases:
  assumes "lab_complete api h st lab = (r, lab')"
  shows "lab_notes lab' = lab_notes lab \<and> lab_bucket lab' = lab_bucket lab \<and> lab_files lab' = lab_files lab \<and>
    (r = None \<and> seeding_all st \<longrightarrow> lab_pending lab')"
  using assms by (auto simp: lab_complete_def elim!: save_cases split: if_splits)

lemma timers_keep:
  assumes "lab_timers api h now st lab = (r, lab')"
  shows "lab_notes lab' = lab_notes lab \<and> lab_bucket lab' = lab_bucket lab \<and> lab_files lab' = lab_files lab \<and>
    (r = None \<and> seeding_all st \<longrightarrow> lab_pending lab')"
  using assms
  by (auto simp: lab_timers_def Let_def lab_log_status_def elim!: save_cases dest!: complete_cases split: if_splits)

lemma resume_alert_keeps:
  "lab_notes (lab_resume_alert api fa h a lab) = lab_notes lab \<and> lab_bucket (lab_resume_alert api fa h a lab) = lab_bucket lab"
  by (auto simp: lab_resume_alert_def write_resume_def Let_def split: alert_kind.split prod.split)

definition finished_alerts :: "('h, 'x) lt_alert list \<Rightarrow> nat" where
  "finished_alerts as = length (filter (\<lambda>a. case al_kind a of Torrent_finished _ \<Rightarrow> True | _ \<Rightarrow> False) as)"

lemma alert_notes:
  assumes "lab_alert api fa h a lab = (r, lab')"
  shows "length (lab_notes lab') \<le> length (lab_notes lab) + finished_alerts [a] \<and> lab_bucket lab' = lab_bucket lab"
  using assms
  by (auto simp: lab_alert_def Let_def finished_alerts_def resume_alert_keeps elim!: save_cases split: alert_kind.splits)

lemma alerts_notes:
  "lab_alerts api fa h as lab = (r, lab') \<Longrightarrow>
   length (lab_notes lab') \<le> length (lab_notes lab) + finished_alerts as \<and> lab_bucket lab' = lab_bucket lab"
proof (induction as arbitrary: lab)
  case (Cons a as)
  obtain r1 lab1 where a: "lab_alert api (fa (length as)) h a lab = (r1, lab1)" by (metis prod.exhaust)
  have "finished_alerts (a # as) = finished_alerts [a] + finished_alerts as" by (simp add: finished_alerts_def)
  then show ?case
    using alert_notes [OF a] Cons a by (cases r1) fastforce+
qed simp

lemma round_notes:
  assumes "lab_round api fa h now lab = (r, lab')"
  shows "int (length (lab_notes lab')) \<le>
      int (length (lab_notes lab)) + int (finished_alerts (fst (api_pop_alerts api (lab_world lab)))) + (lab_bucket lab' - lab_bucket lab) \<and>
    lab_bucket lab \<le> lab_bucket lab'"
proof -
  obtain as w where p: "api_pop_alerts api (lab_world lab) = (as, w)" by (metis prod.exhaust)
  obtain r1 lab1 where a: "lab_alerts api fa h as (lab\<lparr>lab_world := w\<rparr>) = (r1, lab1)" by (metis prod.exhaust)
  note n = alerts_notes [OF a]
  obtain q w2 where q: "(case h of None \<Rightarrow> (Inl (bytes ''invalid torrent handle used''), lab_world lab1)
      | Some h \<Rightarrow> api_status api h (lab_world lab1)) = (q, w2)" by (metis prod.exhaust)
  show ?thesis
  proof (cases "\<exists>st. r1 = None \<and> q = Inr st")
    case False
    then show ?thesis using assms n p a q by (auto simp: lab_round_def split: option.splits sum.splits)
  next
    case True
    then obtain st where st: "r1 = None" "q = Inr st" by blast
    define lab2 where "lab2 = lab_progress st (lab1\<lparr>lab_world := w2\<rparr>)"
    have t: "lab_timers api h now st lab2 = (r, lab')" using assms p a q st by (simp add: lab_round_def lab2_def del: bytes_Cons)
    have "int (length (lab_notes lab2)) \<le> int (length (lab_notes lab1)) + (lab_bucket lab2 - lab_bucket lab1) \<and>
        lab_bucket lab1 \<le> lab_bucket lab2"
      by (auto simp: lab2_def lab_progress_def Let_def)
    then show ?thesis using n timers_keep [OF t] p by auto
  qed
qed

section \<open>Properties\<close>

lemma write_resume_file:
  assumes "write_resume api fa params lab = (saved, lab')"
  shows "lab_files lab' resume_path = (if saved then Some (api_write_resume api params) else lab_files lab resume_path) \<and>
    (\<forall>path. path \<noteq> resume_path \<and> path \<noteq> resume_temp_path \<longrightarrow> lab_files lab' path = lab_files lab path) \<and>
    (saved \<longrightarrow> lab_files lab' resume_temp_path = None)"
proof -
  have "resume_path \<noteq> resume_temp_path" by (simp add: resume_path_def resume_temp_path_def)
  then show ?thesis
    using assms by (auto simp: write_resume_def Let_def min_def split: if_splits)
qed


definition all_good :: file_answers where
  "all_good = \<lparr>fa_open = True, fa_seek_end = True, fa_tell = True, fa_seek_set = True, fa_taken = id, fa_flush = True,
     fa_rename = True, fa_remove = True\<rparr>"


definition demo_lab_api :: "(nat, nat, unit) libtorrent" where
  "demo_lab_api = \<lparr>api_version = bytes ''2'', api_open = (\<lambda>_ w. (None, w)), api_extend = (\<lambda>_ w. (None, w)), api_close = id,
     api_load_buffer = (\<lambda>_. Inl []), api_load_file = (\<lambda>_. Inl []), api_parse_magnet = (\<lambda>_. Inl []),
     api_read_resume = (\<lambda>d. Inr \<lparr>ap_ti = None, ap_best_hash = d, ap_name = [], ap_save_path = [], ap_auto_managed = True,
       ap_paused = False, ap_rest = ()\<rparr>),
     api_write_resume = ap_best_hash, api_same_hashes = (\<lambda>p q. ap_best_hash p = ap_best_hash q), api_moved = id,
     api_add = (\<lambda>_ w. (Answered None (Some 5), w)), api_valid = (\<lambda>_ _. True), api_resume = (\<lambda>_ w. (None, w)),
     api_reannounce = (\<lambda>_ w. (None, w)), api_pause = (\<lambda>_ w. (None, w)), api_remove = (\<lambda>_ w. (None, w)),
     api_save_resume = (\<lambda>_ _ w. (None, w)),
     api_status = (\<lambda>_ w. (Inr \<lparr>ls_name = [], ls_torrent_file = None, ls_num_pieces = 0, ls_errc = None,
       ls_is_seeding = 10 \<le> w, ls_progress = 0, ls_progress_ppm = int (min 10 w) * 100000, ls_total_done = 0, ls_total_upload = 0,
       ls_download_rate = 0, ls_upload_rate = 0, ls_download_payload_rate = 5000, ls_upload_payload_rate = 0, ls_num_peers = 1,
       ls_num_seeds = 1, ls_current_tracker = [], ls_total_wanted = 0, ls_total_wanted_done = 0\<rparr>, w)),
     api_pop_alerts = (\<lambda>w. (if w = 9 then [\<lparr>al_kind = Torrent_finished 5, al_message = [], al_is_error = False\<rparr>] else [], Suc w))\<rparr>"

definition demo_saved :: "unit lt_params" where
  "demo_saved = \<lparr>ap_ti = None, ap_best_hash = replicate 20 7, ap_name = [], ap_save_path = [], ap_auto_managed = True,
     ap_paused = False, ap_rest = ()\<rparr>"



definition bounded_progress :: "('w, 'h, 'x) libtorrent \<Rightarrow> bool" where
  "bounded_progress api \<longleftrightarrow> (\<forall>h w st w'. api_status api h w = (Inr st, w') \<longrightarrow> ls_progress_ppm st \<le> 1000000)"

primrec finishes ::
  "('w, 'h, 'x) libtorrent \<Rightarrow> 'h option \<Rightarrow> ((nat \<Rightarrow> file_answers) \<times> int) list \<Rightarrow> 'w lab \<Rightarrow> nat" where
  "finishes api h [] lab = 0"
| "finishes api h (r # rs) lab =
     finished_alerts (fst (api_pop_alerts api (lab_world lab))) + finishes api h rs (snd (lab_round api (fst r) h (snd r) lab))"

lemma rounds_notes:
  "lab_rounds api h rs lab = (r, lab') \<Longrightarrow>
   int (length (lab_notes lab')) \<le> int (length (lab_notes lab)) + int (finishes api h rs lab) + (lab_bucket lab' - lab_bucket lab)"
proof (induction rs arbitrary: lab)
  case (Cons x rs)
  obtain q lab1 where a: "lab_round api (fst x) h (snd x) lab = (q, lab1)" by (metis prod.exhaust)
  note n = round_notes [OF a]
  show ?case
  proof (cases q)
    case None
    then show ?thesis using Cons.IH [of lab1] Cons.prems n a by simp
  next
    case (Some e)
    then show ?thesis using Cons.prems n a by simp
  qed
qed simp

lemma ppm_tenths: "p \<le> 1000000 \<Longrightarrow> p sdiv 100000 \<le> (10 :: int)"
  using zdiv_mono1 [of p 1000000 100000] zdiv_mono1 [of 0 "- p" 100000]
  by (cases "0 \<le> p") (auto simp: sgn_if signed_divide_int_def)

lemma round_bucket:
  assumes "lab_round api fa h now lab = (r, lab')" "bounded_progress api" "lab_bucket lab \<le> 10"
  shows "lab_bucket lab' \<le> 10"
proof -
  obtain as w where p: "api_pop_alerts api (lab_world lab) = (as, w)" by (metis prod.exhaust)
  obtain r1 lab1 where a: "lab_alerts api fa h as (lab\<lparr>lab_world := w\<rparr>) = (r1, lab1)" by (metis prod.exhaust)
  have b: "lab_bucket lab1 \<le> 10" using alerts_notes [OF a] assms(3) by simp
  show ?thesis
  proof (cases "\<exists>st w2 g. r1 = None \<and> h = Some g \<and> api_status api g (lab_world lab1) = (Inr st, w2)")
    case False
    then show ?thesis using assms(1) b p a by (auto simp: lab_round_def split: option.splits sum.splits prod.splits)
  next
    case True
    then obtain st w2 g where st: "r1 = None" "h = Some g" "api_status api g (lab_world lab1) = (Inr st, w2)" by blast
    define lab2 where "lab2 = lab_progress st (lab1\<lparr>lab_world := w2\<rparr>)"
    have t: "lab_timers api h now st lab2 = (r, lab')" using assms(1) p a st by (simp add: lab_round_def lab2_def)
    have "ls_progress_ppm st sdiv 100000 \<le> 10" using assms(2) st(3) ppm_tenths by (auto simp: bounded_progress_def)
    then have "lab_bucket lab2 \<le> 10" using b by (simp add: lab2_def lab_progress_def Let_def)
    then show ?thesis using timers_keep [OF t] by simp
  qed
qed

lemma rounds_bucket:
  "lab_rounds api h rs lab = (r, lab') \<Longrightarrow> bounded_progress api \<Longrightarrow> lab_bucket lab \<le> 10 \<Longrightarrow> lab_bucket lab' \<le> 10"
proof (induction rs arbitrary: lab)
  case (Cons x rs)
  obtain q lab1 where a: "lab_round api (fst x) h (snd x) lab = (q, lab1)" by (metis prod.exhaust)
  have "lab_bucket lab1 \<le> 10" using round_bucket [OF a] Cons.prems by simp
  then show ?case using Cons a by (cases q) auto
qed simp

text \<open>
  C18.  The lab notifies each tenth of the progress at most once: over any number of rounds, the notifications are at most
  those of finished torrents plus the tenths by which the progress has risen, which are at most eleven, since the
  library reports at most a million parts per million.
\<close>

theorem progress_notified_once:
  assumes "lab_rounds api h rs lab = (r, lab')" "bounded_progress api" "lab_bucket lab = - 1"
  shows "length (lab_notes lab') \<le> length (lab_notes lab) + finishes api h rs lab + 11"
  using rounds_notes [OF assms(1)] rounds_bucket [OF assms(1,2)] assms(3) by linarith

definition demo_rounds :: "((nat \<Rightarrow> file_answers) \<times> int) list" where
  "demo_rounds = replicate 30 (\<lambda>_. all_good, 0)"

theorem progress_notified_once_witness:
  "length (lab_notes (snd (lab_rounds demo_lab_api (Some 5) demo_rounds (lab_start 0 Map.empty)))) \<le>
     finishes demo_lab_api (Some 5) demo_rounds (lab_start 0 Map.empty) + 11"
proof -
  have b: "bounded_progress demo_lab_api" by (auto simp: bounded_progress_def demo_lab_api_def)
  show ?thesis
    using progress_notified_once [OF prod.collapse [symmetric] b, of "lab_start 0 Map.empty" "Some 5" demo_rounds]
    by (simp add: lab_start_def)
qed

text \<open>
  A lab that seeds never comes to rest: every round in which the torrent is complete ends with a request for resume
  data under way, so that each answer to one is followed by the next request and another line in the log.
\<close>

theorem seeding_saves_again:
  assumes "lab_timers api h now st lab = (None, lab')" "seeding_all st"
  shows "lab_pending lab'"
  using timers_keep [OF assms(1)] assms(2) by simp

text \<open>
  The error number of a directory that cannot be created is lost: the log is opened only after the directories.
\<close>

theorem directory_error_unlogged:
  assumes "prepare_directories mkdir (lab_start w files) = (False, lab)"
  shows "lab_log lab = []"
  using assms
  by (auto simp: prepare_directories_def ensure_directory_def lab_start_def lab_log_line_def split: option.splits)

end
