(* ===== verification/UiPrint.thy ===== *)
theory UiPrint
  imports Startup PieceMgr Torrent "HOL-Library.Signed_Division"
begin

text \<open>
  The printing functions of \<open>src/ui.c\<close>: the banner, the description of a torrent and the line of its progress,
  as the texts that they pass to \<open>ui_log\<close> one after the other.
\<close>

section \<open>Lines\<close>

definition ui_lines :: "log_env \<Rightarrow> byte list list \<Rightarrow> ui_state \<Rightarrow> ui_state" where
  "ui_lines le lines ui = foldl (\<lambda>ui text. ui_log le text ui) ui lines"

text \<open>The characters of a box: horizontal and vertical line, and the corners.\<close>

definition box_h :: "byte list" where "box_h = concat (replicate 42 [0xE2, 0x95, 0x90])"
definition box_v :: "byte list" where "box_v = [0xE2, 0x95, 0x91]"

definition banner_lines :: "byte list list" where
  "banner_lines =
     [[],
      bytes ''  '' @ [0xE2, 0x95, 0x94] @ box_h @ [0xE2, 0x95, 0x97],
      bytes ''  '' @ box_v @ bytes ''         PS5Torrent v2.0.4                '' @ box_v,
      bytes ''  '' @ box_v @ bytes ''    BitTorrent Client for PlayStation 5    '' @ box_v,
      bytes ''  '' @ box_v @ bytes ''         Homebrew ELF Payload              '' @ box_v,
      bytes ''  '' @ [0xE2, 0x95, 0x9A] @ box_h @ [0xE2, 0x95, 0x9D],
      [],
      bytes ''  Built with ps5-payload-sdk'',
      []]"

definition ui_print_banner :: "log_env \<Rightarrow> ui_state \<Rightarrow> ui_state" where
  "ui_print_banner le ui = ui_lines le banner_lines ui"

section \<open>A torrent\<close>

definition or_text :: "byte list option \<Rightarrow> string \<Rightarrow> byte list" where
  "or_text s missing = (case s of Some x \<Rightarrow> cstr x | None \<Rightarrow> bytes missing)"

definition file_lines :: "torrent \<Rightarrow> byte list list" where
  "file_lines t =
     (if t_is_multi_file t \<and> t_files t \<noteq> []
      then [bytes ''  Files:''] @
        map (\<lambda>i. bytes ''    ['' @ dec i @ bytes ''] '' @ or_text (tf_path (t_files t ! i)) ''?'' @ bytes '' ('' @
               dec_int (sint (tf_length (t_files t ! i))) @ bytes '' bytes)'') [0..<min 10 (length (t_files t))] @
        (if 10 < length (t_files t)
         then [bytes ''    ... and '' @ dec (length (t_files t) - 10) @ bytes '' more files''] else [])
      else [])"

text \<open>\<open>fmt\<close> is the text of a number with two decimals.\<close>

definition info_lines :: "(rat \<Rightarrow> byte list) \<Rightarrow> torrent \<Rightarrow> byte list list" where
  "info_lines fmt t =
     [bytes ''=== Torrent Information ==='',
      bytes ''  Name:        '' @ or_text (t_name t) ''N/A'',
      bytes ''  Info Hash:   '' @ torrent_info_hash_str t,
      bytes ''  Size:        '' @ dec_int (sint (t_total_size t)) @ bytes '' bytes ('' @
        fmt (of_int (sint (t_total_size t)) / (1024 * 1024)) @ bytes '' MB)'',
      bytes ''  Pieces:      '' @ dec (t_num_pieces t) @ bytes '' x '' @ dec_int (sint (t_piece_length t)) @ bytes '' bytes'',
      bytes ''  Files:       '' @ (if t_is_multi_file t then bytes ''Multi-file'' else bytes ''Single file'') @ bytes '' ('' @
        (if t_is_multi_file t then bytes ''see file list below'' else or_text (t_file_name t) ''unnamed'') @ bytes '')'',
      bytes ''  Tracker:     '' @ or_text (t_announce t) ''N/A''] @
     (if 1 < length (t_announce_list t) then [bytes ''  Trackers:    '' @ dec (length (t_announce_list t)) @ bytes '' total'']
      else []) @
     file_lines t @ [bytes ''=========================='']"

definition ui_print_torrent_info :: "log_env \<Rightarrow> (rat \<Rightarrow> byte list) \<Rightarrow> torrent option \<Rightarrow> ui_state \<Rightarrow> ui_state" where
  "ui_print_torrent_info le fmt torrent ui =
     (case torrent of None \<Rightarrow> ui | Some t \<Rightarrow> ui_lines le (info_lines fmt t) ui)"

section \<open>Progress\<close>

text \<open>\<open>rnd\<close> rounds to a float; a conversion to \<open>int\<close> drops the fraction.\<close>

definition int_of_float :: "rat \<Rightarrow> int" where
  "int_of_float x = (if x < 0 then \<lceil>x\<rceil> else \<lfloor>x\<rfloor>)"

definition progress_bar :: "int \<Rightarrow> byte list" where
  "progress_bar filled =
     map (\<lambda>i. if int i < filled then ch CHR ''#'' else if int i = filled then ch CHR ''>'' else ch CHR ''.'') [0..<40]"

definition progress_filled :: "(rat \<Rightarrow> rat) \<Rightarrow> piece_mgr \<Rightarrow> int" where
  "progress_filled rnd pm = int_of_float (rnd (rnd (piece_mgr_progress pm) * 40))"

definition progress_line :: "(rat \<Rightarrow> rat) \<Rightarrow> piece_mgr \<Rightarrow> int \<Rightarrow> i64 \<Rightarrow> i64 \<Rightarrow> byte list" where
  "progress_line rnd pm active_peers downloaded uploaded =
     [13] @ bytes ''['' @ progress_bar (progress_filled rnd pm) @ bytes ''] '' @
     dec_int (int_of_float (rnd (rnd (piece_mgr_progress pm) * 100))) @ bytes ''% | '' @
     dec (pm_num_complete pm) @ bytes ''/'' @ dec (pm_num_pieces pm) @ bytes '' pieces | '' @
     dec_int active_peers @ bytes '' peers | DL: '' @ dec_int (sint downloaded sdiv 1024) @ bytes '' KB | UL: '' @
     dec_int (sint uploaded sdiv 1024) @ bytes '' KB''"

definition ui_print_progress ::
  "log_env \<Rightarrow> (rat \<Rightarrow> rat) \<Rightarrow> piece_mgr option \<Rightarrow> int \<Rightarrow> i64 \<Rightarrow> i64 \<Rightarrow> ui_state \<Rightarrow> ui_state" where
  "ui_print_progress le rnd pm active_peers downloaded uploaded ui =
     (case pm of None \<Rightarrow> ui | Some pm \<Rightarrow> ui_log le (progress_line rnd pm active_peers downloaded uploaded) ui)"

section \<open>Properties\<close>

lemma count_below: "length (filter (\<lambda>i. int i < k) [0..<n]) = min n (nat k)"
proof (induction n)
  case (Suc n)
  then show ?case by (cases "int n < k") auto
qed simp

lemma bar_filled: "length (filter (\<lambda>c. c = ch CHR ''#'') (progress_bar k)) = min 40 (nat k)"
proof -
  have "filter (\<lambda>c. c = ch CHR ''#'') (progress_bar k) =
      map (\<lambda>_. ch CHR ''#'') (filter (\<lambda>i. int i < k) [0..<40])"
    unfolding progress_bar_def filter_map by (auto simp: o_def intro!: map_cong filter_cong split: if_splits)
  then show ?thesis using count_below [of k 40] by simp
qed

text \<open>
  The bar always fills its array of 40 characters, shows no more progress than there is, never shrinks when pieces
  are completed, is empty without a complete piece and full once all are complete, for every rounding of
  floats that is monotone and exact on whole numbers.
\<close>

theorem bar_shows_progress:
  assumes rnd: "mono rnd" "\<And>n. rnd (of_int n) = of_int n"
    and pm: "pm_num_complete pm \<le> pm_num_complete pm'" "pm_num_complete pm' \<le> pm_num_pieces pm'"
      "pm_num_pieces pm = pm_num_pieces pm'"
  shows "length (progress_bar (progress_filled rnd pm)) = 40 \<and>
    0 \<le> progress_filled rnd pm \<and> progress_filled rnd pm \<le> progress_filled rnd pm' \<and> progress_filled rnd pm' \<le> 40 \<and>
    (pm_num_complete pm = 0 \<longrightarrow> progress_filled rnd pm = 0) \<and>
    (0 < pm_num_pieces pm' \<and> pm_num_complete pm' = pm_num_pieces pm' \<longrightarrow>
       progress_bar (progress_filled rnd pm') = replicate 40 (ch CHR ''#''))"
proof -
  let ?p = "piece_mgr_progress pm" and ?p' = "piece_mgr_progress pm'"
  have p: "0 \<le> ?p" "?p \<le> ?p'" "?p' \<le> 1"
    using pm by (auto simp: piece_mgr_progress_def divide_right_mono)
  have whole: "rnd 0 = 0" "rnd 1 = 1" "rnd 40 = 40" using rnd(2) [of 0] rnd(2) [of 1] rnd(2) [of 40] by simp_all
  have q: "0 \<le> rnd ?p" "rnd ?p \<le> rnd ?p'" "rnd ?p' \<le> 1"
    using p monoD [OF rnd(1)] whole by metis+
  then have r: "0 \<le> rnd (rnd ?p * 40)" "rnd (rnd ?p * 40) \<le> rnd (rnd ?p' * 40)" "rnd (rnd ?p' * 40) \<le> 40"
    using monoD [OF rnd(1), of 0 "rnd ?p * 40"] monoD [OF rnd(1), of "rnd ?p * 40" "rnd ?p' * 40"]
      monoD [OF rnd(1), of "rnd ?p' * 40" 40] whole by simp_all
  then have f: "0 \<le> progress_filled rnd pm" "progress_filled rnd pm \<le> progress_filled rnd pm'" "progress_filled rnd pm' \<le> 40"
    using floor_mono [OF r(2)] floor_mono [OF r(3)] by (simp_all add: progress_filled_def int_of_float_def not_less)
  have "progress_filled rnd pm = 0" if "pm_num_complete pm = 0"
    using that whole by (simp add: progress_filled_def piece_mgr_progress_def int_of_float_def)
  moreover have "progress_bar (progress_filled rnd pm') = replicate 40 (ch CHR ''#'')"
    if "0 < pm_num_pieces pm'" "pm_num_complete pm' = pm_num_pieces pm'"
    using that whole by (simp add: progress_filled_def piece_mgr_progress_def int_of_float_def progress_bar_def
        map_replicate_const list_eq_iff_nth_eq)
  ultimately show ?thesis using f by (simp add: progress_bar_def)
qed

theorem bar_shows_progress_witness:
  "progress_filled id (pm_zero\<lparr>pm_num_pieces := 4, pm_num_complete := 3\<rparr>) \<le> 40 \<and>
   progress_filled id (pm_zero\<lparr>pm_num_pieces := 4, pm_num_complete := 3\<rparr>) = 30"
proof -
  have "progress_filled id (pm_zero\<lparr>pm_num_pieces := 4, pm_num_complete := 3\<rparr>) = 30"
    by (simp add: progress_filled_def piece_mgr_progress_def int_of_float_def)
  then show ?thesis
    using bar_shows_progress [of id "pm_zero\<lparr>pm_num_pieces := 4, pm_num_complete := 3\<rparr>"
        "pm_zero\<lparr>pm_num_pieces := 4, pm_num_complete := 3\<rparr>"] by (simp add: mono_def)
qed

end
