(* ===== verification/MainLoop.thy ===== *)
theory MainLoop
  imports UiPrint WebApi Ps5 Program
begin

text \<open>
  \<open>main\<close> of \<open>src/main.c\<close>: the start, the rounds of the event loop with the clients that it serves, and the end.
  The console answers through the parameters of each part; the state is everything that the parts of the program
  keep between rounds.
\<close>

section \<open>State\<close>

definition HTTP_PORT :: nat where "HTTP_PORT = 12389"

text \<open>
  \<open>mn_notes\<close> are the notifications that were sent, \<open>mn_socks\<close> the sockets of web clients and \<open>mn_closed\<close> their
  descriptors closed so far.
\<close>

record main_state =
  mn_ui :: ui_state
  mn_notes :: "byte list list"
  mn_language :: "byte list"
  mn_cred :: credentials
  mn_access :: bool
  mn_server :: server
  mn_socks :: "int \<Rightarrow> socket"
  mn_closed :: "int list"
  mn_manager :: manager
  mn_tile :: tile_world
  mn_tile_result :: int
  mn_last_status :: u64
  mn_last_poll :: u64

text \<open>How messages leave the program: the log, the notification service, and numbers in hexadecimal.\<close>

record message_env =
  ms_log :: log_env
  ms_send :: "byte list \<Rightarrow> int"
  ms_hex :: "int \<Rightarrow> byte list"

definition mn_log :: "message_env \<Rightarrow> byte list \<Rightarrow> main_state \<Rightarrow> main_state" where
  "mn_log me text st = st\<lparr>mn_ui := ui_log (ms_log me) text (mn_ui st)\<rparr>"

definition mn_error :: "message_env \<Rightarrow> byte list \<Rightarrow> main_state \<Rightarrow> main_state" where
  "mn_error me text st = st\<lparr>mn_ui := ui_error (ms_log me) text (mn_ui st)\<rparr>"

text \<open>A notification in the language of the console: Portuguese, English, Spanish.\<close>

definition mn_notify :: "message_env \<Rightarrow> byte list \<Rightarrow> byte list \<Rightarrow> byte list \<Rightarrow> main_state \<Rightarrow> main_state" where
  "mn_notify me pt en es st =
     (let text = localized (mn_language st) pt en es
      in st\<lparr>mn_ui := ui_notify (ms_send me) (ms_hex me) (ms_log me) text (mn_ui st),
            mn_notes := mn_notes st @ [take 3074 text]\<rparr>)"

section \<open>Requests\<close>

text \<open>The handler of a request is the one of the first route that its path starts with.\<close>

definition find_route :: "byte list \<Rightarrow> route option" where
  "find_route path = map_option snd (find (\<lambda>e. starts_with path (fst e)) routes)"

text \<open>The answer and the manager afterwards, \<open>None\<close> where a handler has undefined behaviour.\<close>

definition answer_request :: "api_env \<Rightarrow> http_request \<Rightarrow> manager \<Rightarrow> (http_response option \<times> manager) option" where
  "answer_request ae req mg =
     map_option (\<lambda>(resp, mg).
         (case resp of
            Some r \<Rightarrow> Some r
          | None \<Rightarrow> http_response_new (ae_mem ae) 404 (Some (bytes ''text/plain'')) (bytes ''404 Not Found''), mg))
       (case find_route (rq_path req) of
          None \<Rightarrow> Some (None, mg)
        | Some r \<Rightarrow> api_handle ae r req mg)"

definition serve_api :: "api_env \<Rightarrow> socket \<Rightarrow> manager \<Rightarrow> (socket \<times> manager) option" where
  "serve_api ae sk mg =
     (case parse_http_request (ae_mem ae) sk of
        (None, sk) \<Rightarrow> Some (sk, mg)
      | (Some req, sk) \<Rightarrow>
          map_option (\<lambda>(resp, mg). (case resp of None \<Rightarrow> sk | Some r \<Rightarrow> http_server_send_response sk r, mg))
            (answer_request ae req mg))"

primrec serve_clients ::
  "(nat \<Rightarrow> api_env) \<Rightarrow> int list \<Rightarrow> (int \<Rightarrow> socket) \<Rightarrow> manager \<Rightarrow> ((int \<Rightarrow> socket) \<times> manager) option" where
  "serve_clients ae [] socks mg = Some (socks, mg)"
| "serve_clients ae (c # cs) socks mg =
     (case serve_api (ae (length cs)) (socks c) mg of
        None \<Rightarrow> None
      | Some (sk, mg) \<Rightarrow> serve_clients ae cs (socks(c := sk)) mg)"

text \<open>
  \<open>http_server_poll\<close> with the handlers of the program, which change the manager from client to client: the return code,
  the server, the sockets, the descriptors closed and the manager.
\<close>

definition poll_api ::
  "(nat \<Rightarrow> api_env) \<Rightarrow> int \<Rightarrow> bool \<Rightarrow> int set \<Rightarrow> int \<Rightarrow> (int \<Rightarrow> socket) \<Rightarrow> server \<Rightarrow> manager \<Rightarrow>
   (int \<times> server \<times> (int \<Rightarrow> socket) \<times> int list \<times> manager) option" where
  "poll_api ae selected intr readable client socks sv mg =
     (if sv_fd sv < 0 then Some (- 1, sv, socks, [], mg)
      else if selected < 0 then Some (if intr then 1 else - 1, sv, socks, [], mg)
      else if selected = 0 then Some (1, sv, socks, [], mg)
      else
        let (sv, gone) =
              (if sv_fd sv \<in> readable \<and> 0 \<le> client
               then if length (sv_clients sv) < MAX_CLIENTS
                    then (sv\<lparr>sv_clients := sv_clients sv @ [client]\<rparr>, [])
                    else (sv, [client])
               else (sv, []));
            served = filter (\<lambda>c. 0 \<le> c \<and> c \<in> readable) (sv_clients sv)
        in map_option (\<lambda>(socks, mg).
             (0, sv\<lparr>sv_clients := filter (\<lambda>c. 0 \<le> c \<and> c \<notin> readable) (sv_clients sv)\<rparr>, socks, gone @ served, mg))
             (serve_clients ae served socks mg))"

section \<open>The start\<close>

text \<open>
  \<open>st_listen\<close> are the answers to \<open>socket\<close>, \<open>bind\<close> and \<open>listen\<close>; \<open>st_privileges\<close> those of the kernel while the
  process gets its privileges.
\<close>

record start_env =
  st_message :: message_env
  st_parameter :: "int option"
  st_privileges :: "bool \<times> int \<times> (nat \<Rightarrow> bool)"
  st_listen :: "int \<times> bool \<times> bool"
  st_console :: console
  st_readonly :: "byte list \<Rightarrow> bool option"
  st_ifaces :: "u32 list option"
  st_tile :: tile_env

definition net_init :: int where "net_init = 0"

definition net_failed :: "message_env \<Rightarrow> main_state \<Rightarrow> main_state" where
  "net_failed me st =
     mn_notify me (bytes ''PS5Torrent n'' @ [0xC3, 0xA3] @ bytes ''o iniciou: falha ao preparar a rede.'')
       (bytes ''PS5Torrent could not start: network initialization failed.'')
       (bytes ''PS5Torrent no pudo iniciar: error al preparar la red.'')
       (mn_error me (bytes ''Failed to initialize networking'') st)"

definition request_access :: "message_env \<Rightarrow> bool \<times> int \<times> (nat \<Rightarrow> bool) \<Rightarrow> main_state \<Rightarrow> main_state" where
  "request_access me pr st =
     (case pr of (process, vnode, k) \<Rightarrow>
        case ps5_request_jailbreak process vnode k (mn_cred st) of
          (r, c) \<Rightarrow>
            if r = 0 then mn_log me (bytes ''Local SDK filesystem access ready'') (st\<lparr>mn_cred := c, mn_access := True\<rparr>)
            else mn_error me (bytes ''Local SDK privilege setup incomplete; using available access'') (st\<lparr>mn_cred := c\<rparr>))"

definition open_log :: "message_env \<Rightarrow> main_state \<Rightarrow> int \<times> main_state" where
  "open_log me st =
     (case app_log_open (ms_log me) (Some (bytes ''/data/PS5Torrent'')) (ui_file (mn_ui st)) of
        (r, lg) \<Rightarrow> (r, st\<lparr>mn_ui := (mn_ui st)\<lparr>ui_file := lg\<rparr>\<rparr>))"

definition reopen_log :: "message_env \<Rightarrow> main_state \<Rightarrow> main_state" where
  "reopen_log me st =
     (case open_log me st of
        (r, st) \<Rightarrow>
          if r < 0 then mn_error me (bytes ''Persistent logging unavailable; using the in-memory log'') st
          else mn_log me (bytes ''Persistent log ready: /data/PS5Torrent/PS5Torrent.log'') st)"

definition listen_failed :: "message_env \<Rightarrow> main_state \<Rightarrow> main_state" where
  "listen_failed me st =
     mn_notify me
       (bytes ''PS5Torrent n'' @ [0xC3, 0xA3] @ bytes ''o iniciou: a porta '' @ dec HTTP_PORT @ bytes '' j'' @ [0xC3, 0xA1] @
        bytes '' est'' @ [0xC3, 0xA1] @ bytes '' em uso.'')
       (bytes ''PS5Torrent could not start: port '' @ dec HTTP_PORT @ bytes '' is in use.'')
       (bytes ''PS5Torrent no pudo iniciar: el puerto '' @ dec HTTP_PORT @ bytes '' est'' @ [0xC3, 0xA1] @ bytes '' ocupado.'')
       (mn_error me (bytes ''Make sure port '' @ dec HTTP_PORT @ bytes '' is not in use.'')
         (mn_error me (bytes ''Failed to start HTTP server on port '' @ dec HTTP_PORT) st))"

text \<open>One line of the table of storage paths.\<close>

definition storage_line :: "console \<Rightarrow> (byte list \<Rightarrow> bool option) \<Rightarrow> storage_path \<Rightarrow> byte list" where
  "storage_line cn readonly p =
     (let exists = storage_path_exists cn (sp_path p);
          writable = exists \<and> storage_path_is_writable cn readonly (sp_path p)
      in bytes ''  '' @ sp_icon p @ bytes '' '' @ sp_label p @ bytes '' '' @ sp_path p @ bytes '' '' @
         (if writable then [0xE2, 0x9C, 0x85] @ bytes '' Writable''
          else if exists then [0xE2, 0x9A, 0xA0, 0xEF, 0xB8, 0x8F] @ bytes '' Read-only''
          else [0xE2, 0x9D, 0x8C] @ bytes '' Not mounted''))"

definition running_lines :: "byte list \<Rightarrow> byte list list" where
  "running_lines local_ip =
     [bytes ''========================================'',
      bytes ''  '' @ [0xF0, 0x9F, 0x8E, 0xAE] @ bytes '' PS5Torrent is running!'',
      bytes ''  '',
      bytes ''  Open this URL in your browser:'',
      bytes ''  http://'' @ local_ip @ bytes '':'' @ dec HTTP_PORT @ bytes ''/'',
      bytes ''  '',
      bytes ''  '' @ [0xF0, 0x9F, 0x93, 0xA5] @ bytes '' Use the web UI to add torrents'',
      bytes ''  '' @ [0xF0, 0x9F, 0x92, 0xBE] @ bytes '' Save to USB/NVMe/internal storage'',
      bytes ''========================================'',
      [],
      bytes ''Status: HTTP server active | Torrent engine ready'']"

definition notify_ready :: "message_env \<Rightarrow> main_state \<Rightarrow> main_state" where
  "notify_ready me st =
     mn_notify me (bytes ''PS5Torrent v2.0.4 pronto! Abra o aplicativo na aba M'' @ [0xC3, 0xAD] @ bytes ''dias.'')
       (bytes ''PS5Torrent v2.0.4 is ready! Open the app in the Media tab.'')
       ([0xC2, 0xA1] @ bytes ''PS5Torrent v2.0.4 est'' @ [0xC3, 0xA1] @ bytes '' listo! Abre la aplicaci'' @ [0xC3, 0xB3] @
        bytes ''n en la pesta'' @ [0xC3, 0xB1] @ bytes ''a Medios.'') st"

definition install_tile :: "message_env \<Rightarrow> tile_env \<Rightarrow> main_state \<Rightarrow> main_state" where
  "install_tile me te st =
     (case ps5_tile_install te (mn_tile st) of
        (r, tw) \<Rightarrow>
          let st = st\<lparr>mn_tile := tw, mn_tile_result := r\<rparr>
          in if r < 0
             then mn_notify me
                (bytes ''N'' @ [0xC3, 0xA3] @ bytes ''o foi poss'' @ [0xC3, 0xAD] @ bytes ''vel confirmar a instala'' @
                 [0xC3, 0xA7, 0xC3, 0xA3] @ bytes ''o do PS5Torrent em M'' @ [0xC3, 0xAD] @ bytes ''dias. Consulte o log.'')
                (bytes ''Could not confirm PS5Torrent installation in Media. Check the log.'')
                (bytes ''No se pudo confirmar la instalaci'' @ [0xC3, 0xB3] @
                 bytes ''n de PS5Torrent en Medios. Consulta el registro.'')
                (mn_error me (bytes ''Media tile installation failed; web service remains available'') st)
             else if r = 1
             then mn_notify me
                (bytes ''Instala'' @ [0xC3, 0xA7, 0xC3, 0xA3] @ bytes ''o do PS5Torrent aceita. Aguardando registro em M'' @
                 [0xC3, 0xAD] @ bytes ''dias.'')
                (bytes ''PS5Torrent installation accepted. Waiting for Media registration.'')
                (bytes ''Instalaci'' @ [0xC3, 0xB3] @ bytes ''n de PS5Torrent aceptada. Esperando el registro en Medios.'') st
             else notify_ready me st)"

text \<open>From the listening socket to the loop.\<close>

definition start_services :: "start_env \<Rightarrow> main_state \<Rightarrow> main_state" where
  "start_services se st =
     (let me = st_message se;
          st = st\<lparr>mn_manager := torrent_mgr_init (mn_manager st)\<rparr>;
          st = mn_log me (bytes ''Available storage paths:'') st;
          st = foldl (\<lambda>st p. mn_log me (storage_line (st_console se) (st_readonly se) p) st) st storage_paths_get;
          default_path = detected_storage (st_console se) (st_readonly se);
          st = foldl (\<lambda>st l. mn_log me l st) st (running_lines (snd (get_local_ip (st_ifaces se))));
          st = install_tile me (st_tile se) st;
          st = (if default_path \<noteq> []
                then mn_log me ([0xF0, 0x9F, 0x92, 0xA1] @ bytes '' Storage detected at: '' @ default_path) st else st)
      in st\<lparr>mn_last_status := 0, mn_last_poll := 0\<rparr>)"

text \<open>The code of \<open>main\<close> where it returns before its loop, and the state.\<close>

definition main_start :: "start_env \<Rightarrow> main_state \<Rightarrow> int option \<times> main_state" where
  "main_start se st =
     (let me = st_message se;
          st = st\<lparr>mn_ui := ui_init (ms_log me) (mn_ui st)\<rparr>;
          st = snd (open_log me st);
          st = st\<lparr>mn_ui := ui_print_banner (ms_log me) (mn_ui st)\<rparr>;
          st = st\<lparr>mn_language := system_language (st_parameter se)\<rparr>
      in if net_init < 0 then (Some 1, net_failed me st)
         else
           let st = reopen_log me (request_access me (st_privileges se) st);
               st = mn_log me (bytes ''Initializing web interface on port '' @ dec HTTP_PORT @ bytes ''...'') st
           in case st_listen se of
                (fd, bind_ok, listen_ok) \<Rightarrow>
                  (case http_server_init fd bind_ok listen_ok (mn_server st) of
                     (r, sv, gone) \<Rightarrow>
                       let st = st\<lparr>mn_server := sv, mn_closed := mn_closed st @ gone\<rparr>
                       in if r < 0 then (Some 1, listen_failed me st) else (None, start_services se st)))"

section \<open>The loop\<close>

text \<open>
  What the console answers in one round: the clock, \<open>select\<close> and \<open>accept\<close>, the requests that arrived, the
  environment of every handler and of the tick, and the directory of the tile.
\<close>

record round_env =
  rd_message :: message_env
  rd_now :: u64
  rd_stat :: "byte list \<Rightarrow> (bool \<times> int) option"
  rd_tile :: tile_env
  rd_selected :: int
  rd_intr :: bool
  rd_readable :: "int set"
  rd_client :: int
  rd_socks :: "int \<Rightarrow> socket"
  rd_api :: "nat \<Rightarrow> api_env"
  rd_tick :: "nat \<Rightarrow> tick_env"
  rd_errno :: "nat \<times> byte list"

definition tile_round :: "round_env \<Rightarrow> main_state \<Rightarrow> main_state" where
  "tile_round rd st =
     (if mn_tile_result st = 1 \<and> 1000 \<le> rd_now rd - mn_last_poll st
      then case ps5_tile_poll (rd_stat rd) (rd_tile rd) (mn_tile st) of
             (r, tw) \<Rightarrow>
               let st = st\<lparr>mn_last_poll := rd_now rd, mn_tile := tw, mn_tile_result := r\<rparr>
               in if r = 0 then notify_ready (rd_message rd) st else st
      else st)"

text \<open>The handlers see the log and the privileges of the program.\<close>

definition handler_env :: "round_env \<Rightarrow> main_state \<Rightarrow> nat \<Rightarrow> api_env" where
  "handler_env rd st i =
     (rd_api rd i)\<lparr>ae_access := mn_access st, ae_log := (ms_log (rd_message rd), ui_file (mn_ui st))\<rparr>"

definition status_round :: "round_env \<Rightarrow> nat \<Rightarrow> main_state \<Rightarrow> main_state" where
  "status_round rd active st =
     (if 5000 < rd_now rd - mn_last_status st
      then let st = st\<lparr>mn_last_status := rd_now rd\<rparr>
           in if 0 < active
              then mn_log (rd_message rd)
                     (bytes ''Active torrents: '' @ dec active @ bytes '' | Total: '' @ dec (torrent_mgr_count (mn_manager st)) @
                      bytes ''/'' @ dec torrent_mgr_capacity) st
              else st
      else st)"

text \<open>Whether the loop goes on, and the state; \<open>None\<close> where a handler has undefined behaviour.\<close>

definition main_round :: "round_env \<Rightarrow> main_state \<Rightarrow> (bool \<times> main_state) option" where
  "main_round rd st =
     (let st = tile_round rd st
      in map_option (\<lambda>(r, sv, socks, gone, mg).
           let st = st\<lparr>mn_server := sv, mn_socks := socks, mn_closed := mn_closed st @ gone, mn_manager := mg\<rparr>
           in if r < 0
              then (False, mn_error (rd_message rd)
                (bytes ''HTTP listener failed: errno='' @ dec (fst (rd_errno rd)) @ bytes '' ('' @ snd (rd_errno rd) @ bytes '')'') st)
              else case torrent_mgr_tick (rd_tick rd) (mn_manager st) of
                     (active, mg) \<Rightarrow> (True, status_round rd active (st\<lparr>mn_manager := mg\<rparr>)))
         (poll_api (handler_env rd st) (rd_selected rd) (rd_intr rd) (rd_readable rd) (rd_client rd) (rd_socks rd)
            (mn_server st) (mn_manager st)))"

primrec main_rounds :: "round_env list \<Rightarrow> main_state \<Rightarrow> (bool \<times> main_state) option" where
  "main_rounds [] st = Some (True, st)"
| "main_rounds (rd # rds) st =
     (case main_round rd st of
        None \<Rightarrow> None
      | Some (go_on, st) \<Rightarrow> if go_on then main_rounds rds st else Some (False, st))"

section \<open>The end\<close>

definition main_end :: "message_env \<Rightarrow> u64 \<Rightarrow> main_state \<Rightarrow> int \<times> main_state" where
  "main_end me now st =
     (let st = mn_log me (bytes ''Shutting down...'') st;
          st = st\<lparr>mn_manager := torrent_mgr_shutdown now (mn_manager st)\<rparr>;
          st = (case http_server_shutdown (mn_server st) of
                  (sv, gone) \<Rightarrow> st\<lparr>mn_server := sv, mn_closed := mn_closed st @ gone\<rparr>);
          st = mn_log me (bytes ''PS5Torrent terminated.'') st
      in (0, st\<lparr>mn_ui := (mn_ui st)\<lparr>ui_file := app_log_close (ui_file (mn_ui st))\<rparr>\<rparr>))"

end
