(* ===== verification/MainRun.thy ===== *)
theory MainRun
  imports MainLoop
begin

text \<open>
  What \<open>main\<close> does as a whole: its requests are those of the server with the registered handlers, its rounds are steps
  of the engine and requests, and it ends cleanly.
\<close>

section \<open>Requests\<close>

text \<open>The handlers as the server of \<open>HttpServer\<close> has them, for one state of the manager.\<close>

definition handlers_at :: "api_env \<Rightarrow> manager \<Rightarrow> route \<Rightarrow> handler" where
  "handlers_at ae mg r = (\<lambda>req. fst (the (api_handle ae r req mg)))"

lemma registered_routes: "sv_handlers sv = [] \<Longrightarrow> sv_handlers (register_routes h sv) = map (\<lambda>(p, r). (p, h r)) routes"
  by (simp add: register_routes_def routes_def http_server_register_def MAX_HANDLERS_def strncpy0_def)

lemma find_in_table: "find_handler (map (\<lambda>(p, r). (p, h r)) es) path =
    map_option (\<lambda>e. h (snd e)) (find (\<lambda>e. starts_with path (fst e)) es)"
  by (induction es) auto

lemma registered_handler:
  assumes "sv_handlers sv = []"
  shows "find_handler (sv_handlers (register_routes h sv)) path = map_option h (find_route path)"
  by (simp add: registered_routes [OF assms] find_in_table find_route_def option.map_comp o_def)

lemma answer_is_dispatch:
  assumes "answer_request ae req mg = Some (resp, mg')" "sv_handlers sv = []"
  shows "resp = dispatch (ae_mem ae) (register_routes (handlers_at ae mg) sv) req"
  using assms(1)
  by (auto simp: answer_request_def dispatch_def registered_handler [OF assms(2)] handlers_at_def split: option.splits)


text \<open>A client that asks for a page.\<close>

definition demo_web :: api_env where
  "demo_web = demo_api\<lparr>ae_env := demo_env\<lparr>en_mem := \<lambda>_. True\<rparr>\<rparr>"

lemma demo_web_mem: "ae_mem demo_web = (\<lambda>_. True)"
  by (simp add: ae_mem_def demo_web_def)

lemma demo_page: "find_route (rq_path demo_req) = Some IndexRoute"
  by (simp add: find_route_def routes_def demo_req_def starts_with_def bytes_def)


section \<open>Rounds\<close>

text \<open>A step of the engine, or any request of the web interface.\<close>

inductive run_step :: "kernel \<Rightarrow> manager \<Rightarrow> manager \<Rightarrow> bool" for os where
  engine: "engine_step os mg mg' \<Longrightarrow> run_step os mg mg'"
| request: "api_handle ae r req mg = Some (resp, mg') \<Longrightarrow> en_os (ae_env ae) = os \<Longrightarrow> run_step os mg mg'"

definition round_os :: "kernel \<Rightarrow> round_env \<Rightarrow> bool" where
  "round_os os rd \<longleftrightarrow> (\<forall>i. en_os (ae_env (rd_api rd i)) = os \<and> en_os (te_env (rd_tick rd i)) = os)"

lemma answer_run:
  assumes "answer_request ae req mg = Some (resp, mg')" "en_os (ae_env ae) = os"
  shows "(run_step os)\<^sup>*\<^sup>* mg mg'"
proof (cases "find_route (rq_path req)")
  case (Some r)
  then obtain resp' where "api_handle ae r req mg = Some (resp', mg')"
    using assms(1) by (auto simp: answer_request_def)
  then show ?thesis using run_step.request assms(2) by blast
qed (use assms(1) in \<open>auto simp: answer_request_def\<close>)

lemma serve_run:
  assumes "serve_api ae sk mg = Some (sk', mg')" "en_os (ae_env ae) = os"
  shows "(run_step os)\<^sup>*\<^sup>* mg mg'"
  using assms answer_run [OF _ assms(2)] by (auto simp: serve_api_def split: prod.splits option.splits)

lemma clients_run:
  "serve_clients ae cs socks mg = Some (socks', mg') \<Longrightarrow> \<forall>i. en_os (ae_env (ae i)) = os \<Longrightarrow> (run_step os)\<^sup>*\<^sup>* mg mg'"
proof (induction cs arbitrary: socks mg)
  case (Cons c cs)
  then obtain sk mg1 where s: "serve_api (ae (length cs)) (socks c) mg = Some (sk, mg1)"
    by (auto split: option.splits)
  then have "(run_step os)\<^sup>*\<^sup>* mg1 mg'" using Cons by (auto split: option.splits)
  moreover have "(run_step os)\<^sup>*\<^sup>* mg mg1" using serve_run [OF s] Cons.prems(2) by simp
  ultimately show ?case by simp
qed simp

lemma poll_run:
  assumes "poll_api ae selected intr readable client socks sv mg = Some (r, sv', socks', gone, mg')"
    "\<forall>i. en_os (ae_env (ae i)) = os"
  shows "(run_step os)\<^sup>*\<^sup>* mg mg'"
  using assms(1) clients_run [OF _ assms(2)] by (auto simp: poll_api_def Let_def split: if_splits)

lemma mn_log_fields [simp]:
  "mn_manager (mn_log me t st) = mn_manager st" "mn_server (mn_log me t st) = mn_server st"
  "mn_tile (mn_log me t st) = mn_tile st" "mn_tile_result (mn_log me t st) = mn_tile_result st" "mn_closed (mn_log me t st) = mn_closed st" "mn_notes (mn_log me t st) = mn_notes st"
  "mn_manager (mn_error me t st) = mn_manager st" "mn_server (mn_error me t st) = mn_server st"
  "mn_tile (mn_error me t st) = mn_tile st" "mn_tile_result (mn_error me t st) = mn_tile_result st" "mn_closed (mn_error me t st) = mn_closed st" "mn_notes (mn_error me t st) = mn_notes st"
  "mn_manager (mn_notify me pt en es st) = mn_manager st" "mn_server (mn_notify me pt en es st) = mn_server st"
  "mn_tile (mn_notify me pt en es st) = mn_tile st" "mn_closed (mn_notify me pt en es st) = mn_closed st"
  by (simp_all add: mn_log_def mn_error_def mn_notify_def Let_def)

lemma tile_manager [simp]: "mn_manager (tile_round rd st) = mn_manager st" "mn_server (tile_round rd st) = mn_server st"
  by (simp_all add: tile_round_def notify_ready_def Let_def split: prod.split)

lemma status_manager [simp]: "mn_manager (status_round rd active st) = mn_manager st"
  "mn_notes (status_round rd active st) = mn_notes st" "mn_tile_result (status_round rd active st) = mn_tile_result st"
  by (simp_all add: status_round_def Let_def)

lemma main_round_cases:
  assumes "main_round rd st = Some (go_on, st')"
  obtains r sv socks gone mg st1 where
    "poll_api (handler_env rd (tile_round rd st)) (rd_selected rd) (rd_intr rd) (rd_readable rd)
       (rd_client rd) (rd_socks rd) (mn_server st) (mn_manager st) = Some (r, sv, socks, gone, mg)"
    "st1 = (tile_round rd st)\<lparr>mn_server := sv, mn_socks := socks, mn_closed := mn_closed (tile_round rd st) @ gone, mn_manager := mg\<rparr>"
    "r < 0 \<and> \<not> go_on \<and> (\<exists>text. st' = mn_error (rd_message rd) text st1) \<or>
     \<not> r < 0 \<and> go_on \<and> st' = status_round rd (fst (torrent_mgr_tick (rd_tick rd) mg)) (st1\<lparr>mn_manager := snd (torrent_mgr_tick (rd_tick rd) mg)\<rparr>)"
proof -
  obtain r sv socks gone mg where p: "poll_api (handler_env rd (tile_round rd st)) (rd_selected rd) (rd_intr rd) (rd_readable rd)
       (rd_client rd) (rd_socks rd) (mn_server st) (mn_manager st) = Some (r, sv, socks, gone, mg)"
    using assms by (auto simp: main_round_def Let_def)
  show thesis
    by (rule that [OF p refl])
      (use assms p in \<open>cases "r < 0"; force simp: main_round_def Let_def simp del: bytes_Cons split: prod.splits\<close>)
qed

lemma main_round_run:
  assumes "main_round rd st = Some (go_on, st')" "round_os os rd"
  shows "(run_step os)\<^sup>*\<^sup>* (mn_manager st) (mn_manager st')"
  using assms(1)
proof (rule main_round_cases)
  fix r sv socks gone mg st1
  assume p: "poll_api (handler_env rd (tile_round rd st)) (rd_selected rd) (rd_intr rd) (rd_readable rd)
      (rd_client rd) (rd_socks rd) (mn_server st) (mn_manager st) = Some (r, sv, socks, gone, mg)"
    and st1: "st1 = (tile_round rd st)\<lparr>mn_server := sv, mn_socks := socks, mn_closed := mn_closed (tile_round rd st) @ gone, mn_manager := mg\<rparr>"
    and e: "r < 0 \<and> \<not> go_on \<and> (\<exists>text. st' = mn_error (rd_message rd) text st1) \<or>
      \<not> r < 0 \<and> go_on \<and> st' = status_round rd (fst (torrent_mgr_tick (rd_tick rd) mg)) (st1\<lparr>mn_manager := snd (torrent_mgr_tick (rd_tick rd) mg)\<rparr>)"
  have "\<forall>i. en_os (ae_env (handler_env rd (tile_round rd st) i)) = os" using assms(2) by (simp add: handler_env_def round_os_def)
  from poll_run [OF p this] have m: "(run_step os)\<^sup>*\<^sup>* (mn_manager st) mg" .
  have "run_step os mg (snd (torrent_mgr_tick (rd_tick rd) mg))"
    using assms(2) by (intro run_step.engine engine_step.tick) (simp add: round_os_def)
  moreover have "mn_manager st' = mg \<or> mn_manager st' = snd (torrent_mgr_tick (rd_tick rd) mg)"
    using e by (auto simp: st1)
  ultimately show "(run_step os)\<^sup>*\<^sup>* (mn_manager st) (mn_manager st')" using m by auto
qed

text \<open>
  A round of the event loop is a sequence of requests and one tick, and any number of rounds a sequence of
  those: what every such sequence keeps, \<open>main\<close> keeps.
\<close>

theorem rounds_are_runs:
  assumes "main_rounds rds st = Some (go_on, st')" "\<forall>rd \<in> set rds. round_os os rd"
  shows "(run_step os)\<^sup>*\<^sup>* (mn_manager st) (mn_manager st')"
  using assms
proof (induction rds arbitrary: st)
  case (Cons rd rds)
  obtain g st1 where s: "main_round rd st = Some (g, st1)" using Cons.prems(1) by (auto split: option.splits)
  have a: "(run_step os)\<^sup>*\<^sup>* (mn_manager st) (mn_manager st1)" using main_round_run [OF s] Cons.prems(2) by simp
  show ?case
  proof (cases g)
    case True
    then have "(run_step os)\<^sup>*\<^sup>* (mn_manager st1) (mn_manager st')"
      using Cons.IH [of st1] Cons.prems s by simp
    then show ?thesis using a by simp
  next
    case False
    then show ?thesis using a Cons.prems(1) s by simp
  qed
qed simp

section \<open>Notifications\<close>

lemma poll_answers: "fst (ps5_tile_poll stat te tw) = 0 \<or> fst (ps5_tile_poll stat te tw) = 1"
  by (simp add: ps5_tile_poll_def)

lemma ready_round:
  assumes "main_round rd st = Some (go_on, st')"
  shows "mn_notes st' = mn_notes st \<and> mn_tile_result st' = mn_tile_result st \<or>
    mn_tile_result st = 1 \<and> mn_tile_result st' = 0 \<and> length (mn_notes st') = Suc (length (mn_notes st))"
proof -
  have k: "mn_notes st' = mn_notes (tile_round rd st)" "mn_tile_result st' = mn_tile_result (tile_round rd st)"
    using assms by (auto elim!: main_round_cases)
  show ?thesis
    using poll_answers [of "rd_stat rd" "rd_tile rd" "mn_tile st"]
    by (auto simp: k tile_round_def notify_ready_def mn_notify_def Let_def simp del: bytes_Cons split: prod.splits if_splits)
qed

text \<open>
  The user is told at most once that the tile is ready: over any number of rounds at most one notification is sent, and
  none unless the installation was still pending when the loop began.
\<close>

theorem ready_notified_once:
  assumes "main_rounds rds st = Some (go_on, st')"
  shows "length (mn_notes st') \<le> length (mn_notes st) + (if mn_tile_result st = 1 then 1 else 0)"
  using assms
proof (induction rds arbitrary: st)
  case (Cons rd rds)
  obtain g st1 where s: "main_round rd st = Some (g, st1)" using Cons.prems by (auto split: option.splits)
  show ?case
  proof (cases g)
    case True
    then have "length (mn_notes st') \<le> length (mn_notes st1) + (if mn_tile_result st1 = 1 then 1 else 0)"
      using Cons.IH [of st1] Cons.prems s by simp
    then show ?thesis using ready_round [OF s] by auto
  next
    case False
    then show ?thesis using ready_round [OF s] Cons.prems s by auto
  qed
qed simp

section \<open>The start and the end\<close>

lemma logs_fields [simp]:
  "mn_manager (foldl (\<lambda>st l. mn_log me (f l) st) st ls) = mn_manager st"
  "mn_server (foldl (\<lambda>st l. mn_log me (f l) st) st ls) = mn_server st"
  by (induction ls arbitrary: st) simp_all

lemma access_fields [simp]:
  "mn_manager (request_access me pr st) = mn_manager st" "mn_server (request_access me pr st) = mn_server st"
  "mn_tile (request_access me pr st) = mn_tile st" "mn_closed (request_access me pr st) = mn_closed st"
  by (simp_all add: request_access_def split: prod.split)

lemma log_fields [simp]:
  "mn_manager (reopen_log me st) = mn_manager st" "mn_server (reopen_log me st) = mn_server st"
  "mn_tile (reopen_log me st) = mn_tile st" "mn_closed (reopen_log me st) = mn_closed st"
  "mn_manager (snd (open_log me st)) = mn_manager st" "mn_server (snd (open_log me st)) = mn_server st"
  "mn_tile (snd (open_log me st)) = mn_tile st" "mn_closed (snd (open_log me st)) = mn_closed st"
  by (simp_all add: reopen_log_def open_log_def split: prod.split)

lemma install_fields [simp]:
  "mn_manager (install_tile me te st) = mn_manager st" "mn_server (install_tile me te st) = mn_server st"
  by (simp_all add: install_tile_def notify_ready_def Let_def split: prod.split)

lemma started_fields:
  "mn_manager (start_services se st) = torrent_mgr_init (mn_manager st)" "mn_server (start_services se st) = mn_server st"
  by (simp_all add: start_services_def Let_def)

text \<open>
  \<open>main\<close> returns before its loop exactly where the server cannot listen; its code is then 1, the socket is closed
  again, and neither torrents nor the tile were touched.  Otherwise the loop starts without torrents on a listening server.
\<close>

theorem start_listens_or_ends:
  assumes "main_start se st = (code, st')" "st_listen se = (fd, bind_ok, listen_ok)"
  shows "if fd < 0 \<or> \<not> bind_ok \<or> \<not> listen_ok
    then code = Some 1 \<and> mn_manager st' = mn_manager st \<and> mn_tile st' = mn_tile st \<and>
      mn_closed st' = mn_closed st @ (if 0 \<le> fd then [fd] else []) \<and> sv_fd (mn_server st') < 0
    else code = None \<and> mg_torrents (mn_manager st') = [] \<and> sv_fd (mn_server st') = fd"
  using assms
  by (auto simp: main_start_def net_init_def http_server_init_def Let_def listen_failed_def started_fields torrent_mgr_init_def
      split: if_splits)


end
