(* ===== verification/Spec2Isabelle.thy ===== *)
theory Spec2Isabelle
  imports Prelude Sha1 Bencode Torrent PieceMgr FileIO NetUtils PeerWire HttpServer
    Tracker WebSeed Swarm PeerTransfer WebJobs Discovery TorrentMgr Engine Example StatusJson
    TileState AppLog ConsoleFiles WebApi Session Program Startup Ps5 ManagerApi LtApi LtBackend LtSafety LtLab
    UiPrint MainLoop MainRun
begin

text \<open>
  PS5Torrent is a BitTorrent client in C for a game console, operated through a web page that it serves.  A second
  torrent manager with the same interface and a test program stand on the library libtorrent, in C++.  This development
  models the files of \<open>src/\<close> and \<open>src_libtorrent/\<close> and proves what makes them correct.

  \<^bold>\<open>The program and its theories.\<close>  Every theory names the file it models; definitions have the names of the
  code's functions, structures are records with the fields of the code (prefixed), tagged unions are
  datatypes, \<open>size_t\<close> and indexes are naturals, and integers of which the width matters are words.

  \<^item> \<open>Prelude\<close>: machine types, byte and C strings, decimal and hexadecimal text, overwriting in place.
  \<^item> \<open>Sha1\<close> (\<open>sha1.c\<close>), \<open>Bencode\<close> (\<open>bencode.c\<close>), \<open>Torrent\<close> (\<open>torrent.c\<close>): the digest, the data format and the
    metainfo of a torrent file.
  \<^item> \<open>PieceMgr\<close> (\<open>piece_mgr.c\<close>), \<open>FileIO\<close> (\<open>file_io.c\<close>): the board of the pieces of a torrent, and its files.
  \<^item> \<open>NetUtils\<close> (\<open>net_utils.c\<close>), \<open>PeerWire\<close> (\<open>peer_wire.c\<close>), \<open>HttpServer\<close> (\<open>http_server.c\<close>), \<open>Tracker\<close>
    (\<open>tracker.c\<close>, \<open>tracker_udp.c\<close>), \<open>WebSeed\<close> (\<open>web_seed.c\<close>): the protocols.
  \<^item> \<open>Swarm\<close>, \<open>PeerTransfer\<close>, \<open>WebJobs\<close>, \<open>Discovery\<close>, \<open>TorrentMgr\<close>, \<open>StatusJson\<close> (\<open>torrent_mgr.c\<close>): the peers
    and candidates of a torrent, the transfer with one peer, the batches from web seeds, announces and
    connections, the operations of the manager with its tick, and its report.
  \<^item> \<open>TileState\<close> (\<open>tile_state.c\<close>), \<open>AppLog\<close> (\<open>app_log.c\<close>), \<open>ConsoleFiles\<close> (\<open>console_files.c\<close>,
    \<open>storage_paths.c\<close>), \<open>WebApi\<close> (handlers and routes of \<open>main.c\<close>), \<open>Startup\<close>, \<open>UiPrint\<close> (\<open>ui.c\<close> and helpers of
    \<open>main.c\<close>), \<open>Ps5\<close> (\<open>ps5_tile.c\<close>, \<open>ps5_jailbreak.c\<close>, \<open>ps5_browser.c\<close>): the program around the manager.
  \<^item> \<open>MainLoop\<close>, \<open>MainRun\<close> (\<open>main\<close> of \<open>main.c\<close>): the start with its early returns, the rounds of the event loop, in which
    the clients are served and the manager ticks, and the end; \<open>MainRun\<close> shows what \<open>main\<close> keeps as a whole.
  \<^item> \<open>ManagerApi\<close>: the contract of \<open>torrent_mgr.h\<close> that both managers keep.  \<open>LtApi\<close>, \<open>LtBackend\<close>, \<open>LtSafety\<close>
    (\<open>torrent_mgr_libtorrent.cpp\<close>): what the manager uses of libtorrent, as a parameter, its operations and their
    invariant.  \<open>LtLab\<close> (\<open>ps5torrent_libtorrent_lab.cpp\<close>): the test program.
  \<^item> \<open>FilePlaces\<close>, \<open>Homes\<close>, \<open>Engine\<close>, \<open>Fleet\<close>, \<open>Session\<close>, \<open>Program\<close>, \<open>Example\<close>: the composition.  \<open>FilePlaces\<close> and
    \<open>Homes\<close> show that a torrent touches its own files only; \<open>Engine\<close> has the invariant of a running torrent and the step
    relation of ticks and workers, relative to the assembly bytes of the others; \<open>Fleet\<close> the invariant of all torrents of
    the manager, which share that counter, the jobs and the file system; \<open>Session\<close> adds, starts, stops and removes
    torrents and follows their descriptors; \<open>Program\<close> adds the requests of the web interface; \<open>Example\<close> evaluates a
    small download.

  \<^bold>\<open>State and effects.\<close>  The static variables of \<open>torrent_mgr.c\<close> are the record \<open>manager\<close>; its field
  \<open>mg_world\<close> holds what the torrents share: the counter of assembly bytes, the sockets, the file
  system and the descriptors closed so far.  A handler takes and returns the states that it changes.  What the system
  answers (allocation, sockets, files, clock, threads, the services of the console) is a parameter;
  a theorem that needs more than the range of such an answer says so in its assumptions.  A thread is a job in a
  table together with a function for its work; its steps interleave with the ticks in any order.  An error
  return is \<open>None\<close> or the code's number, an abort or undefined behaviour that the code can reach is \<open>None\<close>.

  \<^bold>\<open>What is shown.\<close>  For the formats: round trips, bounds and termination of the parsers
  and encoders, and the equivalence of the incremental digest with the standard.  For the board and the files: invariants
  of all reachable states, and that the pieces of a content, written in any order, give the content.  For the
  protocols: what is received is what was sent, whatever the segmentation; every request is answered by
  its handler; no descriptor is lost.  For the web interface: requests to add a torrent are all or nothing,
  save paths stay where the user put them, listings are pages.  For \<open>main\<close>: a client gets the answer of the registered
  handler, a round is a sequence of requests and one tick, a notification is sent once, and the end closes everything once.  For
  the libtorrent manager: its tables agree after any calls, an alert changes its own torrent only, a stopped torrent is not shown
  as active; for the test program: resume data is replaced as a whole or not at all, and restored as saved.  For the whole: every
  download that is reported as done has its verified content on disk, for all torrents at once, whatever peers, trackers, seeds,
  threads and the user do, as long as no two torrents write to the same file.

  \<^bold>\<open>Contracts.\<close>  Locales state the interfaces: \<open>incremental_hash\<close> (interpreted by \<open>sha1_update\<close> and \<open>sha1_final\<close>),
  \<open>piece_board\<close> (the piece manager), \<open>positional_store\<close> (the file writer), \<open>exact_reader\<close> (\<open>net_recv_exact\<close>),
  \<open>capped_set\<close> (the queue of addresses and the table of candidates), \<open>torrent_table\<close> (both torrent managers) and
  \<open>kept_invariant\<close> (the step relations of the engine and of the program).

  \<^bold>\<open>Bounds and fuel.\<close>  The parser of \<open>Bencode\<close> recurses on fuel, the length of its input plus one; \<open>bcode_parser_terminates\<close>
  shows that it is never used up.  The loop that starts web seed batches has the fuel of one more
  than \<open>WEB_SEED_PARALLEL_PER_TORRENT\<close>, which \<open>schedule_enough\<close> shows to suffice.  \<open>process_peer\<close> reads at most eight
  frames, as the code does.  The other loops are recursive on their data or on measures.

  \<^bold>\<open>Not modelled.\<close>  Texts that the components send to the log (the log itself is modelled, and so is what \<open>main\<close> and the test
  program write).  \<open>web_content.h\<close>, a generated page of text.  libtorrent itself, which is a parameter.  Functions that
  release memory, and \<open>errno\<close> apart from where its value is shown.  Signals, the name of the thread, sleeps and flushes, which do not
  change the state.  A tick reads the clock once per torrent; the mutexes protect tables that the model updates in single steps.

  \<^bold>\<open>Open.\<close>  The code does not check that two torrents write to different files: \<open>all_downloads_verified\<close> assumes it (\<open>fit\<close>), and says
  nothing of a manager in which it fails.  The theorems on \<open>main\<close> follow its own thread; the steps of the workers between
  its rounds are those of \<open>user_step\<close>.
\<close>

section \<open>All downloads\<close>

text \<open>
  C1.  Every finished download is the content that its torrent describes, for all torrents of the manager at once and
  whatever the user does.  From the start of the program on, ticks of the engine, its workers and requests of the web
  interface follow in any order and number: torrents are added by file, upload or magnet link, started, stopped and
  removed at any time, they share the counter of assembly bytes, the table of web seed jobs and the file system,
  results of workers arrive after a stop or a removal, and peers, trackers, web seeds, clocks, allocations and
  threads behave in any way.  Whenever a torrent is reported as done, every piece of its files on disk has the
  SHA-1 digest that its metainfo lists.  The torrents must have sound targets that are
  apart: no two of them write to the same file, and the kernel never claims to have written more than it was given.
\<close>

theorem all_downloads_verified:
  assumes run: "(user_step os)\<^sup>*\<^sup>* (mgr_start socks fs) mg"
    and fin: "mt \<in> set (mg_torrents mg)" "mt_state mt = TORRENT_DONE" "mt_torrent mt = Some t" "i < t_num_pieces t"
  shows "sha1_hash (slice t i (writer_view t (mt_file_writer mt, wd_fs (mg_world mg)))) = piece_digest (the (t_pieces t)) i"
proof -
  have "fit os (origins (mgr_start socks fs))" by (simp add: fit_def apart_def mgr_start_def)
  then have "manager_ok os mg" using user_run.run_inv [OF run] mgr_start_ok by blast
  then show ?thesis by (rule done_verified [OF _ fin])
qed

theorem all_downloads_verified_witness:
  "\<exists>mt. mg_torrents demo_finished = [mt] \<and> mt_state mt = TORRENT_DONE \<and> (\<exists>t. mt_torrent mt = Some t \<and> t = demo_seed_torrent \<and>
     sha1_hash (slice t 0 (writer_view t (mt_file_writer mt, wd_fs (mg_world demo_finished)))) = sha1_hash [1, 2, 3, 4])"
proof -
  obtain mt where mt: "mg_torrents demo_finished = [mt]" "mt_state mt = TORRENT_DONE" using demo_done by blast
  have digest: "piece_digest (the (t_pieces demo_seed_torrent)) 0 = sha1_hash [1, 2, 3, 4]" "0 < t_num_pieces demo_seed_torrent"
    using demo_digest_length by (simp_all add: demo_seed_torrent_def piece_digest_def demo_digest_def demo_piece_def)
  have "(user_step (en_os demo_env))\<^sup>*\<^sup>* demo_started demo_finished"
    using demo_run by (rule mono_rtranclp [rule_format, rotated]) (rule user_step.engine)
  then have run: "(user_step (en_os demo_env))\<^sup>*\<^sup>* (mgr_start demo_socks demo_disk) demo_finished"
    using demo_add_step demo_request_step(2) by (metis converse_rtranclp_into_rtranclp)
  have "origins demo_finished = origins demo_added"
    using engine_run.run_inv [OF demo_run, of "origins demo_added"] demo_started_ok(1) by simp
  then have t: "mt_torrent mt = Some demo_seed_torrent" using mt(1) demo_started_ok(2) by (simp add: origin_def)
  show ?thesis
    using all_downloads_verified [OF run _ mt(2) t digest(2)] mt t by (auto simp: digest(1))
qed

section \<open>From a torrent file to a finished download\<close>

text \<open>
  A finished download is the content that the torrent describes, whatever the user does meanwhile.
  A torrent file is added to a fresh manager; then ticks of the engine, its workers and requests of the
  web interface other than for adding and removing torrents follow in any order and number: the torrent
  is started, stopped and started again at any time, results of workers arrive after a stop, and peers, trackers,
  web seeds, clocks, allocations and threads behave in any way.  Whenever the torrent is reported as done,
  every piece of its files on disk has the SHA-1 digest that its metainfo lists.  The target must
  be sound: the kernel never claims to have written more than it was given, at most 2^31 pieces, and
  the files of the torrent have distinct places below the directory.
\<close>

theorem download_verified_under_requests:
  assumes mem: "malloc_limit mem"
    and add: "torrent_mgr_add_raw mem data path (mgr_start socks fs) = (0, mg1)"
    and parse: "torrent_parse mem data = Some t" and target: "sound_target os t (take 511 (cstr path))"
    and run: "(program_step os)\<^sup>*\<^sup>* mg1 mg2"
    and fin: "mg_torrents mg2 = [mt]" "mt_state mt = TORRENT_DONE" "i < t_num_pieces t"
  shows "sha1_hash (slice t i (writer_view t (mt_file_writer mt, wd_fs (mg_world mg2)))) =
    piece_digest (the (t_pieces t)) i"
proof -
  have "session_ok os t (take 511 (cstr path)) mg2"
    using program_run.run_inv [OF run] add_session(1) [OF add parse mem] target by blast
  then show ?thesis by (rule session_verified [OF _ fin])
qed

theorem download_verified_under_requests_witness:
  "\<exists>mt. mg_torrents demo_finished = [mt] \<and> mt_state mt = TORRENT_DONE \<and>
     sha1_hash (slice demo_seed_torrent 0 (writer_view demo_seed_torrent (mt_file_writer mt, wd_fs (mg_world demo_finished)))) =
     sha1_hash [1, 2, 3, 4]"
proof -
  obtain mt where mt: "mg_torrents demo_finished = [mt]" "mt_state mt = TORRENT_DONE" using demo_done by blast
  have digest: "piece_digest (the (t_pieces demo_seed_torrent)) 0 = sha1_hash [1, 2, 3, 4]" "0 < t_num_pieces demo_seed_torrent"
    using demo_digest_length by (simp_all add: demo_seed_torrent_def piece_digest_def demo_digest_def demo_piece_def)
  have "(program_step (en_os demo_env))\<^sup>*\<^sup>* demo_started demo_finished"
    using demo_run by (rule mono_rtranclp [rule_format, rotated]) (rule program_step.engine)
  then have run: "(program_step (en_os demo_env))\<^sup>*\<^sup>* demo_added demo_finished"
    using demo_request_step by (metis converse_rtranclp_into_rtranclp)
  show ?thesis
    using download_verified_under_requests [OF demo_limit demo_add demo_seed_parse demo_target run mt digest(2)] mt
    by (auto simp: digest(1))
qed

text \<open>
  A finished download, without requests: a torrent file is added to a
  fresh manager and started; then ticks of the engine and its workers run in any order and number,
  with any peers, trackers, web seeds, clocks, allocations and threads.  If the torrent is reported as
  done, every piece of its files on disk has the SHA-1 digest that its metainfo lists.  The target must
  be sound: the kernel never claims to have written more than it was given, at most 2^31 pieces, and
  the files of the torrent have distinct places below the directory.
\<close>

theorem finished_download_verified:
  assumes mem: "malloc_limit mem"
    and add: "torrent_mgr_add_raw mem data path (mgr_start socks fs) = (0, mg1)"
    and start: "torrent_mgr_start en stat strerror 0 mg1 = (0, mg2)"
    and parse: "torrent_parse mem data = Some t" and target: "sound_target (en_os en) t (take 511 (cstr path))"
    and run: "(engine_step (en_os en))\<^sup>*\<^sup>* mg2 mg3"
    and fin: "mg_torrents mg3 = [mt]" "mt_state mt = TORRENT_DONE" "i < t_num_pieces t"
  shows "sha1_hash (slice t i (writer_view t (mt_file_writer mt, wd_fs (mg_world mg3)))) =
    piece_digest (the (t_pieces t)) i"
proof -
  note s = add_session [OF add parse mem]
  have room: "room (Suc 0) mg1" using s(2) by simp
  have "session_ok (en_os en) t (take 511 (cstr path)) mg2"
    using start_all [OF _ room start] s(1) session_fit [OF target] by (simp add: session_ok_def)
  then have "session_ok (en_os en) t (take 511 (cstr path)) mg3"
    using engine_run.run_inv [OF run, of "[(Some t, take 511 (cstr path))]"] by (simp add: session_ok_def apart_def)
  then show ?thesis by (rule session_verified [OF _ fin])
qed

theorem finished_download_verified_witness:
  "\<exists>mt. mg_torrents demo_finished = [mt] \<and> mt_state mt = TORRENT_DONE \<and>
     sha1_hash (slice demo_seed_torrent 0 (writer_view demo_seed_torrent (mt_file_writer mt, wd_fs (mg_world demo_finished)))) =
     sha1_hash [1, 2, 3, 4]"
proof -
  obtain mt where mt: "mg_torrents demo_finished = [mt]" "mt_state mt = TORRENT_DONE" using demo_done by blast
  have digest: "piece_digest (the (t_pieces demo_seed_torrent)) 0 = sha1_hash [1, 2, 3, 4]" "0 < t_num_pieces demo_seed_torrent"
    using demo_digest_length by (simp_all add: demo_seed_torrent_def piece_digest_def demo_digest_def demo_piece_def)
  show ?thesis
    using finished_download_verified [OF demo_limit demo_add demo_start(1) demo_seed_parse demo_target demo_run mt digest(2)] mt
    by (auto simp: digest(1))
qed
end
